(* ===== verification/Prelude.thy ===== *)
theory Prelude
  imports Complex_Main "HOL-Library.Signed_Division"
begin

text \<open>
  Shared vocabulary of the development.

  \<^item> \<open>datetime\<close>: a \<open>std::chrono::system_clock::time_point\<close>, as its tick count
    (nanoseconds since the epoch, the period of libstdc++'s clock) in \<open>int\<close>.
  \<^item> \<open>real\<close> stands for a finite C++ \<open>double\<close>: rounding is not modelled; where the
    code itself tests for NaN or infinity the model uses the classes of \<open>fpval\<close>.
  \<^item> \<open>nat\<close> stands for \<open>std::size_t\<close> and \<open>std::uint64_t\<close> counters.
  \<^item> \<open>exn\<close>: the C++ exceptions the modelled code throws, with the message of the source
    where it is a literal; a throwing operation returns \<open>exn + 'a\<close>, \<open>Inl\<close> the exception.

  The list combinators below are the loop shapes that recur in the code: "change the
  first element that satisfies a test, then break" (\<open>upd_first\<close>) and "replace the stored
  record that has this key" (\<open>store_first\<close>), with the lemmas about keys and sums that the
  component proofs use.
\<close>

type_synonym datetime = int

definition ticks_per_sec :: int where
  "ticks_per_sec = 1000000000"

datatype exn = OutOfRange string | InvalidArgument string | LogicError string | BadVariantAccess

text \<open>Collections: facts that simplify sums over keyed lists, and facts about keys.\<close>

named_theorems ledger_simps
named_theorems key_simps

subsection \<open>Doubles where the code looks at their class\<close>

datatype fpval = Fin real | PosInf | NegInf | NaN

instantiation fpval :: zero
begin

definition zero_fpval :: fpval where
  "zero_fpval = Fin 0"

instance ..

end

fun isnan :: "fpval \<Rightarrow> bool" where
  "isnan NaN = True"
| "isnan _ = False"

fun isinf :: "fpval \<Rightarrow> bool" where
  "isinf PosInf = True"
| "isinf NegInf = True"
| "isinf _ = False"

text \<open>\<open>x < 0.0\<close>: false for NaN, true for negative infinity.\<close>

fun fp_negative :: "fpval \<Rightarrow> bool" where
  "fp_negative (Fin r) = (r < 0)"
| "fp_negative NegInf = True"
| "fp_negative PosInf = False"
| "fp_negative NaN = False"

subsection \<open>Errors\<close>

fun bind_r :: "'e + 'a \<Rightarrow> ('a \<Rightarrow> 'e + 'b) \<Rightarrow> 'e + 'b" where
  "bind_r (Inl e) f = Inl e"
| "bind_r (Inr x) f = f x"

lemma bind_r_Inr: "bind_r r f = Inr y \<longleftrightarrow> (\<exists>x. r = Inr x \<and> f x = Inr y)"
  by (cases r) auto

text \<open>
  Loops whose body may throw: over a list of values (\<open>map_r\<close>), over a state (\<open>fold_r\<close>), and
  over a list of objects that also share a state (\<open>map_state_r\<close>).
\<close>

fun map_r :: "('a \<Rightarrow> 'e + 'b) \<Rightarrow> 'a list \<Rightarrow> 'e + 'b list" where
  "map_r f [] = Inr []"
| "map_r f (x # xs) = bind_r (f x) (\<lambda>y. bind_r (map_r f xs) (\<lambda>ys. Inr (y # ys)))"

fun fold_r :: "('a \<Rightarrow> 's \<Rightarrow> 'e + 's) \<Rightarrow> 'a list \<Rightarrow> 's \<Rightarrow> 'e + 's" where
  "fold_r f [] s = Inr s"
| "fold_r f (x # xs) s = bind_r (f x s) (fold_r f xs)"

fun map_state_r :: "('a \<Rightarrow> 's \<Rightarrow> 'e + ('b \<times> 's)) \<Rightarrow> 'a list \<Rightarrow> 's \<Rightarrow> 'e + ('b list \<times> 's)" where
  "map_state_r f [] s = Inr ([], s)"
| "map_state_r f (x # xs) s =
     bind_r (f x s) (\<lambda>(y, s'). bind_r (map_state_r f xs s') (\<lambda>(ys, s''). Inr (y # ys, s'')))"

lemma map_r_Inr:
  "map_r f xs = Inr ys \<longleftrightarrow> length ys = length xs \<and> (\<forall>i < length xs. f (xs ! i) = Inr (ys ! i))"
proof (induction xs arbitrary: ys)
  case (Cons x xs)
  show ?case
  proof (cases ys)
    case (Cons y ys')
    then show ?thesis
      using Cons.IH by (auto simp: bind_r_Inr less_Suc_eq_0_disj)
  qed (auto simp: bind_r_Inr)
qed auto

lemma fold_r_append: "fold_r f (xs @ ys) s = bind_r (fold_r f xs s) (fold_r f ys)"
proof (induction xs arbitrary: s)
  case (Cons x xs)
  then show ?case by (cases "f x s") simp_all
qed simp

text \<open>An invariant of the body is one of the loop.\<close>

lemma fold_r_invariant:
  assumes "fold_r f xs s = Inr t" and "P s"
    and "\<And>x s t. x \<in> set xs \<Longrightarrow> f x s = Inr t \<Longrightarrow> P s \<Longrightarrow> P t"
  shows "P t"
  using assms by (induction xs arbitrary: s) (auto simp: bind_r_Inr)

lemma map_state_r_invariant:
  assumes "map_state_r f xs s = Inr (ys, t)" and "P s"
    and "\<And>x s y t. x \<in> set xs \<Longrightarrow> f x s = Inr (y, t) \<Longrightarrow> P s \<Longrightarrow> P t \<and> Q x y"
  shows "P t \<and> list_all2 Q xs ys"
  using assms
proof (induction xs arbitrary: s ys)
  case (Cons x xs)
  then obtain y s' ys' where "f x s = Inr (y, s')" "map_state_r f xs s' = Inr (ys', t)" "ys = y # ys'"
    by (auto simp: bind_r_Inr split_beta)
  then show ?case
    using Cons.IH [of s' ys'] Cons.prems(2,3) by (metis list.rel_intros(2) list.set_intros(1,2))
qed simp

subsection \<open>First-match updates\<close>

fun upd_first :: "('a \<Rightarrow> bool) \<Rightarrow> ('a \<Rightarrow> 'a) \<Rightarrow> 'a list \<Rightarrow> 'a list" where
  "upd_first P f [] = []"
| "upd_first P f (x # xs) = (if P x then f x # xs else x # upd_first P f xs)"

definition store_first :: "('a \<Rightarrow> 'k) \<Rightarrow> 'a \<Rightarrow> 'a list \<Rightarrow> 'a list" where
  "store_first key x xs = upd_first (\<lambda>y. key y = key x) (\<lambda>_. x) xs"

lemma length_upd_first [simp]: "length (upd_first P f xs) = length xs"
  by (induction xs) auto

lemma upd_first_id: "\<forall>x \<in> set xs. \<not> P x \<Longrightarrow> upd_first P f xs = xs"
  by (induction xs) auto

lemma map_upd_first:
  "(\<And>x. P x \<Longrightarrow> g (f x) = g x) \<Longrightarrow> map g (upd_first P f xs) = map g xs"
  by (induction xs) auto

lemma set_upd_first:
  "set (upd_first P f xs) \<subseteq> set xs \<union> {f x | x. x \<in> set xs \<and> P x}"
  by (induction xs) auto

lemma map_store_first [key_simps]: "map key (store_first key x xs) = map key xs"
  unfolding store_first_def by (induction xs) auto

lemma length_store_first [simp]: "length (store_first key x xs) = length xs"
  by (simp add: store_first_def)

lemma set_store_first: "y \<in> set (store_first key x xs) \<Longrightarrow> y = x \<or> y \<in> set xs"
  unfolding store_first_def by (induction xs) (auto split: if_splits)

lemma store_first_mem: "key x \<in> key ` set xs \<Longrightarrow> x \<in> set (store_first key x xs)"
  unfolding store_first_def by (induction xs) auto

lemma store_first_absent: "key x \<notin> key ` set xs \<Longrightarrow> store_first key x xs = xs"
  unfolding store_first_def by (induction xs) auto

lemma store_first_other:
  "y \<in> set xs \<Longrightarrow> key y \<noteq> key x \<Longrightarrow> y \<in> set (store_first key x xs)"
  unfolding store_first_def by (induction xs) auto

lemma find_store_first:
  "find (\<lambda>y. key y = k) (store_first key x xs) =
     (if k = key x \<and> k \<in> key ` set xs then Some x else find (\<lambda>y. key y = k) xs)"
  unfolding store_first_def by (induction xs) auto

lemma find_SomeD: "find P xs = Some x \<Longrightarrow> x \<in> set xs \<and> P x"
  by (induction xs) (auto split: if_splits)

lemma find_key_distinct:
  "distinct (map key xs) \<Longrightarrow> y \<in> set xs \<Longrightarrow> find (\<lambda>z. key z = key y) xs = Some y"
  by (induction xs) (auto simp: image_iff)

lemma find_key_None: "find (\<lambda>z. key z = k) xs = None \<longleftrightarrow> k \<notin> key ` set xs"
  by (induction xs) auto

lemma find_key_Some: "find (\<lambda>z. key z = k) xs = Some y \<Longrightarrow> y \<in> set xs \<and> key y = k"
  by (induction xs) (auto split: if_splits)

text \<open>
  Replacing a stored record changes a sum over the list by the difference between the new
  and the old record.
\<close>

lemma sum_list_store_first:
  fixes f :: "'a \<Rightarrow> real"
  assumes "find (\<lambda>y. key y = key x) xs = Some old"
  shows "sum_list (map f (store_first key x xs)) = sum_list (map f xs) - f old + f x"
  using assms unfolding store_first_def by (induction xs) (auto split: if_splits)

lemma sum_list_upd_first:
  fixes f :: "'a \<Rightarrow> real"
  assumes "find P xs = Some old"
  shows "sum_list (map f (upd_first P g xs)) = sum_list (map f xs) - f old + f (g old)"
  using assms by (induction xs) (auto split: if_splits)

lemma find_upd_first:
  assumes "find P xs = Some y" and "P (g y)"
  shows "find P (upd_first P g xs) = Some (g y)"
  using assms by (induction xs) (auto split: if_splits)

end
