(* ===== verification/Lines.thy ===== *)
theory Lines
  imports Prelude
begin

text \<open>
  \<^verbatim>\<open>core/line.hpp\<close> and \<^verbatim>\<open>core/line_series.hpp\<close>: the cursor-indexed buffers every
  feed and indicator is made of. A \<open>line\<close> is the vector and the cursor; \<open>line_at\<close> is
  \<open>operator[]\<close>, whose out-of-range access is an exception. The invariant \<open>line_ok\<close> says
  that the cursor of a non-empty line points at an element, so that \<open>[0]\<close> never throws.
\<close>

record 'a line =
  ln_data :: "'a list"
  ln_idx :: nat

definition line_empty :: "'a line" where
  "line_empty = \<lparr>ln_data = [], ln_idx = 0\<rparr>"

definition line_forward :: "'a \<Rightarrow> 'a line \<Rightarrow> 'a line" where
  "line_forward v l =
     (let d = ln_data l @ [v] in l\<lparr>ln_data := d, ln_idx := length d - 1\<rparr>)"

definition line_set :: "'a \<Rightarrow> 'a line \<Rightarrow> 'a line" where
  "line_set v l =
     (if ln_idx l < length (ln_data l) then l\<lparr>ln_data := (ln_data l)[ln_idx l := v]\<rparr>
      else l\<lparr>ln_data := ln_data l @ [v]\<rparr>)"

definition line_advance :: "'a line \<Rightarrow> 'a line" where
  "line_advance l =
     (if ln_idx l + 1 < length (ln_data l) then l\<lparr>ln_idx := Suc (ln_idx l)\<rparr> else l)"

definition line_home :: "'a line \<Rightarrow> 'a line" where
  "line_home l = l\<lparr>ln_idx := 0\<rparr>"

definition line_extend :: "nat \<Rightarrow> 'a \<Rightarrow> 'a line \<Rightarrow> 'a line" where
  "line_extend n d l = l\<lparr>ln_data := ln_data l @ replicate n d\<rparr>"

definition line_at :: "'a line \<Rightarrow> int \<Rightarrow> exn + 'a" where
  "line_at l offset =
     (let pos = int (ln_idx l) + offset
      in if pos < 0 \<or> length (ln_data l) \<le> nat pos
         then Inl (OutOfRange ''Line index out of range'')
         else Inr (ln_data l ! nat pos))"

definition line_size :: "'a line \<Rightarrow> nat" where
  "line_size l = length (ln_data l)"

definition line_index :: "'a line \<Rightarrow> nat" where
  "line_index l = ln_idx l"

definition line_buflen :: "'a line \<Rightarrow> nat" where
  "line_buflen l = (if ln_data l = [] then 0 else length (ln_data l) - ln_idx l)"

definition line_is_empty :: "'a line \<Rightarrow> bool" where
  "line_is_empty l = (ln_data l = [])"

definition line_ok :: "'a line \<Rightarrow> bool" where
  "line_ok l \<longleftrightarrow> (if ln_data l = [] then ln_idx l = 0 else ln_idx l < length (ln_data l))"

lemmas line_defs = line_empty_def line_forward_def line_set_def line_advance_def
  line_home_def line_extend_def line_size_def line_index_def line_buflen_def line_is_empty_def

lemma line_ok_empty [simp]: "line_ok line_empty"
  by (simp add: line_ok_def line_empty_def)

lemma line_ok_forward [simp]: "line_ok (line_forward v l)"
  by (simp add: line_ok_def line_forward_def Let_def)

lemma line_ok_set: "line_ok l \<Longrightarrow> line_ok (line_set v l)"
  by (auto simp: line_ok_def line_set_def split: if_splits)

lemma line_ok_advance: "line_ok l \<Longrightarrow> line_ok (line_advance l)"
  by (auto simp: line_ok_def line_advance_def split: if_splits)

lemma line_ok_home [simp]: "line_ok (line_home l)"
  by (simp add: line_ok_def line_home_def)

lemma line_ok_extend: "line_ok l \<Longrightarrow> line_ok (line_extend n d l)"
  by (auto simp: line_ok_def line_extend_def split: if_splits)

lemma line_at_0: "line_ok l \<Longrightarrow> ln_data l \<noteq> [] \<Longrightarrow> line_at l 0 = Inr (ln_data l ! ln_idx l)"
  by (simp add: line_at_def line_ok_def)

lemma line_at_forward: "line_at (line_forward v l) 0 = Inr v"
  by (simp add: line_at_def line_forward_def Let_def nth_append)

lemma line_at_forward_prev:
  assumes "line_ok l" and "ln_idx l + 1 = length (ln_data l)" and "k < 0"
  shows "line_at (line_forward v l) k = line_at l (k + 1)"
proof -
  have "int (length (ln_data l)) = int (ln_idx l) + 1"
    using assms(2) by simp
  then have pos: "int (length (ln_data l)) + k = int (ln_idx l) + (k + 1)"
    by simp
  show ?thesis
    using assms(3) by (auto simp: line_at_def line_forward_def Let_def nth_append pos)
       (use assms(2) in linarith)+
qed

text \<open>One run of cursor operations on a line, for properties of whole histories.\<close>

datatype 'a line_op = Forward 'a | SetCur 'a | Advance | Home | Extend nat 'a

fun line_run :: "'a line \<Rightarrow> 'a line_op list \<Rightarrow> 'a line" where
  "line_run l [] = l"
| "line_run l (Forward v # ops) = line_run (line_forward v l) ops"
| "line_run l (SetCur v # ops) = line_run (line_set v l) ops"
| "line_run l (Advance # ops) = line_run (line_advance l) ops"
| "line_run l (Home # ops) = line_run (line_home l) ops"
| "line_run l (Extend n d # ops) = line_run (line_extend n d l) ops"

lemma line_ok_run: "line_ok l \<Longrightarrow> line_ok (line_run l ops)"
  by (induction l ops rule: line_run.induct)
     (simp_all add: line_ok_set line_ok_advance line_ok_extend)

text \<open>
  Indexing discipline of \<open>Line\<close>: after any history of cursor operations from a fresh
  line, \<open>[k]\<close> returns the element at cursor + k exactly when that position exists and
  throws \<open>out_of_range\<close> otherwise; in particular \<open>[0]\<close> throws only on an empty line.
\<close>

theorem line_at_discipline:
  "let l = line_run line_empty ops in
     line_at l k =
       (if 0 \<le> int (line_index l) + k \<and> int (line_index l) + k < int (line_size l)
        then Inr (ln_data l ! nat (int (line_index l) + k))
        else Inl (OutOfRange ''Line index out of range''))
     \<and> (line_at l 0 = Inl (OutOfRange ''Line index out of range'') \<longleftrightarrow> line_is_empty l)
     \<and> line_buflen l + line_index l = line_size l"
proof -
  let ?l = "line_run line_empty ops"
  have ok: "line_ok ?l" by (simp add: line_ok_run)
  then show ?thesis
    by (auto simp: Let_def line_at_def line_ok_def line_defs nat_less_iff not_less
        split: if_splits)
qed

end
