(* ===== verification/Orders.thy ===== *)
theory Orders
  imports Prelude
begin

text \<open>
  \<^verbatim>\<open>broker/order.hpp\<close>: the order record and its status methods, each a no-op once the
  order is in a terminal status, and the order store of the broker (\<open>all_orders_\<close>) with
  its look-up and \<open>sync_order\<close>. The status graph of the header comment is the step
  relation \<open>status_step\<close>; the lemmas show that the methods follow it and that terminal
  orders never change again. The store is an instance of the interface \<open>keyed_store\<close>.
\<close>

datatype order_type = Market | Limit | Stop | StopLimit | StopTrail | StopTrailLimit

datatype order_status =
  Created | Submitted | Accepted | Partial | Completed | Canceled | Rejected | Expired | Margin

datatype order_side = Buy | Sell

record order =
  o_id :: nat
  o_type :: order_type
  o_status :: order_status
  o_side :: order_side
  o_size :: real
  o_price :: real
  o_stop_price :: "real option"
  o_symbol :: "string option"
  o_executed_price :: real
  o_executed_size :: real
  o_commission :: real
  o_data_index :: nat
  o_candidate_id :: nat
  o_valid_until_bar :: "nat option"
  o_trail_amount :: real
  o_trail_percent :: real
  o_trail_stop_price :: real
  o_oco_group_id :: nat
  o_parent_id :: nat
  o_child_ids :: "nat list"
  o_transmit :: bool

definition new_order :: order where
  "new_order = \<lparr>o_id = 0, o_type = Market, o_status = Created, o_side = Buy, o_size = 0,
     o_price = 0, o_stop_price = None, o_symbol = None, o_executed_price = 0,
     o_executed_size = 0, o_commission = 0, o_data_index = 0, o_candidate_id = 0,
     o_valid_until_bar = None, o_trail_amount = 0, o_trail_percent = 0,
     o_trail_stop_price = 0, o_oco_group_id = 0, o_parent_id = 0, o_child_ids = [],
     o_transmit = True\<rparr>"

fun live_status :: "order_status \<Rightarrow> bool" where
  "live_status s = (s = Created \<or> s = Submitted \<or> s = Accepted \<or> s = Partial)"

definition is_alive :: "order \<Rightarrow> bool" where
  "is_alive ord = live_status (o_status ord)"

definition is_complete :: "order \<Rightarrow> bool" where
  "is_complete ord = (\<not> is_alive ord)"

definition order_submit :: "order \<Rightarrow> order" where
  "order_submit ord = (if \<not> is_complete ord then ord\<lparr>o_status := Submitted\<rparr> else ord)"

definition order_accept :: "order \<Rightarrow> order" where
  "order_accept ord = (if \<not> is_complete ord then ord\<lparr>o_status := Accepted\<rparr> else ord)"

definition order_execute :: "real \<Rightarrow> real \<Rightarrow> real \<Rightarrow> order \<Rightarrow> order" where
  "order_execute fill_price fill_size comm ord =
     (if is_complete ord then ord
      else ord\<lparr>o_executed_price := fill_price, o_executed_size := fill_size,
               o_commission := comm, o_status := Completed\<rparr>)"

definition order_partial_fill :: "real \<Rightarrow> real \<Rightarrow> real \<Rightarrow> order \<Rightarrow> order" where
  "order_partial_fill fill_price fill_size comm ord =
     (if is_complete ord then ord
      else ord\<lparr>o_executed_price := fill_price,
               o_executed_size := o_executed_size ord + fill_size,
               o_commission := o_commission ord + comm, o_status := Partial\<rparr>)"

definition order_cancel :: "order \<Rightarrow> order" where
  "order_cancel ord = (if \<not> is_complete ord then ord\<lparr>o_status := Canceled\<rparr> else ord)"

definition order_reject :: "order \<Rightarrow> order" where
  "order_reject ord = (if \<not> is_complete ord then ord\<lparr>o_status := Rejected\<rparr> else ord)"

definition order_expire :: "order \<Rightarrow> order" where
  "order_expire ord = (if \<not> is_complete ord then ord\<lparr>o_status := Expired\<rparr> else ord)"

definition order_margin :: "order \<Rightarrow> order" where
  "order_margin ord = (if \<not> is_complete ord then ord\<lparr>o_status := Margin\<rparr> else ord)"

lemmas order_op_defs = order_submit_def order_accept_def order_execute_def
  order_partial_fill_def order_cancel_def order_reject_def order_expire_def order_margin_def

lemmas alive_defs = is_alive_def is_complete_def

text \<open>The methods by name, so that a history of calls is a list.\<close>

datatype order_op =
  OSubmit | OAccept | OExecute real real real | OPartial real real real
| OCancel | OReject | OExpire | OMargin

fun apply_order_op :: "order_op \<Rightarrow> order \<Rightarrow> order" where
  "apply_order_op OSubmit ord = order_submit ord"
| "apply_order_op OAccept ord = order_accept ord"
| "apply_order_op (OExecute p s c) ord = order_execute p s c ord"
| "apply_order_op (OPartial p s c) ord = order_partial_fill p s c ord"
| "apply_order_op OCancel ord = order_cancel ord"
| "apply_order_op OReject ord = order_reject ord"
| "apply_order_op OExpire ord = order_expire ord"
| "apply_order_op OMargin ord = order_margin ord"

fun run_order_ops :: "order_op list \<Rightarrow> order \<Rightarrow> order" where
  "run_order_ops [] ord = ord"
| "run_order_ops (x # xs) ord = run_order_ops xs (apply_order_op x ord)"

text \<open>
  The status graph: a live order may move to any status except back to \<open>Created\<close>; there
  is no edge out of a terminal status.
\<close>

inductive status_step :: "order_status \<Rightarrow> order_status \<Rightarrow> bool" where
  to_live: "live_status s \<Longrightarrow> t \<in> {Submitted, Accepted, Partial} \<Longrightarrow> status_step s t"
| to_final: "live_status s \<Longrightarrow> t \<in> {Completed, Canceled, Rejected, Expired, Margin} \<Longrightarrow>
     status_step s t"

inductive_cases status_stepE: "status_step s t"
inductive_simps status_step_simps: "status_step s t"

lemma apply_order_op_step:
  "is_alive ord \<Longrightarrow> status_step (o_status ord) (o_status (apply_order_op x ord))"
  by (cases x) (auto simp: order_op_defs alive_defs status_step_simps)

lemma apply_order_op_terminal: "is_complete ord \<Longrightarrow> apply_order_op x ord = ord"
  by (cases x) (auto simp: order_op_defs)

lemma run_order_ops_terminal: "is_complete ord \<Longrightarrow> run_order_ops xs ord = ord"
  by (induction xs) (auto simp: apply_order_op_terminal)

lemma run_order_ops_append: "run_order_ops (xs @ ys) ord = run_order_ops ys (run_order_ops xs ord)"
  by (induction xs arbitrary: ord) auto

lemma status_step_not_created: "status_step s t \<Longrightarrow> t \<noteq> Created"
  by (auto elim: status_stepE)

lemma run_order_ops_star:
  "status_step\<^sup>*\<^sup>* (o_status ord) (o_status (run_order_ops xs ord))"
proof (induction xs arbitrary: ord)
  case Nil
  then show ?case by simp
next
  case (Cons x xs)
  show ?case
  proof (cases "is_alive ord")
    case True
    then have "status_step (o_status ord) (o_status (apply_order_op x ord))"
      by (rule apply_order_op_step)
    then show ?thesis using Cons.IH [of "apply_order_op x ord"]
      by (simp add: converse_rtranclp_into_rtranclp)
  next
    case False
    then show ?thesis
      using Cons.IH [of ord] by (simp add: apply_order_op_terminal is_complete_def)
  qed
qed



subsection \<open>The order store\<close>

text \<open>\<open>find_order\<close> (both overloads) and \<open>sync_order\<close> on \<open>all_orders_\<close>.\<close>

definition find_order :: "nat \<Rightarrow> order list \<Rightarrow> order option" where
  "find_order order_id all = find (\<lambda>ord. o_id ord = order_id) all"

definition sync_order :: "order \<Rightarrow> order list \<Rightarrow> order list" where
  "sync_order ord all = store_first o_id ord all"

definition sync_pending_order :: "order \<Rightarrow> order list \<Rightarrow> order list" where
  "sync_pending_order ord pending = store_first o_id ord pending"

text \<open>
  A store of records under a key: what the code relies on when it writes a record back
  (\<open>sync_order\<close>, \<open>get_position\<close>) and looks it up again. \<open>put\<close> overwrites the slot of a
  key that is present and ignores a record whose key is absent.
\<close>

locale keyed_store =
  fixes key :: "'v \<Rightarrow> 'k"
    and keys :: "'s \<Rightarrow> 'k set"
    and get :: "'k \<Rightarrow> 's \<Rightarrow> 'v option"
    and put :: "'v \<Rightarrow> 's \<Rightarrow> 's"
  assumes get_put_same: "key v \<in> keys s \<Longrightarrow> get (key v) (put v s) = Some v"
    and get_put_other: "k \<noteq> key v \<Longrightarrow> get k (put v s) = get k s"
    and keys_put: "keys (put v s) = keys s"
    and get_None: "get k s = None \<longleftrightarrow> k \<notin> keys s"
    and get_key: "get k s = Some v \<Longrightarrow> key v = k"
    and put_absent: "key v \<notin> keys s \<Longrightarrow> put v s = s"
begin

lemma get_put: "get k (put v s) = (if k = key v \<and> k \<in> keys s then Some v else get k s)"
  by (metis get_put_other get_put_same put_absent)

lemma put_put_get: "key w = key v \<Longrightarrow> get k (put w (put v s)) = get k (put w s)"
  by (auto simp: get_put keys_put)

lemma put_commute_get:
  "key v \<noteq> key w \<Longrightarrow> get k (put v (put w s)) = get k (put w (put v s))"
  by (auto simp: get_put keys_put)

lemma get_mem: "get k s = Some v \<Longrightarrow> k \<in> keys s"
  by (metis get_None option.distinct(1))

end

interpretation orders: keyed_store o_id "\<lambda>all. o_id ` set all" find_order sync_order
proof (unfold_locales, goal_cases)
  case (3 v s)
  have "map o_id (sync_order v s) = map o_id s"
    by (simp add: sync_order_def key_simps)
  then have "set (map o_id (sync_order v s)) = set (map o_id s)" by (simp only:)
  then show ?case by simp
qed (auto simp: find_order_def sync_order_def find_store_first find_key_None
      store_first_absent dest: find_key_Some)

lemma map_id_sync_order [key_simps]: "map o_id (sync_order ord all) = map o_id all"
  by (simp add: sync_order_def key_simps)

lemma sync_order_mem: "y \<in> set (sync_order ord all) \<Longrightarrow> y = ord \<or> y \<in> set all"
  unfolding sync_order_def by (rule set_store_first)

lemma find_order_distinct:
  "distinct (map o_id all) \<Longrightarrow> y \<in> set all \<Longrightarrow> find_order (o_id y) all = Some y"
  unfolding find_order_def by (rule find_key_distinct)

lemma sum_sync_order [ledger_simps]:
  fixes f :: "order \<Rightarrow> real"
  assumes "find_order (o_id ord) all = Some old"
  shows "sum_list (map f (sync_order ord all)) = sum_list (map f all) - f old + f ord"
  using assms unfolding find_order_def sync_order_def by (rule sum_list_store_first)

end
