(* ===== verification/Instruments.thy ===== *)
theory Instruments
  imports Prelude
begin

text \<open>
  \<^verbatim>\<open>broker/currency.hpp\<close>, \<^verbatim>\<open>broker/venue.hpp\<close> and \<^verbatim>\<open>broker/instrument.hpp\<close>: currencies with
  their ISO codes, fee schedules and calendars (virtual interfaces: a value of the
  interface is its method, a function), venues, and the six instrument classes, one
  constructor each, with the virtual methods as functions by cases.
\<close>

datatype currency = USD | EUR | JPY | GBP | HKD | CHF | CAD | AUD | CNY | KRW | SGD | NZD

definition all_currencies :: "currency list" where
  "all_currencies = [USD, EUR, JPY, GBP, HKD, CHF, CAD, AUD, CNY, KRW, SGD, NZD]"

fun currency_code :: "currency \<Rightarrow> nat" where
  "currency_code USD = 840" | "currency_code EUR = 978" | "currency_code JPY = 392"
| "currency_code GBP = 826" | "currency_code HKD = 344" | "currency_code CHF = 756"
| "currency_code CAD = 124" | "currency_code AUD = 36" | "currency_code CNY = 156"
| "currency_code KRW = 410" | "currency_code SGD = 702" | "currency_code NZD = 554"

fun iso_code :: "currency \<Rightarrow> string" where
  "iso_code USD = ''USD''" | "iso_code EUR = ''EUR''" | "iso_code JPY = ''JPY''"
| "iso_code GBP = ''GBP''" | "iso_code HKD = ''HKD''" | "iso_code CHF = ''CHF''"
| "iso_code CAD = ''CAD''" | "iso_code AUD = ''AUD''" | "iso_code CNY = ''CNY''"
| "iso_code KRW = ''KRW''" | "iso_code SGD = ''SGD''" | "iso_code NZD = ''NZD''"

lemma all_currencies_complete: "set all_currencies = UNIV"
proof -
  have "c \<in> set all_currencies" for c by (cases c) (simp_all add: all_currencies_def)
  then show ?thesis by auto
qed

lemma distinct_all_currencies: "distinct all_currencies"
  by (simp add: all_currencies_def)

text \<open>The rate interface and its constant implementation.\<close>

type_synonym fx_rate = "currency \<Rightarrow> currency \<Rightarrow> datetime \<Rightarrow> real"

definition constant_fx :: "real \<Rightarrow> fx_rate" where
  "constant_fx r = (\<lambda>src dst tm. if src = dst then 1 else r)"

datatype mic = XNAS | XNYS | XCME | XCBOT | XCBO | XNYM | XLON | XPAR | XAMS | XETR | XSWX
  | XTKS | XHKG | XSES | XKRX | XASX | XFX

type_synonym fee_schedule = "real \<Rightarrow> real \<Rightarrow> currency \<Rightarrow> real"

definition zero_fee_schedule :: fee_schedule where
  "zero_fee_schedule = (\<lambda>qty price ccy. 0)"

definition percentage_fee_schedule :: "real \<Rightarrow> fee_schedule" where
  "percentage_fee_schedule fee_rate = (\<lambda>qty price ccy. \<bar>qty\<bar> * price * fee_rate)"

text \<open>\<open>DateTime::max()\<close>: the largest 64-bit tick count.\<close>

definition datetime_max :: datetime where
  "datetime_max = 2 ^ 63 - 1"

record calendar =
  cal_is_open :: "datetime \<Rightarrow> bool"
  cal_next_open :: "datetime \<Rightarrow> datetime"
  cal_next_close :: "datetime \<Rightarrow> datetime"

definition always_open_calendar :: calendar where
  "always_open_calendar =
     \<lparr>cal_is_open = (\<lambda>tm. True), cal_next_open = (\<lambda>after. after),
      cal_next_close = (\<lambda>after. datetime_max)\<rparr>"

record venue =
  v_mic :: mic
  v_base_ccy :: currency
  v_fees :: fee_schedule
  v_cal :: "calendar option"
  v_settlement_days :: nat

definition venue_is_open :: "venue \<Rightarrow> datetime \<Rightarrow> bool" where
  "venue_is_open v tm = (case v_cal v of Some c \<Rightarrow> cal_is_open c tm | None \<Rightarrow> True)"

definition venue_next_open :: "venue \<Rightarrow> datetime \<Rightarrow> datetime" where
  "venue_next_open v after = (case v_cal v of Some c \<Rightarrow> cal_next_open c after | None \<Rightarrow> after)"

definition venue_next_close :: "venue \<Rightarrow> datetime \<Rightarrow> datetime" where
  "venue_next_close v after =
     (case v_cal v of Some c \<Rightarrow> cal_next_close c after | None \<Rightarrow> datetime_max)"

datatype security_type = CommonStockT | FutureT | FxSpotT | OptionCallT | OptionPutT | CorporateBondT

datatype instrument =
  Equity string venue currency
| Future string venue currency real real datetime real
    \<comment> \<open>multiplier, tick size, expiry, exchange initial margin\<close>
| FxSpot currency currency venue
| OptionCall string venue currency real datetime real \<comment> \<open>strike, expiry, multiplier\<close>
| OptionPut string venue currency real datetime real
| CorporateBond string venue currency real real \<comment> \<open>face value, coupon rate\<close>

fun inst_type :: "instrument \<Rightarrow> security_type" where
  "inst_type (Equity s v c) = CommonStockT"
| "inst_type (Future s v c m tk ex im) = FutureT"
| "inst_type (FxSpot b q v) = FxSpotT"
| "inst_type (OptionCall s v c k ex m) = OptionCallT"
| "inst_type (OptionPut s v c k ex m) = OptionPutT"
| "inst_type (CorporateBond s v c f r) = CorporateBondT"

fun inst_symbol :: "instrument \<Rightarrow> string" where
  "inst_symbol (Equity s v c) = s"
| "inst_symbol (Future s v c m tk ex im) = s"
| "inst_symbol (FxSpot b q v) = iso_code b @ iso_code q"
| "inst_symbol (OptionCall s v c k ex m) = s"
| "inst_symbol (OptionPut s v c k ex m) = s"
| "inst_symbol (CorporateBond s v c f r) = s"

fun inst_venue :: "instrument \<Rightarrow> venue" where
  "inst_venue (Equity s v c) = v"
| "inst_venue (Future s v c m tk ex im) = v"
| "inst_venue (FxSpot b q v) = v"
| "inst_venue (OptionCall s v c k ex m) = v"
| "inst_venue (OptionPut s v c k ex m) = v"
| "inst_venue (CorporateBond s v c f r) = v"

fun settlement_ccy :: "instrument \<Rightarrow> currency" where
  "settlement_ccy (Equity s v c) = c"
| "settlement_ccy (Future s v c m tk ex im) = c"
| "settlement_ccy (FxSpot b q v) = q"
| "settlement_ccy (OptionCall s v c k ex m) = c"
| "settlement_ccy (OptionPut s v c k ex m) = c"
| "settlement_ccy (CorporateBond s v c f r) = c"

fun notional :: "instrument \<Rightarrow> real \<Rightarrow> real \<Rightarrow> real" where
  "notional (Equity s v c) qty mark_px = qty * mark_px"
| "notional (Future s v c m tk ex im) qty mark_px = qty * mark_px * m"
| "notional (FxSpot b q v) qty mark_px = qty"
| "notional (OptionCall s v c k ex m) qty mark_px = qty * mark_px * m"
| "notional (OptionPut s v c k ex m) qty mark_px = qty * mark_px * m"
| "notional (CorporateBond s v c f r) qty mark_px = qty * mark_px * f / 100"

fun mark_to_market :: "instrument \<Rightarrow> real \<Rightarrow> real \<Rightarrow> real \<Rightarrow> real" where
  "mark_to_market (Equity s v c) qty avg_px mark_px = qty * (mark_px - avg_px)"
| "mark_to_market (Future s v c m tk ex im) qty avg_px mark_px = qty * (mark_px - avg_px) * m"
| "mark_to_market (FxSpot b q v) qty avg_px mark_px = qty * (mark_px - avg_px)"
| "mark_to_market (OptionCall s v c k ex m) qty avg_px mark_px = qty * (mark_px - avg_px) * m"
| "mark_to_market (OptionPut s v c k ex m) qty avg_px mark_px = qty * (mark_px - avg_px) * m"
| "mark_to_market (CorporateBond s v c f r) qty avg_px mark_px =
     qty * (mark_px - avg_px) * f / 100"

fun initial_margin :: "instrument \<Rightarrow> real \<Rightarrow> real \<Rightarrow> real" where
  "initial_margin (Equity s v c) qty mark_px = 1 / 2 * \<bar>qty\<bar> * mark_px"
| "initial_margin (Future s v c m tk ex im) qty mark_px = \<bar>qty\<bar> * im"
| "initial_margin (FxSpot b q v) qty mark_px = 2 / 100 * \<bar>qty\<bar>"
| "initial_margin (OptionCall s v c k ex m) qty mark_px = \<bar>qty\<bar> * mark_px * m"
| "initial_margin (OptionPut s v c k ex m) qty mark_px = \<bar>qty\<bar> * mark_px * m"
| "initial_margin (CorporateBond s v c f r) qty mark_px = 1 / 10 * \<bar>qty\<bar> * mark_px * f / 100"

fun maintenance_margin :: "instrument \<Rightarrow> real \<Rightarrow> real \<Rightarrow> real" where
  "maintenance_margin (Equity s v c) qty mark_px = 1 / 4 * \<bar>qty\<bar> * mark_px"
| "maintenance_margin (Future s v c m tk ex im) qty mark_px = \<bar>qty\<bar> * im * (8 / 10)"
| "maintenance_margin (FxSpot b q v) qty mark_px = 1 / 100 * \<bar>qty\<bar>"
| "maintenance_margin (OptionCall s v c k ex m) qty mark_px = \<bar>qty\<bar> * mark_px * m"
| "maintenance_margin (OptionPut s v c k ex m) qty mark_px = \<bar>qty\<bar> * mark_px * m"
| "maintenance_margin (CorporateBond s v c f r) qty mark_px =
     5 / 100 * \<bar>qty\<bar> * mark_px * f / 100"

text \<open>The contract terms of an instrument are sane: no negative multiplier, margin or face.\<close>

fun inst_ok :: "instrument \<Rightarrow> bool" where
  "inst_ok (Equity s v c) = True"
| "inst_ok (Future s v c m tk ex im) = (0 \<le> m \<and> 0 \<le> im)"
| "inst_ok (FxSpot b q v) = True"
| "inst_ok (OptionCall s v c k ex m) = (0 \<le> m)"
| "inst_ok (OptionPut s v c k ex m) = (0 \<le> m)"
| "inst_ok (CorporateBond s v c f r) = (0 \<le> f)"

lemma mark_to_market_linear:
  "mark_to_market i (a + b) avg m = mark_to_market i a avg m + mark_to_market i b avg m"
  by (cases i) (simp_all add: field_simps)

lemma mark_to_market_at_cost [simp]: "mark_to_market i qty px px = 0"
  by (cases i) simp_all

lemma margin_nonneg: "inst_ok i \<Longrightarrow> 0 \<le> px \<Longrightarrow> 0 \<le> initial_margin i qty px"
  by (cases i) simp_all

lemma maintenance_le_initial:
  "inst_ok i \<Longrightarrow> 0 \<le> px \<Longrightarrow> maintenance_margin i qty px \<le> initial_margin i qty px"
  by (cases i) (simp_all add: mult_right_mono divide_right_mono field_simps)

text \<open>
  Margin and valuation contract of all six instrument classes: with non-negative
  contract terms and price, maintenance margin lies between zero and initial margin, both
  ignore the direction of the position, and the mark-to-market of a position is zero at
  its average price, additive in the quantity and changes sign with it.
\<close>

theorem instrument_contract:
  assumes "inst_ok i" and "0 \<le> px"
  shows "0 \<le> maintenance_margin i qty px
       \<and> maintenance_margin i qty px \<le> initial_margin i qty px
       \<and> initial_margin i (- qty) px = initial_margin i qty px
       \<and> mark_to_market i qty avg avg = 0
       \<and> mark_to_market i (a + b) avg px = mark_to_market i a avg px + mark_to_market i b avg px
       \<and> mark_to_market i (- a) avg px = - mark_to_market i a avg px"
proof -
  have "0 \<le> maintenance_margin i qty px" using assms by (cases i) simp_all
  moreover have "initial_margin i (- qty) px = initial_margin i qty px" by (cases i) simp_all
  moreover have "mark_to_market i (- a) avg px = - mark_to_market i a avg px"
    by (cases i) simp_all
  ultimately show ?thesis
    using maintenance_le_initial [OF assms] mark_to_market_linear by simp
qed

theorem instrument_contract_witness:
  "maintenance_margin (Future ''ES'' \<lparr>v_mic = XCME, v_base_ccy = USD, v_fees = zero_fee_schedule,
      v_cal = None, v_settlement_days = 2\<rparr> USD 50 (1 / 4) 0 12000) (- 2) 4000
   \<le> initial_margin (Future ''ES'' \<lparr>v_mic = XCME, v_base_ccy = USD, v_fees = zero_fee_schedule,
      v_cal = None, v_settlement_days = 2\<rparr> USD 50 (1 / 4) 0 12000) (- 2) 4000"
  using instrument_contract
    [of "Future ''ES'' \<lparr>v_mic = XCME, v_base_ccy = USD, v_fees = zero_fee_schedule,
      v_cal = None, v_settlement_days = 2\<rparr> USD 50 (1 / 4) 0 12000" 4000 "- 2" 0 0 0]
  by simp

end
