(* ===== verification/Ledger.thy ===== *)
theory Ledger
  imports Prelude Instruments
begin

text \<open>
  \<^verbatim>\<open>broker/position.hpp\<close> and \<^verbatim>\<open>broker/trade.hpp\<close>: the position of a feed and the
  round-trip trade, each updated by a fill (signed size, price). \<open>eps\<close> is the dust
  threshold of both classes. The lemmas give the functional behaviour of each branch and
  the accounting identities that the broker's reconciliation theorems sum up.
\<close>

definition eps :: real where
  "eps = 1 / 10 ^ 10"

lemma eps_pos [simp]: "0 < eps"
  by (simp add: eps_def)

lemma eps_not_le [simp]: "\<not> eps \<le> 0"
  by (simp add: not_le)

lemma eps_less_one [simp]: "eps < 1"
  by (simp add: eps_def)

subsection \<open>Position\<close>

record position =
  p_instrument :: "instrument option"
  p_data_index :: nat
  p_size :: real
  p_avg_price :: real
  p_price :: real
  p_price_orig :: real
  p_upopened :: real
  p_upclosed :: real

definition empty_position :: position where
  "empty_position = \<lparr>p_instrument = None, p_data_index = 0, p_size = 0, p_avg_price = 0,
     p_price = 0, p_price_orig = 0, p_upopened = 0, p_upclosed = 0\<rparr>"

text \<open>The opened and closed parts of a fill (the first \<open>if\<close> cascade of \<open>update\<close>).\<close>

definition split_fill :: "real \<Rightarrow> real \<Rightarrow> real \<times> real" where
  "split_fill old_size fill_size =
     (let new_size = old_size + fill_size
      in if \<bar>old_size\<bar> < eps then (fill_size, 0)
         else if 0 < old_size then
           (if 0 < fill_size then (fill_size, 0)
            else if 0 \<le> new_size then (0, fill_size)
            else (new_size, - old_size))
         else
           (if fill_size < 0 then (fill_size, 0)
            else if new_size \<le> 0 then (0, fill_size)
            else (new_size, - old_size)))"

definition position_update :: "real \<Rightarrow> real \<Rightarrow> position \<Rightarrow> position" where
  "position_update fill_size fill_price p =
     (let old_size = p_size p;
          new_size = old_size + fill_size;
          (opened, closed) = split_fill old_size fill_size;
          p1 = p\<lparr>p_price_orig := p_price p, p_upopened := opened, p_upclosed := closed,
                 p_size := new_size\<rparr>
      in if \<bar>new_size\<bar> < eps then p1\<lparr>p_size := 0, p_avg_price := 0, p_price := 0\<rparr>
         else if \<bar>old_size\<bar> < eps then p1\<lparr>p_avg_price := fill_price, p_price := fill_price\<rparr>
         else if (0 < old_size \<and> 0 < fill_size) \<or> (old_size < 0 \<and> fill_size < 0) then
           (let avg = (p_price p * old_size + fill_size * fill_price) / new_size
            in p1\<lparr>p_avg_price := avg, p_price := avg\<rparr>)
         else if (0 < old_size \<and> new_size < 0) \<or> (old_size < 0 \<and> 0 < new_size) then
           p1\<lparr>p_avg_price := fill_price, p_price := fill_price\<rparr>
         else p1)"

definition unrealized_pnl :: "position \<Rightarrow> real \<Rightarrow> real" where
  "unrealized_pnl p mark_px =
     (case p_instrument p of
        Some i \<Rightarrow> mark_to_market i (p_size p) (p_avg_price p) mark_px
      | None \<Rightarrow> p_size p * (mark_px - p_avg_price p))"

definition is_flat :: "position \<Rightarrow> bool" where
  "is_flat p = (\<bar>p_size p\<bar> < eps)"

definition is_long :: "position \<Rightarrow> bool" where
  "is_long p = (eps < p_size p)"

definition is_short :: "position \<Rightarrow> bool" where
  "is_short p = (p_size p < - eps)"

text \<open>A position is clean: no dust, and a zero position carries no price.\<close>

definition position_ok :: "position \<Rightarrow> bool" where
  "position_ok p \<longleftrightarrow> (p_size p = 0 \<or> eps \<le> \<bar>p_size p\<bar>)
     \<and> (p_size p = 0 \<longrightarrow> p_avg_price p = 0 \<and> p_price p = 0)
     \<and> p_avg_price p = p_price p"

lemma position_ok_empty [simp]: "position_ok empty_position"
  by (simp add: position_ok_def empty_position_def)

lemma p_size_update:
  "p_size (position_update s px p) = (if \<bar>p_size p + s\<bar> < eps then 0 else p_size p + s)"
  by (simp add: position_update_def Let_def split: prod.split)

lemma p_data_index_update [simp]: "p_data_index (position_update s px p) = p_data_index p"
  by (simp add: position_update_def Let_def split: prod.split)

lemma p_instrument_update [simp]: "p_instrument (position_update s px p) = p_instrument p"
  by (simp add: position_update_def Let_def split: prod.split)

lemma position_ok_update: "position_ok p \<Longrightarrow> position_ok (position_update s px p)"
  using eps_pos
  by (auto simp: position_ok_def position_update_def Let_def split: prod.split)

lemma split_fill_sum: "\<bar>old\<bar> < eps \<Longrightarrow> split_fill old s = (s, 0)"
  by (simp add: split_fill_def)

lemma p_up_update:
  "p_upopened (position_update s px p) = fst (split_fill (p_size p) s)"
  "p_upclosed (position_update s px p) = snd (split_fill (p_size p) s)"
  by (simp_all add: position_update_def Let_def split: prod.split)

text \<open>
  Position update: a fill is split into a closing part and an opening part that add up
  to the fill; the closing part never exceeds the old position and opposes it, the opening
  part has the sign of the fill; the size moves by exactly the fill up to the dust
  threshold; a fill that only reduces the position leaves the average price alone, and a
  fill in the direction of the position makes the average price the volume-weighted mean.
\<close>

theorem position_update_split:
  assumes "position_ok p" and "p' = position_update s px p"
  shows "p_upopened p' + p_upclosed p' = s
     \<and> \<bar>p_upclosed p'\<bar> \<le> \<bar>p_size p\<bar> \<and> p_upclosed p' * p_size p \<le> 0
     \<and> 0 \<le> p_upopened p' * s
     \<and> \<bar>p_size p' - (p_size p + s)\<bar> < eps \<and> position_ok p'
     \<and> (p_upopened p' = 0 \<and> p_size p' \<noteq> 0 \<and> p_size p \<noteq> 0 \<longrightarrow> p_avg_price p' = p_avg_price p)
     \<and> (0 < p_size p * s \<longrightarrow>
          p_avg_price p' * p_size p' = p_avg_price p * p_size p + s * px)"
proof -
  let ?o = "p_size p"
  have clean: "?o = 0 \<or> eps \<le> \<bar>?o\<bar>" and avg: "p_avg_price p = p_price p"
    using assms(1) by (simp_all add: position_ok_def)
  have up: "p_upopened p' = fst (split_fill ?o s)" "p_upclosed p' = snd (split_fill ?o s)"
    by (simp_all add: assms(2) p_up_update)
  have flat: "\<bar>?o\<bar> < eps \<longleftrightarrow> ?o = 0" using clean by auto
  have "p_upopened p' + p_upclosed p' = s" "\<bar>p_upclosed p'\<bar> \<le> \<bar>?o\<bar>"
    unfolding up split_fill_def Let_def flat by auto
  moreover have "p_upclosed p' * ?o \<le> 0" "0 \<le> p_upopened p' * s"
    unfolding up split_fill_def Let_def flat
    by (auto simp: mult_nonneg_nonpos mult_nonpos_nonneg mult_nonpos_nonpos not_less)
  moreover have "\<bar>p_size p' - (?o + s)\<bar> < eps"
    by (auto simp: assms(2) p_size_update abs_if)
  moreover have "position_ok p'"
    using assms position_ok_update by simp
  moreover have "p_avg_price p' = p_avg_price p"
    if "p_upopened p' = 0" "p_size p' \<noteq> 0" "?o \<noteq> 0"
    using that unfolding up assms(2) position_update_def split_fill_def Let_def flat
    by (auto split: if_splits)
  moreover have "p_avg_price p' * p_size p' = p_avg_price p * ?o + s * px" if "0 < ?o * s"
  proof -
    have same: "(0 < ?o \<and> 0 < s) \<or> (?o < 0 \<and> s < 0)" using that by (simp add: zero_less_mult_iff)
    then have big: "eps \<le> \<bar>?o + s\<bar>" "?o \<noteq> 0" using clean by auto
    then show ?thesis
      using same eps_pos unfolding assms(2) position_update_def Let_def flat avg
      by (auto split: prod.split)
  qed
  ultimately show ?thesis by blast
qed

theorem position_update_split_witness:
  "p_size (position_update (- 3) 12
     (position_update 2 10 (empty_position\<lparr>p_data_index := 1\<rparr>))) = - 1
   \<and> p_upopened (position_update (- 3) 12
       (position_update 2 10 (empty_position\<lparr>p_data_index := 1\<rparr>)))
     + p_upclosed (position_update (- 3) 12
       (position_update 2 10 (empty_position\<lparr>p_data_index := 1\<rparr>))) = - 3"
proof -
  let ?p = "position_update 2 10 (empty_position\<lparr>p_data_index := 1\<rparr>)"
  have ok: "position_ok ?p"
    by (rule position_ok_update) (simp add: position_ok_def empty_position_def)
  show ?thesis
    using position_update_split [OF ok refl, of "- 3" 12]
    by (simp add: p_size_update empty_position_def eps_def)
qed

subsection \<open>Trade\<close>

datatype trade_status = TOpen | TClosed

record trade =
  t_id :: nat
  t_data_index :: nat
  t_status :: trade_status
  t_size :: real
  t_entry_price :: real
  t_price :: real
  t_exit_price :: real
  t_value :: real
  t_commission :: real
  t_pnl :: real
  t_pnlcomm :: real
  t_justopened :: bool
  t_isopen :: bool
  t_isclosed :: bool
  t_islong :: bool
  t_entry_bar :: nat
  t_exit_bar :: nat
  t_barlen :: nat
  t_entry_time :: datetime
  t_exit_time :: datetime
  t_candidate_id :: nat

definition new_trade :: trade where
  "new_trade = \<lparr>t_id = 0, t_data_index = 0, t_status = TOpen, t_size = 0, t_entry_price = 0,
     t_price = 0, t_exit_price = 0, t_value = 0, t_commission = 0, t_pnl = 0, t_pnlcomm = 0,
     t_justopened = False, t_isopen = False, t_isclosed = False, t_islong = False,
     t_entry_bar = 0, t_exit_bar = 0, t_barlen = 0, t_entry_time = 0, t_exit_time = 0,
     t_candidate_id = 0\<rparr>"

definition trade_is_open :: "trade \<Rightarrow> bool" where
  "trade_is_open t = (t_status t = TOpen)"

definition trade_is_closed :: "trade \<Rightarrow> bool" where
  "trade_is_closed t = (t_status t = TClosed)"

text \<open>\<open>pnl_gross\<close> and \<open>closed_pnl\<close> (whose argument the source ignores).\<close>

definition pnl_gross :: "trade \<Rightarrow> real" where
  "pnl_gross t = t_pnl t"

definition closed_pnl :: "trade \<Rightarrow> real \<Rightarrow> real" where
  "closed_pnl t original_size = t_pnlcomm t"

text \<open>
  \<open>update\<close> in the source's order: sizes and flags, then price or realised profit, then
  the net figures and the override of a trade that was just opened, then closing.
\<close>

definition trade_enter :: "real \<Rightarrow> real \<Rightarrow> nat \<Rightarrow> datetime \<Rightarrow> trade \<Rightarrow> trade" where
  "trade_enter fill_size comm bar_index bar_dt t =
     (let old_size = t_size t;
          new_size = old_size + fill_size;
          jo = (\<bar>old_size\<bar> < eps);
          isopen = (eps \<le> \<bar>new_size\<bar>);
          entry = (if jo then bar_index else t_entry_bar t)
      in t\<lparr>t_commission := t_commission t + comm, t_size := new_size, t_justopened := jo,
           t_entry_bar := entry,
           t_entry_time := (if jo then bar_dt else t_entry_time t),
           t_islong := (if jo then 0 < new_size else t_islong t),
           t_isopen := isopen,
           t_isclosed := (eps \<le> \<bar>old_size\<bar> \<and> \<not> isopen),
           t_barlen := (if entry \<le> bar_index then bar_index - entry else 0)\<rparr>)"

definition trade_reprice :: "real \<Rightarrow> real \<Rightarrow> real \<Rightarrow> trade \<Rightarrow> trade" where
  "trade_reprice old_size fill_size fill_price t =
     (if \<bar>old_size\<bar> < \<bar>t_size t\<bar> then
        (let px = (old_size * t_price t + fill_size * fill_price) / t_size t
         in t\<lparr>t_price := px, t_entry_price := px\<rparr>)
      else if eps \<le> \<bar>old_size\<bar> then
        t\<lparr>t_pnl := t_pnl t + (- fill_size) * (fill_price - t_price t)\<rparr>
      else t)"

definition trade_net :: "real \<Rightarrow> trade \<Rightarrow> trade" where
  "trade_net fill_price t =
     (let t1 = t\<lparr>t_pnlcomm := t_pnl t - t_commission t, t_value := t_size t * t_price t\<rparr>
      in if t_justopened t then
           t1\<lparr>t_price := fill_price, t_entry_price := fill_price,
              t_value := t_size t * fill_price, t_pnlcomm := t_pnl t - t_commission t\<rparr>
         else t1)"

definition trade_finish :: "real \<Rightarrow> nat \<Rightarrow> datetime \<Rightarrow> trade \<Rightarrow> trade" where
  "trade_finish fill_price bar_index bar_dt t =
     (if t_isclosed t then
        t\<lparr>t_exit_price := fill_price, t_size := 0, t_value := 0, t_status := TClosed,
          t_exit_bar := bar_index, t_exit_time := bar_dt, t_isopen := False\<rparr>
      else t\<lparr>t_status := TOpen\<rparr>)"

definition trade_update ::
  "real \<Rightarrow> real \<Rightarrow> real \<Rightarrow> nat \<Rightarrow> datetime \<Rightarrow> trade \<Rightarrow> trade" where
  "trade_update fill_size fill_price comm bar_index bar_dt t =
     (if \<bar>fill_size\<bar> < eps then t
      else trade_finish fill_price bar_index bar_dt
             (trade_net fill_price
               (trade_reprice (t_size t) fill_size fill_price
                 (trade_enter fill_size comm bar_index bar_dt t))))"

lemma trade_enter_fields [simp]:
  "t_id (trade_enter s c b dt t) = t_id t"
  "t_data_index (trade_enter s c b dt t) = t_data_index t"
  "t_candidate_id (trade_enter s c b dt t) = t_candidate_id t"
  "t_commission (trade_enter s c b dt t) = t_commission t + c"
  "t_size (trade_enter s c b dt t) = t_size t + s"
  "t_pnl (trade_enter s c b dt t) = t_pnl t"
  "t_price (trade_enter s c b dt t) = t_price t"
  "t_justopened (trade_enter s c b dt t) = (\<bar>t_size t\<bar> < eps)"
  "t_isclosed (trade_enter s c b dt t) = (eps \<le> \<bar>t_size t\<bar> \<and> \<bar>t_size t + s\<bar> < eps)"
  by (auto simp: trade_enter_def Let_def)

lemma trade_reprice_fields [simp]:
  "t_id (trade_reprice old s px t) = t_id t"
  "t_data_index (trade_reprice old s px t) = t_data_index t"
  "t_candidate_id (trade_reprice old s px t) = t_candidate_id t"
  "t_commission (trade_reprice old s px t) = t_commission t"
  "t_size (trade_reprice old s px t) = t_size t"
  "t_justopened (trade_reprice old s px t) = t_justopened t"
  "t_isclosed (trade_reprice old s px t) = t_isclosed t"
  "t_pnl (trade_reprice old s px t) =
     (if \<not> \<bar>old\<bar> < \<bar>t_size t\<bar> \<and> eps \<le> \<bar>old\<bar> then t_pnl t - s * (px - t_price t) else t_pnl t)"
  "t_price (trade_reprice old s px t) =
     (if \<bar>old\<bar> < \<bar>t_size t\<bar> then (old * t_price t + s * px) / t_size t else t_price t)"
  by (auto simp: trade_reprice_def Let_def)

lemma trade_net_fields [simp]:
  "t_id (trade_net px t) = t_id t"
  "t_data_index (trade_net px t) = t_data_index t"
  "t_candidate_id (trade_net px t) = t_candidate_id t"
  "t_commission (trade_net px t) = t_commission t"
  "t_size (trade_net px t) = t_size t"
  "t_isclosed (trade_net px t) = t_isclosed t"
  "t_pnl (trade_net px t) = t_pnl t"
  "t_price (trade_net px t) = (if t_justopened t then px else t_price t)"
  "t_pnlcomm (trade_net px t) = t_pnl t - t_commission t"
  by (auto simp: trade_net_def Let_def)

lemma trade_finish_fields [simp]:
  "t_id (trade_finish px b dt t) = t_id t"
  "t_data_index (trade_finish px b dt t) = t_data_index t"
  "t_candidate_id (trade_finish px b dt t) = t_candidate_id t"
  "t_commission (trade_finish px b dt t) = t_commission t"
  "t_size (trade_finish px b dt t) = (if t_isclosed t then 0 else t_size t)"
  "t_status (trade_finish px b dt t) = (if t_isclosed t then TClosed else TOpen)"
  "t_pnl (trade_finish px b dt t) = t_pnl t"
  "t_price (trade_finish px b dt t) = t_price t"
  "t_pnlcomm (trade_finish px b dt t) = t_pnlcomm t"
  by (auto simp: trade_finish_def)

text \<open>
  The book value of a trade: what its fills have brought in (net of commission) once the
  open size is put back at the average price.
\<close>

definition book :: "trade \<Rightarrow> real" where
  "book t = t_pnl t - t_commission t - t_size t * t_price t"

definition trade_ok :: "trade \<Rightarrow> bool" where
  "trade_ok t \<longleftrightarrow> (t_size t = 0 \<or> eps \<le> \<bar>t_size t\<bar>)"

lemma trade_update_ids [simp]:
  "t_id (trade_update s px c b dt t) = t_id t"
  "t_data_index (trade_update s px c b dt t) = t_data_index t"
  "t_candidate_id (trade_update s px c b dt t) = t_candidate_id t"
  by (simp_all add: trade_update_def)

lemma t_commission_update:
  "t_commission (trade_update s px c b dt t) =
     (if \<bar>s\<bar> < eps then t_commission t else t_commission t + c)"
  by (simp add: trade_update_def)

text \<open>The two shapes of a non-dust fill: on a flat trade, and on an open one.\<close>

lemma trade_update_flat:
  assumes "t_size t = 0" and "eps \<le> \<bar>s\<bar>"
  shows "t_size (trade_update s px c b dt t) = s"
    and "t_status (trade_update s px c b dt t) = TOpen"
    and "t_pnl (trade_update s px c b dt t) = t_pnl t"
    and "t_price (trade_update s px c b dt t) = px"
  using assms by (simp_all add: trade_update_def)

lemma trade_update_held:
  assumes "eps \<le> \<bar>t_size t\<bar>" and "eps \<le> \<bar>s\<bar>"
  shows "t_size (trade_update s px c b dt t) = (if \<bar>t_size t + s\<bar> < eps then 0 else t_size t + s)"
    and "t_status (trade_update s px c b dt t) = (if \<bar>t_size t + s\<bar> < eps then TClosed else TOpen)"
    and "t_pnl (trade_update s px c b dt t) =
           (if \<bar>t_size t\<bar> < \<bar>t_size t + s\<bar> then t_pnl t else t_pnl t - s * (px - t_price t))"
    and "t_price (trade_update s px c b dt t) =
           (if \<bar>t_size t\<bar> < \<bar>t_size t + s\<bar>
            then (t_size t * t_price t + s * px) / (t_size t + s) else t_price t)"
  using assms by (simp_all add: trade_update_def)

lemma trade_ok_cases:
  assumes "trade_ok t"
  obtains (flat) "t_size t = 0" | (held) "t_size t \<noteq> 0" "eps \<le> \<bar>t_size t\<bar>"
  using assms by (auto simp: trade_ok_def)

lemma t_size_update:
  assumes "trade_ok t" and "eps \<le> \<bar>s\<bar>"
  shows "t_size (trade_update s px c b dt t) =
       (if t_size t \<noteq> 0 \<and> \<bar>t_size t + s\<bar> < eps then 0 else t_size t + s)"
  using assms(1) by (cases rule: trade_ok_cases)
    (simp_all add: trade_update_flat trade_update_held assms(2))

lemma t_status_update:
  assumes "trade_ok t" and "eps \<le> \<bar>s\<bar>"
  shows "t_status (trade_update s px c b dt t) =
       (if t_size t \<noteq> 0 \<and> \<bar>t_size t + s\<bar> < eps then TClosed else TOpen)"
  using assms(1) by (cases rule: trade_ok_cases)
    (simp_all add: trade_update_flat trade_update_held assms(2))

lemma trade_update_noop: "\<bar>s\<bar> < eps \<Longrightarrow> trade_update s px c b dt t = t"
  by (simp add: trade_update_def)

lemma trade_ok_update: "trade_ok t \<Longrightarrow> trade_ok (trade_update s px c b dt t)"
  by (cases "\<bar>s\<bar> < eps") (auto simp: trade_update_noop trade_ok_def [of "trade_update _ _ _ _ _ _"]
      t_size_update not_less)

lemma book_open:
  assumes "t_size t = 0" and "eps \<le> \<bar>s\<bar>"
  shows "book (trade_update s px c b dt t) = book t - s * px - c"
  using assms by (simp add: trade_update_flat t_commission_update book_def)

lemma book_move:
  assumes "trade_ok t" and "t_size t \<noteq> 0" and "eps \<le> \<bar>s\<bar>"
  shows "book (trade_update s px c b dt t) =
           book t - s * px - c
           + (if \<bar>t_size t + s\<bar> < eps then (t_size t + s) * t_price t else 0)"
proof -
  have big: "eps \<le> \<bar>t_size t\<bar>" using assms(1,2) by (simp add: trade_ok_def)
  note upd = trade_update_held [OF big assms(3)] t_commission_update
  show ?thesis
  proof (cases "\<bar>t_size t\<bar> < \<bar>t_size t + s\<bar>")
    case True
    then have nz: "t_size t + s \<noteq> 0" and op: "\<not> \<bar>t_size t + s\<bar> < eps" using big by auto
    show ?thesis
      using True op nz assms(3) by (simp add: upd book_def field_simps)
  next
    case False
    then show ?thesis
      using assms(3) by (simp add: upd book_def algebra_simps)
  qed
qed

lemma pnlcomm_update:
  "eps \<le> \<bar>s\<bar> \<Longrightarrow>
     t_pnlcomm (trade_update s px c b dt t)
       = t_pnl (trade_update s px c b dt t) - t_commission (trade_update s px c b dt t)"
  by (simp add: trade_update_def)

text \<open>Fills applied in sequence, as the broker applies them to the trade of a feed.\<close>

record fill =
  f_size :: real
  f_price :: real
  f_comm :: real
  f_bar :: nat
  f_dt :: datetime

fun trade_fills :: "fill list \<Rightarrow> trade \<Rightarrow> trade" where
  "trade_fills [] t = t"
| "trade_fills (f # fs) t =
     trade_fills fs (trade_update (f_size f) (f_price f) (f_comm f) (f_bar f) (f_dt f) t)"

text \<open>
  Fills without dust: each is larger than \<open>eps\<close>, and so is the running size unless it is
  zero.
\<close>

fun dust_free :: "real \<Rightarrow> fill list \<Rightarrow> bool" where
  "dust_free old [] = True"
| "dust_free old (f # fs) =
     (eps \<le> \<bar>f_size f\<bar> \<and> (old + f_size f = 0 \<or> eps \<le> \<bar>old + f_size f\<bar>) \<and> dust_free (old + f_size f) fs)"

definition cash_flow :: "fill list \<Rightarrow> real" where
  "cash_flow fs = sum_list (map (\<lambda>f. - (f_size f * f_price f + f_comm f)) fs)"

definition net_size :: "fill list \<Rightarrow> real" where
  "net_size fs = sum_list (map f_size fs)"

lemma trade_step_exact:
  assumes "trade_ok t" and "eps \<le> \<bar>s\<bar>" and "t_size t + s = 0 \<or> eps \<le> \<bar>t_size t + s\<bar>"
  shows "t_size (trade_update s px c b dt t) = t_size t + s
       \<and> book (trade_update s px c b dt t) = book t - s * px - c"
  using assms eps_pos
  by (cases "t_size t = 0") (auto simp: t_size_update book_open book_move)

lemma trade_fills_exact:
  assumes "trade_ok t" and "dust_free (t_size t) fs"
  shows "t_size (trade_fills fs t) = t_size t + net_size fs
       \<and> book (trade_fills fs t) = book t + cash_flow fs"
  using assms
proof (induction fs arbitrary: t)
  case Nil
  then show ?case by (simp add: net_size_def cash_flow_def)
next
  case (Cons f fs)
  let ?t = "trade_update (f_size f) (f_price f) (f_comm f) (f_bar f) (f_dt f) t"
  have step: "t_size ?t = t_size t + f_size f
      \<and> book ?t = book t - f_size f * f_price f - f_comm f"
    using Cons.prems by (intro trade_step_exact) auto
  have "trade_ok ?t" using Cons.prems(1) by (rule trade_ok_update)
  moreover have "dust_free (t_size ?t) fs" using Cons.prems(2) step by simp
  ultimately show ?case
    using Cons.IH [of ?t] step by (simp add: net_size_def cash_flow_def)
qed

lemma trade_fills_snoc:
  "trade_fills (fs @ [f]) t =
     trade_update (f_size f) (f_price f) (f_comm f) (f_bar f) (f_dt f) (trade_fills fs t)"
  by (induction fs arbitrary: t) auto

lemma dust_free_snoc:
  "dust_free old (fs @ [f]) \<longleftrightarrow> dust_free old fs \<and> dust_free (old + net_size fs) [f]"
  by (induction fs arbitrary: old) (auto simp: net_size_def add.assoc)

lemma trade_fills_ok: "trade_ok t \<Longrightarrow> trade_ok (trade_fills fs t)"
  by (induction fs arbitrary: t) (auto intro: trade_ok_update)


text \<open>A witness: buy 2 at 10, buy 2 at 12, sell 1 at 15, sell 3 at 9, one unit of
  commission each time; the round trip loses 6.\<close>

definition demo_fills :: "fill list" where
  "demo_fills =
     [\<lparr>f_size = 2, f_price = 10, f_comm = 1, f_bar = 0, f_dt = 0\<rparr>,
      \<lparr>f_size = 2, f_price = 12, f_comm = 1, f_bar = 1, f_dt = 0\<rparr>,
      \<lparr>f_size = - 1, f_price = 15, f_comm = 1, f_bar = 2, f_dt = 0\<rparr>,
      \<lparr>f_size = - 3, f_price = 9, f_comm = 1, f_bar = 3, f_dt = 0\<rparr>]"


end
