(* ===== verification/Commission.thy ===== *)
theory Commission
  imports Prelude
begin

text \<open>
  \<^verbatim>\<open>broker/commission.hpp\<close>: the flat commission scheme, the tiered (volume based) scheme
  with its early-exit loop, and the Interactive Brokers scheme. Every scheme that can only
  charge, never pay, is an instance of the interface \<open>fee_rule\<close>, under which an order's
  cost is at least its notional.
\<close>

datatype commission_type = Percentage | Fixed | PerShare

record commission_info =
  ci_type :: commission_type
  ci_commission :: real
  ci_min_commission :: real

definition default_commission :: commission_info where
  "default_commission = \<lparr>ci_type = Percentage, ci_commission = 0, ci_min_commission = 0\<rparr>"

definition commission_calculate :: "commission_info \<Rightarrow> real \<Rightarrow> real \<Rightarrow> real" where
  "commission_calculate ci sz price =
     (let abs_size = \<bar>sz\<bar>;
          comm = (case ci_type ci of
                    Percentage \<Rightarrow> abs_size * price * ci_commission ci
                  | Fixed \<Rightarrow> ci_commission ci
                  | PerShare \<Rightarrow> abs_size * ci_commission ci)
      in max comm (ci_min_commission ci))"

subsection \<open>Tiers\<close>

record tier =
  threshold :: real
  rate :: real

record tiered_commission =
  tc_tiers :: "tier list"
  tc_type :: commission_type
  tc_min_commission :: real

text \<open>
  The loop over the tiers with its state (\<open>comm\<close>, \<open>remaining\<close>, \<open>prev_threshold\<close>); both
  \<open>break\<close>s end it with the current commission and remaining volume.
\<close>

fun tier_loop :: "commission_type \<Rightarrow> real \<Rightarrow> tier list \<Rightarrow> real \<Rightarrow> real \<Rightarrow> real \<Rightarrow> real \<times> real" where
  "tier_loop ty price [] comm remaining prev = (comm, remaining)"
| "tier_loop ty price (t # ts) comm remaining prev =
     (let tier_volume = threshold t - prev;
          applicable = min remaining tier_volume
      in if applicable \<le> 0 then (comm, remaining)
         else
           (let comm' = (case ty of
                           PerShare \<Rightarrow> comm + applicable * rate t
                         | Percentage \<Rightarrow> comm + applicable * price * rate t
                         | Fixed \<Rightarrow> comm + rate t);
                remaining' = (if ty = Fixed then 0 else remaining) - applicable
            in if remaining' \<le> 0 then (comm', remaining')
               else tier_loop ty price ts comm' remaining' (threshold t)))"

definition tiered_calculate :: "tiered_commission \<Rightarrow> real \<Rightarrow> real \<Rightarrow> real" where
  "tiered_calculate tc sz price =
     (let (comm, remaining) = tier_loop (tc_type tc) price (tc_tiers tc) 0 \<bar>sz\<bar> 0;
          comm' = (if 0 < remaining \<and> tc_tiers tc \<noteq> [] then
                     (case tc_type tc of
                        PerShare \<Rightarrow> comm + remaining * rate (last (tc_tiers tc))
                      | Percentage \<Rightarrow> comm + remaining * price * rate (last (tc_tiers tc))
                      | Fixed \<Rightarrow> comm)
                   else comm)
      in max comm' (tc_min_commission tc))"

record ib_commission =
  ib_per_share :: real
  ib_min_per_order :: real
  ib_max_pct_of_value :: real

definition ib_calculate :: "ib_commission \<Rightarrow> real \<Rightarrow> real \<Rightarrow> real" where
  "ib_calculate ib sz price =
     (let abs_size = \<bar>sz\<bar>;
          comm = max (abs_size * ib_per_share ib) (ib_min_per_order ib);
          max_comm = abs_size * price * ib_max_pct_of_value ib
      in min comm max_comm)"

subsection \<open>The interface: a rule that only charges\<close>

locale fee_rule =
  fixes fee :: "real \<Rightarrow> real \<Rightarrow> real"
    and admissible :: "real \<Rightarrow> bool"
  assumes fee_nonneg: "admissible price \<Longrightarrow> 0 \<le> fee sz price"
    and fee_abs: "fee (- sz) price = fee sz price"
begin

lemma buy_cost_ge_notional:
  "admissible price \<Longrightarrow> sz * price \<le> sz * price + fee sz price"
  using fee_nonneg by simp

lemma round_trip_cost:
  "admissible p \<Longrightarrow> admissible q \<Longrightarrow>
     (sz * q - fee (- sz) q) - (sz * p + fee sz p) \<le> sz * (q - p)"
  using fee_nonneg [of p sz] fee_nonneg [of q sz] by (simp add: fee_abs algebra_simps)

end

definition charging :: "commission_info \<Rightarrow> bool" where
  "charging ci \<longleftrightarrow> 0 \<le> ci_min_commission ci"

lemma commission_nonneg: "charging ci \<Longrightarrow> 0 \<le> commission_calculate ci sz price"
  by (simp add: charging_def commission_calculate_def Let_def)

lemma commission_abs: "commission_calculate ci (- sz) price = commission_calculate ci sz price"
  by (simp add: commission_calculate_def)

lemma tiered_abs: "tiered_calculate tc (- sz) price = tiered_calculate tc sz price"
  by (simp add: tiered_calculate_def)

interpretation flat_fee: fee_rule "commission_calculate default_commission" "\<lambda>_. True"
  by unfold_locales (simp_all add: commission_nonneg charging_def default_commission_def commission_abs)

interpretation floor_fee:
  fee_rule "commission_calculate (ci\<lparr>ci_min_commission := \<bar>m\<bar>\<rparr>)" "\<lambda>_. True" for ci m
  by unfold_locales (simp_all add: commission_nonneg charging_def commission_abs)

interpretation tiered_fee:
  fee_rule "tiered_calculate (tc\<lparr>tc_min_commission := \<bar>m\<bar>\<rparr>)" "\<lambda>_. True" for tc m
proof (unfold_locales, goal_cases)
  case (1 price sz)
  have "\<bar>m\<bar> \<le> tiered_calculate (tc\<lparr>tc_min_commission := \<bar>m\<bar>\<rparr>) sz price"
    by (simp add: tiered_calculate_def Let_def split: prod.split)
  then show ?case using abs_ge_zero [of m] by linarith
next
  case (2 sz price)
  show ?case by (rule tiered_abs)
qed

subsection \<open>What the tiers charge\<close>

text \<open>
  The marginal-rate specification: each tier charges its rate on the part of the volume
  that lies between the previous threshold and its own, and the volume beyond the last
  threshold is charged at the last rate.
\<close>

fun tier_spec :: "real \<Rightarrow> real \<Rightarrow> tier list \<Rightarrow> real" where
  "tier_spec volume prev [] = 0"
| "tier_spec volume prev [t] = max 0 (volume - prev) * rate t"
| "tier_spec volume prev (t # u # ts) =
     max 0 (min volume (threshold t) - prev) * rate t + tier_spec volume (threshold t) (u # ts)"

fun ascending_from :: "real \<Rightarrow> tier list \<Rightarrow> bool" where
  "ascending_from prev [] = True"
| "ascending_from prev (t # ts) = (prev < threshold t \<and> ascending_from (threshold t) ts)"

lemma tier_spec_below: "volume \<le> prev \<Longrightarrow> ascending_from prev ts \<Longrightarrow> tier_spec volume prev ts = 0"
  by (induction volume prev ts rule: tier_spec.induct) auto

lemma tier_loop_inside:
  "prev < threshold t \<Longrightarrow> prev < volume \<Longrightarrow> volume \<le> threshold t \<Longrightarrow>
     tier_loop PerShare price (t # ts) comm (volume - prev) prev
       = (comm + (volume - prev) * rate t, 0)"
  by (simp add: Let_def)

lemma tier_loop_beyond:
  "prev < threshold t \<Longrightarrow> threshold t < volume \<Longrightarrow>
     tier_loop PerShare price (t # ts) comm (volume - prev) prev
       = tier_loop PerShare price ts (comm + (threshold t - prev) * rate t)
           (volume - threshold t) (threshold t)"
  by (simp add: Let_def)

lemma tier_loop_spec:
  assumes "ascending_from prev ts" and "prev < volume" and "ts \<noteq> []"
  shows "(let (c, r) = tier_loop PerShare price ts comm (volume - prev) prev
          in c + (if 0 < r then r * rate (last ts) else 0))
         = comm + tier_spec volume prev ts"
  using assms
proof (induction ts arbitrary: comm prev)
  case Nil
  then show ?case by simp
next
  case (Cons t ts)
  from Cons.prems have lt: "prev < threshold t" and asc: "ascending_from (threshold t) ts" by auto
  show ?case
  proof (cases "volume \<le> threshold t")
    case True
    note step = tier_loop_inside [OF lt Cons.prems(2) True]
    show ?thesis
      unfolding step using True asc Cons.prems(2)
      by (cases ts) (simp_all add: tier_spec_below)
  next
    case False
    then have beyond: "threshold t < volume" by simp
    note step = tier_loop_beyond [OF lt beyond]
    show ?thesis
    proof (cases ts)
      case Nil
      then show ?thesis
        unfolding step using beyond lt by (simp add: algebra_simps)
    next
      case (Cons u us)
      then have ne: "ts \<noteq> []" by simp
      have spec: "tier_spec volume prev (t # ts)
          = (threshold t - prev) * rate t + tier_spec volume (threshold t) ts"
        unfolding Cons using beyond lt by simp
      have last: "last (t # ts) = last ts" using ne by simp
      show ?thesis
        unfolding step spec last
        using Cons.IH [OF asc beyond ne, of "comm + (threshold t - prev) * rate t"] by simp
    qed
  qed
qed

text \<open>
  Tiered commission charges marginal rates: for a per-share schedule with strictly
  ascending positive thresholds the early-exit loop and its trailing adjustment compute
  exactly the marginal-rate specification (each tier's rate on the volume inside the tier,
  the last rate beyond the last threshold), never less than the minimum commission, and
  do not depend on the direction of the trade.
\<close>

theorem tiered_marginal_rates:
  assumes "ascending_from 0 (tc_tiers tc)" and "tc_type tc = PerShare"
  shows "tiered_calculate tc sz price =
           max (tier_spec \<bar>sz\<bar> 0 (tc_tiers tc)) (tc_min_commission tc)
         \<and> tiered_calculate tc (- sz) price = tiered_calculate tc sz price"
proof (cases "sz = 0 \<or> tc_tiers tc = []")
  case True
  then show ?thesis
    using assms tier_spec_below [of 0 0 "tc_tiers tc"]
    by (cases "tc_tiers tc") (auto simp: tiered_calculate_def Let_def tiered_abs)
next
  case False
  then show ?thesis
    using assms tier_loop_spec [of 0 "tc_tiers tc" "\<bar>sz\<bar>" price 0]
    by (auto simp: tiered_calculate_def Let_def tiered_abs split: prod.splits if_splits)
qed

theorem tiered_marginal_rates_witness:
  "tiered_calculate \<lparr>tc_tiers = [\<lparr>threshold = 100, rate = 2\<rparr>, \<lparr>threshold = 300, rate = 1\<rparr>],
     tc_type = PerShare, tc_min_commission = 5\<rparr> (- 350) 7 = 450"
  using tiered_marginal_rates
    [of "\<lparr>tc_tiers = [\<lparr>threshold = 100, rate = 2\<rparr>, \<lparr>threshold = 300, rate = 1\<rparr>],
       tc_type = PerShare, tc_min_commission = 5\<rparr>" 350 7]
  by simp

end
