(* ===== verification/Broker.thy ===== *)
theory Broker
  imports Orders Ledger Commission
begin

text \<open>
  \<^verbatim>\<open>broker/broker.hpp\<close>: the state of \<open>BackBroker\<close> and its operations. Feeds are seen
  through \<open>view\<close>s: \<open>None\<close> for a feed without bars (\<open>size() == 0\<close>), \<open>Some\<close> of the values
  that \<open>open()[0]\<close>, \<open>high()[0]\<close>, \<open>low()[0]\<close>, \<open>close()[0]\<close> and \<open>datetime()[0]\<close> return
  otherwise (theory \<open>Feed\<close> shows that these reads cannot throw on a feed with bars).
  Calls of the registered callbacks and of the live connector are recorded, in order, in
  \<open>b_events\<close>; the callbacks themselves belong to the caller and are taken not to call back
  into the broker. The pre-order hook is a function value of the state.
\<close>

record quote =
  q_open :: real
  q_high :: real
  q_low :: real
  q_close :: real
  q_dt :: datetime

type_synonym view = "quote option"

record pre_order_result =
  por_candidate_id :: nat
  por_final_size :: real
  por_rejected :: bool

type_synonym pre_order_hook = "order_side \<Rightarrow> real \<Rightarrow> nat \<Rightarrow> pre_order_result"

datatype event =
  OrderNote order
| TradeNote trade real
| ConnectorSubmit order
| ConnectorCancel nat

record broker =
  b_base_ccy :: currency
  b_initial_cash :: real
  b_cash :: "currency \<Rightarrow> real option"
  b_fx :: "fx_rate option"
  b_commission :: commission_info
  b_slip_perc :: real
  b_slip_fixed :: real
  b_slip_open :: bool
  b_slip_limit :: bool
  b_slip_match :: bool
  b_slip_out :: bool
  b_next_order_id :: nat
  b_next_trade_id :: nat
  b_next_oco_group_id :: nat
  b_bar_index :: nat
  b_live :: bool
  b_live_symbols :: "string list"
  b_live_snapshots :: "nat \<Rightarrow> trade option"
  b_instruments :: "nat \<Rightarrow> instrument option"
  b_all_orders :: "order list"
  b_pending :: "order list"
  b_positions :: "position list"
  b_open_trades :: "(trade \<times> real) list"
  b_closed_trades :: "(trade \<times> real) list"
  b_has_order_notify :: bool
  b_has_trade_notify :: bool
  b_pre_order_hook :: "pre_order_hook option"
  b_events :: "event list"

definition new_broker :: "currency \<Rightarrow> real \<Rightarrow> fx_rate option \<Rightarrow> broker" where
  "new_broker base initial_base_cash fx =
     \<lparr>b_base_ccy = base, b_initial_cash = initial_base_cash,
      b_cash = [base \<mapsto> initial_base_cash], b_fx = fx, b_commission = default_commission,
      b_slip_perc = 0, b_slip_fixed = 0, b_slip_open = True, b_slip_limit = True,
      b_slip_match = True, b_slip_out = False, b_next_order_id = 1, b_next_trade_id = 1,
      b_next_oco_group_id = 1, b_bar_index = 0, b_live = False, b_live_symbols = [],
      b_live_snapshots = Map.empty, b_instruments = Map.empty, b_all_orders = [],
      b_pending = [], b_positions = [], b_open_trades = [], b_closed_trades = [],
      b_has_order_notify = False, b_has_trade_notify = False, b_pre_order_hook = None,
      b_events = []\<rparr>"

subsection \<open>Configuration and cash\<close>

definition set_cash :: "real \<Rightarrow> broker \<Rightarrow> broker" where
  "set_cash c b = b\<lparr>b_initial_cash := c, b_cash := (b_cash b)(b_base_ccy b \<mapsto> c)\<rparr>"

definition cash_of :: "broker \<Rightarrow> currency \<Rightarrow> real" where
  "cash_of b ccy = (case b_cash b ccy of Some x \<Rightarrow> x | None \<Rightarrow> 0)"

definition cash :: "broker \<Rightarrow> real" where
  "cash b = cash_of b (b_base_ccy b)"

text \<open>\<open>cash_[ccy] += amount\<close>: \<open>operator[]\<close> of the map starts a missing currency at zero.\<close>

definition add_cash :: "currency \<Rightarrow> real \<Rightarrow> broker \<Rightarrow> broker" where
  "add_cash ccy amount b = b\<lparr>b_cash := (b_cash b)(ccy \<mapsto> cash_of b ccy + amount)\<rparr>"

definition deposit :: "currency \<Rightarrow> real \<Rightarrow> broker \<Rightarrow> broker" where
  "deposit ccy amount b = add_cash ccy amount b"

definition cash_in_base :: "datetime \<Rightarrow> broker \<Rightarrow> real" where
  "cash_in_base tm b =
     sum_list (map (\<lambda>ccy.
       case b_cash b ccy of
         None \<Rightarrow> 0
       | Some amount \<Rightarrow>
           (if ccy = b_base_ccy b then amount
            else (case b_fx b of
                    Some fx \<Rightarrow> amount * fx ccy (b_base_ccy b) tm
                  | None \<Rightarrow> amount))) all_currencies)"

definition set_commission :: "commission_info \<Rightarrow> broker \<Rightarrow> broker" where
  "set_commission info b = b\<lparr>b_commission := info\<rparr>"

definition set_slippage_perc :: "real \<Rightarrow> bool \<Rightarrow> bool \<Rightarrow> bool \<Rightarrow> bool \<Rightarrow> broker \<Rightarrow> broker" where
  "set_slippage_perc perc so sl sm sx b =
     b\<lparr>b_slip_perc := perc, b_slip_fixed := 0, b_slip_open := so, b_slip_limit := sl,
       b_slip_match := sm, b_slip_out := sx\<rparr>"

definition set_slippage_fixed :: "real \<Rightarrow> bool \<Rightarrow> bool \<Rightarrow> bool \<Rightarrow> bool \<Rightarrow> broker \<Rightarrow> broker" where
  "set_slippage_fixed fixed so sl sm sx b =
     b\<lparr>b_slip_perc := 0, b_slip_fixed := fixed, b_slip_open := so, b_slip_limit := sl,
       b_slip_match := sm, b_slip_out := sx\<rparr>"

definition set_instrument :: "nat \<Rightarrow> instrument option \<Rightarrow> broker \<Rightarrow> broker" where
  "set_instrument di instr b = b\<lparr>b_instruments := (b_instruments b)(di := instr)\<rparr>"

definition instrument_for :: "nat \<Rightarrow> broker \<Rightarrow> instrument option" where
  "instrument_for di b = b_instruments b di"

definition set_order_notify :: "bool \<Rightarrow> broker \<Rightarrow> broker" where
  "set_order_notify f b = b\<lparr>b_has_order_notify := f\<rparr>"

definition set_trade_notify :: "bool \<Rightarrow> broker \<Rightarrow> broker" where
  "set_trade_notify f b = b\<lparr>b_has_trade_notify := f\<rparr>"

definition set_pre_order_hook :: "pre_order_hook option \<Rightarrow> broker \<Rightarrow> broker" where
  "set_pre_order_hook f b = b\<lparr>b_pre_order_hook := f\<rparr>"

definition set_live_connector :: "bool \<Rightarrow> broker \<Rightarrow> broker" where
  "set_live_connector c b = b\<lparr>b_live := c\<rparr>"

definition set_live_symbols :: "string list \<Rightarrow> broker \<Rightarrow> broker" where
  "set_live_symbols symbols b = b\<lparr>b_live_symbols := symbols\<rparr>"

definition set_bar_index :: "nat \<Rightarrow> broker \<Rightarrow> broker" where
  "set_bar_index idx b = b\<lparr>b_bar_index := idx\<rparr>"

subsection \<open>Store access and notifications\<close>

definition emit :: "event \<Rightarrow> broker \<Rightarrow> broker" where
  "emit e b = b\<lparr>b_events := b_events b @ [e]\<rparr>"

definition notify_order :: "order \<Rightarrow> broker \<Rightarrow> broker" where
  "notify_order ord b = (if b_has_order_notify b then emit (OrderNote ord) b else b)"

definition notify_trade :: "trade \<Rightarrow> real \<Rightarrow> broker \<Rightarrow> broker" where
  "notify_trade t orig b = (if b_has_trade_notify b then emit (TradeNote t orig) b else b)"

definition sync :: "order \<Rightarrow> broker \<Rightarrow> broker" where
  "sync ord b = b\<lparr>b_all_orders := sync_order ord (b_all_orders b)\<rparr>"

definition sync_pending :: "order \<Rightarrow> broker \<Rightarrow> broker" where
  "sync_pending ord b = b\<lparr>b_pending := sync_pending_order ord (b_pending b)\<rparr>"

definition position_of :: "nat \<Rightarrow> broker \<Rightarrow> position" where
  "position_of di b =
     (case find (\<lambda>p. p_data_index p = di) (b_positions b) of
        Some p \<Rightarrow> p
      | None \<Rightarrow> empty_position)"

text \<open>\<open>get_position\<close>: the position of a feed, appended when there is none yet.\<close>

definition ensure_position :: "nat \<Rightarrow> broker \<Rightarrow> broker" where
  "ensure_position di b =
     (if find (\<lambda>p. p_data_index p = di) (b_positions b) = None
      then b\<lparr>b_positions := b_positions b @
               [empty_position\<lparr>p_instrument := instrument_for di b, p_data_index := di\<rparr>]\<rparr>
      else b)"

definition get_position :: "nat \<Rightarrow> broker \<Rightarrow> position \<times> broker" where
  "get_position di b = (let b' = ensure_position di b in (position_of di b', b'))"

definition update_position :: "nat \<Rightarrow> real \<Rightarrow> real \<Rightarrow> broker \<Rightarrow> broker" where
  "update_position di fill_size fill_price b =
     b\<lparr>b_positions := upd_first (\<lambda>p. p_data_index p = di)
                          (position_update fill_size fill_price) (b_positions b)\<rparr>"

subsection \<open>Order submission\<close>

record order_params =
  op_type :: order_type
  op_price :: real
  op_stop_price :: "real option"
  op_data_index :: nat
  op_valid_until_bar :: "nat option"
  op_trail_amount :: real
  op_trail_percent :: real
  op_oco_group_id :: nat
  op_parent_id :: nat
  op_transmit :: bool

definition default_params :: order_params where
  "default_params = \<lparr>op_type = Market, op_price = 0, op_stop_price = None, op_data_index = 0,
     op_valid_until_bar = None, op_trail_amount = 0, op_trail_percent = 0,
     op_oco_group_id = 0, op_parent_id = 0, op_transmit = True\<rparr>"

definition run_pre_order_hook :: "order_side \<Rightarrow> real \<Rightarrow> nat \<Rightarrow> broker \<Rightarrow> pre_order_result" where
  "run_pre_order_hook sd sz di b =
     (case b_pre_order_hook b of
        Some f \<Rightarrow> f sd sz di
      | None \<Rightarrow> \<lparr>por_candidate_id = 0, por_final_size = sz, por_rejected = False\<rparr>)"

text \<open>\<open>all_orders_.push_back\<close> and \<open>pending_orders_.push_back\<close> of the finished order.\<close>

definition enqueue :: "order \<Rightarrow> broker \<Rightarrow> broker" where
  "enqueue ord b = b\<lparr>b_all_orders := b_all_orders b @ [ord], b_pending := b_pending b @ [ord]\<rparr>"

definition submit_order ::
  "order_side \<Rightarrow> real \<Rightarrow> real \<Rightarrow> real option \<Rightarrow> order_type \<Rightarrow> nat \<Rightarrow> broker \<Rightarrow> nat \<times> broker" where
  "submit_order sd sz price stop_price ty di b =
     (let por = run_pre_order_hook sd sz di b
      in if por_rejected por then (0, b)
         else
           (let oid = b_next_order_id b;
                ord = new_order\<lparr>o_id := oid, o_type := ty, o_side := sd,
                        o_size := por_final_size por, o_price := price,
                        o_stop_price := stop_price, o_data_index := di,
                        o_candidate_id := por_candidate_id por\<rparr>
            in (oid, enqueue ord (b\<lparr>b_next_order_id := oid + 1\<rparr>))))"

definition submit_order_ext ::
  "order_side \<Rightarrow> real \<Rightarrow> order_params \<Rightarrow> broker \<Rightarrow> nat \<times> broker" where
  "submit_order_ext sd sz params b =
     (let por = run_pre_order_hook sd sz (op_data_index params) b
      in if por_rejected por then (0, b)
         else
           (let oid = b_next_order_id b;
                ord = new_order\<lparr>o_id := oid, o_type := op_type params, o_side := sd,
                        o_size := por_final_size por, o_price := op_price params,
                        o_stop_price := op_stop_price params,
                        o_data_index := op_data_index params,
                        o_valid_until_bar := op_valid_until_bar params,
                        o_trail_amount := op_trail_amount params,
                        o_trail_percent := op_trail_percent params,
                        o_oco_group_id := op_oco_group_id params,
                        o_parent_id := op_parent_id params,
                        o_transmit := op_transmit params,
                        o_candidate_id := por_candidate_id por\<rparr>
            in (oid, enqueue ord (b\<lparr>b_next_order_id := oid + 1\<rparr>))))"

text \<open>
  The live path: the order is stored, submitted and accepted with a notification each, and
  handed to the connector.
\<close>

definition submit_live_order ::
  "order_side \<Rightarrow> real \<Rightarrow> order_params \<Rightarrow> broker \<Rightarrow> exn + (nat \<times> broker)" where
  "submit_live_order sd sz params b =
     (let di = op_data_index params
      in if \<not> b_live b then Inl (LogicError ''live connector not configured'')
         else if length (b_live_symbols b) \<le> di \<or> b_live_symbols b ! di = [] then
           Inl (InvalidArgument
             ''live trading requires a symbol mapping for the order data index'')
         else
           (let por = run_pre_order_hook sd sz di b
            in if por_rejected por then Inr (0, b)
               else
                 (let oid = b_next_order_id b;
                      ord = new_order\<lparr>o_id := oid, o_type := op_type params, o_side := sd,
                              o_size := por_final_size por, o_price := op_price params,
                              o_stop_price := op_stop_price params,
                              o_symbol := Some (b_live_symbols b ! di),
                              o_data_index := di,
                              o_valid_until_bar := op_valid_until_bar params,
                              o_trail_amount := op_trail_amount params,
                              o_trail_percent := op_trail_percent params,
                              o_oco_group_id := op_oco_group_id params,
                              o_parent_id := op_parent_id params,
                              o_transmit := op_transmit params,
                              o_candidate_id := por_candidate_id por\<rparr>;
                      b1 = enqueue ord (b\<lparr>b_next_order_id := oid + 1\<rparr>);
                      ord1 = order_submit ord;
                      b2 = notify_order ord1 (sync_pending ord1 (sync ord1 b1));
                      ord2 = order_accept ord1;
                      b3 = notify_order ord2 (sync_pending ord2 (sync ord2 b2))
                  in Inr (oid, emit (ConnectorSubmit ord2) b3))))"

text \<open>\<open>buy\<close> and \<open>sell\<close> differ in the side only, as do \<open>buy_ext\<close> and \<open>sell_ext\<close>.\<close>

definition place ::
  "order_side \<Rightarrow> real \<Rightarrow> real \<Rightarrow> real option \<Rightarrow> order_type \<Rightarrow> nat \<Rightarrow> broker \<Rightarrow>
     exn + (nat \<times> broker)" where
  "place sd sz price stop_price ty di b =
     (if b_live b then
        submit_live_order sd sz (default_params\<lparr>op_type := ty, op_price := price,
          op_stop_price := stop_price, op_data_index := di\<rparr>) b
      else Inr (submit_order sd sz price stop_price ty di b))"

definition buy ::
  "real \<Rightarrow> real \<Rightarrow> real option \<Rightarrow> order_type \<Rightarrow> nat \<Rightarrow> broker \<Rightarrow> exn + (nat \<times> broker)" where
  "buy sz price stop_price ty di b = place Buy sz price stop_price ty di b"

definition sell ::
  "real \<Rightarrow> real \<Rightarrow> real option \<Rightarrow> order_type \<Rightarrow> nat \<Rightarrow> broker \<Rightarrow> exn + (nat \<times> broker)" where
  "sell sz price stop_price ty di b = place Sell sz price stop_price ty di b"

definition place_ext ::
  "order_side \<Rightarrow> real \<Rightarrow> order_params \<Rightarrow> broker \<Rightarrow> exn + (nat \<times> broker)" where
  "place_ext sd sz params b =
     (if b_live b then submit_live_order sd sz params b
      else Inr (submit_order_ext sd sz params b))"

definition buy_ext :: "real \<Rightarrow> order_params \<Rightarrow> broker \<Rightarrow> exn + (nat \<times> broker)" where
  "buy_ext sz params b = place_ext Buy sz params b"

definition sell_ext :: "real \<Rightarrow> order_params \<Rightarrow> broker \<Rightarrow> exn + (nat \<times> broker)" where
  "sell_ext sz params b = place_ext Sell sz params b"

record bracket_result =
  main_id :: nat
  stop_id :: nat
  limit_id :: nat

fun other_side :: "order_side \<Rightarrow> order_side" where
  "other_side Buy = Sell"
| "other_side Sell = Buy"

definition set_child_ids :: "nat \<Rightarrow> nat list \<Rightarrow> order list \<Rightarrow> order list" where
  "set_child_ids mid kids os = upd_first (\<lambda>x. o_id x = mid) (\<lambda>x. x\<lparr>o_child_ids := kids\<rparr>) os"

text \<open>
  \<open>buy_bracket\<close> (\<open>sd = Buy\<close>) and \<open>sell_bracket\<close> (\<open>sd = Sell\<close>): a market order and, on the
  other side, a take-profit limit and a stop-loss stop in one OCO group, both held until
  the main order fills.
\<close>

definition bracket ::
  "order_side \<Rightarrow> real \<Rightarrow> real \<Rightarrow> real \<Rightarrow> nat \<Rightarrow> broker \<Rightarrow> bracket_result \<times> broker" where
  "bracket sd sz limit_price stop_price di b =
     (let oco_grp = b_next_oco_group_id b;
          b0 = b\<lparr>b_next_oco_group_id := oco_grp + 1\<rparr>;
          (mid, b1) = submit_order sd sz 0 None Market di b0;
          tp_params = default_params\<lparr>op_type := Limit, op_price := limit_price,
            op_data_index := di, op_parent_id := mid, op_oco_group_id := oco_grp,
            op_transmit := False\<rparr>;
          (lid, b2) = submit_order_ext (other_side sd) sz tp_params b1;
          sl_params = default_params\<lparr>op_type := Stop, op_stop_price := Some stop_price,
            op_data_index := di, op_parent_id := mid, op_oco_group_id := oco_grp,
            op_transmit := False\<rparr>;
          (sid, b3) = submit_order_ext (other_side sd) sz sl_params b2;
          b4 = b3\<lparr>b_all_orders := set_child_ids mid [lid, sid] (b_all_orders b3),
                  b_pending := set_child_ids mid [lid, sid] (b_pending b3)\<rparr>
      in (\<lparr>main_id = mid, stop_id = sid, limit_id = lid\<rparr>, b4))"

definition next_oco_group :: "broker \<Rightarrow> nat \<times> broker" where
  "next_oco_group b = (b_next_oco_group_id b, b\<lparr>b_next_oco_group_id := b_next_oco_group_id b + 1\<rparr>)"

text \<open>The close of a position: nothing when flat, else the opposite market order.\<close>

definition close :: "nat \<Rightarrow> broker \<Rightarrow> exn + (nat \<times> broker)" where
  "close di b =
     (let (pos, b') = get_position di b
      in if is_flat pos then Inr (0, b')
         else if is_long pos then sell \<bar>p_size pos\<bar> 0 None Market di b'
         else buy \<bar>p_size pos\<bar> 0 None Market di b')"

subsection \<open>Cancellation\<close>

text \<open>
  The loop shared by \<open>cancel_order\<close>, \<open>cancel_bracket_children\<close> and the OCO sweep: every
  order of the list that satisfies the test is cancelled in place, written to
  \<open>all_orders_\<close> and notified.
\<close>

fun cancel_loop :: "(order \<Rightarrow> bool) \<Rightarrow> order list \<Rightarrow> broker \<Rightarrow> order list \<times> broker" where
  "cancel_loop P [] b = ([], b)"
| "cancel_loop P (x # xs) b =
     (if P x then
        (let x' = order_cancel x;
             (xs', b') = cancel_loop P xs (notify_order x' (sync x' b))
         in (x' # xs', b'))
      else
        (let (xs', b') = cancel_loop P xs b in (x # xs', b')))"

definition cancel_pending_where :: "(order \<Rightarrow> bool) \<Rightarrow> broker \<Rightarrow> broker" where
  "cancel_pending_where P b =
     (let (xs, b') = cancel_loop P (b_pending b) b in b'\<lparr>b_pending := xs\<rparr>)"

definition cancel_order :: "nat \<Rightarrow> broker \<Rightarrow> exn + broker" where
  "cancel_order oid b =
     (if b_live b then
        (case find_order oid (b_all_orders b) of
           None \<Rightarrow> Inl (OutOfRange ''unknown order id'')
         | Some ord \<Rightarrow>
             (let b1 = emit (ConnectorCancel oid) b;
                  ord' = order_cancel ord
              in Inr (notify_order ord' (sync_pending ord' (sync ord' b1)))))
      else Inr (cancel_pending_where (\<lambda>ord. o_id ord = oid \<and> is_alive ord) b))"

definition cancel_bracket_children :: "nat \<Rightarrow> broker \<Rightarrow> broker" where
  "cancel_bracket_children parent b =
     cancel_pending_where (\<lambda>ord. o_parent_id ord = parent \<and> is_alive ord) b"

definition activate_bracket_children :: "nat \<Rightarrow> broker \<Rightarrow> broker" where
  "activate_bracket_children parent b =
     b\<lparr>b_pending := map (\<lambda>ord. if o_parent_id ord = parent \<and> \<not> o_transmit ord
                                then ord\<lparr>o_transmit := True\<rparr> else ord) (b_pending b)\<rparr>"

definition is_parent_filled :: "nat \<Rightarrow> broker \<Rightarrow> bool" where
  "is_parent_filled parent b =
     (case find_order parent (b_all_orders b) of
        Some ord \<Rightarrow> o_status ord = Completed
      | None \<Rightarrow> False)"

end
