(* ===== verification/Matching.thy ===== *)
theory Matching
  imports Broker
begin

text \<open>
  \<^verbatim>\<open>broker/broker.hpp\<close>, the order-matching half: the trigger and price rules of the six
  order types, slippage, the cash and margin test, the execution of a fill against cash,
  position and trades, and the per-bar loop \<open>process_orders\<close> with its parent gate, expiry,
  bracket and OCO handling.
\<close>

subsection \<open>Trigger and raw fill price\<close>

datatype trigger = NoFill | RejectIt | FillAt real

definition trigger_price :: "order \<Rightarrow> quote \<Rightarrow> trigger" where
  "trigger_price ord q =
     (case o_type ord of
        Market \<Rightarrow> FillAt (q_open q)
      | Limit \<Rightarrow>
          (if o_side ord = Buy then
             (if q_low q \<le> o_price ord then FillAt (min (o_price ord) (q_open q)) else NoFill)
           else
             (if o_price ord \<le> q_high q then FillAt (max (o_price ord) (q_open q)) else NoFill))
      | Stop \<Rightarrow>
          (case o_stop_price ord of
             None \<Rightarrow> RejectIt
           | Some sp \<Rightarrow>
               if o_side ord = Buy then
                 (if sp \<le> q_high q then FillAt (max sp (q_open q)) else NoFill)
               else
                 (if q_low q \<le> sp then FillAt (min sp (q_open q)) else NoFill))
      | StopLimit \<Rightarrow>
          (case o_stop_price ord of
             None \<Rightarrow> RejectIt
           | Some sp \<Rightarrow>
               if o_side ord = Buy then
                 (if sp \<le> q_high q then
                    (if q_low q \<le> o_price ord then FillAt (min (o_price ord) (q_open q))
                     else NoFill)
                  else NoFill)
               else
                 (if q_low q \<le> sp then
                    (if o_price ord \<le> q_high q then FillAt (max (o_price ord) (q_open q))
                     else NoFill)
                  else NoFill))
      | StopTrail \<Rightarrow>
          (if o_trail_stop_price ord = 0 then NoFill
           else if o_side ord = Sell then
             (if q_low q \<le> o_trail_stop_price ord
              then FillAt (min (o_trail_stop_price ord) (q_open q)) else NoFill)
           else
             (if o_trail_stop_price ord \<le> q_high q
              then FillAt (max (o_trail_stop_price ord) (q_open q)) else NoFill))
      | StopTrailLimit \<Rightarrow>
          (if o_trail_stop_price ord = 0 then NoFill
           else if o_side ord = Sell then
             (if q_low q \<le> o_trail_stop_price ord then
                (if o_price ord \<le> q_high q then FillAt (max (o_price ord) (q_open q)) else NoFill)
              else NoFill)
           else
             (if o_trail_stop_price ord \<le> q_high q then
                (if q_low q \<le> o_price ord then FillAt (min (o_price ord) (q_open q)) else NoFill)
              else NoFill)))"

definition open_slippage_type :: "order_type \<Rightarrow> bool" where
  "open_slippage_type ty = (ty = Market \<or> ty = Stop \<or> ty = StopTrail)"

definition limit_slippage_type :: "order_type \<Rightarrow> bool" where
  "limit_slippage_type ty = (ty = Limit \<or> ty = StopLimit \<or> ty = StopTrailLimit)"

text \<open>\<open>std::clamp\<close>.\<close>

definition clamp :: "real \<Rightarrow> real \<Rightarrow> real \<Rightarrow> real" where
  "clamp v lo hi = (if v < lo then lo else if hi < v then hi else v)"

definition apply_slippage :: "real \<Rightarrow> order_side \<Rightarrow> quote \<Rightarrow> broker \<Rightarrow> real option" where
  "apply_slippage raw_price sd q b =
     (let adjusted =
            (if b_slip_perc b \<noteq> 0 then
               raw_price * (if sd = Buy then 1 + b_slip_perc b else 1 - b_slip_perc b)
             else if b_slip_fixed b \<noteq> 0 then
               raw_price + (if sd = Buy then b_slip_fixed b else - b_slip_fixed b)
             else raw_price)
      in if b_slip_out b then Some adjusted
         else if q_low q \<le> adjusted \<and> adjusted \<le> q_high q then Some adjusted
         else if \<not> b_slip_match b then None
         else Some (clamp adjusted (q_low q) (q_high q)))"

definition slipped_price :: "real \<Rightarrow> order \<Rightarrow> quote \<Rightarrow> broker \<Rightarrow> real option" where
  "slipped_price fill_price ord q b =
     (if (open_slippage_type (o_type ord) \<and> b_slip_open b)
         \<or> (limit_slippage_type (o_type ord) \<and> b_slip_limit b)
      then apply_slippage fill_price (o_side ord) q b
      else Some fill_price)"

subsection \<open>Execution\<close>

definition signed_size :: "order_side \<Rightarrow> real \<Rightarrow> real" where
  "signed_size sd sz = (if sd = Sell then - sz else sz)"

definition fill_commission :: "order \<Rightarrow> real \<Rightarrow> broker \<Rightarrow> real" where
  "fill_commission ord fill_price b =
     (case instrument_for (o_data_index ord) b of
        Some i \<Rightarrow> v_fees (inst_venue i) (o_size ord) fill_price (settlement_ccy i)
      | None \<Rightarrow> commission_calculate (b_commission b) (o_size ord) fill_price)"

definition settle_ccy :: "nat \<Rightarrow> broker \<Rightarrow> currency" where
  "settle_ccy di b =
     (case instrument_for di b of Some i \<Rightarrow> settlement_ccy i | None \<Rightarrow> b_base_ccy b)"

text \<open>The test that turns a buy into a margin rejection.\<close>

definition cannot_afford :: "order \<Rightarrow> quote \<Rightarrow> real \<Rightarrow> real \<Rightarrow> broker \<Rightarrow> bool" where
  "cannot_afford ord q fill_price comm b =
     (o_side ord = Buy \<and>
      (case instrument_for (o_data_index ord) b of
         Some i \<Rightarrow>
           (let need = initial_margin i (o_size ord) fill_price + comm;
                settle = settlement_ccy i;
                have0 = cash_of b settle;
                have1 = (case b_fx b of
                           Some fx \<Rightarrow> if settle \<noteq> b_base_ccy b
                                      then have0 + fx (b_base_ccy b) settle (q_dt q) * cash b
                                      else have0
                         | None \<Rightarrow> have0)
            in have1 < need)
       | None \<Rightarrow> cash b < signed_size (o_side ord) (o_size ord) * fill_price + comm))"

text \<open>
  \<open>update_trades\<close>. The loops over \<open>open_trades_\<close> act on the first open trade of the feed
  and break, so the third branch splits the list at that trade.
\<close>

definition open_for :: "nat \<Rightarrow> trade \<times> real \<Rightarrow> bool" where
  "open_for di e = (t_data_index (fst e) = di \<and> trade_is_open (fst e))"

fun split_first :: "('a \<Rightarrow> bool) \<Rightarrow> 'a list \<Rightarrow> ('a list \<times> 'a \<times> 'a list) option" where
  "split_first P [] = None"
| "split_first P (x # xs) =
     (if P x then Some ([], x, xs)
      else (case split_first P xs of
              None \<Rightarrow> None
            | Some (pre, y, post) \<Rightarrow> Some (x # pre, y, post)))"

definition open_new_trade ::
  "nat \<Rightarrow> real \<Rightarrow> real \<Rightarrow> real \<Rightarrow> datetime \<Rightarrow> nat \<Rightarrow> broker \<Rightarrow> broker" where
  "open_new_trade di fill_size fill_price comm bar_dt cand b =
     (let t = trade_update fill_size fill_price comm (b_bar_index b) bar_dt
                (new_trade\<lparr>t_id := b_next_trade_id b, t_data_index := di, t_candidate_id := cand\<rparr>)
      in b\<lparr>b_next_trade_id := b_next_trade_id b + 1,
           b_open_trades := b_open_trades b @ [(t, fill_size)]\<rparr>)"

definition close_trade :: "trade \<Rightarrow> real \<Rightarrow> broker \<Rightarrow> broker" where
  "close_trade t orig b = notify_trade t orig (b\<lparr>b_closed_trades := b_closed_trades b @ [(t, orig)]\<rparr>)"

definition reduce_trade ::
  "nat \<Rightarrow> real \<Rightarrow> real \<Rightarrow> real \<Rightarrow> datetime \<Rightarrow> nat \<Rightarrow> broker \<Rightarrow> broker" where
  "reduce_trade di fill_size fill_price comm bar_dt cand b =
     (case split_first (open_for di) (b_open_trades b) of
        None \<Rightarrow> b
      | Some (pre, (t, orig), post) \<Rightarrow>
          if \<bar>t_size t\<bar> < \<bar>fill_size\<bar> then
            (let total_abs = \<bar>fill_size\<bar>;
                 close_abs = \<bar>t_size t\<bar>;
                 close_size = - t_size t;
                 close_comm = (close_abs / total_abs) * comm;
                 open_comm = comm - close_comm;
                 remaining = fill_size + t_size t;
                 t' = trade_update close_size fill_price close_comm (b_bar_index b) bar_dt t;
                 b1 = (close_trade t' orig b)\<lparr>b_open_trades := pre @ post\<rparr>
             in open_new_trade di remaining fill_price open_comm bar_dt cand b1)
          else
            (let t' = trade_update fill_size fill_price comm (b_bar_index b) bar_dt t
             in if trade_is_closed t' then (close_trade t' orig b)\<lparr>b_open_trades := pre @ post\<rparr>
                else b\<lparr>b_open_trades := pre @ (t', orig) # post\<rparr>))"

definition extend_trade :: "nat \<Rightarrow> real \<Rightarrow> real \<Rightarrow> real \<Rightarrow> datetime \<Rightarrow> broker \<Rightarrow> broker" where
  "extend_trade di fill_size fill_price comm bar_dt b =
     b\<lparr>b_open_trades :=
         upd_first (open_for di)
           (\<lambda>(t, orig). (trade_update fill_size fill_price comm (b_bar_index b) bar_dt t,
                         orig + fill_size))
           (b_open_trades b)\<rparr>"

definition update_trades ::
  "nat \<Rightarrow> real \<Rightarrow> real \<Rightarrow> real \<Rightarrow> real \<Rightarrow> datetime \<Rightarrow> nat \<Rightarrow> broker \<Rightarrow> broker" where
  "update_trades di old_size fill_size fill_price comm bar_dt cand b =
     (if \<bar>old_size\<bar> < eps then open_new_trade di fill_size fill_price comm bar_dt cand b
      else if (0 < old_size \<and> 0 < fill_size) \<or> (old_size < 0 \<and> fill_size < 0) then
        extend_trade di fill_size fill_price comm bar_dt b
      else reduce_trade di fill_size fill_price comm bar_dt cand b)"

text \<open>The booking of a fill: cash, position, trades (the tail of \<open>try_fill_order\<close>).\<close>

definition book_fill ::
  "nat \<Rightarrow> real \<Rightarrow> real \<Rightarrow> real \<Rightarrow> datetime \<Rightarrow> nat \<Rightarrow> broker \<Rightarrow> broker" where
  "book_fill di fill_size fill_price comm bar_dt cand b =
     (let b1 = add_cash (settle_ccy di b) (- (fill_size * fill_price + comm)) b;
          (pos, b2) = get_position di b1;
          old_size = p_size pos;
          b3 = update_position di fill_size fill_price b2
      in update_trades di old_size fill_size fill_price comm bar_dt cand b3)"

text \<open>
  \<open>try_fill_order\<close>: the flag says that the order left the book (filled, rejected or
  refused on margin); the order is returned as the reference parameter leaves it.
\<close>

definition try_fill_order :: "order \<Rightarrow> quote \<Rightarrow> broker \<Rightarrow> bool \<times> order \<times> broker" where
  "try_fill_order ord q b =
     (case trigger_price ord q of
        NoFill \<Rightarrow> (False, ord, b)
      | RejectIt \<Rightarrow> (let ord' = order_reject ord in (True, ord', sync ord' b))
      | FillAt raw \<Rightarrow>
          (case slipped_price raw ord q b of
             None \<Rightarrow> (False, ord, b)
           | Some fill_price \<Rightarrow>
               (let fill_size = signed_size (o_side ord) (o_size ord);
                    comm = fill_commission ord fill_price b
                in if cannot_afford ord q fill_price comm b then
                     (let ord' = order_margin ord in (True, ord', sync ord' b))
                   else
                     (let ord' = order_execute fill_price (o_size ord) comm ord;
                          b' = book_fill (o_data_index ord) fill_size fill_price comm
                                 (q_dt q) (o_candidate_id ord) b
                      in (True, ord', sync ord' b')))))"

definition is_trail :: "order \<Rightarrow> bool" where
  "is_trail ord = (o_type ord = StopTrail \<or> o_type ord = StopTrailLimit)"

definition update_trail_stop :: "order \<Rightarrow> quote \<Rightarrow> broker \<Rightarrow> order \<times> broker" where
  "update_trail_stop ord q b =
     (let current_price = (if o_side ord = Buy then q_low q else q_high q);
          trail_dist = (if 0 < o_trail_percent ord then current_price * o_trail_percent ord
                        else o_trail_amount ord)
      in if o_side ord = Sell then
           (let new_stop = current_price - trail_dist
            in if o_trail_stop_price ord = 0 \<or> o_trail_stop_price ord < new_stop then
                 (let ord' = ord\<lparr>o_trail_stop_price := new_stop\<rparr> in (ord', sync ord' b))
               else (ord, b))
         else
           (let new_stop = current_price + trail_dist
            in if o_trail_stop_price ord = 0 \<or> new_stop < o_trail_stop_price ord then
                 (let ord' = ord\<lparr>o_trail_stop_price := new_stop\<rparr> in (ord', sync ord' b))
               else (ord, b)))"

subsection \<open>The per-bar loop\<close>

text \<open>Loop state: the broker, \<open>still_pending\<close> and \<open>filled_oco_groups\<close>.\<close>

type_synonym loop_state = "broker \<times> order list \<times> nat list"

definition set_pending_at :: "nat \<Rightarrow> order \<Rightarrow> broker \<Rightarrow> broker" where
  "set_pending_at i ord b = b\<lparr>b_pending := (b_pending b)[i := ord]\<rparr>"

definition expired :: "order \<Rightarrow> broker \<Rightarrow> bool" where
  "expired ord b = (case o_valid_until_bar ord of Some v \<Rightarrow> v < b_bar_index b | None \<Rightarrow> False)"

text \<open>Submission and acceptance of an order that is still \<open>Created\<close>.\<close>

definition accept_created :: "order \<Rightarrow> broker \<Rightarrow> order \<times> broker" where
  "accept_created ord b =
     (if o_status ord = Created then
        (let o1 = order_submit ord;
             b1 = notify_order o1 (sync o1 b);
             o2 = order_accept o1;
             b2 = notify_order o2 (sync o2 b1)
         in (o2, b2))
      else (ord, b))"

text \<open>What follows a fill attempt that took the order off the book.\<close>

definition after_fill :: "nat \<Rightarrow> order \<Rightarrow> loop_state \<Rightarrow> loop_state" where
  "after_fill i ord st =
     (let (b, still, groups) = st;
          b1 = notify_order ord (set_pending_at i ord b);
          groups' = (if o_oco_group_id ord \<noteq> 0 \<and> o_status ord = Completed
                     then groups @ [o_oco_group_id ord] else groups);
          b2 = (if o_status ord = Completed \<and> o_child_ids ord \<noteq> []
                then activate_bracket_children (o_id ord) b1 else b1);
          b3 = (if o_parent_id ord = 0 \<and> o_child_ids ord \<noteq> []
                   \<and> (o_status ord = Canceled \<or> o_status ord = Rejected
                      \<or> o_status ord = Margin \<or> o_status ord = Expired)
                then cancel_bracket_children (o_id ord) b2 else b2)
      in (b3, still, groups'))"

text \<open>The part of the loop body after the parent gate and the feed checks.\<close>

definition process_live :: "nat \<Rightarrow> order \<Rightarrow> quote \<Rightarrow> loop_state \<Rightarrow> loop_state" where
  "process_live i ord q st =
     (let (b, still, groups) = st;
          (o1, b1) = accept_created ord b;
          (filled, o2, b2) = try_fill_order o1 q b1
      in if filled then after_fill i o2 (b2, still, groups)
         else
           (let (o3, b3) = (if is_trail o2 then update_trail_stop o2 q b2 else (o2, b2))
            in (set_pending_at i o3 b3, still @ [o3], groups)))"

definition process_one :: "view list \<Rightarrow> loop_state \<Rightarrow> nat \<Rightarrow> loop_state" where
  "process_one views st i =
     (let (b, still, groups) = st;
          ord0 = b_pending b ! i
      in if \<not> is_alive ord0 then st
         else if \<not> o_transmit ord0 \<and> o_parent_id ord0 \<noteq> 0
                 \<and> \<not> is_parent_filled (o_parent_id ord0) b then
           (b, still @ [ord0], groups)
         else
           (let ord = (if \<not> o_transmit ord0 \<and> o_parent_id ord0 \<noteq> 0
                       then ord0\<lparr>o_transmit := True\<rparr> else ord0)
            in if length views \<le> o_data_index ord then
                 (let o1 = order_reject ord
                  in (notify_order o1 (sync o1 (set_pending_at i o1 b)), still, groups))
               else
                 (case views ! o_data_index ord of
                    None \<Rightarrow> (set_pending_at i ord b, still @ [ord], groups)
                  | Some q \<Rightarrow>
                      if expired ord b then
                        (let o1 = order_expire ord
                         in (notify_order o1 (sync o1 (set_pending_at i o1 b)), still, groups))
                      else process_live i ord q (b, still, groups))))"

text \<open>The sweep over the orders still pending after one of their OCO group completed.\<close>

definition oco_sweep :: "nat list \<Rightarrow> order list \<Rightarrow> broker \<Rightarrow> order list \<times> broker" where
  "oco_sweep groups still b =
     (if groups = [] then (still, b)
      else
        (let (still', b') =
               cancel_loop (\<lambda>ord. o_oco_group_id ord \<noteq> 0 \<and> is_alive ord
                                  \<and> o_oco_group_id ord \<in> set groups) still b
         in (filter is_alive still', b')))"

definition process_orders :: "view list \<Rightarrow> broker \<Rightarrow> broker" where
  "process_orders views b =
     (let (b1, still, groups) =
            foldl (process_one views) (b, [], []) [0..<length (b_pending b)];
          (still', b2) = oco_sweep groups still b1
      in b2\<lparr>b_pending := still'\<rparr>)"

end
