(* ===== verification/Book.thy ===== *)
theory Book
  imports Matching
begin

text \<open>
  The abstract order book and the proof that the broker implements it. \<open>book_step\<close> is the
  specification: a transition system whose only moves are to register a new order under
  the next id, to amend a live order without filling it, and to fill a live order once, with
  the booking of cash, position and trades. \<open>broker_wf\<close> is the representation invariant of
  the two order vectors. The main result is that every operation keeps the invariant and is
  a sequence of abstract moves (\<open>process_orders\<close> included), so that whatever the abstract
  moves preserve holds of every history of the broker.
\<close>

subsection \<open>The specification\<close>

text \<open>What an amendment may not touch.\<close>

definition same_terms :: "order \<Rightarrow> order \<Rightarrow> bool" where
  "same_terms s x \<longleftrightarrow> o_id x = o_id s \<and> o_side x = o_side s \<and> o_size x = o_size s
     \<and> o_data_index x = o_data_index s \<and> o_type x = o_type s \<and> o_parent_id x = o_parent_id s
     \<and> o_oco_group_id x = o_oco_group_id s \<and> o_candidate_id x = o_candidate_id s
     \<and> o_executed_price x = o_executed_price s \<and> o_executed_size x = o_executed_size s
     \<and> o_commission x = o_commission s"

text \<open>The outcome of a fill as the booking sees it.\<close>

definition filled_order :: "order \<Rightarrow> real \<Rightarrow> real \<Rightarrow> order" where
  "filled_order ord px comm = order_execute px (o_size ord) comm ord"

inductive book_step :: "broker \<Rightarrow> broker \<Rightarrow> bool" where
  frame: "book_step b (b\<lparr>b_pending := ps, b_events := es, b_bar_index := n,
     b_next_oco_group_id := g\<rparr>)"
| touch: "book_step b (ensure_position di b)"
| register: "o_id x = b_next_order_id b \<Longrightarrow> o_status x = Created \<Longrightarrow>
     book_step b (enqueue x (b\<lparr>b_next_order_id := b_next_order_id b + 1\<rparr>))"
| amend: "find_order (o_id x) (b_all_orders b) = Some s \<Longrightarrow> is_alive s \<Longrightarrow> same_terms s x \<Longrightarrow>
     o_status x \<noteq> Completed \<Longrightarrow> book_step b (sync x b)"
| fill: "find_order (o_id x) (b_all_orders b) = Some s \<Longrightarrow> is_alive s \<Longrightarrow> is_alive x \<Longrightarrow>
     same_terms s x \<Longrightarrow> slipped_price raw x q b = Some px \<Longrightarrow> trigger_price x q = FillAt raw \<Longrightarrow>
     comm = fill_commission x px b \<Longrightarrow> \<not> cannot_afford x q px comm b \<Longrightarrow>
     book_step b (sync (filled_order x px comm)
       (book_fill (o_data_index x) (signed_size (o_side x) (o_size x)) px comm (q_dt q)
          (o_candidate_id x) b))"

abbreviation book_steps :: "broker \<Rightarrow> broker \<Rightarrow> bool" where
  "book_steps \<equiv> book_step\<^sup>*\<^sup>*"

inductive_cases book_stepE: "book_step b b'"

lemma book_steps_trans [trans]: "book_steps a b \<Longrightarrow> book_steps b c \<Longrightarrow> book_steps a c"
  by (rule rtranclp_trans)

text \<open>A quantity that no abstract move changes is constant along a history.\<close>

lemma book_steps_invariant:
  assumes "book_steps b b'" and "I b" and "\<And>x y. book_step x y \<Longrightarrow> I x \<Longrightarrow> I y"
  shows "I b'"
  using assms(1,2) by (induction rule: rtranclp_induct) (auto intro: assms(3))

subsection \<open>Frame facts\<close>

lemma sync_fields [simp]:
  "b_pending (sync x b) = b_pending b"
  "b_next_order_id (sync x b) = b_next_order_id b"
  "b_all_orders (sync x b) = sync_order x (b_all_orders b)"
  "b_bar_index (sync x b) = b_bar_index b"
  "b_events (sync x b) = b_events b"
  "b_instruments (sync x b) = b_instruments b"
  "b_base_ccy (sync x b) = b_base_ccy b"
  "b_cash (sync x b) = b_cash b"
  "b_positions (sync x b) = b_positions b"
  "b_open_trades (sync x b) = b_open_trades b"
  "b_closed_trades (sync x b) = b_closed_trades b"
  by (simp_all add: sync_def)

lemma notify_order_fields [simp]:
  "b_pending (notify_order x b) = b_pending b"
  "b_next_order_id (notify_order x b) = b_next_order_id b"
  "b_all_orders (notify_order x b) = b_all_orders b"
  "b_bar_index (notify_order x b) = b_bar_index b"
  by (simp_all add: notify_order_def emit_def)

lemma notify_trade_fields [simp]:
  "b_pending (notify_trade t z b) = b_pending b"
  "b_next_order_id (notify_trade t z b) = b_next_order_id b"
  "b_all_orders (notify_trade t z b) = b_all_orders b"
  "b_bar_index (notify_trade t z b) = b_bar_index b"
  by (simp_all add: notify_trade_def emit_def)

lemma notify_step: "book_steps b (notify_order x b)"
proof -
  have "book_step b (b\<lparr>b_pending := b_pending b, b_events := b_events b @ [OrderNote x],
      b_bar_index := b_bar_index b, b_next_oco_group_id := b_next_oco_group_id b\<rparr>)"
    by (rule book_step.frame)
  then show ?thesis by (auto simp: notify_order_def emit_def)
qed

lemma pending_step: "book_steps b (b\<lparr>b_pending := ps\<rparr>)"
proof -
  have "book_step b (b\<lparr>b_pending := ps, b_events := b_events b, b_bar_index := b_bar_index b,
      b_next_oco_group_id := b_next_oco_group_id b\<rparr>)" by (rule book_step.frame)
  then show ?thesis by auto
qed

lemma set_pending_step: "book_steps b (set_pending_at i x b)"
  unfolding set_pending_at_def by (rule pending_step)

lemma update_trades_fields [simp]:
  "b_pending (update_trades di old s px c dt cand b) = b_pending b"
  "b_next_order_id (update_trades di old s px c dt cand b) = b_next_order_id b"
  "b_all_orders (update_trades di old s px c dt cand b) = b_all_orders b"
  "b_bar_index (update_trades di old s px c dt cand b) = b_bar_index b"
  by (simp_all add: update_trades_def open_new_trade_def extend_trade_def reduce_trade_def
      close_trade_def Let_def split: option.split prod.split)

lemma book_fill_fields [simp]:
  "b_pending (book_fill di s px c dt cand b) = b_pending b"
  "b_next_order_id (book_fill di s px c dt cand b) = b_next_order_id b"
  "b_all_orders (book_fill di s px c dt cand b) = b_all_orders b"
  "b_bar_index (book_fill di s px c dt cand b) = b_bar_index b"
  by (simp_all add: book_fill_def get_position_def ensure_position_def update_position_def
      add_cash_def Let_def)

subsection \<open>The representation invariant\<close>

text \<open>
  A pending order agrees with its stored copy except possibly for the \<open>transmit\<close> flag,
  which the code sets on the pending copy alone.
\<close>

definition agrees :: "broker \<Rightarrow> order \<Rightarrow> bool" where
  "agrees b x \<longleftrightarrow> (\<exists>s. find_order (o_id x) (b_all_orders b) = Some s
                      \<and> s\<lparr>o_transmit := o_transmit x\<rparr> = x)"

definition ids_ok :: "broker \<Rightarrow> bool" where
  "ids_ok b \<longleftrightarrow> 1 \<le> b_next_order_id b \<and> map o_id (b_all_orders b) = [1..<b_next_order_id b]"

definition broker_wf :: "broker \<Rightarrow> bool" where
  "broker_wf b \<longleftrightarrow> ids_ok b \<and> sorted_wrt (<) (map o_id (b_pending b))
     \<and> (\<forall>x \<in> set (b_pending b). agrees b x \<and> o_parent_id x < o_id x)"

lemma agrees_find:
  assumes "agrees b x"
  obtains s where "find_order (o_id x) (b_all_orders b) = Some s" "same_terms s x"
    "o_status s = o_status x" "is_alive s = is_alive x"
proof -
  from assms obtain s where f: "find_order (o_id x) (b_all_orders b) = Some s"
    and e: "s\<lparr>o_transmit := o_transmit x\<rparr> = x" by (auto simp: agrees_def)
  have "same_terms s x" by (subst e [symmetric]) (simp add: same_terms_def)
  moreover have "o_status s = o_status x" by (subst e [symmetric]) simp
  ultimately show thesis using f that by (simp add: is_alive_def)
qed

lemma agrees_transmit: "agrees b x \<Longrightarrow> agrees b (x\<lparr>o_transmit := t\<rparr>)"
  by (auto simp: agrees_def) (metis order.surjective order.update_convs(21))

lemma agrees_cong:
  "b_all_orders b' = b_all_orders b \<Longrightarrow> agrees b' x = agrees b x"
  by (simp add: agrees_def)

lemma agrees_frame [simp]:
  "agrees (notify_order z b) x = agrees b x"
  "agrees (b\<lparr>b_pending := ps\<rparr>) x = agrees b x"
  "agrees (set_pending_at i z b) x = agrees b x"
  "agrees (book_fill di s px c dt cand b) x = agrees b x"
  by (simp_all add: agrees_def set_pending_at_def)

lemma agrees_sync_same:
  assumes "agrees b x" and "o_id y = o_id x"
  shows "agrees (sync y b) y"
  using assms orders.get_mem by (auto simp: agrees_def orders.get_put)

lemma agrees_sync_other:
  "agrees b x \<Longrightarrow> o_id y \<noteq> o_id x \<Longrightarrow> agrees (sync y b) x"
  by (auto simp: agrees_def orders.get_put)

lemma ids_ok_sync [simp]: "ids_ok (sync x b) = ids_ok b"
  by (simp add: ids_ok_def key_simps)

lemma ids_ok_cong:
  "b_all_orders b' = b_all_orders b \<Longrightarrow> b_next_order_id b' = b_next_order_id b \<Longrightarrow>
     ids_ok b' = ids_ok b"
  by (simp add: ids_ok_def)

lemma amend_step:
  assumes "agrees b x" and "is_alive x" and "same_terms x y" and "o_status y \<noteq> Completed"
  shows "book_steps b (sync y b)"
proof -
  from assms(1) obtain s where s: "find_order (o_id x) (b_all_orders b) = Some s"
    "same_terms s x" "is_alive s = is_alive x" by (rule agrees_find)
  have "book_step b (sync y b)"
    using s assms(2-4) by (intro book_step.amend [where s = s]) (auto simp: same_terms_def)
  then show ?thesis by blast
qed

lemma same_terms_status_op [simp]:
  "same_terms x (order_cancel x)" "same_terms x (order_reject x)" "same_terms x (order_expire x)"
  "same_terms x (order_margin x)" "same_terms x (order_submit x)" "same_terms x (order_accept x)"
  "same_terms x x"
  by (simp_all add: same_terms_def order_op_defs)

lemma status_op_alive:
  assumes "is_alive x"
  shows "o_status (order_cancel x) = Canceled" "o_status (order_reject x) = Rejected"
    "o_status (order_expire x) = Expired" "o_status (order_margin x) = Margin"
    "o_status (order_submit x) = Submitted" "o_status (order_accept x) = Accepted"
  using assms by (simp_all add: order_op_defs alive_defs)

lemma status_op_id [simp]:
  "o_id (order_cancel x) = o_id x" "o_id (order_reject x) = o_id x"
  "o_id (order_expire x) = o_id x" "o_id (order_margin x) = o_id x"
  "o_id (order_submit x) = o_id x" "o_id (order_accept x) = o_id x"
  "o_id (order_execute px z c x) = o_id x"
  by (simp_all add: order_op_defs)

lemma status_op_parent [simp]:
  "o_parent_id (order_cancel x) = o_parent_id x" "o_parent_id (order_reject x) = o_parent_id x"
  "o_parent_id (order_expire x) = o_parent_id x" "o_parent_id (order_margin x) = o_parent_id x"
  "o_parent_id (order_submit x) = o_parent_id x" "o_parent_id (order_accept x) = o_parent_id x"
  "o_parent_id (order_execute px z c x) = o_parent_id x"
  by (simp_all add: order_op_defs)

subsection \<open>The cancellation loop\<close>

lemma cancel_loop_fields:
  assumes "cancel_loop P xs b = (xs', b')"
  shows "map o_id xs' = map o_id xs \<and> map o_parent_id xs' = map o_parent_id xs
       \<and> b_pending b' = b_pending b \<and> b_next_order_id b' = b_next_order_id b
       \<and> map o_id (b_all_orders b') = map o_id (b_all_orders b) \<and> b_bar_index b' = b_bar_index b"
  using assms
proof (induction P xs b arbitrary: xs' b' rule: cancel_loop.induct)
  case (1 P b)
  then show ?case by simp
next
  case (2 P x xs b)
  then show ?case
    by (auto simp: Let_def key_simps split: if_splits prod.splits)
qed

lemma cancel_loop_agrees_other:
  assumes "cancel_loop P xs b = (xs', b')" and "agrees b y"
    and "\<And>x. x \<in> set xs \<Longrightarrow> P x \<Longrightarrow> o_id x \<noteq> o_id y"
  shows "agrees b' y"
  using assms
proof (induction P xs b arbitrary: xs' b' rule: cancel_loop.induct)
  case (1 P b)
  then show ?case by simp
next
  case (2 P x xs b)
  show ?case
  proof (cases "P x")
    case True
    obtain ys c where rec: "cancel_loop P xs (notify_order (order_cancel x) (sync (order_cancel x) b)) = (ys, c)"
      by (cases "cancel_loop P xs (notify_order (order_cancel x) (sync (order_cancel x) b))")
    have "o_id (order_cancel x) \<noteq> o_id y" using "2.prems"(3) True by simp
    then have "agrees (sync (order_cancel x) b) y"
      using "2.prems"(2) by (rule agrees_sync_other [rotated])
    then have "agrees (notify_order (order_cancel x) (sync (order_cancel x) b)) y"
      by simp
    then have "agrees c y"
      by (rule "2.IH"(1) [OF True refl rec]) (use "2.prems"(3) in auto)
    then show ?thesis using "2.prems"(1) True rec by (simp add: Let_def)
  next
    case False
    then show ?thesis
      using "2.IH"(2) "2.prems" by (auto simp: Let_def split: prod.splits)
  qed
qed

text \<open>
  Every order the loop cancels was live and agreed with the store, so each iteration is one
  amendment, and afterwards every order of the list agrees again.
\<close>

lemma cancel_loop_steps:
  assumes "cancel_loop P xs b = (xs', b')" and "distinct (map o_id xs)"
    and "\<And>x. x \<in> set xs \<Longrightarrow> P x \<Longrightarrow> is_alive x \<and> agrees b x"
  shows "book_steps b b' \<and> (\<forall>y \<in> set xs'. \<forall>x \<in> set xs. o_id x = o_id y \<longrightarrow>
           (if P x then y = order_cancel x \<and> agrees b' y else y = x))"
  using assms
proof (induction P xs b arbitrary: xs' b' rule: cancel_loop.induct)
  case (1 P b)
  then show ?case by simp
next
  case (2 P x xs b)
  have fresh: "o_id x \<notin> o_id ` set xs" using "2.prems"(2) by simp
  show ?case
  proof (cases "P x")
    case True
    let ?x = "order_cancel x"
    let ?b = "notify_order ?x (sync ?x b)"
    obtain ys c where rec: "cancel_loop P xs ?b = (ys, c)" by (cases "cancel_loop P xs ?b")
    have res: "xs' = ?x # ys" "b' = c" using "2.prems"(1) True rec by (simp_all add: Let_def)
    have ax: "is_alive x" "agrees b x" using "2.prems"(3) True by auto
    have step: "book_steps b ?b"
      using amend_step [OF ax(2,1), of ?x] ax(1) notify_step [of "sync ?x b" ?x]
      by (auto simp: status_op_alive intro: book_steps_trans)
    have ag: "agrees ?b y" if "agrees b y" "o_id y \<noteq> o_id x" for y
      using agrees_sync_other [OF that(1), of ?x] that(2) by simp
    have live: "is_alive y \<and> agrees ?b y" if "y \<in> set xs" "P y" for y
    proof -
      have "o_id y \<noteq> o_id x" using that(1) fresh by (metis imageI)
      then show ?thesis using "2.prems"(3) [of y] that ag by simp
    qed
    have IH: "book_steps ?b c \<and> (\<forall>y \<in> set ys. \<forall>z \<in> set xs. o_id z = o_id y \<longrightarrow>
        (if P z then y = order_cancel z \<and> agrees c y else y = z))"
      by (rule "2.IH"(1) [OF True refl rec]) (use "2.prems"(2) live in auto)
    have ids: "o_id ` set ys = o_id ` set xs"
      using cancel_loop_fields [OF rec] by (metis list.set_map)
    have "agrees ?b ?x"
      using agrees_sync_same [OF ax(2), of ?x] by simp
    then have agx: "agrees c ?x"
      by (rule cancel_loop_agrees_other [OF rec]) (use fresh in \<open>metis imageI status_op_id(1)\<close>)
    have "book_steps b c" using step IH by (blast intro: book_steps_trans)
    moreover have "if P z then y = order_cancel z \<and> agrees c y else y = z"
      if "y \<in> set xs'" "z \<in> set (x # xs)" "o_id z = o_id y" for y z
    proof (cases "y = ?x")
      case y: True
      then have "o_id z = o_id x" using that(3) by simp
      then have "z = x" using that(2) fresh by (metis imageI set_ConsD)
      then show ?thesis using y True agx by simp
    next
      case y: False
      then have "y \<in> set ys" using that(1) res by simp
      moreover have "z \<noteq> x"
        using \<open>y \<in> set ys\<close> that(3) fresh ids by (metis imageI)
      ultimately show ?thesis using IH that(2,3) by simp
    qed
    ultimately show ?thesis using res by blast
  next
    case False
    obtain ys c where rec: "cancel_loop P xs b = (ys, c)" by (cases "cancel_loop P xs b")
    have res: "xs' = x # ys" "b' = c" using "2.prems"(1) False rec by (simp_all add: Let_def)
    have IH: "book_steps b c \<and> (\<forall>y \<in> set ys. \<forall>z \<in> set xs. o_id z = o_id y \<longrightarrow>
        (if P z then y = order_cancel z \<and> agrees c y else y = z))"
      by (rule "2.IH"(2) [OF False rec]) (use "2.prems"(2,3) in auto)
    have ids: "o_id ` set ys = o_id ` set xs"
      using cancel_loop_fields [OF rec] by (metis list.set_map)
    have "if P z then y = order_cancel z \<and> agrees c y else y = z"
      if "y \<in> set xs'" "z \<in> set (x # xs)" "o_id z = o_id y" for y z
    proof (cases "y = x")
      case y: True
      then have "o_id z = o_id x" using that(3) by simp
      then have "z = x" using that(2) fresh by (metis imageI set_ConsD)
      then show ?thesis using y False by simp
    next
      case y: False
      then have "y \<in> set ys" using that(1) res by simp
      moreover have "z \<noteq> x"
        using \<open>y \<in> set ys\<close> that(3) fresh ids by (metis imageI)
      ultimately show ?thesis using IH that(2,3) by simp
    qed
    then show ?thesis using IH res by blast
  qed
qed

subsection \<open>Operations on one order\<close>

text \<open>
  A change of the broker on behalf of order \<open>k\<close>: a sequence of abstract moves that keeps
  the id invariant, the pending vector and the agreement of every other order.
\<close>

definition local_to :: "nat \<Rightarrow> broker \<Rightarrow> broker \<Rightarrow> bool" where
  "local_to k b b' \<longleftrightarrow> book_steps b b' \<and> (ids_ok b \<longrightarrow> ids_ok b') \<and> b_pending b' = b_pending b
     \<and> b_next_order_id b' = b_next_order_id b
     \<and> (\<forall>y. o_id y \<noteq> k \<longrightarrow> agrees b y \<longrightarrow> agrees b' y)"

lemma local_refl [simp]: "local_to k b b"
  by (simp add: local_to_def)

lemma local_trans [trans]: "local_to k a b \<Longrightarrow> local_to k b c \<Longrightarrow> local_to k a c"
  by (auto simp: local_to_def intro: book_steps_trans)

lemma local_notify: "local_to k b (notify_order x b)"
  by (auto simp: local_to_def notify_step ids_ok_def)

lemma local_sync:
  assumes "agrees b x" and "is_alive x" and "same_terms x y" and "o_status y \<noteq> Completed"
  shows "local_to (o_id x) b (sync y b)"
proof -
  have "o_id y = o_id x" using assms(3) by (simp add: same_terms_def)
  then show ?thesis
    using amend_step [OF assms] by (auto simp: local_to_def agrees_sync_other)
qed

lemma local_sync_notify:
  assumes "agrees b x" and "is_alive x" and "same_terms x y" and "o_status y \<noteq> Completed"
  shows "local_to (o_id x) b (notify_order y (sync y b)) \<and> agrees (notify_order y (sync y b)) y"
proof
  show "local_to (o_id x) b (notify_order y (sync y b))"
    using local_sync [OF assms] local_notify by (rule local_trans)
  show "agrees (notify_order y (sync y b)) y"
    using agrees_sync_same [OF assms(1), of y] assms(3) by (simp add: same_terms_def)
qed

lemma accept_created_local:
  assumes "agrees b x" and "is_alive x" and "accept_created x b = (y, b')"
  shows "local_to (o_id x) b b' \<and> agrees b' y \<and> is_alive y \<and> same_terms x y
       \<and> o_child_ids y = o_child_ids x"
proof (cases "o_status x = Created")
  case False
  then show ?thesis using assms by (simp add: accept_created_def)
next
  case True
  let ?o1 = "order_submit x"
  let ?o2 = "order_accept ?o1"
  let ?b1 = "notify_order ?o1 (sync ?o1 b)"
  have res: "y = ?o2" "b' = notify_order ?o2 (sync ?o2 ?b1)"
    using assms(3) True by (auto simp: accept_created_def Let_def)
  have s1: "o_status ?o1 = Submitted" using assms(2) by (simp add: status_op_alive)
  then have a1: "is_alive ?o1" by (simp add: is_alive_def)
  have s2: "o_status ?o2 = Accepted" using a1 by (simp add: status_op_alive)
  have l1: "local_to (o_id x) b ?b1 \<and> agrees ?b1 ?o1"
    using assms(1,2) s1 by (intro local_sync_notify) auto
  have l2: "local_to (o_id ?o1) ?b1 b' \<and> agrees b' ?o2"
    unfolding res using l1 a1 s2 by (intro local_sync_notify) auto
  have "local_to (o_id x) b b'" using l1 l2 by (auto intro: local_trans)
  moreover have "is_alive ?o2" using s2 by (simp add: is_alive_def)
  moreover have "same_terms x ?o2" "o_child_ids ?o2 = o_child_ids x"
    by (simp_all add: same_terms_def order_op_defs)
  ultimately show ?thesis using l2 res by simp
qed

lemma try_fill_local:
  assumes "agrees b x" and "is_alive x" and "try_fill_order x q b = (filled, y, b')"
  shows "local_to (o_id x) b b' \<and> agrees b' y \<and> (if filled then \<not> is_alive y else y = x \<and> b' = b)
       \<and> o_id y = o_id x \<and> o_parent_id y = o_parent_id x"
proof -
  have amend: "local_to (o_id x) b (sync z b) \<and> agrees (sync z b) z"
    if "same_terms x z" "o_status z \<noteq> Completed" for z
    using local_sync [OF assms(1,2) that] agrees_sync_same [OF assms(1), of z] that(1)
    by (simp add: same_terms_def)
  show ?thesis
  proof (cases "trigger_price x q")
    case NoFill
    then show ?thesis using assms by (simp add: try_fill_order_def)
  next
    case RejectIt
    then have "filled" "y = order_reject x" "b' = sync y b"
      using assms(3) by (auto simp: try_fill_order_def Let_def)
    then show ?thesis
      using amend [of y] assms(2) by (simp add: status_op_alive is_alive_def)
  next
    case (FillAt raw)
    note trig = FillAt
    show ?thesis
    proof (cases "slipped_price raw x q b")
      case None
      then show ?thesis using assms FillAt by (simp add: try_fill_order_def)
    next
      case (Some px)
      let ?c = "fill_commission x px b"
      show ?thesis
      proof (cases "cannot_afford x q px ?c b")
        case True
        then have "filled" "y = order_margin x" "b' = sync y b"
          using assms(3) FillAt Some by (auto simp: try_fill_order_def Let_def)
        then show ?thesis
          using amend [of y] assms(2) by (simp add: status_op_alive is_alive_def)
      next
        case False
        let ?bf = "book_fill (o_data_index x) (signed_size (o_side x) (o_size x)) px ?c (q_dt q)
                     (o_candidate_id x) b"
        have res: "filled" "y = filled_order x px ?c" "b' = sync y ?bf"
          using assms(3) FillAt Some False
          by (auto simp: try_fill_order_def Let_def filled_order_def)
        from assms(1) obtain s where s: "find_order (o_id x) (b_all_orders b) = Some s"
          "same_terms s x" "is_alive s = is_alive x" by (rule agrees_find)
        have step: "book_step b b'"
          unfolding res
          using s(1,2) s(3) assms(2) Some trig False
          by (intro book_step.fill [where s = s and raw = raw]) auto
        have idy: "o_id y = o_id x" "o_parent_id y = o_parent_id x"
          unfolding res(2) filled_order_def by simp_all
        have "agrees ?bf x" using assms(1) by simp
        then have agy: "agrees b' y" unfolding res(3) by (rule agrees_sync_same [OF _ idy(1)])
        have "agrees b' z" if "o_id z \<noteq> o_id x" "agrees b z" for z
        proof -
          have "agrees ?bf z" using that(2) by simp
          then show ?thesis unfolding res(3) by (rule agrees_sync_other) (use idy(1) that(1) in simp)
        qed
        moreover have "ids_ok b \<longrightarrow> ids_ok b'" unfolding res(3) by (simp add: ids_ok_def key_simps)
        moreover have "b_pending b' = b_pending b" "b_next_order_id b' = b_next_order_id b"
          unfolding res(3) by simp_all
        ultimately have "local_to (o_id x) b b'"
          using step by (auto simp: local_to_def)
        moreover have "\<not> is_alive y"
          unfolding res(2) filled_order_def using assms(2) by (simp add: order_op_defs alive_defs)
        ultimately show ?thesis using agy idy res(1) by simp
      qed
    qed
  qed
qed

lemma trail_local:
  assumes "agrees b x" and "is_alive x" and "update_trail_stop x q b = (y, b')"
  shows "local_to (o_id x) b b' \<and> agrees b' y \<and> is_alive y \<and> same_terms x y"
proof (cases "y = x \<and> b' = b")
  case True
  then show ?thesis using assms by simp
next
  case False
  then obtain p where y: "y = x\<lparr>o_trail_stop_price := p\<rparr>" and b': "b' = sync y b"
    using assms(3) by (auto simp: update_trail_stop_def Let_def split: if_splits)
  have terms: "same_terms x y" "o_status y = o_status x"
    by (simp_all add: y same_terms_def)
  then have alive: "is_alive y" using assms(2) by (simp add: is_alive_def)
  then have "o_status y \<noteq> Completed" by (auto simp: is_alive_def)
  then show ?thesis
    using local_sync [OF assms(1,2) terms(1)] agrees_sync_same [OF assms(1), of y] terms alive
    by (simp add: b' same_terms_def)
qed

subsection \<open>The loop\<close>

definition loop_inv :: "nat list \<Rightarrow> nat \<Rightarrow> loop_state \<Rightarrow> bool" where
  "loop_inv ids i st \<longleftrightarrow>
     (case st of (b, still, groups) \<Rightarrow>
        ids_ok b \<and> sorted_wrt (<) ids \<and> map o_id (b_pending b) = ids
        \<and> (\<forall>x \<in> set (b_pending b). o_parent_id x < o_id x)
        \<and> (\<forall>j < length ids. i \<le> j \<longrightarrow> agrees b (b_pending b ! j))
        \<and> sorted_wrt (<) (map o_id still) \<and> (\<forall>x \<in> set still. \<exists>j < i. j < length ids \<and> o_id x = ids ! j)
        \<and> (\<forall>x \<in> set still. agrees b x \<and> is_alive x \<and> o_parent_id x < o_id x))"

text \<open>
  Closing one iteration: the pending vector keeps its ids, the orders after position \<open>i\<close>
  and those already kept still agree, and the order of this iteration is either dropped or
  kept, live and in agreement.
\<close>

lemma loop_inv_close:
  assumes inv: "loop_inv ids i (b, still, groups)" and i: "i < length ids"
    and b': "ids_ok b'" "map o_id (b_pending b') = ids"
      "\<forall>x \<in> set (b_pending b'). o_parent_id x < o_id x"
    and later: "\<And>j. i < j \<Longrightarrow> j < length ids \<Longrightarrow> agrees b' (b_pending b' ! j)"
    and kept: "\<And>x. x \<in> set still \<Longrightarrow> agrees b' x"
    and new: "kept' = [] \<or> (\<exists>x. kept' = [x] \<and> o_id x = ids ! i \<and> agrees b' x \<and> is_alive x
                \<and> o_parent_id x < o_id x)"
  shows "loop_inv ids (Suc i) (b', still @ kept', groups')"
proof -
  have old: "sorted_wrt (<) ids" "sorted_wrt (<) (map o_id still)"
    "\<forall>x \<in> set still. \<exists>j < i. j < length ids \<and> o_id x = ids ! j"
    "\<forall>x \<in> set still. is_alive x \<and> o_parent_id x < o_id x"
    using inv by (auto simp: loop_inv_def)
  have less: "o_id x < ids ! i" if "x \<in> set still" for x
    using old(1,3) that i by (metis sorted_wrt_nth_less)
  show ?thesis
    using new old b' later kept less i
    by (auto simp: loop_inv_def sorted_wrt_append Suc_le_eq less_Suc_eq)
qed

lemma loop_inv_D:
  assumes "loop_inv ids i (b, still, groups)" and "i < length ids"
  shows "ids_ok b" "map o_id (b_pending b) = ids" "length (b_pending b) = length ids"
    "o_id (b_pending b ! i) = ids ! i"
    "agrees b (b_pending b ! i)" "o_parent_id (b_pending b ! i) < o_id (b_pending b ! i)"
    "\<And>j. i < j \<Longrightarrow> j < length ids \<Longrightarrow> agrees b (b_pending b ! j)"
    "\<And>j. j < length ids \<Longrightarrow> j \<noteq> i \<Longrightarrow> o_id (b_pending b ! j) \<noteq> ids ! i"
    "\<And>x. x \<in> set still \<Longrightarrow> agrees b x \<and> o_id x < ids ! i \<and> is_alive x \<and> o_parent_id x < o_id x"
proof -
  from assms(1) have parts: "ids_ok b" "map o_id (b_pending b) = ids" "sorted_wrt (<) ids"
      "\<forall>x \<in> set (b_pending b). o_parent_id x < o_id x"
      "\<forall>j < length ids. i \<le> j \<longrightarrow> agrees b (b_pending b ! j)"
      "\<forall>x \<in> set still. \<exists>j < i. j < length ids \<and> o_id x = ids ! j"
      "\<forall>x \<in> set still. agrees b x \<and> is_alive x \<and> o_parent_id x < o_id x"
    by (auto simp: loop_inv_def)
  show "ids_ok b" "map o_id (b_pending b) = ids" by (fact parts(1), fact parts(2))
  show len: "length (b_pending b) = length ids" using parts(2) by (metis length_map)
  have nth: "o_id (b_pending b ! j) = ids ! j" if "j < length ids" for j
    using parts(2) len that by (metis nth_map)
  show "o_id (b_pending b ! i) = ids ! i" using nth assms(2) by simp
  show "agrees b (b_pending b ! i)" using parts(5) assms(2) by simp
  show "o_parent_id (b_pending b ! i) < o_id (b_pending b ! i)"
    using parts(4) assms(2) len by simp
  show "\<And>j. i < j \<Longrightarrow> j < length ids \<Longrightarrow> agrees b (b_pending b ! j)" using parts(5) by simp
  show "o_id (b_pending b ! j) \<noteq> ids ! i" if "j < length ids" "j \<noteq> i" for j
    using nth that parts(3) assms(2)
    by (metis linorder_neqE_nat nat_neq_iff sorted_wrt_nth_less)
  show "agrees b x \<and> o_id x < ids ! i \<and> is_alive x \<and> o_parent_id x < o_id x"
    if "x \<in> set still" for x
    using parts(3,6,7) that assms(2) by (metis sorted_wrt_nth_less)
qed

lemma set_pending_ids:
  assumes "o_id y = o_id (b_pending b ! i)" and "i < length (b_pending b)"
  shows "map o_id (b_pending (set_pending_at i y b)) = map o_id (b_pending b)"
  using assms by (simp add: set_pending_at_def map_update list_update_same_conv)

text \<open>The shape of most branches: a local change, the order written back, kept or dropped.\<close>

lemma loop_inv_local:
  assumes inv: "loop_inv ids i (b, still, groups)" and i: "i < length ids"
    and loc: "local_to (ids ! i) b c" and y: "o_id y = ids ! i" "o_parent_id y < o_id y"
    and new: "kept' = [] \<or> (kept' = [y] \<and> agrees c y \<and> is_alive y)"
  shows "loop_inv ids (Suc i) (set_pending_at i y c, still @ kept', groups')
       \<and> book_steps b (set_pending_at i y c)"
proof
  note D = loop_inv_D [OF inv i]
  have pend: "b_pending c = b_pending b" and ok: "ids_ok c"
    and ag: "\<And>z. o_id z \<noteq> ids ! i \<Longrightarrow> agrees b z \<Longrightarrow> agrees c z"
    using loc D(1) by (auto simp: local_to_def)
  let ?d = "set_pending_at i y c"
  have ids: "map o_id (b_pending ?d) = ids"
    using set_pending_ids [of y c i] y(1) D(2,3,4) pend i by simp
  have par: "\<forall>x \<in> set (b_pending ?d). o_parent_id x < o_id x"
    using inv y(2) pend i by (auto simp: loop_inv_def set_pending_at_def dest!: set_update_subset_insert [THEN subsetD])
  have "ids_ok ?d" using ok by (simp add: ids_ok_def set_pending_at_def)
  moreover have "agrees ?d (b_pending ?d ! j)" if "i < j" "j < length ids" for j
    using that D(7,8) ag pend by (simp add: set_pending_at_def)
  moreover have "agrees ?d x" if "x \<in> set still" for x
    using D(9) [OF that] ag by simp
  ultimately show "loop_inv ids (Suc i) (?d, still @ kept', groups')"
    using ids par y new by (intro loop_inv_close [OF inv i]) auto
  show "book_steps b ?d"
    using loc set_pending_step [of c i y] by (auto simp: local_to_def intro: book_steps_trans)
qed

text \<open>A fill attempt that took the order off: notification, bracket activation or cancellation.\<close>

lemma activate_fields [simp]:
  "map o_id (b_pending (activate_bracket_children k b)) = map o_id (b_pending b)"
  "map o_parent_id (b_pending (activate_bracket_children k b)) = map o_parent_id (b_pending b)"
  "b_all_orders (activate_bracket_children k b) = b_all_orders b"
  "b_next_order_id (activate_bracket_children k b) = b_next_order_id b"
  "length (b_pending (activate_bracket_children k b)) = length (b_pending b)"
  by (simp_all add: activate_bracket_children_def comp_def if_distrib cong: if_cong)

lemma loop_inv_activate:
  assumes "loop_inv ids i (b, still, groups)"
  shows "loop_inv ids i (activate_bracket_children k b, still, groups')"
proof -
  let ?c = "activate_bracket_children k b"
  have ag: "agrees ?c x = agrees b x" for x by (simp add: agrees_def)
  have "agrees ?c (b_pending ?c ! j)" if "agrees b (b_pending b ! j)" "j < length (b_pending b)" for j
    using that by (simp add: ag agrees_transmit activate_bracket_children_def)
  moreover have "length (b_pending b) = length ids"
    using assms by (auto simp: loop_inv_def)
  moreover have "\<forall>x \<in> set (b_pending ?c). o_parent_id x < o_id x"
    using assms by (auto simp: loop_inv_def activate_bracket_children_def)
  ultimately show ?thesis
    using assms by (auto simp: loop_inv_def ag ids_ok_def)
qed

lemma activate_step: "book_steps b (activate_bracket_children k b)"
  unfolding activate_bracket_children_def by (rule pending_step)

lemma loop_inv_cancel_children:
  assumes inv: "loop_inv ids (Suc i) (b, still, groups)" and i: "i < length ids"
    and k: "k = ids ! i"
  shows "loop_inv ids (Suc i) (cancel_bracket_children k b, still, groups)
       \<and> book_steps b (cancel_bracket_children k b)"
proof -
  let ?P = "\<lambda>x. o_parent_id x = k \<and> is_alive x"
  obtain xs c where run: "cancel_loop ?P (b_pending b) b = (xs, c)"
    by (cases "cancel_loop ?P (b_pending b) b")
  have res: "cancel_bracket_children k b = c\<lparr>b_pending := xs\<rparr>"
    by (simp add: cancel_bracket_children_def cancel_pending_where_def run)
  have P: "ids_ok b" "map o_id (b_pending b) = ids" "sorted_wrt (<) ids"
      "\<forall>x \<in> set (b_pending b). o_parent_id x < o_id x"
      "\<forall>j < length ids. Suc i \<le> j \<longrightarrow> agrees b (b_pending b ! j)"
      "sorted_wrt (<) (map o_id still)"
      "\<forall>x \<in> set still. \<exists>j < Suc i. j < length ids \<and> o_id x = ids ! j"
      "\<forall>x \<in> set still. agrees b x \<and> is_alive x \<and> o_parent_id x < o_id x"
    using inv by (auto simp: loop_inv_def)
  have len: "length (b_pending b) = length ids" using P(2) by (metis length_map)
  have nth: "o_id (b_pending b ! j) = ids ! j" if "j < length ids" for j
    using P(2) len that by (metis nth_map)
  have child_later: "Suc i \<le> j" if "j < length ids" "o_parent_id (b_pending b ! j) = k" for j
  proof -
    have "k < ids ! j" using P(4) that len nth by (metis nth_mem)
    then show ?thesis using P(3) that(1) i k
      by (metis Suc_leI linorder_neqE_nat order_less_asym sorted_wrt_nth_less)
  qed
  have live: "is_alive x \<and> agrees b x" if "x \<in> set (b_pending b)" "?P x" for x
    using that P(5) child_later len by (metis in_set_conv_nth)
  have dist: "distinct (map o_id (b_pending b))"
    using P(2,3) by (simp add: strict_sorted_iff)
  note F = cancel_loop_fields [OF run]
  have S: "book_steps b c" and upd: "\<forall>y \<in> set xs. \<forall>x \<in> set (b_pending b). o_id x = o_id y \<longrightarrow>
       (if ?P x then y = order_cancel x \<and> agrees c y else y = x)"
    using cancel_loop_steps [OF run dist live] by auto
  have lenx: "length xs = length ids" using F len by (metis length_map)
  have nthx: "o_id (xs ! j) = o_id (b_pending b ! j)"
      "o_parent_id (xs ! j) = o_parent_id (b_pending b ! j)" if "j < length ids" for j
    using F that len lenx by (metis nth_map)+
  have keep: "agrees c y" if "agrees b y" "\<And>x. x \<in> set (b_pending b) \<Longrightarrow> ?P x \<Longrightarrow> o_id x \<noteq> o_id y" for y
    by (rule cancel_loop_agrees_other [OF run that])
  have later: "agrees c (xs ! j)" if "j < length ids" "Suc i \<le> j" for j
  proof (cases "?P (b_pending b ! j)")
    case True
    then show ?thesis using upd that nthx len lenx by (metis nth_mem)
  next
    case False
    then have eq: "xs ! j = b_pending b ! j" using upd that nthx len lenx by (metis nth_mem)
    have "o_id x \<noteq> o_id (b_pending b ! j)" if "x \<in> set (b_pending b)" "?P x" for x
      using that False dist len \<open>j < length ids\<close>
      by (metis (no_types, lifting) distinct_map inj_onD nth_mem)
    then show ?thesis unfolding eq by (intro keep) (use P(5) that in auto)
  qed
  have still: "agrees c x" if x: "x \<in> set still" for x
  proof (rule keep)
    show "agrees b x" using P(8) x by simp
    fix z assume z: "z \<in> set (b_pending b)" "?P z"
    then obtain j where j: "j < length ids" "z = b_pending b ! j"
      using len by (metis in_set_conv_nth)
    have "Suc i \<le> j" using child_later j z(2) by simp
    moreover obtain l where l: "l < Suc i" "l < length ids" "o_id x = ids ! l" using P(7) x by blast
    ultimately have "ids ! l < ids ! j" using P(3) j(1) by (simp add: sorted_wrt_nth_less)
    then show "o_id z \<noteq> o_id x" using l(3) j nth by simp
  qed
  have "ids_ok c" using P(1) F by (simp add: ids_ok_def)
  moreover have "\<forall>x \<in> set xs. o_parent_id x < o_id x"
    using P(4) nthx lenx len by (metis in_set_conv_nth nth_mem)
  moreover have "book_steps b (c\<lparr>b_pending := xs\<rparr>)"
    using S pending_step by (rule book_steps_trans)
  ultimately show ?thesis
    unfolding res using P F later still by (simp add: loop_inv_def ids_ok_def)
qed

lemma loop_inv_notify:
  "loop_inv ids i (b, still, groups) \<Longrightarrow> loop_inv ids i (notify_order x b, still, groups')"
  by (simp add: loop_inv_def ids_ok_def)

lemma after_fill_inv:
  assumes inv: "loop_inv ids i (b, still, groups)" and i: "i < length ids"
    and loc: "local_to (ids ! i) b c" and y: "o_id y = ids ! i" "o_parent_id y < o_id y"
    and res: "after_fill i y (c, still, groups) = st'"
  shows "loop_inv ids (Suc i) st' \<and> book_steps b (fst st')"
proof -
  let ?b0 = "set_pending_at i y c"
  let ?b1 = "notify_order y ?b0"
  let ?g = "if o_oco_group_id y \<noteq> 0 \<and> o_status y = Completed
            then groups @ [o_oco_group_id y] else groups"
  let ?b2 = "if o_status y = Completed \<and> o_child_ids y \<noteq> []
             then activate_bracket_children (o_id y) ?b1 else ?b1"
  let ?b3 = "if o_parent_id y = 0 \<and> o_child_ids y \<noteq> []
               \<and> (o_status y = Canceled \<or> o_status y = Rejected \<or> o_status y = Margin
                  \<or> o_status y = Expired)
             then cancel_bracket_children (o_id y) ?b2 else ?b2"
  have st': "st' = (?b3, still, ?g)" using res by (auto simp: after_fill_def Let_def)
  have 0: "loop_inv ids (Suc i) (?b0, still, groups) \<and> book_steps b ?b0"
    using loop_inv_local [OF inv i loc y, of "[]" groups] by simp
  have 1: "loop_inv ids (Suc i) (?b1, still, ?g) \<and> book_steps b ?b1"
    using 0 loop_inv_notify notify_step [of ?b0 y] by (blast intro: book_steps_trans)
  have 2: "loop_inv ids (Suc i) (?b2, still, ?g) \<and> book_steps b ?b2"
    using 1 loop_inv_activate activate_step [of ?b1 "o_id y"]
    by (auto intro: book_steps_trans)
  have "loop_inv ids (Suc i) (?b3, still, ?g) \<and> book_steps b ?b3"
    using 2 loop_inv_cancel_children [OF _ i y(1)] by (auto intro: book_steps_trans)
  then show ?thesis unfolding st' by simp
qed

lemma process_live_inv:
  assumes inv: "loop_inv ids i (b, still, groups)" and i: "i < length ids"
    and x: "o_id x = ids ! i" "agrees b x" "is_alive x" "o_parent_id x < o_id x"
  shows "loop_inv ids (Suc i) (process_live i x q (b, still, groups))
       \<and> book_steps b (fst (process_live i x q (b, still, groups)))"
proof -
  obtain o1 b1 where a: "accept_created x b = (o1, b1)" by (cases "accept_created x b")
  obtain f o2 b2 where t: "try_fill_order o1 q b1 = (f, o2, b2)" by (cases "try_fill_order o1 q b1")
  have A: "local_to (o_id x) b b1" "agrees b1 o1" "is_alive o1" "same_terms x o1"
    using accept_created_local [OF x(2,3) a] by auto
  have T: "local_to (o_id o1) b1 b2" "agrees b2 o2" "if f then \<not> is_alive o2 else o2 = o1 \<and> b2 = b1"
      "o_id o2 = o_id o1" "o_parent_id o2 = o_parent_id o1"
    using try_fill_local [OF A(2,3) t] by auto
  have id1: "o_id o1 = ids ! i" "o_parent_id o1 = o_parent_id x"
    using A(4) x(1) by (simp_all add: same_terms_def)
  have loc2: "local_to (ids ! i) b b2" using A(1) T(1) x(1) id1 by (auto intro: local_trans)
  show ?thesis
  proof (cases f)
    case True
    have res: "process_live i x q (b, still, groups) = after_fill i o2 (b2, still, groups)"
      by (simp add: process_live_def a t True)
    show ?thesis
      unfolding res using T id1 x by (intro after_fill_inv [OF inv i loc2 _ _ refl]) auto
  next
    case False
    then have o2: "o2 = o1" "b2 = b1" using T(3) by auto
    obtain o3 b3 where u: "(if is_trail o2 then update_trail_stop o2 q b2 else (o2, b2)) = (o3, b3)"
      by (cases "if is_trail o2 then update_trail_stop o2 q b2 else (o2, b2)")
    have U: "local_to (o_id o2) b2 b3 \<and> agrees b3 o3 \<and> is_alive o3 \<and> same_terms o2 o3"
    proof (cases "is_trail o2")
      case True
      then show ?thesis using u trail_local [of b2 o2 q o3 b3] T(2) A(3) o2 by simp
    next
      case False
      then show ?thesis using u T(2) A(3) o2 by auto
    qed
    have res: "process_live i x q (b, still, groups) = (set_pending_at i o3 b3, still @ [o3], groups)"
      using u by (simp add: process_live_def a t False)
    have "local_to (ids ! i) b b3" using loc2 U T(4) id1 by (auto intro: local_trans)
    moreover have "o_id o3 = ids ! i" "o_parent_id o3 < o_id o3"
      using U T id1 x by (auto simp: same_terms_def)
    ultimately show ?thesis
      unfolding res fst_conv using U by (intro loop_inv_local [OF inv i]) auto
  qed
qed

lemma process_one_inv:
  assumes inv: "loop_inv ids i st" and i: "i < length ids"
  shows "loop_inv ids (Suc i) (process_one views st i)
       \<and> book_steps (fst st) (fst (process_one views st i))"
proof -
  obtain b still groups where st: "st = (b, still, groups)" by (cases st)
  note inv' = inv [unfolded st]
  note D = loop_inv_D [OF inv' i]
  let ?x0 = "b_pending b ! i"
  have skip: "loop_inv ids (Suc i) (b, still @ kept', groups)"
    if "kept' = [] \<or> kept' = [?x0] \<and> is_alive ?x0" for kept'
    using that inv' D by (intro loop_inv_close [OF inv' i]) (auto simp: loop_inv_def)
  show ?thesis
  proof (cases "is_alive ?x0")
    case False
    then show ?thesis using skip [of "[]"] by (simp add: st process_one_def)
  next
    case alive: True
    show ?thesis
    proof (cases "\<not> o_transmit ?x0 \<and> o_parent_id ?x0 \<noteq> 0 \<and> \<not> is_parent_filled (o_parent_id ?x0) b")
      case True
      then show ?thesis using skip [of "[?x0]"] alive by (simp add: st process_one_def)
    next
      case gate: False
      define x where "x = (if \<not> o_transmit ?x0 \<and> o_parent_id ?x0 \<noteq> 0
                           then ?x0\<lparr>o_transmit := True\<rparr> else ?x0)"
      have x: "o_id x = ids ! i" "agrees b x" "is_alive x" "o_parent_id x < o_id x"
        using D(4,5,6) alive by (simp_all add: x_def agrees_transmit is_alive_def)
      have amend: "loop_inv ids (Suc i) (notify_order y (sync y (set_pending_at i y b)), still, groups)
          \<and> book_steps b (notify_order y (sync y (set_pending_at i y b)))"
        if y: "same_terms x y" "o_status y \<noteq> Completed" for y
      proof -
        have loc: "local_to (o_id x) b (sync y b)" using local_sync [OF x(2,3) y] .
        have par: "o_id y = ids ! i" "o_parent_id y < o_id y"
          using y(1) x by (auto simp: same_terms_def)
        have comm: "sync y (set_pending_at i y b) = set_pending_at i y (sync y b)"
          by (simp add: sync_def set_pending_at_def)
        have "loop_inv ids (Suc i) (set_pending_at i y (sync y b), still @ [], groups)
            \<and> book_steps b (set_pending_at i y (sync y b))"
          using loc x(1) par by (intro loop_inv_local [OF inv' i]) auto
        then show ?thesis
          unfolding comm using loop_inv_notify notify_step [of "set_pending_at i y (sync y b)" y]
          by (auto intro: book_steps_trans)
      qed
      have res: "process_one views st i =
        (if length views \<le> o_data_index x then
           (notify_order (order_reject x) (sync (order_reject x) (set_pending_at i (order_reject x) b)),
            still, groups)
         else (case views ! o_data_index x of
             None \<Rightarrow> (set_pending_at i x b, still @ [x], groups)
           | Some q \<Rightarrow>
               if expired x b then
                 (notify_order (order_expire x)
                    (sync (order_expire x) (set_pending_at i (order_expire x) b)), still, groups)
               else process_live i x q (b, still, groups)))"
        using alive gate
        by (simp only: st process_one_def Let_def prod.case x_def [symmetric] if_False simp_thms)
      show ?thesis
      proof (cases "length views \<le> o_data_index x")
        case True
        then show ?thesis
          unfolding res using amend [of "order_reject x"] x(3) by (simp add: st status_op_alive)
      next
        case False
        show ?thesis
        proof (cases "views ! o_data_index x")
          case None
          have "loop_inv ids (Suc i) (set_pending_at i x b, still @ [x], groups)
              \<and> book_steps b (set_pending_at i x b)"
            using x by (intro loop_inv_local [OF inv' i]) auto
          then show ?thesis unfolding res using False None by (simp add: st)
        next
          case (Some q)
          show ?thesis
          proof (cases "expired x b")
            case True
            then show ?thesis
              unfolding res using False Some amend [of "order_expire x"] x(3)
              by (simp add: st status_op_alive)
          next
            case nexp: False
            show ?thesis
              unfolding res using False Some nexp process_live_inv [OF inv' i x] by (simp add: st)
          qed
        qed
      qed
    qed
  qed
qed

lemma process_loop_inv:
  assumes "loop_inv ids i st" and "i + n \<le> length ids"
  shows "loop_inv ids (i + n) (foldl (process_one views) st [i..<i + n])
       \<and> book_steps (fst st) (fst (foldl (process_one views) st [i..<i + n]))"
  using assms
proof (induction n)
  case 0
  then show ?case by simp
next
  case (Suc n)
  then have IH: "loop_inv ids (i + n) (foldl (process_one views) st [i..<i + n])"
      "book_steps (fst st) (fst (foldl (process_one views) st [i..<i + n]))" by auto
  show ?case
    using process_one_inv [OF IH(1), of views] Suc.prems(2) IH(2)
    by (auto intro: book_steps_trans)
qed

lemma loop_inv_start: "broker_wf b \<Longrightarrow> loop_inv (map o_id (b_pending b)) 0 (b, [], [])"
  by (auto simp: broker_wf_def loop_inv_def)

subsection \<open>The refinement\<close>

lemma sorted_filter_ids:
  "sorted_wrt (<) (map o_id xs) \<Longrightarrow> sorted_wrt (<) (map o_id (filter P xs))"
  by (induction xs) auto

lemma cancel_pending_where_wf:
  assumes wf: "broker_wf b" and P: "\<And>x. P x \<Longrightarrow> is_alive x"
  shows "broker_wf (cancel_pending_where P b) \<and> book_steps b (cancel_pending_where P b)"
proof -
  obtain xs c where run: "cancel_loop P (b_pending b) b = (xs, c)"
    by (cases "cancel_loop P (b_pending b) b")
  have dist: "distinct (map o_id (b_pending b))"
    using wf by (simp add: broker_wf_def strict_sorted_iff)
  have live: "is_alive x \<and> agrees b x" if "x \<in> set (b_pending b)" "P x" for x
    using that wf P by (auto simp: broker_wf_def)
  note F = cancel_loop_fields [OF run]
  have S: "book_steps b c" and upd: "\<forall>y \<in> set xs. \<forall>x \<in> set (b_pending b). o_id x = o_id y \<longrightarrow>
       (if P x then y = order_cancel x \<and> agrees c y else y = x)"
    using cancel_loop_steps [OF run dist live] by auto
  have each: "agrees c y \<and> o_parent_id y < o_id y" if y: "y \<in> set xs" for y
  proof -
    have "o_id y \<in> o_id ` set (b_pending b)" using F y by (metis image_eqI list.set_map)
    then obtain x where x: "x \<in> set (b_pending b)" "o_id x = o_id y" by auto
    have px: "o_parent_id x < o_id x" "agrees b x" using wf x(1) by (auto simp: broker_wf_def)
    show ?thesis
    proof (cases "P x")
      case True
      then show ?thesis using upd x y px by force
    next
      case False
      then have "y = x" using upd x y by force
      moreover have "agrees c x"
        using False x(1) dist px(2)
        by (intro cancel_loop_agrees_other [OF run]) (metis distinct_map inj_onD)+
      ultimately show ?thesis using px by simp
    qed
  qed
  have "book_steps b (c\<lparr>b_pending := xs\<rparr>)" using S pending_step by (rule book_steps_trans)
  then show ?thesis
    using wf F each
    by (simp add: cancel_pending_where_def run broker_wf_def ids_ok_def)
qed

lemma process_orders_wf:
  assumes wf: "broker_wf b"
  shows "broker_wf (process_orders views b) \<and> book_steps b (process_orders views b)
       \<and> (\<forall>x \<in> set (b_pending (process_orders views b)). is_alive x)
       \<and> o_id ` set (b_pending (process_orders views b)) \<subseteq> o_id ` set (b_pending b)"
proof -
  let ?ids = "map o_id (b_pending b)"
  let ?n = "length (b_pending b)"
  obtain b1 still groups where run: "foldl (process_one views) (b, [], []) [0..<?n] = (b1, still, groups)"
    by (cases "foldl (process_one views) (b, [], []) [0..<?n]")
  have L: "loop_inv ?ids ?n (b1, still, groups)" "book_steps b b1"
    using process_loop_inv [OF loop_inv_start [OF wf], of ?n views] run by auto
  obtain still' b2 where sw: "oco_sweep groups still b1 = (still', b2)"
    by (cases "oco_sweep groups still b1")
  have res: "process_orders views b = b2\<lparr>b_pending := still'\<rparr>"
    by (simp add: process_orders_def run sw)
  have P: "ids_ok b1" "sorted_wrt (<) (map o_id still)"
      "\<And>x. x \<in> set still \<Longrightarrow> agrees b1 x \<and> is_alive x \<and> o_parent_id x < o_id x"
      "\<And>x. x \<in> set still \<Longrightarrow> \<exists>j < ?n. o_id x = ?ids ! j"
    using L(1) by (auto simp: loop_inv_def)
  have sub: "o_id ` set still \<subseteq> o_id ` set (b_pending b)"
  proof
    fix k assume "k \<in> o_id ` set still"
    then obtain j where "j < ?n" "k = ?ids ! j" using P(4) by blast
    then show "k \<in> o_id ` set (b_pending b)" by simp
  qed
  let ?c = "b1\<lparr>b_pending := still\<rparr>"
  have wf1: "broker_wf ?c" using P by (auto simp: broker_wf_def ids_ok_def)
  have step1: "book_steps b ?c" using L(2) pending_step by (rule book_steps_trans)
  show ?thesis
  proof (cases "groups = []")
    case True
    then have "still' = still" "b2 = b1" using sw by (auto simp: oco_sweep_def)
    then show ?thesis using res wf1 step1 P(3) sub by auto
  next
    case False
    let ?P = "\<lambda>x. o_oco_group_id x \<noteq> 0 \<and> is_alive x \<and> o_oco_group_id x \<in> set groups"
    obtain xs c where cl: "cancel_loop ?P still b1 = (xs, c)" by (cases "cancel_loop ?P still b1")
    have frame: "cancel_loop Q ys (a\<lparr>b_pending := zs\<rparr>)
        = (fst (cancel_loop Q ys a), (snd (cancel_loop Q ys a))\<lparr>b_pending := zs\<rparr>)" for Q ys a zs
    proof (induction Q ys a rule: cancel_loop.induct)
      case (2 Q x xs a)
      have "notify_order y (sync y (a\<lparr>b_pending := zs\<rparr>))
          = (notify_order y (sync y a))\<lparr>b_pending := zs\<rparr>" for y
        by (simp add: notify_order_def sync_def emit_def)
      then show ?case using 2 by (auto simp: Let_def split: prod.splits)
    qed simp
    have cpw: "cancel_pending_where ?P ?c = c\<lparr>b_pending := xs\<rparr>"
      using cl by (simp add: cancel_pending_where_def frame)
    have wf2: "broker_wf (c\<lparr>b_pending := xs\<rparr>)" "book_steps ?c (c\<lparr>b_pending := xs\<rparr>)"
      using cancel_pending_where_wf [OF wf1, of ?P] unfolding cpw by auto
    have out: "still' = filter is_alive xs" "b2 = c"
      using sw False cl by (simp_all add: oco_sweep_def)
    have ids: "o_id ` set xs = o_id ` set still"
      using cancel_loop_fields [OF cl] by (metis list.set_map)
    have "broker_wf (c\<lparr>b_pending := filter is_alive xs\<rparr>)"
      using wf2(1) by (auto simp: broker_wf_def ids_ok_def sorted_filter_ids)
    moreover have "book_steps b (c\<lparr>b_pending := filter is_alive xs\<rparr>)"
      using step1 wf2(2) pending_step [of "c\<lparr>b_pending := xs\<rparr>" "filter is_alive xs"]
      by (auto intro: book_steps_trans)
    ultimately show ?thesis using res out ids sub by auto
  qed
qed

end
