(* ===== verification/Session.thy ===== *)
theory Session
  imports Book
begin

text \<open>
  Histories of a backtesting client of the broker: any sequence of the public calls that
  place, bracket, close and cancel orders and of the per-bar call \<open>process_orders\<close>. The main
  theorem says that every history keeps the representation invariant \<open>broker_wf\<close> and is a
  sequence of moves of the abstract order book (theory \<open>Book\<close>), and never throws.
\<close>

datatype client_call =
  Place order_side real real "real option" order_type nat
| PlaceExt order_side real order_params
| Bracket order_side real real real nat
| Cancel nat
| CloseOut nat
| NextOco
| BarIndex nat
| Bar "view list"

fun client_step :: "client_call \<Rightarrow> broker \<Rightarrow> exn + broker" where
  "client_step (Place sd sz price sp ty di) b =
     bind_r (if sd = Buy then buy sz price sp ty di b else sell sz price sp ty di b) (\<lambda>r. Inr (snd r))"
| "client_step (PlaceExt sd sz params) b =
     bind_r (if sd = Buy then buy_ext sz params b else sell_ext sz params b) (\<lambda>r. Inr (snd r))"
| "client_step (Bracket sd sz lp sp di) b = Inr (snd (bracket sd sz lp sp di b))"
| "client_step (Cancel oid) b = cancel_order oid b"
| "client_step (CloseOut di) b = bind_r (close di b) (\<lambda>r. Inr (snd r))"
| "client_step NextOco b = Inr (snd (next_oco_group b))"
| "client_step (BarIndex n) b = Inr (set_bar_index n b)"
| "client_step (Bar views) b = Inr (process_orders views b)"

fun client_run :: "client_call list \<Rightarrow> broker \<Rightarrow> exn + broker" where
  "client_run [] b = Inr b"
| "client_run (c # cs) b = bind_r (client_step c b) (client_run cs)"

text \<open>A call that names a parent names an order that exists already (or 0, none).\<close>

fun admissible :: "client_call \<Rightarrow> broker \<Rightarrow> bool" where
  "admissible (PlaceExt sd sz params) b = (op_parent_id params < b_next_order_id b)"
| "admissible _ b = True"

fun admissible_run :: "client_call list \<Rightarrow> broker \<Rightarrow> bool" where
  "admissible_run [] b = True"
| "admissible_run (c # cs) b =
     (admissible c b \<and>
      (case client_step c b of Inl e \<Rightarrow> True | Inr b' \<Rightarrow> admissible_run cs b'))"

subsection \<open>What no abstract move changes\<close>

definition same_setup :: "broker \<Rightarrow> broker \<Rightarrow> bool" where
  "same_setup b b' \<longleftrightarrow> b_live b' = b_live b \<and> b_base_ccy b' = b_base_ccy b
     \<and> b_initial_cash b' = b_initial_cash b \<and> b_fx b' = b_fx b \<and> b_commission b' = b_commission b
     \<and> b_instruments b' = b_instruments b \<and> b_pre_order_hook b' = b_pre_order_hook b
     \<and> b_slip_perc b' = b_slip_perc b \<and> b_slip_fixed b' = b_slip_fixed b
     \<and> b_slip_open b' = b_slip_open b \<and> b_slip_limit b' = b_slip_limit b
     \<and> b_slip_match b' = b_slip_match b \<and> b_slip_out b' = b_slip_out b"

lemma same_setup_refl [simp]: "same_setup b b"
  by (simp add: same_setup_def)

lemma same_setup_trans: "same_setup a b \<Longrightarrow> same_setup b c \<Longrightarrow> same_setup a c"
  by (simp add: same_setup_def)

lemma notify_trade_setup: "same_setup b (notify_trade t z b)"
  by (simp add: same_setup_def notify_trade_def emit_def)

lemma close_trade_setup: "same_setup b (close_trade t z b)"
  by (simp add: same_setup_def close_trade_def notify_trade_def emit_def)

lemma update_trades_setup: "same_setup b (update_trades di old s px c dt cand b)"
proof -
  have 1: "same_setup b (open_new_trade di s px c dt cand b)" for s px c b
    by (simp add: same_setup_def open_new_trade_def Let_def)
  have 2: "same_setup b ((close_trade t z b)\<lparr>b_open_trades := ts\<rparr>)" for t z ts
    using close_trade_setup [of b t z] by (simp add: same_setup_def)
  have 3: "same_setup b (reduce_trade di s px c dt cand b)"
    using same_setup_trans [OF 2 1] 2
    by (auto simp: reduce_trade_def Let_def same_setup_def split: option.split prod.split)
  have 4: "same_setup b (extend_trade di s px c dt b)"
    by (simp add: same_setup_def extend_trade_def)
  show ?thesis using 1 3 4 by (simp add: update_trades_def)
qed

lemma book_fill_setup: "same_setup b (book_fill di s px c dt cand b)"
proof -
  have "same_setup b (update_position di s px (snd (get_position di (add_cash ccy a b))))" for ccy a
    by (simp add: same_setup_def update_position_def get_position_def ensure_position_def
        add_cash_def Let_def)
  then show ?thesis
    unfolding book_fill_def Let_def case_prod_beta
    by (rule same_setup_trans [OF _ update_trades_setup])
qed

lemma book_step_setup: "book_step b b' \<Longrightarrow> same_setup b b'"
proof (induction rule: book_step.induct)
  case (fill x b s raw q px comm)
  show ?case
    by (rule same_setup_trans [OF book_fill_setup]) (simp add: same_setup_def sync_def)
qed (simp_all add: same_setup_def sync_def enqueue_def ensure_position_def)

lemma book_steps_setup: "book_steps b b' \<Longrightarrow> same_setup b b'"
  by (induction rule: rtranclp_induct) (auto intro: same_setup_trans book_step_setup)

subsection \<open>Submission\<close>

lemma find_append:
  "find P (xs @ ys) = (case find P xs of Some x \<Rightarrow> Some x | None \<Rightarrow> find P ys)"
  by (induction xs) auto

lemma enqueue_wf:
  assumes wf: "broker_wf b"
    and x: "o_id x = b_next_order_id b" "o_status x = Created" "o_parent_id x < o_id x"
  shows "broker_wf (enqueue x (b\<lparr>b_next_order_id := b_next_order_id b + 1\<rparr>))
       \<and> book_steps b (enqueue x (b\<lparr>b_next_order_id := b_next_order_id b + 1\<rparr>))"
proof
  let ?b = "enqueue x (b\<lparr>b_next_order_id := b_next_order_id b + 1\<rparr>)"
  show "book_steps b ?b" using x by (blast intro: book_step.register)
  have ids: "map o_id (b_all_orders b) = [1..<b_next_order_id b]" "1 \<le> b_next_order_id b"
    using wf by (auto simp: broker_wf_def ids_ok_def)
  have mem: "o_id y < b_next_order_id b" if "y \<in> set (b_all_orders b)" for y
  proof -
    have "o_id y \<in> set (map o_id (b_all_orders b))" using that by simp
    then show ?thesis by (simp add: ids(1))
  qed
  have old: "find_order k (b_all_orders b @ [x]) = Some s" if "find_order k (b_all_orders b) = Some s" for k s
    using that by (simp add: find_order_def find_append)
  have new: "find_order (o_id x) (b_all_orders b @ [x]) = Some x"
  proof -
    have "o_id x \<notin> o_id ` set (b_all_orders b)" using mem x(1) by (metis imageE less_irrefl)
    then show ?thesis by (simp add: find_order_def find_append find_key_None [THEN iffD2])
  qed
  have pend: "o_id y < o_id x \<and> agrees b y \<and> o_parent_id y < o_id y" if y: "y \<in> set (b_pending b)" for y
  proof -
    have a: "agrees b y" "o_parent_id y < o_id y" using wf y by (auto simp: broker_wf_def)
    then obtain s where "find_order (o_id y) (b_all_orders b) = Some s" by (auto simp: agrees_def)
    then have "s \<in> set (b_all_orders b)" "o_id s = o_id y"
      by (auto simp: find_order_def dest: find_key_Some)
    then show ?thesis using mem a x(1) by force
  qed
  show "broker_wf ?b"
    using wf ids x pend new old
    by (auto simp: broker_wf_def ids_ok_def enqueue_def agrees_def sorted_wrt_append)
qed

lemma submit_order_wf:
  assumes "broker_wf b"
  shows "broker_wf (snd (submit_order sd sz price sp ty di b))
       \<and> book_steps b (snd (submit_order sd sz price sp ty di b))"
proof -
  have "0 < b_next_order_id b" using assms by (simp add: broker_wf_def ids_ok_def)
  then show ?thesis
    using assms
    by (simp add: submit_order_def Let_def new_order_def enqueue_wf [OF assms, simplified])
qed

lemma submit_order_ext_wf:
  assumes "broker_wf b" and "op_parent_id p < b_next_order_id b"
  shows "broker_wf (snd (submit_order_ext sd sz p b))
       \<and> book_steps b (snd (submit_order_ext sd sz p b))"
  using assms
  by (simp add: submit_order_ext_def Let_def new_order_def enqueue_wf [OF assms(1), simplified])

lemma submit_order_next:
  "submit_order sd sz price sp ty di b = (k, b') \<Longrightarrow>
     (k = 0 \<and> b' = b) \<or> (k = b_next_order_id b \<and> b_next_order_id b' = k + 1
        \<and> (\<exists>x. o_id x = k \<and> o_status x = Created \<and> b_all_orders b' = b_all_orders b @ [x]
              \<and> b_pending b' = b_pending b @ [x]))"
  by (auto simp: submit_order_def enqueue_def new_order_def Let_def split: if_splits)

lemma submit_order_ext_next:
  "submit_order_ext sd sz p b = (k, b') \<Longrightarrow>
     (k = 0 \<and> b' = b) \<or> (k = b_next_order_id b \<and> b_next_order_id b' = k + 1
        \<and> (\<exists>x. o_id x = k \<and> o_status x = Created \<and> b_all_orders b' = b_all_orders b @ [x]
              \<and> b_pending b' = b_pending b @ [x]))"
  by (auto simp: submit_order_ext_def enqueue_def new_order_def Let_def split: if_splits)

subsection \<open>Brackets\<close>

lemma find_set_child_ids:
  "find_order k (set_child_ids m kids os) =
     (if k = m then map_option (\<lambda>x. x\<lparr>o_child_ids := kids\<rparr>) (find_order k os) else find_order k os)"
  unfolding find_order_def set_child_ids_def by (induction os) auto

lemma upd_first_const: "find P xs = Some s \<Longrightarrow> upd_first P f xs = upd_first P (\<lambda>_. f s) xs"
  by (induction xs) auto

lemma set_child_ids_sync:
  assumes "find_order m os = Some s"
  shows "set_child_ids m kids os = sync_order (s\<lparr>o_child_ids := kids\<rparr>) os"
proof -
  have "o_id s = m" using assms by (auto simp: find_order_def dest: find_key_Some)
  then show ?thesis
    using upd_first_const [OF assms [unfolded find_order_def], of "o_child_ids_update (\<lambda>_. kids)"]
    by (simp add: set_child_ids_def sync_order_def store_first_def)
qed

lemma set_child_ids_absent: "find_order m os = None \<Longrightarrow> set_child_ids m kids os = os"
  unfolding find_order_def set_child_ids_def find_None_iff by (rule upd_first_id) blast

lemma map_set_child_ids [simp]:
  "map o_id (set_child_ids m kids os) = map o_id os"
  "map o_parent_id (set_child_ids m kids os) = map o_parent_id os"
  by (simp_all add: set_child_ids_def map_upd_first)

lemma upd_first_map:
  "distinct (map key xs) \<Longrightarrow>
     upd_first (\<lambda>x. key x = m) f xs = map (\<lambda>x. if key x = m then f x else x) xs"
proof (induction xs)
  case (Cons a xs)
  then have "key a = m \<Longrightarrow> map (\<lambda>x. if key x = m then f x else x) xs = xs"
    by (intro map_idI) (force simp: image_iff)
  then show ?case using Cons by auto
qed simp

lemma set_child_ids_mem:
  assumes "distinct (map o_id os)" and "x \<in> set (set_child_ids m kids os)"
  shows "\<exists>y \<in> set os. x = (if o_id y = m then y\<lparr>o_child_ids := kids\<rparr> else y)"
  using assms by (auto simp: set_child_ids_def upd_first_map)

text \<open>Writing the children of a live order is one amendment.\<close>

lemma link_children_wf:
  fixes kids :: "nat list"
  assumes wf: "broker_wf b"
    and m: "find_order m (b_all_orders b) = None \<or>
            (\<exists>s. find_order m (b_all_orders b) = Some s \<and> o_status s = Created)"
  defines "c \<equiv> b\<lparr>b_all_orders := set_child_ids m kids (b_all_orders b),
                   b_pending := set_child_ids m kids (b_pending b)\<rparr>"
  shows "broker_wf c \<and> book_steps b c"
proof
  have parts: "ids_ok b" "sorted_wrt (<) (map o_id (b_pending b))"
      "\<forall>x \<in> set (b_pending b). agrees b x \<and> o_parent_id x < o_id x"
    using wf by (auto simp: broker_wf_def)
  have dist: "distinct (map o_id (b_pending b))" using parts(2) by (simp add: strict_sorted_iff)
  have each: "agrees c x \<and> o_parent_id x < o_id x"
    if mem: "x \<in> set (set_child_ids m kids (b_pending b))" for x
  proof -
    from set_child_ids_mem [OF dist mem] obtain y where y: "y \<in> set (b_pending b)"
      "x = (if o_id y = m then y\<lparr>o_child_ids := kids\<rparr> else y)" by blast
    from y(1) parts(3) have a: "agrees b y" "o_parent_id y < o_id y" by auto
    then obtain s where "find_order (o_id y) (b_all_orders b) = Some s"
        "s\<lparr>o_transmit := o_transmit y\<rparr> = y" by (auto simp: agrees_def)
    moreover from this(2) have "s\<lparr>o_child_ids := kids, o_transmit := o_transmit y\<rparr>
        = y\<lparr>o_child_ids := kids\<rparr>" by (metis order.unfold_congs(20) order.surjective
          order.update_convs(20) order.update_convs(21))
    ultimately show ?thesis
      using a y(2) by (auto simp: agrees_def c_def find_set_child_ids)
  qed
  show "broker_wf c" using parts each by (simp add: broker_wf_def ids_ok_def c_def)
  show "book_steps b c"
  proof (cases "find_order m (b_all_orders b)")
    case None
    then show ?thesis
      using pending_step [of b "set_child_ids m kids (b_pending b)"]
      by (simp add: c_def set_child_ids_absent)
  next
    case (Some s)
    let ?s = "s\<lparr>o_child_ids := kids\<rparr>"
    have st: "o_status s = Created" using m Some by auto
    have "book_step b (sync ?s b)"
    proof (rule book_step.amend)
      show "find_order (o_id ?s) (b_all_orders b) = Some s"
        using Some by (auto simp: find_order_def dest: find_key_Some)
      show "is_alive s" "same_terms s ?s" "o_status ?s \<noteq> Completed"
        using st by (simp_all add: is_alive_def same_terms_def)
    qed
    moreover have "c = (sync ?s b)\<lparr>b_pending := set_child_ids m kids (b_pending b)\<rparr>"
      using set_child_ids_sync [OF Some] by (simp add: c_def sync_def)
    ultimately show ?thesis
      using pending_step [of "sync ?s b" "set_child_ids m kids (b_pending b)"]
      by (metis converse_rtranclp_into_rtranclp)
  qed
qed

text \<open>The main order of a bracket is still \<open>Created\<close> when its children are linked.\<close>

definition fresh_or_absent :: "nat \<Rightarrow> broker \<Rightarrow> bool" where
  "fresh_or_absent m b \<longleftrightarrow> find_order m (b_all_orders b) = None \<and> m = 0
     \<or> (\<exists>s. find_order m (b_all_orders b) = Some s \<and> o_status s = Created)"

lemma no_order_zero: "broker_wf b \<Longrightarrow> find_order 0 (b_all_orders b) = None"
proof -
  assume "broker_wf b"
  then have "map o_id (b_all_orders b) = [1..<b_next_order_id b]"
    by (simp add: broker_wf_def ids_ok_def)
  then have "o_id ` set (b_all_orders b) = {1..<b_next_order_id b}"
    by (metis atLeastLessThan_upt list.set_map)
  then have "0 \<notin> o_id ` set (b_all_orders b)" by simp
  then show ?thesis by (simp add: find_order_def find_key_None)
qed

lemma fresh_submit:
  assumes wf: "broker_wf b" and r: "submit_order sd sz price sp ty di b = (m, b')"
  shows "fresh_or_absent m b'"
proof (cases "m = 0 \<and> b' = b")
  case True
  then show ?thesis using no_order_zero [OF wf] by (simp add: fresh_or_absent_def)
next
  case False
  then obtain x where x: "m = b_next_order_id b" "o_id x = m" "o_status x = Created"
    "b_all_orders b' = b_all_orders b @ [x]" using submit_order_next [OF r] by auto
  have "m \<notin> o_id ` set (b_all_orders b)"
  proof -
    have "map o_id (b_all_orders b) = [1..<b_next_order_id b]"
      using wf by (simp add: broker_wf_def ids_ok_def)
    then have "o_id ` set (b_all_orders b) = {1..<b_next_order_id b}"
      by (metis atLeastLessThan_upt list.set_map)
    then show ?thesis using x(1) by simp
  qed
  then show ?thesis
    using x by (simp add: fresh_or_absent_def find_order_def find_append find_key_None [THEN iffD2])
qed

lemma fresh_submit_ext:
  assumes f: "fresh_or_absent m b" and wf: "broker_wf b"
    and r: "submit_order_ext sd sz p b = (k, b')"
  shows "fresh_or_absent m b'"
proof (cases "k = 0 \<and> b' = b")
  case True
  then show ?thesis using f by simp
next
  case False
  then obtain x where x: "b_all_orders b' = b_all_orders b @ [x]" "o_id x = b_next_order_id b"
    using submit_order_ext_next [OF r] by auto
  moreover have "1 \<le> b_next_order_id b" using wf by (simp add: broker_wf_def ids_ok_def)
  ultimately show ?thesis
    using f by (auto simp: fresh_or_absent_def find_order_def find_append)
qed

lemma bracket_wf:
  assumes wf: "broker_wf b"
  shows "broker_wf (snd (bracket sd sz lp sp di b)) \<and> book_steps b (snd (bracket sd sz lp sp di b))"
proof -
  let ?g = "b_next_oco_group_id b"
  let ?b0 = "b\<lparr>b_next_oco_group_id := ?g + 1\<rparr>"
  obtain m b1 where r1: "submit_order sd sz 0 None Market di ?b0 = (m, b1)"
    by (cases "submit_order sd sz 0 None Market di ?b0")
  let ?tp = "default_params\<lparr>op_type := Limit, op_price := lp, op_data_index := di,
     op_parent_id := m, op_oco_group_id := ?g, op_transmit := False\<rparr>"
  let ?sl = "default_params\<lparr>op_type := Stop, op_stop_price := Some sp, op_data_index := di,
     op_parent_id := m, op_oco_group_id := ?g, op_transmit := False\<rparr>"
  obtain l b2 where r2: "submit_order_ext (other_side sd) sz ?tp b1 = (l, b2)"
    by (cases "submit_order_ext (other_side sd) sz ?tp b1")
  obtain s b3 where r3: "submit_order_ext (other_side sd) sz ?sl b2 = (s, b3)"
    by (cases "submit_order_ext (other_side sd) sz ?sl b2")
  have wf0: "broker_wf ?b0" using wf by (simp add: broker_wf_def ids_ok_def agrees_def)
  have "book_step b (b\<lparr>b_pending := b_pending b, b_events := b_events b,
      b_bar_index := b_bar_index b, b_next_oco_group_id := ?g + 1\<rparr>)" by (rule book_step.frame)
  then have s0: "book_steps b ?b0" by auto
  have w1: "broker_wf b1" "book_steps ?b0 b1"
    using submit_order_wf [OF wf0, of sd sz 0 None Market di] r1 by auto
  have m1: "m < b_next_order_id b1"
    using submit_order_next [OF r1] w1(1) by (auto simp: broker_wf_def ids_ok_def)
  have w2: "broker_wf b2" "book_steps b1 b2"
    using submit_order_ext_wf [OF w1(1), of ?tp "other_side sd" sz] r2 m1 by auto
  have m2: "m < b_next_order_id b2" using submit_order_ext_next [OF r2] m1 by auto
  have w3: "broker_wf b3" "book_steps b2 b3"
    using submit_order_ext_wf [OF w2(1), of ?sl "other_side sd" sz] r3 m2 by auto
  have "fresh_or_absent m b3"
    using fresh_submit_ext [OF fresh_submit_ext [OF fresh_submit [OF wf0 r1] w1(1) r2] w2(1) r3] .
  then have "find_order m (b_all_orders b3) = None \<or>
      (\<exists>s. find_order m (b_all_orders b3) = Some s \<and> o_status s = Created)"
    by (auto simp: fresh_or_absent_def)
  note link = link_children_wf [OF w3(1) this, of "[l, s]"]
  have "snd (bracket sd sz lp sp di b) =
      b3\<lparr>b_all_orders := set_child_ids m [l, s] (b_all_orders b3),
         b_pending := set_child_ids m [l, s] (b_pending b3)\<rparr>"
    by (simp only: bracket_def Let_def r1 r2 r3 prod.case snd_conv)
  then show ?thesis
    using link s0 w1(2) w2(2) w3(2) by (auto intro: book_steps_trans)
qed

subsection \<open>The refinement\<close>

lemma close_wf:
  assumes wf: "broker_wf b" and off: "\<not> b_live b"
  shows "\<exists>k b'. close di b = Inr (k, b') \<and> broker_wf b' \<and> book_steps b b'"
proof -
  let ?b = "ensure_position di b"
  have wf': "broker_wf ?b" using wf by (simp add: broker_wf_def ids_ok_def agrees_def ensure_position_def)
  have st: "book_steps b ?b" by (blast intro: book_step.touch)
  have "\<not> b_live ?b" using off by (simp add: ensure_position_def)
  then have "close di b = (if is_flat (position_of di ?b) then Inr (0, ?b)
      else if is_long (position_of di ?b)
      then Inr (submit_order Sell \<bar>p_size (position_of di ?b)\<bar> 0 None Market di ?b)
      else Inr (submit_order Buy \<bar>p_size (position_of di ?b)\<bar> 0 None Market di ?b))"
    by (simp add: close_def get_position_def Let_def sell_def buy_def place_def)
  then show ?thesis
    using wf' st submit_order_wf [OF wf'] by (auto intro: book_steps_trans) (metis book_steps_trans prod.collapse)+
qed

lemma client_step_wf:
  assumes wf: "broker_wf b" and off: "\<not> b_live b" and adm: "admissible c b"
  shows "\<exists>b'. client_step c b = Inr b' \<and> broker_wf b' \<and> book_steps b b'"
proof (cases c)
  case (Place sd sz price sp ty di)
  then show ?thesis
    using off submit_order_wf [OF wf, of sd sz price sp ty di]
    by (cases sd) (auto simp: buy_def sell_def place_def)
next
  case (PlaceExt sd sz params)
  then show ?thesis
    using off adm submit_order_ext_wf [OF wf, of params sd sz]
    by (cases sd) (auto simp: buy_ext_def sell_ext_def place_ext_def)
next
  case (Bracket sd sz lp sp di)
  then show ?thesis using bracket_wf [OF wf] by simp
next
  case (Cancel oid)
  then show ?thesis
    using off cancel_pending_where_wf [OF wf, of "\<lambda>x. o_id x = oid \<and> is_alive x"]
    by (simp add: cancel_order_def)
next
  case (CloseOut di)
  then show ?thesis using close_wf [OF wf off, of di] by auto
next
  case NextOco
  have "book_step b (b\<lparr>b_pending := b_pending b, b_events := b_events b,
      b_bar_index := b_bar_index b, b_next_oco_group_id := b_next_oco_group_id b + 1\<rparr>)"
    by (rule book_step.frame)
  then show ?thesis
    using NextOco wf by (auto simp: next_oco_group_def broker_wf_def ids_ok_def agrees_def)
next
  case (BarIndex n)
  have "book_step b (b\<lparr>b_pending := b_pending b, b_events := b_events b,
      b_bar_index := n, b_next_oco_group_id := b_next_oco_group_id b\<rparr>)"
    by (rule book_step.frame)
  then show ?thesis
    using BarIndex wf by (auto simp: set_bar_index_def broker_wf_def ids_ok_def agrees_def)
next
  case (Bar views)
  then show ?thesis using process_orders_wf [OF wf] by simp
qed

lemma client_run_wf:
  assumes "broker_wf b" and "\<not> b_live b" and "admissible_run cs b"
  shows "\<exists>b'. client_run cs b = Inr b' \<and> broker_wf b' \<and> book_steps b b'"
  using assms
proof (induction cs arbitrary: b)
  case (Cons c cs)
  obtain b1 where b1: "client_step c b = Inr b1" "broker_wf b1" "book_steps b b1"
    using client_step_wf [OF Cons.prems(1,2), of c] Cons.prems(3) by auto
  have "\<not> b_live b1" "admissible_run cs b1"
    using book_steps_setup [OF b1(3)] Cons.prems(2,3) b1(1) by (auto simp: same_setup_def)
  then show ?case using Cons.IH [OF b1(2)] b1 by (auto intro: book_steps_trans)
qed simp

text \<open>Calls that name no parent are admissible whatever happens before them.\<close>

fun names_no_parent :: "client_call \<Rightarrow> bool" where
  "names_no_parent (PlaceExt sd sz params) = (op_parent_id params = 0)"
| "names_no_parent _ = True"

lemma admissible_no_parent:
  assumes "\<forall>c \<in> set cs. names_no_parent c" and "broker_wf b" and "\<not> b_live b"
  shows "admissible_run cs b"
  using assms
proof (induction cs arbitrary: b)
  case (Cons c cs)
  have "names_no_parent c" "1 \<le> b_next_order_id b"
    using Cons.prems by (simp_all add: broker_wf_def ids_ok_def)
  then have adm: "admissible c b" by (cases c) auto
  obtain b1 where b1: "client_step c b = Inr b1" "broker_wf b1" "book_steps b b1"
    using client_step_wf [OF Cons.prems(2,3) adm] by auto
  have "\<not> b_live b1" using book_steps_setup [OF b1(3)] Cons.prems(3) by (simp add: same_setup_def)
  then show ?case using Cons b1 adm by simp
qed simp

lemma new_broker_wf [simp]: "broker_wf (new_broker base c fx)"
  by (simp add: broker_wf_def ids_ok_def new_broker_def)

lemma new_broker_backtest [simp]: "\<not> b_live (new_broker base c fx)"
  by (simp add: new_broker_def)

text \<open>
  C1. The broker refines the abstract order book: from a well-formed broker in
  backtest mode every sequence of client calls succeeds, keeps the representation
  invariant, and is a sequence of abstract moves that leaves the configuration alone. In
  particular every order id was handed out once, the pending orders agree with the store,
  and an order is filled at most once, while it was live.
\<close>

theorem broker_refines_book:
  assumes "broker_wf b" and "\<not> b_live b" and "admissible_run cs b"
  shows "\<exists>b'. client_run cs b = Inr b' \<and> broker_wf b' \<and> book_steps b b' \<and> same_setup b b'
     \<and> map o_id (b_all_orders b') = [1..<b_next_order_id b']"
proof -
  obtain b' where "client_run cs b = Inr b'" "broker_wf b'" "book_steps b b'"
    using client_run_wf [OF assms] by blast
  then show ?thesis using book_steps_setup by (auto simp: broker_wf_def ids_ok_def)
qed

definition demo_quote :: quote where
  "demo_quote = \<lparr>q_open = 10, q_high = 12, q_low = 9, q_close = 11, q_dt = 0\<rparr>"

definition demo_calls :: "client_call list" where
  "demo_calls = [Place Buy 2 0 None Market 0, Bar [Some demo_quote],
     PlaceExt Sell 1 (default_params\<lparr>op_type := Limit, op_price := 13\<rparr>), CloseOut 0]"

lemma demo_admissible: "admissible_run demo_calls (new_broker USD 100 None)"
  by (rule admissible_no_parent) (simp_all add: demo_calls_def default_params_def)

theorem broker_refines_book_witness:
  "\<exists>b'. client_run demo_calls (new_broker USD 100 None) = Inr b' \<and> broker_wf b'
     \<and> book_steps (new_broker USD 100 None) b' \<and> same_setup (new_broker USD 100 None) b'
     \<and> map o_id (b_all_orders b') = [1..<b_next_order_id b']"
  by (rule broker_refines_book) (simp_all add: demo_admissible)

text \<open>The definitions that evaluate a concrete session.\<close>

lemmas run_eval = buy_def sell_def place_def submit_order_def run_pre_order_hook_def enqueue_def
  process_orders_def process_one_def process_live_def accept_created_def try_fill_order_def
  trigger_price_def slipped_price_def apply_slippage_def open_slippage_type_def
  limit_slippage_type_def fill_commission_def commission_calculate_def default_commission_def
  cannot_afford_def instrument_for_def cash_def cash_of_def signed_size_def
  book_fill_def add_cash_def settle_ccy_def get_position_def ensure_position_def position_of_def
  update_position_def position_update_def split_fill_def update_trades_def open_new_trade_def
  after_fill_def oco_sweep_def set_pending_at_def expired_def notify_order_def emit_def sync_def
  sync_order_def store_first_def order_submit_def order_accept_def order_execute_def
  is_complete_def is_alive_def new_broker_def new_order_def demo_quote_def empty_position_def
  is_trail_def eps_def close_def buy_ext_def sell_ext_def
  place_ext_def submit_order_ext_def default_params_def cancel_loop.simps order_cancel_def
  is_flat_def is_long_def reduce_trade_def extend_trade_def bracket_def set_child_ids_def
  is_parent_filled_def find_order_def cancel_order_def cancel_pending_where_def other_side.simps
  close_trade_def notify_trade_def trade_update_def trade_enter_def trade_reprice_def trade_net_def
  trade_finish_def new_trade_def trade_is_open_def trade_is_closed_def open_for_def set_bar_index_def

end
