(* ===== verification/Oco.thy ===== *)
theory Oco
  imports Session
begin

text \<open>
  One-cancels-other groups in \<open>process_orders\<close> (\<^verbatim>\<open>broker/broker.hpp\<close>): a completed order leaves
  no pending order of its group behind, and the limits of that guarantee: the sweep runs
  after the loop, so two orders of a group can complete in the same call.
\<close>

text \<open>The completed orders of the store, as id and group.\<close>

definition completed :: "broker \<Rightarrow> (nat \<times> nat) set" where
  "completed b = {(o_id s, o_oco_group_id s) | s. s \<in> set (b_all_orders b) \<and> o_status s = Completed}"

lemma completed_eval:
  "completed b = set (map (\<lambda>s. (o_id s, o_oco_group_id s))
                        (filter (\<lambda>s. o_status s = Completed) (b_all_orders b)))"
  by (auto simp: completed_def)

lemma completed_frame [simp]:
  "completed (notify_order x b) = completed b"
  "completed (set_pending_at i x b) = completed b"
  "completed (activate_bracket_children k b) = completed b"
  "completed (b\<lparr>b_pending := ps\<rparr>) = completed b"
  "completed (book_fill di s px c dt cand b) = completed b"
  by (simp_all add: completed_def set_pending_at_def activate_bracket_children_def)

lemma completed_sync: "o_status y \<noteq> Completed \<Longrightarrow> completed (sync y b) \<subseteq> completed b"
  by (auto simp: completed_def dest!: sync_order_mem)

lemma completed_sync_group:
  "completed (sync y b) \<subseteq> insert (o_id y, o_oco_group_id y) (completed b)"
  by (auto simp: completed_def dest!: sync_order_mem)

lemma completed_cancel_loop:
  assumes "cancel_loop P xs b = (ys, c)" and "\<And>x. P x \<Longrightarrow> is_alive x"
  shows "completed c \<subseteq> completed b"
  using assms
proof (induction P xs b arbitrary: ys c rule: cancel_loop.induct)
  case (2 P x xs b)
  have "completed (notify_order (order_cancel x) (sync (order_cancel x) b)) \<subseteq> completed b" if "P x"
    using that "2.prems"(2) completed_sync [of "order_cancel x" b] by (simp add: status_op_alive)
  then show ?case
    using 2 by (fastforce simp: Let_def split: if_splits prod.splits)
qed simp

lemma completed_accept:
  assumes "accept_created x b = (y, c)" and "is_alive x"
  shows "completed c \<subseteq> completed b \<and> o_oco_group_id y = o_oco_group_id x \<and> is_alive y \<and> o_id y = o_id x"
proof (cases "o_status x = Created")
  case True
  let ?o1 = "order_submit x"
  let ?b1 = "notify_order ?o1 (sync ?o1 b)"
  have a1: "o_status ?o1 = Submitted" "is_alive ?o1"
    using assms(2) by (simp_all add: status_op_alive is_alive_def)
  have a2: "o_status (order_accept ?o1) = Accepted" using a1(2) by (simp add: status_op_alive)
  have "completed ?b1 \<subseteq> completed b" "completed (sync (order_accept ?o1) ?b1) \<subseteq> completed ?b1"
    using completed_sync [of ?o1 b] completed_sync [of "order_accept ?o1" ?b1] a1 a2 by simp_all
  then show ?thesis
    using assms(1) True a2 by (auto simp: accept_created_def Let_def order_op_defs alive_defs)
next
  case False
  then show ?thesis using assms by (auto simp: accept_created_def)
qed

lemma completed_try_fill:
  assumes "try_fill_order x q b = (f, y, c)" and "is_alive x"
  shows "o_oco_group_id y = o_oco_group_id x \<and>
     (if f \<and> o_status y = Completed
      then completed c \<subseteq> insert (o_id y, o_oco_group_id y) (completed b)
      else completed c \<subseteq> completed b) \<and> (\<not> f \<longrightarrow> y = x)"
proof -
  have s: "completed (sync (order_reject x) b) \<subseteq> completed b"
    "completed (sync (order_margin x) b) \<subseteq> completed b"
    using completed_sync assms(2) by (simp_all add: status_op_alive)
  have g: "o_oco_group_id (order_reject x) = o_oco_group_id x"
    "o_oco_group_id (order_margin x) = o_oco_group_id x"
    "o_oco_group_id (order_execute px z cm x) = o_oco_group_id x"
    "o_status (order_reject x) \<noteq> Completed" "o_status (order_margin x) \<noteq> Completed"
    "o_status (order_execute px z cm x) = Completed" for px z cm
    using assms(2) by (simp_all add: order_op_defs alive_defs)
  consider "f" "y = order_reject x" "c = sync y b" | "f" "y = order_margin x" "c = sync y b"
    | "\<not> f" "y = x" "c = b"
    | px cm di z dt cand where "f" "y = order_execute px (o_size x) cm x"
        "c = sync y (book_fill di z px cm dt cand b)"
    using assms(1) by (auto simp: try_fill_order_def Let_def split: trigger.splits option.splits if_splits)
  then show ?thesis
  proof cases
    case (4 px cm di z dt cand)
    then show ?thesis
      using g completed_sync_group [of y "book_fill di z px cm dt cand b"] by simp
  qed (use s g in simp_all)
qed

text \<open>
  The loop invariant: every order that has completed by now and was pending when the loop
  started either was complete before or has its group recorded.
\<close>

definition groups_ok :: "(nat \<times> nat) set \<Rightarrow> loop_state \<Rightarrow> bool" where
  "groups_ok old st \<longleftrightarrow>
     (case st of (b, still, groups) \<Rightarrow>
        \<forall>(k, g) \<in> completed b. (k, g) \<in> old \<or> g = 0 \<or> g \<in> set groups)"

lemma groups_ok_mono:
  "groups_ok old (b, still, groups) \<Longrightarrow> completed c \<subseteq> completed b \<Longrightarrow> set groups \<subseteq> set groups' \<Longrightarrow>
     groups_ok old (c, still', groups')"
  by (fastforce simp: groups_ok_def)

lemma cancel_children_completed: "completed (cancel_bracket_children k b) \<subseteq> completed b"
  using completed_cancel_loop [of "\<lambda>x. o_parent_id x = k \<and> is_alive x" "b_pending b" b]
  by (auto simp: cancel_bracket_children_def cancel_pending_where_def split: prod.splits)

lemma after_fill_groups:
  assumes "\<forall>(k, g) \<in> completed b. (k, g) \<in> old \<or> g = 0 \<or> g \<in> set groups
             \<or> (o_status y = Completed \<and> g = o_oco_group_id y)"
  shows "groups_ok old (after_fill i y (b, still, groups))"
proof -
  let ?g = "if o_oco_group_id y \<noteq> 0 \<and> o_status y = Completed then groups @ [o_oco_group_id y] else groups"
  have 0: "groups_ok old (notify_order y (set_pending_at i y b), still, ?g)"
    using assms by (fastforce simp: groups_ok_def)
  show ?thesis
    unfolding after_fill_def Let_def prod.case
    by (rule groups_ok_mono [OF 0]) (auto dest: cancel_children_completed [THEN subsetD])
qed

lemma trail_completed:
  assumes "update_trail_stop x q b = (y, c)" and "is_alive x"
  shows "completed c \<subseteq> completed b"
proof -
  have "(y = x \<and> c = b) \<or> (\<exists>p. y = x\<lparr>o_trail_stop_price := p\<rparr> \<and> c = sync y b)"
    using assms(1) by (auto simp: update_trail_stop_def Let_def split: if_splits)
  then show ?thesis
    using assms(2) completed_sync [of y b] by (auto simp: is_alive_def)
qed

lemma process_live_groups:
  assumes G: "groups_ok old (b, still, groups)" and x: "is_alive x"
  shows "groups_ok old (process_live i x q (b, still, groups))"
proof -
  obtain o1 b1 where a: "accept_created x b = (o1, b1)" by (cases "accept_created x b")
  obtain f o2 b2 where t: "try_fill_order o1 q b1 = (f, o2, b2)" by (cases "try_fill_order o1 q b1")
  note A = completed_accept [OF a x] and T = completed_try_fill [OF t]
  show ?thesis
  proof (cases f)
    case True
    have "\<forall>(k, g) \<in> completed b2. (k, g) \<in> old \<or> g = 0 \<or> g \<in> set groups
             \<or> (o_status o2 = Completed \<and> g = o_oco_group_id o2)"
      using A T True G by (fastforce simp: groups_ok_def split: if_splits)
    then show ?thesis using True by (simp add: process_live_def a t after_fill_groups)
  next
    case False
    then have o2: "o2 = o1" "completed b2 \<subseteq> completed b" using A T by auto
    obtain o3 b3 where u: "(if is_trail o2 then update_trail_stop o2 q b2 else (o2, b2)) = (o3, b3)"
      by (cases "if is_trail o2 then update_trail_stop o2 q b2 else (o2, b2)")
    have "completed b3 \<subseteq> completed b"
      using u o2 A trail_completed [of o2 q b2 o3 b3] by (auto split: if_splits)
    then show ?thesis
      using False u by (simp add: process_live_def a t) (rule groups_ok_mono [OF G], auto)
  qed
qed

lemma process_one_groups:
  assumes G: "groups_ok old st"
  shows "groups_ok old (process_one views st i)"
proof -
  obtain b still groups where st: "st = (b, still, groups)" by (cases st)
  let ?ord = "b_pending b ! i"
  define x where "x = (if \<not> o_transmit ?ord \<and> o_parent_id ?ord \<noteq> 0
                       then ?ord\<lparr>o_transmit := True\<rparr> else ?ord)"
  note G' = G [unfolded st]
  have keep: "groups_ok old (c, still', groups)" if "completed c \<subseteq> completed b" for c still'
    using groups_ok_mono [OF G' that] by simp
  have drop: "groups_ok old (notify_order y (sync y (set_pending_at i y b)), still, groups)"
    if "o_status y \<noteq> Completed" for y
    using completed_sync [OF that, of "set_pending_at i y b"] by (intro keep) simp
  show ?thesis
  proof (cases "is_alive ?ord")
    case False
    then show ?thesis using G' by (simp add: st process_one_def Let_def)
  next
    case True
    then have alive: "is_alive x" by (simp add: x_def is_alive_def)
    have live: "groups_ok old (process_live i x q (b, still, groups))" for q
      by (rule process_live_groups [OF G' alive])
    have "o_status (order_reject x) \<noteq> Completed" "o_status (order_expire x) \<noteq> Completed"
      by (simp_all only: status_op_alive [OF alive]) simp_all
    note ends = drop [OF this(1)] drop [OF this(2)]
    have wait: "groups_ok old (b, still @ [?ord], groups)" by (rule keep) simp
    have empty: "groups_ok old (set_pending_at i x b, still @ [x], groups)" by (rule keep) simp
    show ?thesis
      unfolding st process_one_def Let_def prod.case x_def [symmetric]
      using True wait empty ends live by (simp split: option.split)
  qed
qed

lemma process_loop_groups:
  "groups_ok old st \<Longrightarrow> groups_ok old (foldl (process_one views) st is)"
  by (induction "is" arbitrary: st) (simp_all del: split_paired_All add: process_one_groups)


text \<open>Two sell limits in one group: 11 is reached by the bar, 20 is not.\<close>

definition oco_pair :: "real \<Rightarrow> broker" where
  "oco_pair hi =
     snd (submit_order_ext Sell 1 (default_params\<lparr>op_type := Limit, op_price := hi, op_oco_group_id := 1\<rparr>)
       (snd (submit_order_ext Sell 1 (default_params\<lparr>op_type := Limit, op_price := 11, op_oco_group_id := 1\<rparr>)
         (new_broker USD 100 None))))"

lemma oco_pair_wf: "broker_wf (oco_pair hi)"
  unfolding oco_pair_def
  by (intro submit_order_ext_wf [THEN conjunct1] new_broker_wf)
     (simp_all add: default_params_def new_broker_def submit_order_ext_def run_pre_order_hook_def
        enqueue_def Let_def)


text \<open>
  The limit of the guarantee: when the bar reaches both prices, both orders of the group
  complete in the same call.
\<close>

lemma oco_both_fill:
  "completed (process_orders [Some demo_quote] (oco_pair 12)) = {(1, 1), (2, 1)}"
  by (simp add: completed_eval oco_pair_def run_eval Let_def upt_rec numeral_2_eq_2)

text \<open>
  Cancelling the main order of a bracket does not cancel its children: they stay pending,
  held back by the parent gate.
\<close>

lemma bracket_orphans:
  "\<exists>b'. client_run [Bracket Buy 1 20 5 0, Cancel 1, Bar [Some demo_quote], Bar [Some demo_quote]]
          (new_broker USD 100 None) = Inr b'
     \<and> map o_id (b_pending b') = [2, 3] \<and> (\<forall>x \<in> set (b_pending b'). is_alive x)"
  by (simp add: run_eval Let_def upt_rec numeral_2_eq_2 numeral_3_eq_3)

end
