(* ===== verification/Fills.thy ===== *)
theory Fills
  imports Session
begin

text \<open>
  What a single fill guarantees (\<open>try_fill_order\<close> and \<open>update_trail_stop\<close> of
  \<^verbatim>\<open>broker/broker.hpp\<close>): the execution price lies in the range of the bar, slippage only
  ever hurts, limit protection and where it fails, what a filled buy leaves in the account,
  and the ratchet of trailing stops.
\<close>

definition quote_ok :: "quote \<Rightarrow> bool" where
  "quote_ok q \<longleftrightarrow> q_low q \<le> q_open q \<and> q_open q \<le> q_high q"

lemma quote_okD: "quote_ok q \<Longrightarrow> q_low q \<le> q_open q \<and> q_open q \<le> q_high q \<and> q_low q \<le> q_high q"
  by (auto simp: quote_ok_def)

text \<open>The raw price of a trigger lies in the bar and respects the limit.\<close>

lemma trigger_in_bar:
  assumes "quote_ok q" and "trigger_price x q = FillAt raw"
  shows "q_low q \<le> raw \<and> raw \<le> q_high q"
  using assms(2) quote_okD [OF assms(1)]
  by (auto simp: trigger_price_def min_def max_def split: order_type.splits option.splits if_splits)

lemma trigger_limit:
  assumes "trigger_price x q = FillAt raw" and "limit_slippage_type (o_type x)"
  shows "if o_side x = Buy then raw \<le> o_price x else o_price x \<le> raw"
  using assms
  by (cases "o_side x")
     (auto simp: trigger_price_def limit_slippage_type_def
      split: order_type.splits option.splits if_splits)

lemma trigger_stop:
  assumes "trigger_price x q = FillAt raw" and "o_type x = Stop"
  shows "\<exists>sp. o_stop_price x = Some sp \<and>
           (if o_side x = Buy then sp \<le> q_high q \<and> sp \<le> raw else q_low q \<le> sp \<and> raw \<le> sp)"
  using assms
  by (auto simp: trigger_price_def split: option.splits if_splits)

lemma clamp_range: "lo \<le> hi \<Longrightarrow> lo \<le> clamp v lo hi \<and> clamp v lo hi \<le> hi"
  by (simp add: clamp_def)

lemma apply_slippage_range:
  assumes "apply_slippage raw sd q b = Some px" and "\<not> b_slip_out b" and "q_low q \<le> q_high q"
  shows "q_low q \<le> px \<and> px \<le> q_high q"
  using assms clamp_range [OF assms(3)]
  by (auto simp: apply_slippage_def Let_def split: if_splits)

lemma apply_slippage_adverse:
  assumes "apply_slippage raw sd q b = Some px" and "0 \<le> b_slip_perc b" and "0 \<le> b_slip_fixed b"
    and "0 \<le> raw" and "q_low q \<le> raw" and "raw \<le> q_high q"
  shows "if sd = Buy then raw \<le> px else px \<le> raw"
proof -
  have "raw \<le> raw * (1 + b_slip_perc b)" "raw * (1 - b_slip_perc b) \<le> raw"
    using assms(2,4) by (simp_all add: algebra_simps)
  then show ?thesis
    using assms by (auto simp: apply_slippage_def Let_def clamp_def split: if_splits)
qed

text \<open>The decomposition of a fill attempt that completed the order.\<close>

lemma try_fill_completed:
  assumes "try_fill_order x q b = (f, y, b')" and "is_alive x" and "o_status y = Completed"
  obtains raw px where "trigger_price x q = FillAt raw" "slipped_price raw x q b = Some px"
    "\<not> cannot_afford x q px (fill_commission x px b) b"
    "y = order_execute px (o_size x) (fill_commission x px b) x"
    "b' = sync y (book_fill (o_data_index x) (signed_size (o_side x) (o_size x)) px
            (fill_commission x px b) (q_dt q) (o_candidate_id x) b)" "f"
proof -
  have nc: "o_status x \<noteq> Completed" using assms(2) by (auto simp: is_alive_def)
  show thesis
  proof (cases "trigger_price x q")
    case NoFill
    then show ?thesis using assms nc by (simp add: try_fill_order_def)
  next
    case RejectIt
    then show ?thesis using assms by (auto simp: try_fill_order_def Let_def status_op_alive)
  next
    case (FillAt raw)
    show ?thesis
    proof (cases "slipped_price raw x q b")
      case None
      then show ?thesis using assms nc FillAt by (simp add: try_fill_order_def)
    next
      case (Some px)
      show ?thesis
      proof (cases "cannot_afford x q px (fill_commission x px b) b")
        case True
        then show ?thesis
          using assms FillAt Some by (auto simp: try_fill_order_def Let_def status_op_alive)
      next
        case False
        show ?thesis
          by (rule that [OF FillAt Some False])
             (use assms(1) FillAt Some False in \<open>auto simp: try_fill_order_def Let_def\<close>)
      qed
    qed
  qed
qed

lemma cash_book_fill:
  "cash_of (book_fill di s px c dt cand b) ccy =
     cash_of b ccy - (if ccy = settle_ccy di b then s * px + c else 0)"
proof -
  have trades: "b_cash (update_trades di old s px c dt cand b) = b_cash b" for old b
    by (simp add: update_trades_def open_new_trade_def extend_trade_def reduce_trade_def
        close_trade_def notify_trade_def emit_def Let_def split: option.split prod.split)
  have "b_cash (book_fill di s px c dt cand b)
      = b_cash (add_cash (settle_ccy di b) (- (s * px + c)) b)"
    unfolding book_fill_def Let_def case_prod_beta trades
    by (simp add: update_position_def get_position_def ensure_position_def Let_def)
  then show ?thesis by (simp add: cash_of_def add_cash_def)
qed

lemma cash_of_sync [simp]: "cash_of (sync x b) ccy = cash_of b ccy"
  by (simp add: cash_of_def)


definition plain_broker :: broker where
  "plain_broker = set_slippage_perc (1/10) True False True False (new_broker USD 100 None)"

definition bar_9_12 :: quote where
  "bar_9_12 = \<lparr>q_open = 10, q_high = 12, q_low = 9, q_close = 11, q_dt = 0\<rparr>"

lemmas fill_eval = plain_broker_def set_slippage_perc_def new_broker_def bar_9_12_def
  new_order_def is_alive_def try_fill_order_def trigger_price_def slipped_price_def
  open_slippage_type_def limit_slippage_type_def apply_slippage_def clamp_def cannot_afford_def
  instrument_for_def cash_def cash_of_def signed_size_def fill_commission_def
  commission_calculate_def default_commission_def order_execute_def is_complete_def Let_def


subsection \<open>Trailing stops\<close>

text \<open>The stop level a bar suggests, and the stop after a run of bars without a fill.\<close>

definition trail_level :: "order \<Rightarrow> quote \<Rightarrow> real" where
  "trail_level x q =
     (let cur = (if o_side x = Buy then q_low q else q_high q);
          dist = (if 0 < o_trail_percent x then cur * o_trail_percent x else o_trail_amount x)
      in if o_side x = Sell then cur - dist else cur + dist)"

fun trail_run :: "quote list \<Rightarrow> order \<Rightarrow> broker \<Rightarrow> order \<times> broker" where
  "trail_run [] x b = (x, b)"
| "trail_run (q # qs) x b = (let (x', b') = update_trail_stop x q b in trail_run qs x' b')"

definition tighter :: "order_side \<Rightarrow> real \<Rightarrow> real \<Rightarrow> real" where
  "tighter sd u v = (if sd = Sell then max u v else min u v)"

lemma trail_step:
  assumes "update_trail_stop x q b = (x', b')"
  shows "o_trail_stop_price x' =
           (if o_trail_stop_price x = 0 then trail_level x q
            else tighter (o_side x) (o_trail_stop_price x) (trail_level x q))"
    and "o_side x' = o_side x" and "trail_level x' = trail_level x"
    and "agrees b x \<Longrightarrow> agrees b' x'"
proof -
  show "o_trail_stop_price x' =
           (if o_trail_stop_price x = 0 then trail_level x q
            else tighter (o_side x) (o_trail_stop_price x) (trail_level x q))"
    using assms by (cases "o_side x")
      (auto simp: update_trail_stop_def trail_level_def tighter_def Let_def split: if_splits)
  have cases: "x' = x \<and> b' = b \<or> (\<exists>p. x' = x\<lparr>o_trail_stop_price := p\<rparr> \<and> b' = sync x' b)"
    using assms by (auto simp: update_trail_stop_def Let_def split: if_splits)
  then show "o_side x' = o_side x" "trail_level x' = trail_level x"
    by (auto simp: trail_level_def fun_eq_iff Let_def)
  show "agrees b x \<Longrightarrow> agrees b' x'"
    using cases agrees_sync_same [of b x x'] by auto
qed

text \<open>
  C6. Trailing stops are a ratchet: over any run of bars the stop of a sell order is the
  maximum of the levels \<open>high - distance\<close> seen so far and that of a buy order the minimum
  of the levels \<open>low + distance\<close>, so it never moves away from the market, and the stored
  copy of the order stays in agreement. The levels are taken to be positive: zero is the
  code's mark of "no stop yet".
\<close>

theorem trailing_stop_ratchet:
  assumes "trail_run qs x b = (x', b')" and "o_trail_stop_price x = 0" and "qs \<noteq> []"
    and "\<forall>q \<in> set qs. 0 < trail_level x q" and "agrees b x"
  shows "o_trail_stop_price x' =
           (if o_side x = Sell then Max (trail_level x ` set qs) else Min (trail_level x ` set qs))
       \<and> agrees b' x'"
proof -
  have run: "o_trail_stop_price x' = foldl (tighter (o_side x)) (o_trail_stop_price x) (map (trail_level x) qs)
      \<and> agrees b' x'"
    if "trail_run qs x b = (x', b')" "0 < o_trail_stop_price x" "\<forall>q \<in> set qs. 0 < trail_level x q"
       "agrees b x" for qs x b
    using that
  proof (induction qs arbitrary: x b)
    case (Cons q qs)
    obtain x1 b1 where u: "update_trail_stop x q b = (x1, b1)" by (cases "update_trail_stop x q b")
    note st = trail_step [OF u]
    have "0 < o_trail_stop_price x1"
      using st(1) Cons.prems(2,3) by (auto simp: tighter_def max_def min_def)
    then show ?case
      using Cons.IH [of x1 b1] Cons.prems u st by simp
  qed simp
  have fold: "foldl (tighter sd) u vs = (if sd = Sell then Max (insert u (set vs)) else Min (insert u (set vs)))"
    for sd u and vs :: "real list"
  proof (induction vs arbitrary: u)
    case (Cons v vs)
    show ?case
      using Cons.IH [of "tighter sd u v"]
      by (cases "vs = []"; cases "sd = Sell")
         (simp_all add: tighter_def max.assoc min.assoc)
  qed simp
  obtain q qs' where qs: "qs = q # qs'" using assms(3) by (cases qs) auto
  obtain x1 b1 where u: "update_trail_stop x q b = (x1, b1)" by (cases "update_trail_stop x q b")
  note st = trail_step [OF u]
  have "o_trail_stop_price x1 = trail_level x q" using st(1) assms(2) by simp
  then show ?thesis
    using run [of qs' x1 b1] assms qs u st by (simp add: fold)
qed

definition trailing_sell :: order where
  "trailing_sell = new_order\<lparr>o_id := 1, o_type := StopTrail, o_status := Accepted, o_side := Sell,
     o_size := 1, o_trail_amount := 2\<rparr>"

theorem trailing_stop_ratchet_witness:
  "o_trail_stop_price (fst (trail_run [bar_9_12, bar_9_12\<lparr>q_high := 15\<rparr>, bar_9_12] trailing_sell
     (plain_broker\<lparr>b_all_orders := [trailing_sell]\<rparr>))) = 13"
proof -
  let ?qs = "[bar_9_12, bar_9_12\<lparr>q_high := 15\<rparr>, bar_9_12]"
  let ?b = "plain_broker\<lparr>b_all_orders := [trailing_sell]\<rparr>"
  obtain x' b' where r: "trail_run ?qs trailing_sell ?b = (x', b')"
    by (cases "trail_run ?qs trailing_sell ?b")
  have lv: "trail_level trailing_sell ` set ?qs = {10, 13}"
    by (simp add: trail_level_def trailing_sell_def new_order_def bar_9_12_def Let_def insert_commute)
  then have "0 < trail_level trailing_sell q" if "q \<in> set ?qs" for q
  proof -
    have "trail_level trailing_sell q \<in> {10, 13}" using that lv by blast
    then show ?thesis by auto
  qed
  moreover have "agrees ?b trailing_sell" by (simp add: agrees_def find_order_def)
  moreover have "o_trail_stop_price trailing_sell = 0" "o_side trailing_sell = Sell"
    by (simp_all add: trailing_sell_def new_order_def)
  ultimately have "o_trail_stop_price x' = Max {10, 13}"
    using trailing_stop_ratchet [OF r, unfolded lv] by simp
  then show ?thesis unfolding r by simp
qed

subsection \<open>Limit orders under limit slippage\<close>

text \<open>
  With the default \<open>slip_limit = true\<close> a buy limit is executed above its limit price: limit
  10, bar open 10, 10 per cent slippage, execution at 11.
\<close>

lemma limit_slippage_beyond_limit:
  "\<exists>y b'. try_fill_order (new_order\<lparr>o_id := 1, o_type := Limit, o_size := 2, o_price := 10\<rparr>)
            bar_9_12 (plain_broker\<lparr>b_slip_limit := True\<rparr>) = (True, y, b')
     \<and> o_status y = Completed \<and> o_price y = 10 \<and> o_executed_price y = 11"
  by (simp add: fill_eval)

end
