(* ===== verification/Valuation.thy ===== *)
theory Valuation
  imports Fills
begin

text \<open>
  \<^verbatim>\<open>broker/broker.hpp\<close>: the two \<open>portfolio_value\<close> functions and the live execution path
  (\<open>record_live_fill\<close>, \<open>apply_live_execution\<close>). A position whose feed has no bars makes
  \<open>close()[0]\<close> throw; the first valuation is \<open>noexcept\<close>, so that the exception ends the
  program there, the second passes it on. Both are \<open>Inl\<close> here.
\<close>

subsection \<open>Valuation\<close>

definition position_value :: "position \<Rightarrow> real \<Rightarrow> real" where
  "position_value pos mark_px =
     (case p_instrument pos of
        Some i \<Rightarrow> mark_to_market i (p_size pos) (p_avg_price pos) mark_px
      | None \<Rightarrow> p_size pos * mark_px)"

definition position_value_at :: "datetime \<Rightarrow> broker \<Rightarrow> position \<Rightarrow> real \<Rightarrow> real" where
  "position_value_at tm b pos mark_px =
     (case p_instrument pos of
        Some i \<Rightarrow>
          (let mtm = mark_to_market i (p_size pos) (p_avg_price pos) mark_px;
               settle = settlement_ccy i
           in (case b_fx b of
                 Some fx \<Rightarrow> if settle \<noteq> b_base_ccy b then mtm * fx settle (b_base_ccy b) tm else mtm
               | None \<Rightarrow> mtm))
      | None \<Rightarrow> p_size pos * mark_px)"

fun sum_positions ::
  "(position \<Rightarrow> real \<Rightarrow> real) \<Rightarrow> view list \<Rightarrow> position list \<Rightarrow> real \<Rightarrow> exn + real" where
  "sum_positions val views [] acc = Inr acc"
| "sum_positions val views (pos # ps) acc =
     (if \<not> is_flat pos \<and> p_data_index pos < length views then
        (case views ! p_data_index pos of
           None \<Rightarrow> Inl (OutOfRange ''Line index out of range'')
         | Some q \<Rightarrow> sum_positions val views ps (acc + val pos (q_close q)))
      else sum_positions val views ps acc)"

definition portfolio_value :: "view list \<Rightarrow> broker \<Rightarrow> exn + real" where
  "portfolio_value views b = sum_positions position_value views (b_positions b) (cash b)"

definition portfolio_value_at :: "datetime \<Rightarrow> view list \<Rightarrow> broker \<Rightarrow> exn + real" where
  "portfolio_value_at tm views b =
     sum_positions (position_value_at tm b) views (b_positions b) (cash_in_base tm b)"

subsection \<open>Trading at the mark\<close>

definition shift :: "real \<Rightarrow> exn + real \<Rightarrow> exn + real" where
  "shift d r = map_sum id (\<lambda>v. v + d) r"

lemma shift_simps [simp]: "shift d (Inl e) = Inl e" "shift d (Inr v) = Inr (v + d)"
  "shift 0 r = r" "shift d (shift d' r) = shift (d' + d) r"
  by (cases r; simp add: shift_def)+

lemma sum_positions_shift:
  "sum_positions val views ps (acc + d) = shift d (sum_positions val views ps acc)"
proof (induction ps arbitrary: acc)
  case (Cons p ps)
  have step: "sum_positions val views ps (acc + d + v) = shift d (sum_positions val views ps (acc + v))"
    for v using Cons.IH [of "acc + v"] by (simp add: algebra_simps)
  show ?case using Cons.IH by (auto simp: step split: option.split)
qed simp

text \<open>The contribution of a position when its feed has a bar; a flat one contributes nothing.\<close>

definition contribution :: "view list \<Rightarrow> position \<Rightarrow> real" where
  "contribution views p =
     (if p_data_index p < length views \<and> \<not> is_flat p then
        (case views ! p_data_index p of Some q \<Rightarrow> position_value p (q_close q) | None \<Rightarrow> 0) else 0)"

lemma sum_positions_upd:
  assumes "find (\<lambda>p. p_data_index p = di) ps = Some old" and "p_data_index (f old) = di"
    and "di < length views" and "views ! di = Some q"
  shows "sum_positions position_value views (upd_first (\<lambda>p. p_data_index p = di) f ps) acc
       = shift (contribution views (f old) - contribution views old)
           (sum_positions position_value views ps acc)"
  using assms(1)
proof (induction ps arbitrary: acc)
  case (Cons p ps)
  show ?case
  proof (cases "p_data_index p = di")
    case True
    then have "p = old" using Cons.prems by simp
    then show ?thesis
      using True assms(2-4)
      by (auto simp: contribution_def sum_positions_shift)
  next
    case False
    then show ?thesis using Cons by (auto split: option.split)
  qed
qed simp

lemma sum_positions_append_flat:
  "is_flat p \<Longrightarrow> sum_positions val views (ps @ [p]) acc = sum_positions val views ps acc"
  by (induction ps arbitrary: acc) (auto split: option.split)

lemma contribution_plain:
  assumes "p_instrument p = None" and "p_size p = 0 \<or> eps \<le> \<bar>p_size p\<bar>"
    and "p_data_index p < length views" and "views ! p_data_index p = Some q"
  shows "contribution views p = p_size p * q_close q"
  using assms by (auto simp: contribution_def position_value_def is_flat_def)

lemma book_fill_positions:
  "b_positions (book_fill di s px c dt cand b) =
     upd_first (\<lambda>p. p_data_index p = di) (position_update s px) (b_positions (ensure_position di b))"
proof -
  have "b_positions (update_trades di old s px c dt cand d) = b_positions d" for old d
    by (simp add: update_trades_def open_new_trade_def extend_trade_def reduce_trade_def
        close_trade_def notify_trade_def emit_def Let_def split: option.split prod.split)
  then show ?thesis
    by (simp add: book_fill_def get_position_def Let_def update_position_def ensure_position_def
        add_cash_def instrument_for_def)
qed

text \<open>
  Trading at the mark costs the commission and nothing else: a fill booked for a feed
  without instrument at the price the feed is valued at changes the portfolio value by
  minus the commission, whether it opens, extends, reduces, closes or turns the position.
\<close>

theorem fill_at_mark_costs_commission:
  assumes "instrument_for di b = None"
    and "\<forall>p \<in> set (b_positions b). p_data_index p = di \<longrightarrow> p_instrument p = None \<and> position_ok p"
    and "di < length views" and "views ! di = Some q"
    and "p_size (position_of di b) + s = 0 \<or> eps \<le> \<bar>p_size (position_of di b) + s\<bar>"
  shows "portfolio_value views (book_fill di s (q_close q) c dt cand b)
       = shift (- c) (portfolio_value views b)"
proof -
  let ?b' = "book_fill di s (q_close q) c dt cand b"
  let ?e = "empty_position\<lparr>p_instrument := instrument_for di b, p_data_index := di\<rparr>"
  let ?ps = "b_positions (ensure_position di b)"
  have same: "sum_positions position_value views ?ps acc = sum_positions position_value views (b_positions b) acc"
    for acc by (simp add: ensure_position_def sum_positions_append_flat is_flat_def empty_position_def)
  obtain p where p: "find (\<lambda>p. p_data_index p = di) ?ps = Some p" "p_size p = p_size (position_of di b)"
      "p_instrument p = None" "p_size p = 0 \<or> eps \<le> \<bar>p_size p\<bar>" "p_data_index p = di"
  proof (cases "find (\<lambda>p. p_data_index p = di) (b_positions b)")
    case None
    then show ?thesis
      using assms(1) that [of ?e] by (simp add: ensure_position_def find_append position_of_def empty_position_def)
  next
    case (Some r)
    have "r \<in> set (b_positions b)" "p_data_index r = di" using find_key_Some [OF Some] by auto
    then show ?thesis
      using Some assms(2) that [of r]
      by (simp add: ensure_position_def position_of_def position_ok_def)
  qed
  let ?p' = "position_update s (q_close q) p"
  have p': "p_size ?p' = p_size p + s" "p_instrument ?p' = None" "p_data_index ?p' = di"
    using assms(5) p by (auto simp: p_size_update)
  have diff: "contribution views ?p' - contribution views p = s * q_close q"
    using contribution_plain [of p views q] contribution_plain [of ?p' views q] p p' assms(3-5)
    by (simp add: algebra_simps)
  have cash: "cash ?b' = cash b + (- (s * q_close q) - c)"
    using book_fill_setup [of b di s "q_close q" c dt cand] assms(1)
    by (simp add: cash_def cash_book_fill settle_ccy_def same_setup_def)
  have upd: "sum_positions position_value views (b_positions ?b') acc
      = shift (s * q_close q) (sum_positions position_value views (b_positions b) acc)" for acc
    using sum_positions_upd [OF p(1), where f = "position_update s (q_close q)", OF p'(3) assms(3,4)] by (simp add: book_fill_positions diff same)
  show ?thesis
    unfolding portfolio_value_def cash upd sum_positions_shift by simp
qed

definition held_two :: broker where
  "held_two = (new_broker USD 100 None)
     \<lparr>b_positions := [empty_position\<lparr>p_size := 2, p_avg_price := 8, p_price := 8\<rparr>]\<rparr>"

theorem fill_at_mark_costs_commission_witness:
  "portfolio_value [Some demo_quote] (book_fill 0 (- 3) (q_close demo_quote) 1 0 0 held_two)
     = shift (- 1) (portfolio_value [Some demo_quote] held_two)
   \<and> portfolio_value [Some demo_quote] held_two = Inr 122"
proof
  show "portfolio_value [Some demo_quote] (book_fill 0 (- 3) (q_close demo_quote) 1 0 0 held_two)
     = shift (- 1) (portfolio_value [Some demo_quote] held_two)"
    by (rule fill_at_mark_costs_commission)
       (simp_all add: held_two_def new_broker_def instrument_for_def empty_position_def
          position_ok_def position_of_def eps_def)
  show "portfolio_value [Some demo_quote] held_two = Inr 122"
    by (simp add: portfolio_value_def held_two_def new_broker_def empty_position_def is_flat_def
        eps_def demo_quote_def position_value_def cash_def cash_of_def)
qed

text \<open>
  With an instrument the identity fails: the fill debits size * price, the valuation adds
  only the profit since the entry, so buying one share of an equity at 11 lowers the
  portfolio value by 11.
\<close>

definition demo_equity :: instrument where
  "demo_equity = Equity ''ABC''
     \<lparr>v_mic = XNAS, v_base_ccy = USD, v_fees = zero_fee_schedule, v_cal = None,
      v_settlement_days = 2\<rparr> USD"

lemma equity_purchase_loses_value:
  "let b = set_instrument 0 (Some demo_equity) (new_broker USD 100 None);
       views = [Some demo_quote]
   in portfolio_value views b = Inr 100
      \<and> portfolio_value views (book_fill 0 1 (q_close demo_quote) 0 0 0 b) = Inr 89"
  by (simp add: portfolio_value_def book_fill_positions set_instrument_def new_broker_def
      ensure_position_def instrument_for_def empty_position_def cash_def cash_book_fill cash_of_def
      is_flat_def p_size_update position_value_def position_update_def split_fill_def eps_def
      book_fill_def get_position_def add_cash_def settle_ccy_def demo_equity_def demo_quote_def
      update_position_def update_trades_def open_new_trade_def position_of_def Let_def)

end
