(* ===== verification/Live_Fills.thy ===== *)
theory Live_Fills
  imports Fills
begin

text \<open>
  \<^verbatim>\<open>broker/broker.hpp\<close>, the live execution path: \<open>record_live_fill\<close> receives the cumulative
  state of a trade from the connector (its id is the id of the order), works out the part
  that is new against the last snapshot, and books it through \<open>apply_live_execution\<close>.
\<close>

definition live_eps :: real where
  "live_eps = 1 / 10 ^ 12"

definition live_terminal :: "order \<Rightarrow> trade \<Rightarrow> bool" where
  "live_terminal ord t \<longleftrightarrow> trade_is_closed t \<or> o_size ord - live_eps \<le> \<bar>t_size t\<bar>"

definition apply_live_execution :: "order \<Rightarrow> real \<Rightarrow> real \<Rightarrow> real \<Rightarrow> trade \<Rightarrow> broker \<Rightarrow> broker" where
  "apply_live_execution ord fill_size_signed fill_price comm t b =
     (let terminal = live_terminal ord t;
          live_dt = (if trade_is_closed t then t_exit_time t else t_entry_time t);
          b1 = book_fill (o_data_index ord) fill_size_signed fill_price comm live_dt
                 (o_candidate_id ord) b;
          ord' = ord\<lparr>o_executed_size := o_executed_size ord + \<bar>fill_size_signed\<bar>,
                     o_executed_price := fill_price, o_commission := o_commission ord + comm,
                     o_status := (if terminal then Completed else Partial)\<rparr>;
          b2 = notify_order ord' (sync_pending ord' (sync ord' b1))
      in if terminal then b2\<lparr>b_pending := filter (\<lambda>p. o_id p \<noteq> o_id ord) (b_pending b2)\<rparr> else b2)"

text \<open>The price of the new part, from the cumulative trade and the last snapshot.\<close>

definition live_fill_price :: "trade \<Rightarrow> trade option \<Rightarrow> real \<Rightarrow> real \<Rightarrow> real" where
  "live_fill_price t prev prev_size delta_size =
     (case prev of
        None \<Rightarrow> t_entry_price t
      | Some prev_trade \<Rightarrow>
          if trade_is_closed t \<and> 0 < t_exit_price t then t_exit_price t
          else if (0 < prev_size \<and> prev_size < t_size t) \<or> (prev_size < 0 \<and> t_size t < prev_size) then
            (let new_abs = \<bar>t_size t\<bar>; old_abs = \<bar>prev_size\<bar>; fill_abs = \<bar>delta_size\<bar>
             in if 0 < fill_abs then
                  (t_entry_price t * new_abs - t_entry_price prev_trade * old_abs) / fill_abs
                else t_entry_price t)
          else if \<bar>t_size t\<bar> < \<bar>prev_size\<bar> then
            (let pnl_delta = t_pnl t - t_pnl prev_trade; fill_abs = \<bar>delta_size\<bar>
             in if 0 < fill_abs then
                  t_entry_price prev_trade + (if 0 < prev_size then 1 else - 1) * (pnl_delta / fill_abs)
                else t_entry_price t)
          else t_entry_price t)"

definition record_live_fill :: "trade \<Rightarrow> broker \<Rightarrow> broker" where
  "record_live_fill t b =
     (if \<not> b_live b then b
      else
        (case find_order (t_id t) (b_all_orders b) of
           None \<Rightarrow> b
         | Some ord \<Rightarrow>
             (let prev = b_live_snapshots b (t_id t);
                  prev_size = (case prev of Some p \<Rightarrow> t_size p | None \<Rightarrow> 0);
                  delta_size = t_size t - prev_size
              in if \<bar>delta_size\<bar> < live_eps then
                   b\<lparr>b_live_snapshots := (b_live_snapshots b)(t_id t \<mapsto> t)\<rparr>
                 else
                   (let fill_price = live_fill_price t prev prev_size delta_size;
                        comm_delta = t_commission t - (case prev of Some p \<Rightarrow> t_commission p | None \<Rightarrow> 0);
                        b1 = apply_live_execution ord delta_size fill_price comm_delta t b
                    in if live_terminal ord t
                       then b1\<lparr>b_live_snapshots := (b_live_snapshots b1)(t_id t := None)\<rparr>
                       else b1\<lparr>b_live_snapshots := (b_live_snapshots b1)(t_id t \<mapsto> t)\<rparr>))))"

fun live_reports :: "trade list \<Rightarrow> broker \<Rightarrow> broker" where
  "live_reports [] b = b"
| "live_reports (t # ts) b = live_reports ts (record_live_fill t b)"

subsection \<open>The books of one execution\<close>

lemma snapshots_book_fill [simp]:
  "b_live_snapshots (book_fill di s px c dt cand b) = b_live_snapshots b"
proof -
  have "b_live_snapshots (update_trades di old s px c dt cand d) = b_live_snapshots d" for old d
    by (simp add: update_trades_def open_new_trade_def extend_trade_def reduce_trade_def
        close_trade_def notify_trade_def emit_def Let_def split: option.split prod.split)
  then show ?thesis
    by (simp add: book_fill_def get_position_def Let_def update_position_def ensure_position_def
        add_cash_def)
qed

lemma apply_live_cash:
  "cash_of (apply_live_execution ord s px c t b) ccy =
     cash_of b ccy - (if ccy = settle_ccy (o_data_index ord) b then s * px + c else 0)"
proof -
  have "b_cash (apply_live_execution ord s px c t b) = b_cash (book_fill (o_data_index ord) s px c
      (if trade_is_closed t then t_exit_time t else t_entry_time t) (o_candidate_id ord) b)"
    by (simp add: apply_live_execution_def Let_def notify_order_def emit_def sync_pending_def)
  then show ?thesis using cash_book_fill by (simp add: cash_of_def)
qed

lemma apply_live_setup: "same_setup b (apply_live_execution ord s px c t b)"
proof -
  have "same_setup b' (notify_order x (sync_pending y (sync z b')))" for x y z b'
    by (simp add: same_setup_def notify_order_def emit_def sync_pending_def sync_def)
  then have "same_setup b (notify_order x (sync_pending y (sync z (book_fill di s px c dt cd b))))"
    for x y z di dt cd by (rule same_setup_trans [OF book_fill_setup])
  then show ?thesis by (auto simp: apply_live_execution_def Let_def same_setup_def)
qed

lemma apply_live_fields:
  assumes "find_order (o_id ord) (b_all_orders b) = Some ord"
  shows "b_live_snapshots (apply_live_execution ord s px c t b) = b_live_snapshots b"
    and "find_order (o_id ord) (b_all_orders (apply_live_execution ord s px c t b)) =
      Some (ord\<lparr>o_executed_size := o_executed_size ord + \<bar>s\<bar>, o_executed_price := px,
        o_commission := o_commission ord + c,
        o_status := (if live_terminal ord t then Completed else Partial)\<rparr>)"
  using assms orders.get_mem
  by (auto simp: apply_live_execution_def Let_def notify_order_def emit_def sync_pending_def
      orders.get_put) (simp_all add: sync_def)

subsection \<open>Cumulative reports\<close>

text \<open>Reports of one growing long trade, none of them closed, each above the last by a real step.\<close>

fun growing :: "nat \<Rightarrow> real \<Rightarrow> trade list \<Rightarrow> bool" where
  "growing k old [] = True"
| "growing k old (t # ts) =
     (t_id t = k \<and> \<not> trade_is_closed t \<and> old + live_eps \<le> t_size t \<and> growing k (t_size t) ts)"

definition reported :: "trade option \<Rightarrow> real" where
  "reported prev = (case prev of None \<Rightarrow> 0 | Some p \<Rightarrow> t_size p)"

definition reported_cost :: "trade option \<Rightarrow> real" where
  "reported_cost prev = (case prev of None \<Rightarrow> 0 | Some p \<Rightarrow> t_size p * t_entry_price p + t_commission p)"

definition reported_comm :: "trade option \<Rightarrow> real" where
  "reported_comm prev = (case prev of None \<Rightarrow> 0 | Some p \<Rightarrow> t_commission p)"

lemma live_eps_pos [simp]: "0 < live_eps"
  by (simp add: live_eps_def)

lemma live_report_step:
  assumes live: "b_live b" and f: "find_order k (b_all_orders b) = Some ord" and t: "t_id t = k"
    "\<not> trade_is_closed t" "reported prev + live_eps \<le> t_size t"
    and prev: "b_live_snapshots b k = prev" "\<And>p. prev = Some p \<Longrightarrow> 0 < t_size p"
    and b': "b' = record_live_fill t b"
  shows "cash_of b' ccy = cash_of b ccy
           - (if ccy = settle_ccy (o_data_index ord) b
              then t_size t * t_entry_price t + t_commission t - reported_cost prev else 0)"
    and "find_order k (b_all_orders b') = Some (ord\<lparr>
           o_executed_size := o_executed_size ord + (t_size t - reported prev),
           o_executed_price := live_fill_price t prev (reported prev) (t_size t - reported prev),
           o_commission := o_commission ord + (t_commission t - reported_comm prev),
           o_status := (if o_size ord - live_eps \<le> t_size t then Completed else Partial)\<rparr>)"
    and "b_live_snapshots b' k = (if o_size ord - live_eps \<le> t_size t then None else Some t)"
    and "same_setup b b'" and "0 < t_size t"
proof -
  let ?d = "t_size t - reported prev"
  let ?px = "live_fill_price t prev (reported prev) ?d"
  let ?c = "t_commission t - reported_comm prev"
  have nn: "0 \<le> reported prev" using prev(2) by (cases prev) (auto simp: reported_def)
  have pos: "live_eps \<le> ?d" using t(3) by simp
  then show sz: "0 < t_size t" using nn t(3) live_eps_pos by linarith
  have dust: "\<not> \<bar>?d\<bar> < live_eps" using pos by auto
  have trm: "live_terminal ord t = (o_size ord - live_eps \<le> t_size t)"
    using t(2) sz by (simp add: live_terminal_def)
  have ido: "o_id ord = k" using f by (auto simp: find_order_def dest: find_key_Some)
  let ?a = "apply_live_execution ord ?d ?px ?c t b"
  have res: "b' = (if o_size ord - live_eps \<le> t_size t
      then ?a\<lparr>b_live_snapshots := (b_live_snapshots ?a)(k := None)\<rparr>
      else ?a\<lparr>b_live_snapshots := (b_live_snapshots ?a)(k \<mapsto> t)\<rparr>)"
    unfolding b' record_live_fill_def trm [symmetric]
    using live f t(1) prev(1) dust
    by (simp add: reported_def reported_comm_def Let_def)
  have money: "?d * ?px + ?c = t_size t * t_entry_price t + t_commission t - reported_cost prev"
  proof (cases prev)
    case None
    then show ?thesis by (simp add: reported_def reported_cost_def reported_comm_def live_fill_price_def)
  next
    case (Some p)
    have "?d = t_size t - t_size p" using Some by (simp add: reported_def)
    then have "t_size p < t_size t" using pos live_eps_pos by linarith
    moreover have "0 < t_size p" using prev(2) Some by simp
    ultimately have "0 < t_size p" "t_size p < t_size t" by simp_all
    then have "?d * ?px = t_entry_price t * t_size t - t_entry_price p * t_size p"
      using t(2) sz Some by (simp add: live_fill_price_def reported_def Let_def)
    then show ?thesis
      using Some by (simp add: reported_cost_def reported_comm_def algebra_simps)
  qed
  have "cash_of b' ccy = cash_of ?a ccy" by (simp add: res cash_of_def)
  then show "cash_of b' ccy = cash_of b ccy
           - (if ccy = settle_ccy (o_data_index ord) b
              then t_size t * t_entry_price t + t_commission t - reported_cost prev else 0)"
    by (simp only: apply_live_cash money)
  have abs: "\<bar>?d\<bar> = ?d" using pos live_eps_pos by linarith
  have all: "b_all_orders b' = b_all_orders ?a" by (simp add: res)
  show "find_order k (b_all_orders b') = Some (ord\<lparr>
           o_executed_size := o_executed_size ord + (t_size t - reported prev),
           o_executed_price := live_fill_price t prev (reported prev) (t_size t - reported prev),
           o_commission := o_commission ord + (t_commission t - reported_comm prev),
           o_status := (if o_size ord - live_eps \<le> t_size t then Completed else Partial)\<rparr>)"
    using apply_live_fields(2) [of ord b ?d ?px ?c t] f ido
    unfolding all by (simp add: abs trm)
  show "b_live_snapshots b' k = (if o_size ord - live_eps \<le> t_size t then None else Some t)"
    by (simp add: res)
  have "same_setup b ?a" by (rule apply_live_setup)
  then show "same_setup b b'" by (auto simp: res same_setup_def)
qed

lemma settle_ccy_cong: "same_setup b b' \<Longrightarrow> settle_ccy di b' = settle_ccy di b"
  by (simp add: settle_ccy_def instrument_for_def same_setup_def split: option.split)

lemma live_reports_acc:
  assumes "b_live b" and "find_order k (b_all_orders b) = Some ord" and "b_live_snapshots b k = prev"
    and "\<And>p. prev = Some p \<Longrightarrow> 0 < t_size p"
    and "growing k (reported prev) ts" and "ts \<noteq> []"
    and "\<forall>t \<in> set (butlast ts). t_size t < o_size ord - live_eps"
  shows "cash_of (live_reports ts b) ccy = cash_of b ccy
       - (if ccy = settle_ccy (o_data_index ord) b
          then t_size (last ts) * t_entry_price (last ts) + t_commission (last ts) - reported_cost prev else 0)
     \<and> (\<exists>x. find_order k (b_all_orders (live_reports ts b)) = Some x
          \<and> o_executed_size x = o_executed_size ord + (t_size (last ts) - reported prev)
          \<and> o_commission x = o_commission ord + (t_commission (last ts) - reported_comm prev)
          \<and> o_status x = (if o_size ord - live_eps \<le> t_size (last ts) then Completed else Partial))
     \<and> b_live_snapshots (live_reports ts b) k =
          (if o_size ord - live_eps \<le> t_size (last ts) then None else Some (last ts))"
  using assms
proof (induction ts arbitrary: b ord prev)
  case (Cons t ts)
  have t: "t_id t = k" "\<not> trade_is_closed t" "reported prev + live_eps \<le> t_size t"
    "growing k (t_size t) ts" using Cons.prems(5) by auto
  note S = live_report_step [OF Cons.prems(1,2) t(1-3) Cons.prems(3,4) refl]
  let ?b = "record_live_fill t b"
  show ?case
  proof (cases "ts = []")
    case True
    then show ?thesis using S(1) [of ccy] S(2,3) by simp
  next
    case False
    then have small: "t_size t < o_size ord - live_eps" using Cons.prems(7) by simp
    let ?ord = "ord\<lparr>
           o_executed_size := o_executed_size ord + (t_size t - reported prev),
           o_executed_price := live_fill_price t prev (reported prev) (t_size t - reported prev),
           o_commission := o_commission ord + (t_commission t - reported_comm prev),
           o_status := Partial\<rparr>"
    have b: "b_live ?b" "find_order k (b_all_orders ?b) = Some ?ord" "b_live_snapshots ?b k = Some t"
      using S(2,3,4) small Cons.prems(1) by (auto simp: same_setup_def)
    have "\<And>p. Some t = Some p \<Longrightarrow> 0 < t_size p" using S(5) by simp
    moreover have "growing k (reported (Some t)) ts" using t(4) by (simp add: reported_def)
    moreover have "\<forall>u \<in> set (butlast ts). t_size u < o_size ?ord - live_eps"
      using Cons.prems(7) False by simp
    ultimately have IH: "cash_of (live_reports ts ?b) ccy = cash_of ?b ccy
       - (if ccy = settle_ccy (o_data_index ?ord) ?b
          then t_size (last ts) * t_entry_price (last ts) + t_commission (last ts) - reported_cost (Some t) else 0)
     \<and> (\<exists>x. find_order k (b_all_orders (live_reports ts ?b)) = Some x
          \<and> o_executed_size x = o_executed_size ?ord + (t_size (last ts) - reported (Some t))
          \<and> o_commission x = o_commission ?ord + (t_commission (last ts) - reported_comm (Some t))
          \<and> o_status x = (if o_size ?ord - live_eps \<le> t_size (last ts) then Completed else Partial))
     \<and> b_live_snapshots (live_reports ts ?b) k =
          (if o_size ?ord - live_eps \<le> t_size (last ts) then None else Some (last ts))"
      using Cons.IH [OF b] False by blast
    show ?thesis
      using IH S(1) [of ccy] settle_ccy_cong [OF S(4)] False
      by (auto simp: reported_def reported_cost_def reported_comm_def)
  qed
qed simp


definition live_demo :: broker where
  "live_demo = (new_broker USD 100 None)\<lparr>b_live := True,
     b_all_orders := [new_order\<lparr>o_id := 1, o_status := Accepted, o_size := 2\<rparr>],
     b_next_order_id := 2\<rparr>"

definition report :: "real \<Rightarrow> real \<Rightarrow> trade" where
  "report z px = new_trade\<lparr>t_id := 1, t_size := z, t_entry_price := px\<rparr>"


end
