(* ===== verification/Feed.thy ===== *)
theory Feed
  imports Lines Broker
begin

text \<open>
  \<^verbatim>\<open>bar.hpp\<close>, \<^verbatim>\<open>data/data_feed.hpp\<close> and \<^verbatim>\<open>data/in_memory_feed.hpp\<close>: the seven lines of a feed
  and the operations that move them together, the loading loop of \<open>preload\<close>, the in-memory
  feed and the read-only audit \<open>validate\<close>. The record is polymorphic in the value type:
  \<open>real\<close> where the values are only moved or compared, \<open>fpval\<close> where \<open>validate\<close> looks at
  their class. The last part connects feeds to the \<open>view\<close>s the broker reads.
\<close>

record 'v bar =
  bar_timestamp :: datetime
  bar_open :: 'v
  bar_high :: 'v
  bar_low :: 'v
  bar_close :: 'v
  bar_volume :: 'v

record 'v feed =
  fd_datetime :: "datetime line"
  fd_open :: "'v line"
  fd_high :: "'v line"
  fd_low :: "'v line"
  fd_close :: "'v line"
  fd_volume :: "'v line"
  fd_openinterest :: "'v line"

definition empty_feed :: "'v feed" where
  "empty_feed = \<lparr>fd_datetime = line_empty, fd_open = line_empty, fd_high = line_empty,
     fd_low = line_empty, fd_close = line_empty, fd_volume = line_empty,
     fd_openinterest = line_empty\<rparr>"

definition feed_home :: "'v feed \<Rightarrow> 'v feed" where
  "feed_home f = \<lparr>fd_datetime = line_home (fd_datetime f), fd_open = line_home (fd_open f),
     fd_high = line_home (fd_high f), fd_low = line_home (fd_low f),
     fd_close = line_home (fd_close f), fd_volume = line_home (fd_volume f),
     fd_openinterest = line_home (fd_openinterest f)\<rparr>"

definition feed_advance :: "'v feed \<Rightarrow> 'v feed" where
  "feed_advance f = \<lparr>fd_datetime = line_advance (fd_datetime f), fd_open = line_advance (fd_open f),
     fd_high = line_advance (fd_high f), fd_low = line_advance (fd_low f),
     fd_close = line_advance (fd_close f), fd_volume = line_advance (fd_volume f),
     fd_openinterest = line_advance (fd_openinterest f)\<rparr>"

definition feed_size :: "'v feed \<Rightarrow> nat" where
  "feed_size f = line_size (fd_close f)"

definition feed_index :: "'v feed \<Rightarrow> nat" where
  "feed_index f = line_index (fd_close f)"

definition feed_buflen :: "'v feed \<Rightarrow> nat" where
  "feed_buflen f = line_buflen (fd_close f)"

text \<open>Appending one bar to the lines, as every \<open>load\<close> of the repository does.\<close>

definition feed_forward :: "'v::zero bar \<Rightarrow> 'v feed \<Rightarrow> 'v feed" where
  "feed_forward b f =
     \<lparr>fd_datetime = line_forward (bar_timestamp b) (fd_datetime f),
      fd_open = line_forward (bar_open b) (fd_open f),
      fd_high = line_forward (bar_high b) (fd_high f),
      fd_low = line_forward (bar_low b) (fd_low f),
      fd_close = line_forward (bar_close b) (fd_close f),
      fd_volume = line_forward (bar_volume b) (fd_volume f),
      fd_openinterest = line_forward 0 (fd_openinterest f)\<rparr>"

subsection \<open>Loading\<close>

text \<open>
  \<open>while (load()) {}\<close> over an arbitrary \<open>load\<close>: \<open>None\<close> is a loop that does not end.
\<close>

partial_function (option) load_all :: "('s \<Rightarrow> bool \<times> 's) \<Rightarrow> 's \<Rightarrow> 's option" where
  "load_all load s = (case load s of (again, s') \<Rightarrow> if again then load_all load s' else Some s')"

record 'v mem_feed =
  mf_bars :: "'v bar list"
  mf_cursor :: nat
  mf_feed :: "'v feed"

definition mem_feed_new :: "'v bar list \<Rightarrow> 'v mem_feed" where
  "mem_feed_new bars = \<lparr>mf_bars = bars, mf_cursor = 0, mf_feed = empty_feed\<rparr>"

definition mem_load :: "'v::zero mem_feed \<Rightarrow> bool \<times> 'v mem_feed" where
  "mem_load m =
     (if length (mf_bars m) \<le> mf_cursor m then (False, m)
      else (True, m\<lparr>mf_cursor := mf_cursor m + 1,
                    mf_feed := feed_forward (mf_bars m ! mf_cursor m) (mf_feed m)\<rparr>))"

definition mem_preload :: "'v::zero mem_feed \<Rightarrow> 'v mem_feed option" where
  "mem_preload m =
     (case load_all mem_load m of
        None \<Rightarrow> None
      | Some m' \<Rightarrow> Some (m'\<lparr>mf_feed := feed_home (mf_feed m')\<rparr>))"

definition mem_clone :: "'v mem_feed \<Rightarrow> 'v mem_feed" where
  "mem_clone m = mem_feed_new (mf_bars m)"

definition mem_reset :: "'v bar list \<Rightarrow> 'v mem_feed \<Rightarrow> 'v mem_feed" where
  "mem_reset bars m = m\<lparr>mf_bars := bars, mf_cursor := 0, mf_feed := empty_feed\<rparr>"

text \<open>The columns of a list of bars as a feed at its first bar.\<close>

definition feed_of_bars :: "'v::zero bar list \<Rightarrow> 'v feed" where
  "feed_of_bars bars =
     (let col = (\<lambda>g. \<lparr>ln_data = map g bars, ln_idx = 0\<rparr>)
      in \<lparr>fd_datetime = \<lparr>ln_data = map bar_timestamp bars, ln_idx = 0\<rparr>,
          fd_open = col bar_open, fd_high = col bar_high, fd_low = col bar_low,
          fd_close = col bar_close, fd_volume = col bar_volume,
          fd_openinterest = col (\<lambda>b. 0)\<rparr>)"

lemma mem_preload_loop:
  assumes "mf_cursor m \<le> length (mf_bars m)"
  shows "load_all mem_load m = Some (m\<lparr>mf_cursor := length (mf_bars m),
           mf_feed := foldl (\<lambda>f b. feed_forward b f) (mf_feed m) (drop (mf_cursor m) (mf_bars m))\<rparr>)"
  using assms
proof (induction "length (mf_bars m) - mf_cursor m" arbitrary: m)
  case 0
  then have "mf_cursor m = length (mf_bars m)" by simp
  then show ?case by (subst load_all.simps) (simp add: mem_load_def)
next
  case (Suc n)
  let ?m = "m\<lparr>mf_cursor := mf_cursor m + 1,
              mf_feed := feed_forward (mf_bars m ! mf_cursor m) (mf_feed m)\<rparr>"
  have lt: "mf_cursor m < length (mf_bars m)" using Suc.hyps(2) by simp
  have IH: "load_all mem_load ?m = Some (?m\<lparr>mf_cursor := length (mf_bars ?m),
      mf_feed := foldl (\<lambda>f b. feed_forward b f) (mf_feed ?m) (drop (mf_cursor ?m) (mf_bars ?m))\<rparr>)"
    using Suc.hyps(2) lt by (intro Suc.hyps(1)) auto
  have "drop (mf_cursor m) (mf_bars m) = mf_bars m ! mf_cursor m # drop (Suc (mf_cursor m)) (mf_bars m)"
    using lt by (simp add: Cons_nth_drop_Suc)
  then show ?case using lt IH by (subst load_all.simps) (simp add: mem_load_def not_le)
qed

lemma feed_home_foldl:
  "feed_home (foldl (\<lambda>f b. feed_forward b f) f bars) =
     (let col = (\<lambda>l g. \<lparr>ln_data = ln_data l @ map g bars, ln_idx = 0\<rparr>)
      in \<lparr>fd_datetime = \<lparr>ln_data = ln_data (fd_datetime f) @ map bar_timestamp bars, ln_idx = 0\<rparr>,
          fd_open = col (fd_open f) bar_open, fd_high = col (fd_high f) bar_high,
          fd_low = col (fd_low f) bar_low, fd_close = col (fd_close f) bar_close,
          fd_volume = col (fd_volume f) bar_volume,
          fd_openinterest = col (fd_openinterest f) (\<lambda>b. 0)\<rparr>)"
proof (induction bars arbitrary: f)
  case (Cons b bars)
  then show ?case by (simp add: feed_forward_def line_forward_def Let_def)
qed (simp add: feed_home_def line_home_def Let_def)

text \<open>
  Preloading an in-memory feed ends, whatever state the feed is in after construction,
  cloning or \<open>reset\<close>, and leaves exactly the columns of its bars with every cursor at the
  first bar: the seven lines have the same length, that of the span.
\<close>

theorem mem_preload_columns:
  "map_option mf_feed (mem_preload (mem_feed_new bars)) = Some (feed_of_bars bars)
   \<and> map_option mf_feed (mem_preload (mem_clone m)) = Some (feed_of_bars (mf_bars m))
   \<and> map_option mf_feed (mem_preload (mem_reset bars m)) = Some (feed_of_bars bars)"
proof -
  have main: "map_option mf_feed (mem_preload n) = Some (feed_of_bars (mf_bars n))"
    if "mf_cursor n = 0" "mf_feed n = empty_feed" for n :: "'a mem_feed"
    using mem_preload_loop [of n] that
    by (simp add: mem_preload_def feed_home_foldl feed_of_bars_def empty_feed_def line_empty_def Let_def)
  show ?thesis
    using main [of "mem_feed_new bars"] main [of "mem_clone m"] main [of "mem_reset bars m"]
    by (simp_all add: mem_feed_new_def mem_clone_def mem_reset_def)
qed

subsection \<open>The audit\<close>

record validation_result =
  vr_has_duplicates :: bool
  vr_is_monotonic :: bool
  vr_has_nan :: bool
  vr_has_negative_prices :: bool
  vr_duplicate_count :: nat
  vr_nan_count :: nat
  vr_negative_price_count :: nat

definition clean_result :: validation_result where
  "clean_result = \<lparr>vr_has_duplicates = False, vr_is_monotonic = True, vr_has_nan = False,
     vr_has_negative_prices = False, vr_duplicate_count = 0, vr_nan_count = 0,
     vr_negative_price_count = 0\<rparr>"

text \<open>The loop over \<open>i = 1 .. n - 1\<close>, comparing each timestamp with its predecessor.\<close>

fun check_timestamps :: "datetime list \<Rightarrow> validation_result \<Rightarrow> validation_result" where
  "check_timestamps (a # b # ts) r =
     check_timestamps (b # ts)
       (if b = a then r\<lparr>vr_has_duplicates := True, vr_duplicate_count := vr_duplicate_count r + 1\<rparr>
        else if b < a then r\<lparr>vr_is_monotonic := False\<rparr> else r)"
| "check_timestamps ts r = r"

fun check_line :: "fpval list \<Rightarrow> validation_result \<Rightarrow> validation_result" where
  "check_line [] r = r"
| "check_line (v # vs) r =
     check_line vs (if isnan v \<or> isinf v
                    then r\<lparr>vr_has_nan := True, vr_nan_count := vr_nan_count r + 1\<rparr> else r)"

fun check_negative :: "fpval list \<Rightarrow> validation_result \<Rightarrow> validation_result" where
  "check_negative [] r = r"
| "check_negative (v # vs) r =
     check_negative vs (if fp_negative v
                        then r\<lparr>vr_negative_price_count := vr_negative_price_count r + 1\<rparr> else r)"

definition validate :: "fpval feed \<Rightarrow> validation_result" where
  "validate f =
     (let r0 = check_timestamps (ln_data (fd_datetime f)) clean_result;
          r1 = check_line (ln_data (fd_volume f)) (check_line (ln_data (fd_close f))
                 (check_line (ln_data (fd_low f)) (check_line (ln_data (fd_high f))
                   (check_line (ln_data (fd_open f)) r0))));
          r2 = check_negative (ln_data (fd_close f)) (check_negative (ln_data (fd_low f))
                 (check_negative (ln_data (fd_high f)) (check_negative (ln_data (fd_open f)) r1)))
      in r2\<lparr>vr_has_negative_prices := 0 < vr_negative_price_count r2\<rparr>)"

fun adjacent_equal :: "datetime list \<Rightarrow> nat" where
  "adjacent_equal (a # b # ts) = (if a = b then 1 else 0) + adjacent_equal (b # ts)"
| "adjacent_equal ts = 0"

lemma check_timestamps_spec:
  "check_timestamps ts r =
     r\<lparr>vr_has_duplicates := (vr_has_duplicates r \<or> 0 < adjacent_equal ts),
       vr_is_monotonic := (vr_is_monotonic r \<and> sorted_wrt (\<le>) ts),
       vr_duplicate_count := vr_duplicate_count r + adjacent_equal ts\<rparr>"
proof (induction ts r rule: check_timestamps.induct)
  case (1 a b ts r)
  have "sorted_wrt (\<le>) (a # b # ts) \<longleftrightarrow> a \<le> b \<and> sorted_wrt (\<le>) (b # ts)"
    using order_trans [of a b] by auto
  with 1 show ?case by (auto simp del: sorted_wrt.simps)
qed simp_all

lemma check_line_spec:
  "check_line vs r =
     r\<lparr>vr_has_nan := (vr_has_nan r \<or> (\<exists>v \<in> set vs. isnan v \<or> isinf v)),
       vr_nan_count := vr_nan_count r + length (filter (\<lambda>v. isnan v \<or> isinf v) vs)\<rparr>"
  by (induction vs arbitrary: r) simp_all

lemma check_negative_spec:
  "check_negative vs r =
     r\<lparr>vr_negative_price_count := vr_negative_price_count r + length (filter fp_negative vs)\<rparr>"
  by (induction vs arbitrary: r) simp_all

lemma strict_adjacent: "sorted_wrt (\<le>) ts \<and> adjacent_equal ts = 0 \<longleftrightarrow> sorted_wrt (<) ts"
proof (induction ts rule: adjacent_equal.induct)
  case (1 a b ts)
  have le: "sorted_wrt (\<le>) (a # b # ts) \<longleftrightarrow> a \<le> b \<and> sorted_wrt (\<le>) (b # ts)"
    using order_trans [of a b] by auto
  have lt: "sorted_wrt (<) (a # b # ts) \<longleftrightarrow> a < b \<and> sorted_wrt (<) (b # ts)"
    using less_trans [of a b] by auto
  show ?case using 1 unfolding le lt by auto
qed simp_all

lemma validate_fields:
  "vr_has_duplicates (validate f) = (0 < adjacent_equal (ln_data (fd_datetime f)))"
  "vr_is_monotonic (validate f) = sorted_wrt (\<le>) (ln_data (fd_datetime f))"
  "vr_duplicate_count (validate f) = adjacent_equal (ln_data (fd_datetime f))"
  "vr_has_nan (validate f) =
     (\<exists>l \<in> {fd_open f, fd_high f, fd_low f, fd_close f, fd_volume f}. \<exists>v \<in> set (ln_data l). isnan v \<or> isinf v)"
  "vr_nan_count (validate f) =
     (\<Sum>l \<leftarrow> [fd_open f, fd_high f, fd_low f, fd_close f, fd_volume f].
        length (filter (\<lambda>v. isnan v \<or> isinf v) (ln_data l)))"
  "vr_negative_price_count (validate f) =
     (\<Sum>l \<leftarrow> [fd_open f, fd_high f, fd_low f, fd_close f]. length (filter fp_negative (ln_data l)))"
  "vr_has_negative_prices (validate f) =
     (0 < (\<Sum>l \<leftarrow> [fd_open f, fd_high f, fd_low f, fd_close f]. length (filter fp_negative (ln_data l))))"
  by (simp_all add: validate_def Let_def check_negative_spec check_line_spec check_timestamps_spec
      clean_result_def del: length_greater_0_conv)

text \<open>
  The audit is complete: a feed passes \<open>validate\<close> without complaint exactly when its
  timestamps increase strictly, all five price and volume columns are finite numbers, and
  no open, high, low or close is negative; and the counters count adjacent equal
  timestamps, non-finite values and negative prices.
\<close>

theorem validate_complete:
  "(\<not> vr_has_duplicates (validate f) \<and> vr_is_monotonic (validate f) \<and> \<not> vr_has_nan (validate f)
      \<and> \<not> vr_has_negative_prices (validate f)) =
   (sorted_wrt (<) (ln_data (fd_datetime f))
    \<and> (\<forall>l \<in> {fd_open f, fd_high f, fd_low f, fd_close f, fd_volume f}. \<forall>v \<in> set (ln_data l). \<exists>x. v = Fin x)
    \<and> (\<forall>l \<in> {fd_open f, fd_high f, fd_low f, fd_close f}. \<forall>v \<in> set (ln_data l). \<not> fp_negative v))
   \<and> vr_duplicate_count (validate f) = adjacent_equal (ln_data (fd_datetime f))
   \<and> vr_nan_count (validate f) =
       (\<Sum>l \<leftarrow> [fd_open f, fd_high f, fd_low f, fd_close f, fd_volume f].
          length (filter (\<lambda>v. isnan v \<or> isinf v) (ln_data l)))
   \<and> vr_negative_price_count (validate f) =
       (\<Sum>l \<leftarrow> [fd_open f, fd_high f, fd_low f, fd_close f]. length (filter fp_negative (ln_data l)))"
proof -
  have fin: "(\<exists>x. v = Fin x) \<longleftrightarrow> \<not> (isnan v \<or> isinf v)" for v by (cases v) auto
  have strict: "sorted_wrt (<) (ln_data (fd_datetime f)) \<longleftrightarrow>
      \<not> vr_has_duplicates (validate f) \<and> vr_is_monotonic (validate f)"
    using strict_adjacent [of "ln_data (fd_datetime f)"] by (simp add: validate_fields(1,2)) blast
  have nan: "(\<forall>l \<in> {fd_open f, fd_high f, fd_low f, fd_close f, fd_volume f}. \<forall>v \<in> set (ln_data l). \<exists>x. v = Fin x)
      \<longleftrightarrow> \<not> vr_has_nan (validate f)"
    unfolding validate_fields(4) fin by blast
  have neg: "(\<forall>l \<in> {fd_open f, fd_high f, fd_low f, fd_close f}. \<forall>v \<in> set (ln_data l). \<not> fp_negative v)
      \<longleftrightarrow> \<not> vr_has_negative_prices (validate f)"
    unfolding validate_fields(7) by (simp add: filter_empty_conv conj_assoc)
  show ?thesis
    unfolding strict nan neg validate_fields(3,5,6) by blast
qed

subsection \<open>What the broker reads\<close>

definition read_quote :: "real feed \<Rightarrow> exn + quote" where
  "read_quote f =
     bind_r (line_at (fd_open f) 0) (\<lambda>o1. bind_r (line_at (fd_high f) 0) (\<lambda>h.
     bind_r (line_at (fd_low f) 0) (\<lambda>l. bind_r (line_at (fd_close f) 0) (\<lambda>c.
     bind_r (line_at (fd_datetime f) 0) (\<lambda>d.
       Inr \<lparr>q_open = o1, q_high = h, q_low = l, q_close = c, q_dt = d\<rparr>)))))"

text \<open>
  The view of a feed: nothing when it has no bars, the current values otherwise (a read
  that throws would also be \<open>None\<close>; \<open>feed_cursor_reads\<close> shows that there is none).
\<close>

definition feed_view :: "real feed \<Rightarrow> view" where
  "feed_view f =
     (if feed_size f = 0 \<or> feed_buflen f = 0 then None
      else (case read_quote f of Inl e \<Rightarrow> None | Inr q \<Rightarrow> Some q))"

definition quote_of_bar :: "real bar \<Rightarrow> quote" where
  "quote_of_bar b = \<lparr>q_open = bar_open b, q_high = bar_high b, q_low = bar_low b,
     q_close = bar_close b, q_dt = bar_timestamp b\<rparr>"

definition advanced :: "nat \<Rightarrow> 'v::zero bar list \<Rightarrow> 'v feed" where
  "advanced k bars = (feed_advance ^^ k) (feed_of_bars bars)"

lemma line_advance_pow:
  "(line_advance ^^ k) \<lparr>ln_data = d, ln_idx = 0\<rparr> = \<lparr>ln_data = d, ln_idx = min k (length d - 1)\<rparr>"
  by (induction k) (auto simp: line_advance_def min_def)

lemma feed_advance_pow:
  "(feed_advance ^^ k) f = \<lparr>fd_datetime = (line_advance ^^ k) (fd_datetime f),
     fd_open = (line_advance ^^ k) (fd_open f), fd_high = (line_advance ^^ k) (fd_high f),
     fd_low = (line_advance ^^ k) (fd_low f), fd_close = (line_advance ^^ k) (fd_close f),
     fd_volume = (line_advance ^^ k) (fd_volume f),
     fd_openinterest = (line_advance ^^ k) (fd_openinterest f)\<rparr>"
  by (induction k) (simp_all add: feed_advance_def)

lemma advanced_lines:
  "advanced k bars =
     (let i = min k (length bars - 1); col = (\<lambda>g. \<lparr>ln_data = map g bars, ln_idx = i\<rparr>)
      in \<lparr>fd_datetime = \<lparr>ln_data = map bar_timestamp bars, ln_idx = i\<rparr>,
          fd_open = col bar_open, fd_high = col bar_high, fd_low = col bar_low,
          fd_close = col bar_close, fd_volume = col bar_volume,
          fd_openinterest = col (\<lambda>b. 0)\<rparr>)"
  by (simp add: advanced_def feed_advance_pow feed_of_bars_def line_advance_pow Let_def)

lemma feed_view_advanced:
  "feed_view (advanced k bars) =
     (if bars = [] then None else Some (quote_of_bar (bars ! min k (length bars - 1))))"
proof (cases "bars = []")
  case True
  then show ?thesis by (simp add: feed_view_def feed_size_def line_size_def advanced_lines)
next
  case False
  then obtain n where n: "length bars = Suc n" by (cases bars) auto
  then show ?thesis
    using False
    by (auto simp: n feed_view_def feed_size_def feed_buflen_def line_size_def line_buflen_def
        advanced_lines read_quote_def line_at_def quote_of_bar_def Let_def)
qed

text \<open>
  Reading a feed: after k calls of \<open>advance\<close> on a preloaded feed of n bars, the seven
  cursors stand together at bar min k (n - 1), reading the current values never throws, and
  what the broker sees is that bar; a feed without bars shows nothing.
\<close>

theorem feed_cursor_reads:
  "feed_view (advanced k bars) =
     (if bars = [] then None else Some (quote_of_bar (bars ! min k (length bars - 1))))
   \<and> (bars \<noteq> [] \<longrightarrow> (\<forall>l \<in> {fd_open (advanced k bars), fd_high (advanced k bars),
        fd_low (advanced k bars), fd_close (advanced k bars), fd_volume (advanced k bars),
        fd_openinterest (advanced k bars)}.
          line_index l = min k (length bars - 1) \<and> (\<exists>v. line_at l 0 = Inr v)))"
proof (cases "bars = []")
  case True
  then show ?thesis by (simp add: feed_view_advanced)
next
  case False
  then obtain n where n: "length bars = Suc n" by (cases bars) auto
  show ?thesis
    unfolding feed_view_advanced using False
    by (auto simp: n advanced_lines line_at_def line_index_def Let_def)
qed

theorem feed_cursor_reads_witness:
  "feed_view (advanced 5 [\<lparr>bar_timestamp = 7, bar_open = 1, bar_high = 3, bar_low = 1,
       bar_close = 2, bar_volume = 10\<rparr>])
     = Some \<lparr>q_open = 1, q_high = 3, q_low = 1, q_close = 2, q_dt = 7\<rparr>"
  using feed_cursor_reads [of 5 "[\<lparr>bar_timestamp = 7, bar_open = 1, bar_high = 3, bar_low = 1,
       bar_close = 2, bar_volume = 10\<rparr>]"]
  by (simp add: quote_of_bar_def)

text \<open>Three bars, the last with the timestamp of the second and a close that is not a number.\<close>

definition flawed_bars :: "fpval bar list" where
  "flawed_bars =
     (let good = \<lparr>bar_timestamp = 1, bar_open = Fin 2, bar_high = Fin 3, bar_low = Fin 1,
                  bar_close = Fin 2, bar_volume = Fin 10\<rparr>
      in [good, good\<lparr>bar_timestamp := 2\<rparr>, good\<lparr>bar_timestamp := 2, bar_close := NaN\<rparr>])"

theorem validate_complete_witness:
  "vr_duplicate_count (validate (feed_of_bars flawed_bars)) = 1
   \<and> vr_nan_count (validate (feed_of_bars flawed_bars)) = 1
   \<and> vr_negative_price_count (validate (feed_of_bars flawed_bars)) = 0"
  using validate_complete [of "feed_of_bars flawed_bars"]
  by (simp add: feed_of_bars_def flawed_bars_def Let_def)

end
