(* ===== verification/Interval.thy ===== *)
theory Interval
  imports Prelude
begin

text \<open>
  \<^verbatim>\<open>data/timeframe.hpp\<close> and \<^verbatim>\<open>data/interval.hpp\<close>: the interval vocabulary and the UTC calendar
  arithmetic that the alignment scheduler, the resampled feed and the warm-up window use.
  The civil-calendar conversions the code takes from \<open>std::chrono\<close> are modelled by the
  proleptic Gregorian calendar (\<open>year_start\<close>, \<open>year_of\<close>, \<open>month_start\<close>, \<open>month_of\<close>); day 0 is
  1970-01-01. Seconds counts are unbounded integers, where the code has 64 bits.

  The interface \<open>time_grid\<close> is what the callers rely on: an increasing sequence of period
  starts, and the index of the period of an instant. It is interpreted on the fixed-span,
  weekly and monthly arithmetic of the code.
\<close>

subsection \<open>Vocabulary\<close>

datatype timeframe = Tick | Seconds | Minutes | Days | Weeks | Months | Years

fun timeframe_rank :: "timeframe \<Rightarrow> nat" where
  "timeframe_rank Tick = 0"
| "timeframe_rank Seconds = 1"
| "timeframe_rank Minutes = 2"
| "timeframe_rank Days = 3"
| "timeframe_rank Weeks = 4"
| "timeframe_rank Months = 5"
| "timeframe_rank Years = 6"

record tfc =
  tf_timeframe :: timeframe
  tf_compression :: int

definition default_tfc :: tfc where
  "default_tfc = \<lparr>tf_timeframe = Days, tf_compression = 1\<rparr>"

text \<open>\<^verbatim>\<open>core/error.hpp\<close>.\<close>

datatype data_error = FileNotFound | EmptyFile | HeaderOnly | AlreadyLoaded | InvalidInterval

fun data_error_to_string :: "data_error \<Rightarrow> string" where
  "data_error_to_string FileNotFound = ''file not found''"
| "data_error_to_string EmptyFile = ''no data rows after filtering''"
| "data_error_to_string HeaderOnly = ''header only, no data rows''"
| "data_error_to_string AlreadyLoaded = ''data already loaded''"
| "data_error_to_string InvalidInterval = ''invalid interval token''"

definition minutes_per_hour :: int where
  "minutes_per_hour = 60"

definition interval_vocabulary :: "(string \<times> tfc) list" where
  "interval_vocabulary =
    [(''1m'', \<lparr>tf_timeframe = Minutes, tf_compression = 1\<rparr>),
     (''5m'', \<lparr>tf_timeframe = Minutes, tf_compression = 5\<rparr>),
     (''15m'', \<lparr>tf_timeframe = Minutes, tf_compression = 15\<rparr>),
     (''30m'', \<lparr>tf_timeframe = Minutes, tf_compression = 30\<rparr>),
     (''1h'', \<lparr>tf_timeframe = Minutes, tf_compression = minutes_per_hour\<rparr>),
     (''2h'', \<lparr>tf_timeframe = Minutes, tf_compression = 2 * minutes_per_hour\<rparr>),
     (''4h'', \<lparr>tf_timeframe = Minutes, tf_compression = 4 * minutes_per_hour\<rparr>),
     (''1d'', \<lparr>tf_timeframe = Days, tf_compression = 1\<rparr>),
     (''1w'', \<lparr>tf_timeframe = Weeks, tf_compression = 1\<rparr>),
     (''1M'', \<lparr>tf_timeframe = Months, tf_compression = 1\<rparr>)]"

definition parse_interval :: "string \<Rightarrow> data_error + tfc" where
  "parse_interval token =
     (case find (\<lambda>e. fst e = token) interval_vocabulary of
        Some e \<Rightarrow> Inr (snd e)
      | None \<Rightarrow> Inl InvalidInterval)"

definition interval_to_string :: "tfc \<Rightarrow> string" where
  "interval_to_string t =
     (case find (\<lambda>e. tf_timeframe (snd e) = tf_timeframe t \<and> tf_compression (snd e) = tf_compression t)
             interval_vocabulary of
        Some e \<Rightarrow> fst e
      | None \<Rightarrow> [])"

definition finer_than :: "tfc \<Rightarrow> tfc \<Rightarrow> bool" where
  "finer_than a b =
     (if tf_timeframe a \<noteq> tf_timeframe b
      then timeframe_rank (tf_timeframe a) < timeframe_rank (tf_timeframe b)
      else tf_compression a < tf_compression b)"

subsection \<open>Calendar arithmetic\<close>

definition secs_per_day :: int where
  "secs_per_day = 86400"

definition day_of :: "datetime \<Rightarrow> int" where
  "day_of t = t div (secs_per_day * ticks_per_sec)"

definition datetime_of_day :: "int \<Rightarrow> datetime" where
  "datetime_of_day d = d * (secs_per_day * ticks_per_sec)"

definition leap :: "int \<Rightarrow> bool" where
  "leap y = (y mod 4 = 0 \<and> (y mod 100 \<noteq> 0 \<or> y mod 400 = 0))"

definition leap_day :: "int \<Rightarrow> int" where
  "leap_day y = (if leap y then 1 else 0)"

text \<open>The day number of 1 January, and the year of a day: an estimate, then one correction.\<close>

definition year_start :: "int \<Rightarrow> int" where
  "year_start y = 365 * (y - 1970) + ((y - 1) div 4 - (y - 1) div 100 + (y - 1) div 400) - 477"

definition year_of :: "int \<Rightarrow> int" where
  "year_of d =
     (let e = 1970 + (400 * d) div 146097
      in if d < year_start e then e - 1 else if year_start (e + 1) \<le> d then e + 1 else e)"

definition days_before_month :: "int \<Rightarrow> int \<Rightarrow> int" where
  "days_before_month y m =
     (if m = 0 then 0 else if m = 1 then 31
      else [59, 90, 120, 151, 181, 212, 243, 273, 304, 334] ! nat (m - 2) + leap_day y)"

definition month_in_year :: "int \<Rightarrow> int \<Rightarrow> int" where
  "month_in_year y doy =
     (let l = leap_day y in
      if doy < 31 then 0 else if doy < 59 + l then 1 else if doy < 90 + l then 2
      else if doy < 120 + l then 3 else if doy < 151 + l then 4 else if doy < 181 + l then 5
      else if doy < 212 + l then 6 else if doy < 243 + l then 7 else if doy < 273 + l then 8
      else if doy < 304 + l then 9 else if doy < 334 + l then 10 else 11)"

text \<open>Months counted from year 0: \<open>12 * year + month - 1\<close>.\<close>

definition month_start :: "int \<Rightarrow> int" where
  "month_start k = year_start (k div 12) + days_before_month (k div 12) (k mod 12)"

definition month_of :: "int \<Rightarrow> int" where
  "month_of d = (let y = year_of d in 12 * y + month_in_year y (d - year_start y))"

subsection \<open>Periods\<close>

definition duration_of :: "tfc \<Rightarrow> exn + int" where
  "duration_of tf =
     (if tf_compression tf \<le> 0 then
        Inl (InvalidArgument ''duration_of: compression must be positive'')
      else
        (case tf_timeframe tf of
           Minutes \<Rightarrow> Inr (60 * tf_compression tf)
         | Days \<Rightarrow> Inr (secs_per_day * tf_compression tf)
         | _ \<Rightarrow> Inl (InvalidArgument
                 ''duration_of: variable-span timeframe; use period_start/period_end'')))"

text \<open>The bucket of a second: C++ division, corrected before the epoch.\<close>

definition fixed_bucket :: "int \<Rightarrow> int \<Rightarrow> int" where
  "fixed_bucket sec len =
     (let bucket = sec sdiv len
      in if sec smod len \<noteq> 0 \<and> sec < 0 then bucket - 1 else bucket)"

definition weekday_encoding :: "int \<Rightarrow> int" where
  "weekday_encoding day = (day + 4) mod 7"

definition days_since_monday :: "int \<Rightarrow> int" where
  "days_since_monday day = (weekday_encoding day - 1) mod 7"

definition period_start :: "datetime \<Rightarrow> tfc \<Rightarrow> exn + datetime" where
  "period_start t tf =
     (case tf_timeframe tf of
        Minutes \<Rightarrow>
          bind_r (duration_of tf) (\<lambda>len.
            Inr (fixed_bucket (t div ticks_per_sec) len * len * ticks_per_sec))
      | Days \<Rightarrow>
          bind_r (duration_of tf) (\<lambda>len.
            Inr (fixed_bucket (t div ticks_per_sec) len * len * ticks_per_sec))
      | Weeks \<Rightarrow>
          (if tf_compression tf \<noteq> 1 then
             Inl (InvalidArgument ''period_start: weeks support compression 1 only'')
           else Inr (datetime_of_day (day_of t - days_since_monday (day_of t))))
      | Months \<Rightarrow>
          (if tf_compression tf \<noteq> 1 then
             Inl (InvalidArgument ''period_start: months support compression 1 only'')
           else Inr (datetime_of_day (month_start (month_of (day_of t)))))
      | _ \<Rightarrow> Inl (InvalidArgument ''period_start: timeframe outside the canonical vocabulary''))"

definition advance_periods :: "datetime \<Rightarrow> tfc \<Rightarrow> int \<Rightarrow> exn + datetime" where
  "advance_periods t tf n =
     bind_r (period_start t tf) (\<lambda>start.
       case tf_timeframe tf of
         Minutes \<Rightarrow> bind_r (duration_of tf) (\<lambda>len. Inr (start + n * len * ticks_per_sec))
       | Days \<Rightarrow> bind_r (duration_of tf) (\<lambda>len. Inr (start + n * len * ticks_per_sec))
       | Weeks \<Rightarrow> Inr (start + n * datetime_of_day 7)
       | Months \<Rightarrow> Inr (datetime_of_day (month_start (month_of (day_of start) + n)))
       | _ \<Rightarrow> Inl (InvalidArgument
               ''advance_periods: timeframe outside the canonical vocabulary''))"

definition period_end :: "datetime \<Rightarrow> tfc \<Rightarrow> exn + datetime" where
  "period_end t tf = advance_periods t tf 1"

subsection \<open>The grid interface\<close>

locale time_grid =
  fixes start :: "int \<Rightarrow> int" and index :: "int \<Rightarrow> int"
  assumes step: "start k < start (k + 1)"
    and within: "start (index t) \<le> t \<and> t < start (index t + 1)"
begin

lemma start_less: "i < j \<Longrightarrow> start i < start j"
proof -
  have up: "start i < start (i + int (Suc n))" for i n
  proof (induction n)
    case 0
    then show ?case using step [of i] by simp
  next
    case (Suc n)
    then show ?case using step [of "i + int (Suc n)"] by (simp add: algebra_simps)
  qed
  assume "i < j"
  then have "j = i + int (Suc (nat (j - i - 1)))" by simp
  then show ?thesis using up by metis
qed

lemma start_le_iff: "start i \<le> start j \<longleftrightarrow> i \<le> j"
  using start_less [of i j] start_less [of j i] by (cases i j rule: linorder_cases) auto

lemma index_unique: "start k \<le> t \<Longrightarrow> t < start (k + 1) \<Longrightarrow> index t = k"
proof -
  assume a: "start k \<le> t" "t < start (k + 1)"
  have "start k < start (index t + 1)" "start (index t) < start (k + 1)"
    using a within [of t] by auto
  then have "\<not> index t + 1 \<le> k" "\<not> k + 1 \<le> index t"
    using start_le_iff [of "index t + 1" k] start_le_iff [of "k + 1" "index t"] by auto
  then show ?thesis by simp
qed

lemma index_start [simp]: "index (start k) = k"
  using step by (intro index_unique) auto

lemma index_mono: "s \<le> t \<Longrightarrow> index s \<le> index t"
proof -
  assume "s \<le> t"
  then have "start (index s) < start (index t + 1)" using within [of s] within [of t] by auto
  then show ?thesis using start_le_iff [of "index t + 1" "index s"] by auto
qed

lemma same_period: "start (index t) \<le> u \<Longrightarrow> u < start (index t + 1) \<Longrightarrow> start (index u) = start (index t)"
  using index_unique by simp

end

subsection \<open>Fixed spans and weeks\<close>

text \<open>The corrected C++ division is the floor.\<close>

lemma fixed_bucket_floor:
  assumes "0 < len"
  shows "fixed_bucket sec len = sec div len"
proof (cases "0 \<le> sec")
  case True
  then show ?thesis using assms by (simp add: fixed_bucket_def Let_def signed_divide_int_def sgn_if)
next
  case False
  have sd: "sec sdiv len = - ((- sec) div len)"
    using False assms by (simp add: signed_divide_int_def sgn_if)
  have sm: "sec smod len = - ((- sec) mod len)"
    using False assms by (simp add: signed_modulo_int_def sd minus_mult_div_eq_mod [symmetric] algebra_simps)
  show ?thesis
    using False assms zdiv_zminus1_eq_if [of len "- sec"] unfolding fixed_bucket_def Let_def sd sm
    by simp
qed

definition fixed_start :: "int \<Rightarrow> int \<Rightarrow> int" where
  "fixed_start len k = k * (len * ticks_per_sec)"

definition fixed_index :: "int \<Rightarrow> int \<Rightarrow> int" where
  "fixed_index len t = t div (len * ticks_per_sec)"

lemma div_bounds:
  "0 < (c::int) \<Longrightarrow> t div c * c \<le> t \<and> t < (t div c + 1) * c"
proof -
  assume "0 < c"
  then have "0 \<le> t mod c" "t mod c < c" by simp_all
  moreover have "t div c * c + t mod c = t" by (rule div_mult_mod_eq)
  ultimately show ?thesis by (simp only: distrib_right mult_1) linarith
qed

interpretation fixed: time_grid "fixed_start (if 0 < len then len else 1)" "fixed_index (if 0 < len then len else 1)"
  for len
  using div_bounds [of "(if 0 < len then len else 1) * ticks_per_sec"]
  by unfold_locales (auto simp: fixed_start_def fixed_index_def ticks_per_sec_def)

definition week_start :: "int \<Rightarrow> int" where
  "week_start k = datetime_of_day (7 * k - 3)"

definition week_index :: "int \<Rightarrow> int" where
  "week_index t = (day_of t + 3) div 7"

lemma day_bounds: "datetime_of_day (day_of t) \<le> t \<and> t < datetime_of_day (day_of t + 1)"
  using div_bounds [of "secs_per_day * ticks_per_sec" t]
  by (simp add: day_of_def datetime_of_day_def secs_per_day_def ticks_per_sec_def)

lemma datetime_of_day_less [simp]: "datetime_of_day a < datetime_of_day b \<longleftrightarrow> a < b"
  "datetime_of_day a \<le> datetime_of_day b \<longleftrightarrow> a \<le> b"
  by (simp_all add: datetime_of_day_def secs_per_day_def ticks_per_sec_def)

text \<open>A grid of days is a grid of instants.\<close>

lemma day_grid:
  assumes "time_grid ds di"
  shows "time_grid (\<lambda>k. datetime_of_day (ds k)) (\<lambda>t. di (day_of t))"
proof
  fix k t
  show "datetime_of_day (ds k) < datetime_of_day (ds (k + 1))"
    using time_grid.step [OF assms] by simp
  have w: "ds (di (day_of t)) \<le> day_of t" "day_of t + 1 \<le> ds (di (day_of t) + 1)"
    using time_grid.within [OF assms, of "day_of t"] by auto
  have "datetime_of_day (ds (di (day_of t))) \<le> t"
    using w(1) day_bounds [of t] by (meson datetime_of_day_less(2) order_trans)
  moreover have "t < datetime_of_day (ds (di (day_of t) + 1))"
    using w(2) day_bounds [of t] by (meson datetime_of_day_less(2) order_less_le_trans)
  ultimately show "datetime_of_day (ds (di (day_of t))) \<le> t \<and> t < datetime_of_day (ds (di (day_of t) + 1))"
    by simp
qed

lemma week_day_grid: "time_grid (\<lambda>k. 7 * k - 3) (\<lambda>d. (d + 3) div 7)"
  using div_bounds [of 7] by unfold_locales (simp, smt (verit))

interpretation weekly: time_grid week_start week_index
  using day_grid [OF week_day_grid] by (simp add: week_start_def week_index_def [abs_def] week_start_def [abs_def])

subsection \<open>Years and months\<close>

lemma year_start_bounds:
  "146097 * (y - 1970) - 506 \<le> 400 * year_start y" "400 * year_start y \<le> 146097 * (y - 1970) + 589"
proof -
  have d: "c * (u div c) \<le> u \<and> u \<le> c * (u div c) + (c - 1)" if "0 < c" for u c :: int
    using div_bounds [OF that, of u] by (simp add: algebra_simps)
  show "146097 * (y - 1970) - 506 \<le> 400 * year_start y" "400 * year_start y \<le> 146097 * (y - 1970) + 589"
    using d [of 4 "y - 1"] d [of 100 "y - 1"] d [of 400 "y - 1"]
    unfolding year_start_def by simp_all
qed

lemma year_start_step: "year_start y + 365 \<le> year_start (y + 1)"
proof -
  have m: "(u + 1) div c = u div c + (if (u + 1) mod c = 0 then 1 else 0)" if "1 < c" for u c :: int
  proof -
    have "(u + 1) div c = u div c + (u mod c + 1) div c"
      using div_add1_eq [of u 1 c] that by simp
    moreover have "(u mod c + 1) div c = (if (u + 1) mod c = 0 then 1 else 0)"
    proof -
      have b: "0 \<le> u mod c" "u mod c < c" using that by simp_all
      have e: "(u + 1) mod c = (u mod c + 1) mod c" by (simp add: mod_add_left_eq)
      show ?thesis
      proof (cases "u mod c + 1 = c")
        case True
        then show ?thesis using e that by simp
      next
        case False
        then have "u mod c + 1 < c" using b by linarith
        then show ?thesis using b e by (simp add: div_pos_pos_trivial mod_pos_pos_trivial)
      qed
    qed
    ultimately show ?thesis by simp
  qed
  define i where "i c = (if y mod c = 0 then 1 else 0 :: int)" for c
  define q where "q c = (y - 1) div c" for c
  have e: "y div c = q c + i c" if "1 < c" for c
    using m [OF that, of "y - 1"] by (simp add: i_def q_def)
  have "y mod 100 = 0 \<longrightarrow> y mod 4 = 0" by presburger
  then have i: "i 100 \<le> i 4" "0 \<le> i 400" by (simp_all add: i_def)
  have "year_start (y + 1) = 365 * (y - 1969) + ((q 4 + i 4) - (q 100 + i 100) + (q 400 + i 400)) - 477"
    using e [of 4] e [of 100] e [of 400] by (simp add: year_start_def)
  moreover have "year_start y = 365 * (y - 1970) + (q 4 - q 100 + q 400) - 477"
    by (simp add: year_start_def q_def)
  ultimately show ?thesis using i by simp
qed

lemma year_of_within: "year_start (year_of d) \<le> d \<and> d < year_start (year_of d + 1)"
proof -
  define e where "e = 1970 + (400 * d) div 146097"
  have e: "146097 * (e - 1970) \<le> 400 * d" "400 * d < 146097 * (e - 1969)"
    using div_bounds [of 146097 "400 * d"] by (simp_all add: e_def algebra_simps)
  have hi: "400 * year_start e \<le> 400 * d + 589" and lo: "400 * d < 400 * year_start (e + 1) + 506"
    using e year_start_bounds(2) [of e] year_start_bounds(1) [of "e + 1"] by simp_all
  have "year_start (e - 1) + 365 \<le> year_start e" "year_start (e + 1) + 365 \<le> year_start (e + 2)"
    using year_start_step [of "e - 1"] year_start_step [of "e + 1"] by (simp_all add: algebra_simps)
  then have "d < year_start e \<Longrightarrow> year_start (e - 1) \<le> d" "year_start (e + 1) \<le> d \<Longrightarrow> d < year_start (e + 2)"
    using hi lo by linarith+
  then show ?thesis
    by (simp add: year_of_def Let_def e_def [symmetric] add.commute)
qed

lemma month_cases:
  assumes "0 \<le> m" and "m < 12"
  obtains "m = 0" | "m = 1" | "m = 2" | "m = 3" | "m = 4" | "m = 5" | "m = 6" | "m = 7"
    | "m = 8" | "m = 9" | "m = 10" | "m = (11::int)"
proof -
  have "m = 0 \<or> m = 1 \<or> m = 2 \<or> m = 3 \<or> m = 4 \<or> m = 5 \<or> m = 6 \<or> m = 7 \<or> m = 8 \<or> m = 9
      \<or> m = 10 \<or> m = 11" using assms by presburger
  then show thesis using that by blast
qed

lemma leap_day_range: "0 \<le> leap_day y \<and> leap_day y \<le> 1"
  by (simp add: leap_day_def)

lemma days_before_step:
  assumes "0 \<le> m" and "m < 11"
  shows "days_before_month y m < days_before_month y (m + 1)"
proof -
  have "m < 12" using assms(2) by simp
  with assms(1) show ?thesis
    by (cases rule: month_cases) (use assms(2) leap_day_range [of y] in \<open>simp_all add: days_before_month_def\<close>)
qed

lemma month_start_year: "0 \<le> m \<Longrightarrow> m < 12 \<Longrightarrow> month_start (12 * y + m) = year_start y + days_before_month y m"
  by (simp add: month_start_def)

lemma month_start_step: "month_start k < month_start (k + 1)"
proof -
  let ?y = "k div 12" and ?m = "k mod 12"
  have k: "k = 12 * ?y + ?m" "0 \<le> ?m" "?m < 12" by simp_all
  show ?thesis
  proof (cases "?m = 11")
    case True
    then have "k + 1 = 12 * (?y + 1) + 0" by presburger
    then have "month_start (k + 1) = year_start (?y + 1)"
      using month_start_year [of 0 "?y + 1"] by (simp only:) (simp add: days_before_month_def)
    moreover have "days_before_month ?y 11 < 365"
      using leap_day_range [of ?y] by (simp add: days_before_month_def)
    ultimately show ?thesis
      using True year_start_step [of ?y] by (simp add: month_start_def)
  next
    case False
    then have "?m < 11" using k(3) by linarith
    moreover have "month_start (k + 1) = year_start ?y + days_before_month ?y (?m + 1)"
      using month_start_year [of "?m + 1" ?y] k calculation by (simp add: add.assoc)
    ultimately show ?thesis
      using days_before_step [of ?m ?y] k(2) by (simp add: month_start_def)
  qed
qed

lemma month_in_year_range: "0 \<le> month_in_year y doy \<and> month_in_year y doy < 12"
  by (simp add: month_in_year_def Let_def)

lemma month_in_year_within:
  assumes "0 \<le> doy"
  shows "days_before_month y (month_in_year y doy) \<le> doy
       \<and> (month_in_year y doy < 11 \<longrightarrow> doy < days_before_month y (month_in_year y doy + 1))"
  using assms leap_day_range [of y]
  by (simp add: month_in_year_def Let_def days_before_month_def not_less)

lemma month_of_within: "month_start (month_of d) \<le> d \<and> d < month_start (month_of d + 1)"
proof -
  let ?y = "year_of d"
  let ?doy = "d - year_start ?y"
  let ?m = "month_in_year ?y ?doy"
  have y: "0 \<le> ?doy" "d < year_start (?y + 1)" using year_of_within [of d] by auto
  have idx: "month_of d = 12 * ?y + ?m" by (simp add: month_of_def Let_def)
  note m = month_in_year_range [of ?y ?doy] and w = month_in_year_within [OF y(1), of ?y]
  have lo: "month_start (month_of d) \<le> d" using w m by (simp add: idx month_start_year)
  have hi: "d < month_start (month_of d + 1)"
  proof (cases "?m < 11")
    case True
    then show ?thesis using w m month_start_year [of "?m + 1" ?y] by (simp add: idx add.assoc)
  next
    case False
    then have "month_of d + 1 = 12 * (?y + 1) + 0" using m by (simp add: idx)
    then have "month_start (month_of d + 1) = year_start (?y + 1)"
      using month_start_year [of 0 "?y + 1"] by (simp only:) (simp add: days_before_month_def)
    then show ?thesis using y(2) by simp
  qed
  show ?thesis using lo hi by simp
qed

lemma month_day_grid: "time_grid month_start month_of"
  by unfold_locales (auto simp: month_start_step month_of_within)

interpretation monthly: time_grid "\<lambda>k. datetime_of_day (month_start k)" "\<lambda>t. month_of (day_of t)"
  by (rule day_grid [OF month_day_grid])

subsection \<open>The period functions on the grids\<close>

definition valid_tfc :: "tfc \<Rightarrow> bool" where
  "valid_tfc tf \<longleftrightarrow>
     (case tf_timeframe tf of
        Minutes \<Rightarrow> 0 < tf_compression tf
      | Days \<Rightarrow> 0 < tf_compression tf
      | Weeks \<Rightarrow> tf_compression tf = 1
      | Months \<Rightarrow> tf_compression tf = 1
      | _ \<Rightarrow> False)"

text \<open>The functions of the code are those of a grid.\<close>

definition on_grid :: "tfc \<Rightarrow> (int \<Rightarrow> int) \<Rightarrow> (int \<Rightarrow> int) \<Rightarrow> bool" where
  "on_grid tf start index \<longleftrightarrow>
     (\<forall>t. period_start t tf = Inr (start (index t)))
     \<and> (\<forall>t n. advance_periods t tf n = Inr (start (index t + n)))"

lemma on_grid_fixed:
  assumes "duration_of tf = Inr len" and "tf_timeframe tf = Minutes \<or> tf_timeframe tf = Days"
  shows "0 < len \<and> on_grid tf (fixed_start len) (fixed_index len)"
proof -
  have len: "0 < len"
    using assms by (auto simp: duration_of_def secs_per_day_def split: if_splits)
  have "t div ticks_per_sec div len = t div (len * ticks_per_sec)" for t
    using len by (simp add: zdiv_zmult2_eq ticks_per_sec_def mult.commute [of len])
  then have ps: "period_start t tf = Inr (fixed_start len (fixed_index len t))" for t
    using assms len
    by (auto simp: period_start_def fixed_bucket_floor fixed_start_def fixed_index_def mult.assoc)
  then have "advance_periods t tf n = Inr (fixed_start len (fixed_index len t + n))" for t n
    using assms by (auto simp: advance_periods_def fixed_start_def algebra_simps)
  with ps len show ?thesis by (simp add: on_grid_def)
qed

lemma on_grid_weeks:
  assumes "tf_timeframe tf = Weeks" and "tf_compression tf = 1"
  shows "on_grid tf week_start week_index"
proof -
  have d: "days_since_monday day = (day + 3) mod 7" for day
    by (simp add: days_since_monday_def weekday_encoding_def mod_diff_left_eq add.commute)
  have ps: "period_start t tf = Inr (week_start (week_index t))" for t
  proof -
    have "day_of t - (day_of t + 3) mod 7 = 7 * ((day_of t + 3) div 7) - 3"
      using mult_div_mod_eq [of 7 "day_of t + 3"] by linarith
    then show ?thesis using assms by (simp add: period_start_def d week_start_def week_index_def)
  qed
  then have "advance_periods t tf n = Inr (week_start (week_index t + n))" for t n
    using assms by (simp add: advance_periods_def week_start_def datetime_of_day_def algebra_simps)
  with ps show ?thesis by (simp add: on_grid_def)
qed

lemma day_of_datetime [simp]: "day_of (datetime_of_day d) = d"
  by (simp add: day_of_def datetime_of_day_def secs_per_day_def ticks_per_sec_def)

lemma on_grid_months:
  assumes "tf_timeframe tf = Months" and "tf_compression tf = 1"
  shows "on_grid tf (\<lambda>k. datetime_of_day (month_start k)) (\<lambda>t. month_of (day_of t))"
  using assms time_grid.index_start [OF month_day_grid]
  by (simp add: on_grid_def period_start_def advance_periods_def)

lemma valid_on_grid:
  assumes "valid_tfc tf"
  obtains start index where "time_grid start index" "on_grid tf start index"
proof (cases "tf_timeframe tf")
  case Minutes
  then obtain len where "duration_of tf = Inr len" using assms by (simp add: valid_tfc_def duration_of_def)
  then have "0 < len" "on_grid tf (fixed_start len) (fixed_index len)"
    using on_grid_fixed Minutes by auto
  then show thesis using that fixed.time_grid_axioms [of len] by simp
next
  case Days
  then obtain len where "duration_of tf = Inr len" using assms by (simp add: valid_tfc_def duration_of_def)
  then have "0 < len" "on_grid tf (fixed_start len) (fixed_index len)"
    using on_grid_fixed Days by auto
  then show thesis using that fixed.time_grid_axioms [of len] by simp
next
  case Weeks
  then show thesis
    using that on_grid_weeks assms weekly.time_grid_axioms by (simp add: valid_tfc_def)
next
  case Months
  then show thesis
    using that on_grid_months assms monthly.time_grid_axioms by (simp add: valid_tfc_def)
qed (use assms in \<open>simp_all add: valid_tfc_def\<close>)

text \<open>The end of a period, for callers that compare it with another instant.\<close>

lemma period_end_total:
  assumes "valid_tfc tf"
  obtains e where "period_end t tf = Inr e" "t < e"
proof -
  obtain start index where G: "time_grid start index" and on: "on_grid tf start index"
    using valid_on_grid [OF assms] .
  then have "period_end t tf = Inr (start (index t + 1))"
    by (simp add: period_end_def on_grid_def)
  then show thesis using that time_grid.within [OF G, of t] by blast
qed

lemma period_end_mono:
  assumes "valid_tfc tf" and "t \<le> u" and "period_end t tf = Inr e" and "period_end u tf = Inr e'"
  shows "e \<le> e'"
proof -
  obtain start index where G: "time_grid start index" and on: "on_grid tf start index"
    using valid_on_grid [OF assms(1)] .
  then have "e = start (index t + 1)" "e' = start (index u + 1)"
    using assms(3,4) by (auto simp: period_end_def on_grid_def)
  then show ?thesis
    using time_grid.start_le_iff [OF G] time_grid.index_mono [OF G assms(2)] by simp
qed

text \<open>
  C16. Calendar periods partition time: for every supported timeframe the period of an
  instant is the half-open interval from \<open>period_start\<close> to \<open>period_end\<close>, all instants of it
  have the same start, its end starts the next period, \<open>period_start\<close> is idempotent and
  monotone, and stepping periods is additive; any other timeframe is refused by an
  \<open>invalid_argument\<close> exception.
\<close>

theorem period_calendar:
  "if valid_tfc tf then
     (\<exists>s e. period_start t tf = Inr s \<and> period_end t tf = Inr e \<and> s \<le> t \<and> t < e
        \<and> (\<forall>u. s \<le> u \<and> u < e \<longrightarrow> period_start u tf = Inr s)
        \<and> period_start s tf = Inr s \<and> period_start e tf = Inr e
        \<and> (\<forall>u s'. t \<le> u \<and> period_start u tf = Inr s' \<longrightarrow> s \<le> s')
        \<and> advance_periods t tf 0 = Inr s
        \<and> (\<forall>n m. bind_r (advance_periods t tf n) (\<lambda>u. advance_periods u tf m)
                    = advance_periods t tf (n + m)))
   else (\<exists>msg. period_start t tf = Inl (InvalidArgument msg)
           \<and> advance_periods t tf n = Inl (InvalidArgument msg))"
proof (cases "valid_tfc tf")
  case True
  obtain start index where G: "time_grid start index" and on: "on_grid tf start index"
    using valid_on_grid [OF True] .
  have ps: "period_start u tf = Inr (start (index u))"
    and adv: "advance_periods u tf n = Inr (start (index u + n))" for u n
    using on by (simp_all add: on_grid_def)
  have same: "start (index u) = start (index t)" if "start (index t) \<le> u" "u < start (index t + 1)" for u
    using time_grid.same_period [OF G that] .
  let ?s = "start (index t)" and ?e = "start (index t + 1)"
  have "period_start t tf = Inr ?s \<and> period_end t tf = Inr ?e \<and> ?s \<le> t \<and> t < ?e"
    using time_grid.within [OF G, of t] by (simp add: ps adv period_end_def)
  moreover have "\<forall>u. ?s \<le> u \<and> u < ?e \<longrightarrow> period_start u tf = Inr ?s"
    using same ps by presburger
  moreover have "period_start ?s tf = Inr ?s" "period_start ?e tf = Inr ?e"
    by (simp_all only: ps time_grid.index_start [OF G])
  moreover have "\<forall>u s'. t \<le> u \<and> period_start u tf = Inr s' \<longrightarrow> ?s \<le> s'"
    using time_grid.start_le_iff [OF G] time_grid.index_mono [OF G] by (auto simp: ps)
  moreover have "advance_periods t tf 0 = Inr ?s" by (simp add: adv)
  moreover have "\<forall>n m. bind_r (advance_periods t tf n) (\<lambda>u. advance_periods u tf m)
      = advance_periods t tf (n + m)"
    by (simp add: adv time_grid.index_start [OF G] add.assoc)
  ultimately show ?thesis using True by simp
next
  case False
  then show ?thesis
    by (cases "tf_timeframe tf")
       (auto simp: valid_tfc_def period_start_def advance_periods_def duration_of_def)
qed

text \<open>
  The vocabulary round-trips: each of the ten tokens parses to a supported timeframe
  that prints as the token, a timeframe with a token parses back to itself, everything else
  is an \<open>InvalidInterval\<close> error or the empty token, and the tokens are listed from finer to
  coarser in the order of \<open>finer_than\<close>.
\<close>

theorem interval_roundtrip:
  "(\<forall>tok tf. parse_interval tok = Inr tf \<longrightarrow> valid_tfc tf \<and> interval_to_string tf = tok)
   \<and> (\<forall>tf. interval_to_string tf \<noteq> [] \<longrightarrow> parse_interval (interval_to_string tf) = Inr tf)
   \<and> (\<forall>tok e. parse_interval tok = Inl e \<longleftrightarrow>
          e = InvalidInterval \<and> tok \<notin> set (map fst interval_vocabulary))
   \<and> sorted_wrt finer_than (map snd interval_vocabulary)"
proof (intro conjI allI impI)
  fix tok tf assume "parse_interval tok = Inr tf"
  then have mem: "(tok, tf) \<in> set interval_vocabulary"
    by (auto simp: parse_interval_def split: option.splits dest!: find_SomeD)
  have "\<forall>(tok, tf) \<in> set interval_vocabulary. valid_tfc tf \<and> interval_to_string tf = tok"
    by (simp add: interval_vocabulary_def valid_tfc_def interval_to_string_def minutes_per_hour_def)
  then show "valid_tfc tf" "interval_to_string tf = tok" using mem by auto
next
  fix tf assume ne: "interval_to_string tf \<noteq> []"
  then obtain a b where e: "(a, b) \<in> set interval_vocabulary" "interval_to_string tf = a"
      "tf_timeframe b = tf_timeframe tf" "tf_compression b = tf_compression tf"
    by (auto simp: interval_to_string_def split: option.splits dest!: find_SomeD)
  have "b = tf" using e(3,4) by (cases b; cases tf) simp
  then have mem: "(a, tf) \<in> set interval_vocabulary" using e(1) by simp
  have "\<forall>e \<in> set interval_vocabulary. parse_interval (fst e) = Inr (snd e)"
    by (simp add: interval_vocabulary_def parse_interval_def)
  then show "parse_interval (interval_to_string tf) = Inr tf" using e(2) mem by force
next
  fix tok e
  show "parse_interval tok = Inl e \<longleftrightarrow> e = InvalidInterval \<and> tok \<notin> set (map fst interval_vocabulary)"
    by (auto simp: parse_interval_def find_None_iff find_Some_iff split: option.splits)
next
  show "sorted_wrt finer_than (map snd interval_vocabulary)"
    by (simp add: interval_vocabulary_def finer_than_def minutes_per_hour_def)
qed

text \<open>Sunday 1970-01-04 belongs to the week that started on Monday 1969-12-29.\<close>

theorem period_calendar_witness:
  "period_start (datetime_of_day 3) \<lparr>tf_timeframe = Weeks, tf_compression = 1\<rparr> = Inr (datetime_of_day (- 3))
   \<and> (\<exists>e. period_end (datetime_of_day 3) \<lparr>tf_timeframe = Weeks, tf_compression = 1\<rparr> = Inr e
        \<and> datetime_of_day 3 < e)"
proof -
  let ?w = "\<lparr>tf_timeframe = Weeks, tf_compression = 1\<rparr>"
  have s: "period_start (datetime_of_day 3) ?w = Inr (datetime_of_day (- 3))"
    by (simp add: period_start_def days_since_monday_def weekday_encoding_def datetime_of_day_def
        day_of_def secs_per_day_def ticks_per_sec_def)
  have "valid_tfc ?w" by (simp add: valid_tfc_def)
  then show ?thesis using period_calendar [of ?w "datetime_of_day 3" 0] s by auto
qed

theorem interval_roundtrip_witness:
  "\<exists>tf. parse_interval ''4h'' = Inr tf \<and> tf_compression tf = 240 \<and> valid_tfc tf
     \<and> interval_to_string tf = ''4h''"
proof -
  have p: "parse_interval ''4h'' = Inr \<lparr>tf_timeframe = Minutes, tf_compression = 240\<rparr>"
    by (simp add: parse_interval_def interval_vocabulary_def minutes_per_hour_def)
  then have "valid_tfc \<lparr>tf_timeframe = Minutes, tf_compression = 240\<rparr>
      \<and> interval_to_string \<lparr>tf_timeframe = Minutes, tf_compression = 240\<rparr> = ''4h''"
    using interval_roundtrip by blast
  then show ?thesis using p by simp
qed

end
