(* ===== verification/Resample.thy ===== *)
theory Resample
  imports Feed Interval
begin

text \<open>
  \<^verbatim>\<open>data/resampled_feed.hpp\<close>, \<^verbatim>\<open>data/resampler.hpp\<close> and \<^verbatim>\<open>data/replay.hpp\<close>: aggregation of bars
  into coarser periods. The parallel columns of a preloaded source feed are taken as one
  list of bars (theory \<open>Feed\<close>: preloading fills the columns in step), and so is the output.
  The specification is grouping of adjacent bars with the same bucket (\<open>runs\<close>) and the
  open / high / low / close / volume summary of a group; the three loops are proved to
  compute it.
\<close>

subsection \<open>Resampling on the calendar grid\<close>

definition accumulate :: "real bar \<Rightarrow> real bar \<Rightarrow> real bar" where
  "accumulate acc b =
     acc\<lparr>bar_high := max (bar_high acc) (bar_high b), bar_low := min (bar_low acc) (bar_low b),
         bar_close := bar_close b, bar_volume := bar_volume acc + bar_volume b\<rparr>"

text \<open>The loop of \<open>ResampledFeed::preload\<close>: the bucket being built carries its start as timestamp.\<close>

fun resampled_loop :: "tfc \<Rightarrow> real bar \<Rightarrow> real bar list \<Rightarrow> exn + real bar list" where
  "resampled_loop tf cur [] = Inr [cur]"
| "resampled_loop tf cur (b # bs) =
     bind_r (period_start (bar_timestamp b) tf) (\<lambda>bar_bucket.
       if bar_bucket \<noteq> bar_timestamp cur then
         bind_r (resampled_loop tf (b\<lparr>bar_timestamp := bar_bucket\<rparr>) bs) (\<lambda>out. Inr (cur # out))
       else resampled_loop tf (accumulate cur b) bs)"

definition resampled_preload :: "tfc \<Rightarrow> real bar list \<Rightarrow> exn + real bar list" where
  "resampled_preload tf bars =
     (case bars of
        [] \<Rightarrow> Inr []
      | b # bs \<Rightarrow>
          bind_r (period_start (bar_timestamp b) tf) (\<lambda>s.
            resampled_loop tf (b\<lparr>bar_timestamp := s\<rparr>) bs))"

subsection \<open>Buckets of the classic resampler\<close>

definition minutes_of_day :: "datetime \<Rightarrow> int" where
  "minutes_of_day t = (t - datetime_of_day (day_of t)) div (60 * ticks_per_sec)"

definition get_bucket :: "datetime \<Rightarrow> timeframe \<Rightarrow> int \<Rightarrow> int" where
  "get_bucket dt tf compression =
     (case tf of
        Minutes \<Rightarrow> day_of dt * 10000 + minutes_of_day dt sdiv compression
      | Days \<Rightarrow> day_of dt sdiv compression
      | Weeks \<Rightarrow> (day_of dt + 3) sdiv 7
      | Months \<Rightarrow> month_of (day_of dt) + 1
      | _ \<Rightarrow> dt)"

definition end_of_day :: "datetime \<Rightarrow> datetime" where
  "end_of_day dt = datetime_of_day (day_of dt) + (23 * 3600 + 59 * 60 + 59) * ticks_per_sec"

definition get_bucket_timestamp :: "datetime \<Rightarrow> timeframe \<Rightarrow> int \<Rightarrow> datetime" where
  "get_bucket_timestamp dt tf compression =
     (case tf of
        Minutes \<Rightarrow>
          datetime_of_day (day_of dt)
          + ((minutes_of_day dt sdiv compression + 1) * compression) * (60 * ticks_per_sec)
      | Days \<Rightarrow> end_of_day dt + datetime_of_day (compression - 1)
      | Weeks \<Rightarrow>
          (let wd0 = weekday_encoding (day_of dt);
               wd = (if wd0 = 0 then 7 else wd0)
           in end_of_day dt + datetime_of_day (7 - wd))
      | Months \<Rightarrow> end_of_day (datetime_of_day (month_start (month_of (day_of dt) + 1) - 1))
      | _ \<Rightarrow> dt)"

definition compute_bar_timestamp :: "timeframe \<Rightarrow> int \<Rightarrow> datetime \<Rightarrow> datetime" where
  "compute_bar_timestamp tf compression last_bar_dt =
     (if tf = Minutes then get_bucket_timestamp last_bar_dt tf compression
      else end_of_day last_bar_dt)"

text \<open>
  The accumulator shared by \<open>Resampler\<close> and \<open>DataReplay\<close>: the five values, the flag \<open>first\<close>
  and the current bucket.
\<close>

record agg =
  ag_bar :: "real bar"
  ag_first :: bool
  ag_bucket :: int

definition agg_init :: agg where
  "agg_init = \<lparr>ag_bar = \<lparr>bar_timestamp = 0, bar_open = 0, bar_high = 0, bar_low = 0,
     bar_close = 0, bar_volume = 0\<rparr>, ag_first = True, ag_bucket = - 1\<rparr>"

definition starts_new :: "int \<Rightarrow> agg \<Rightarrow> bool" where
  "starts_new bucket st = (\<not> ag_first st \<and> bucket \<noteq> ag_bucket st)"

definition agg_update :: "int \<Rightarrow> real bar \<Rightarrow> agg \<Rightarrow> agg" where
  "agg_update bucket b st =
     (let a = ag_bar st;
          a' = (if starts_new bucket st then b
                else if ag_first st then
                  a\<lparr>bar_open := bar_open b, bar_high := bar_high b, bar_low := bar_low b,
                    bar_close := bar_close b, bar_volume := bar_volume a + bar_volume b\<rparr>
                else accumulate a b)
      in \<lparr>ag_bar = a'\<lparr>bar_timestamp := bar_timestamp b\<rparr>, ag_first = False, ag_bucket = bucket\<rparr>)"

text \<open>\<open>Resampler::preload\<close>; the timestamp kept in the accumulator is \<open>last_dt\<close>.\<close>

fun resampler_loop :: "timeframe \<Rightarrow> int \<Rightarrow> agg \<Rightarrow> real bar list \<Rightarrow> real bar list" where
  "resampler_loop tf compr st [] =
     (if ag_first st then []
      else [(ag_bar st)\<lparr>bar_timestamp := compute_bar_timestamp tf compr (bar_timestamp (ag_bar st))\<rparr>])"
| "resampler_loop tf compr st (b # bs) =
     (let bucket = get_bucket (bar_timestamp b) tf compr;
          last_dt = bar_timestamp (ag_bar st);
          is_day_boundary = (tf = Minutes \<and> day_of last_dt \<noteq> day_of (bar_timestamp b));
          emitted = (ag_bar st)\<lparr>bar_timestamp :=
            (if is_day_boundary then end_of_day last_dt else compute_bar_timestamp tf compr last_dt)\<rparr>;
          rest = resampler_loop tf compr (agg_update bucket b st) bs
      in if starts_new bucket st then emitted # rest else rest)"

definition resampler_preload :: "timeframe \<Rightarrow> int \<Rightarrow> real bar list \<Rightarrow> real bar list" where
  "resampler_preload tf compr bars = resampler_loop tf compr agg_init bars"

fun replay_loop :: "timeframe \<Rightarrow> int \<Rightarrow> agg \<Rightarrow> real bar list \<Rightarrow> real bar list" where
  "replay_loop tf compr st [] = []"
| "replay_loop tf compr st (b # bs) =
     (let st' = agg_update (get_bucket (bar_timestamp b) tf compr) b st
      in ag_bar st' # replay_loop tf compr st' bs)"

definition replay_preload :: "timeframe \<Rightarrow> int \<Rightarrow> real bar list \<Rightarrow> real bar list" where
  "replay_preload tf compr bars = replay_loop tf compr agg_init bars"

definition is_period_end :: "timeframe \<Rightarrow> int \<Rightarrow> real bar list \<Rightarrow> nat \<Rightarrow> bool" where
  "is_period_end tf compr bars i =
     (if length bars \<le> i + 1 then True
      else get_bucket (bar_timestamp (bars ! i)) tf compr
           \<noteq> get_bucket (bar_timestamp (bars ! (i + 1))) tf compr)"

subsection \<open>Specification\<close>

function runs :: "('a \<Rightarrow> 'k) \<Rightarrow> 'a list \<Rightarrow> 'a list list" where
  "runs key [] = []"
| "runs key (x # xs) =
     (x # takeWhile (\<lambda>y. key y = key x) xs) # runs key (dropWhile (\<lambda>y. key y = key x) xs)"
  by pat_completeness auto
termination
  by (relation "measure (\<lambda>(key, xs). length xs)") (auto simp: le_imp_less_Suc length_dropWhile_le)

definition summary :: "real bar list \<Rightarrow> real bar" where
  "summary g =
     \<lparr>bar_timestamp = bar_timestamp (hd g), bar_open = bar_open (hd g),
      bar_high = Max (bar_high ` set g), bar_low = Min (bar_low ` set g),
      bar_close = bar_close (last g), bar_volume = sum_list (map bar_volume g)\<rparr>"

lemma runs_ne: "g \<in> set (runs key xs) \<Longrightarrow> g \<noteq> []"
  by (induction key xs rule: runs.induct) auto

lemma concat_runs: "concat (runs key xs) = xs"
  by (induction key xs rule: runs.induct) auto

lemma summary_single [simp]: "summary [b] = b"
  by (cases b) (simp add: summary_def)

lemma summary_snoc: "g \<noteq> [] \<Longrightarrow> summary (g @ [b]) = accumulate (summary g) b"
  by (simp add: summary_def accumulate_def max.commute min.commute)

lemma foldl_accumulate: "g \<noteq> [] \<Longrightarrow> foldl accumulate (summary g) bs = summary (g @ bs)"
proof (induction bs arbitrary: g)
  case (Cons b bs)
  then show ?case using Cons.IH [of "g @ [b]"] by (simp add: summary_snoc)
qed simp

subsection \<open>The calendar-aligned feed\<close>

lemma runs_cong: "(\<And>x y. key x = key y \<longleftrightarrow> key' x = key' y) \<Longrightarrow> runs key xs = runs key' xs"
  by (induction key xs rule: runs.induct) simp_all

lemma accumulate_stamp:
  "foldl accumulate (c\<lparr>bar_timestamp := s\<rparr>) xs = (foldl accumulate c xs)\<lparr>bar_timestamp := s\<rparr>"
proof (induction xs arbitrary: c)
  case (Cons x xs)
  have "accumulate (c\<lparr>bar_timestamp := s\<rparr>) x = (accumulate c x)\<lparr>bar_timestamp := s\<rparr>"
    by (cases c) (simp add: accumulate_def)
  then show ?case by (simp add: Cons.IH)
qed simp

lemma accumulate_timestamp [simp]: "bar_timestamp (accumulate c b) = bar_timestamp c"
  by (simp add: accumulate_def)

lemma summary_foldl: "summary (b # bs) = foldl accumulate b bs"
  using foldl_accumulate [of "[b]" bs] by simp

lemma resampled_loop_runs:
  assumes start: "\<And>t. period_start t tf = Inr (st t)"
  shows "resampled_loop tf cur bs = Inr (
      foldl accumulate cur (takeWhile (\<lambda>b. st (bar_timestamp b) = bar_timestamp cur) bs)
      # map (\<lambda>g. (summary g)\<lparr>bar_timestamp := st (bar_timestamp (hd g))\<rparr>)
          (runs (\<lambda>b. st (bar_timestamp b))
            (dropWhile (\<lambda>b. st (bar_timestamp b) = bar_timestamp cur) bs)))"
proof (induction bs arbitrary: cur)
  case Nil
  then show ?case by simp
next
  case (Cons b bs)
  show ?case
    by (simp add: start Cons.IH accumulate_stamp summary_foldl)
qed

text \<open>
  C17. On a valid timeframe resampling never fails and is grouping by calendar period: one
  output bar per maximal run of source bars of one period, stamped with the start of the
  period and holding the run's first open, highest high, lowest low, last close and total
  volume. The runs partition the source in order, so no bar is lost and volume is conserved.
\<close>

theorem resampled_groups_by_period:
  assumes "valid_tfc tf"
  shows "(let groups = runs (\<lambda>b. period_start (bar_timestamp b) tf) bars;
              out = map (\<lambda>g. (summary g)\<lparr>bar_timestamp := projr (period_start (bar_timestamp (hd g)) tf)\<rparr>) groups in
          resampled_preload tf bars = Inr out
          \<and> concat groups = bars
          \<and> sum_list (map bar_volume out) = sum_list (map bar_volume bars))"
proof -
  define st where "st t = projr (period_start t tf)" for t
  have "\<exists>s. period_start t tf = Inr s" for t
    using valid_on_grid [OF assms] unfolding on_grid_def by metis
  then have start: "period_start t tf = Inr (st t)" for t
    unfolding st_def by (metis sum.sel(2))
  let ?key = "\<lambda>b. period_start (bar_timestamp b) tf"
  have runs: "runs ?key xs = runs (\<lambda>b. st (bar_timestamp b)) xs" for xs :: "real bar list"
    by (rule runs_cong) (simp add: start)
  have loop: "resampled_preload tf bars = Inr (map (\<lambda>g. (summary g)\<lparr>bar_timestamp := st (bar_timestamp (hd g))\<rparr>)
      (runs ?key bars))"
    unfolding runs
    by (cases bars)
       (simp_all add: resampled_preload_def start resampled_loop_runs accumulate_stamp summary_foldl)
  have "sum_list (map bar_volume (map (\<lambda>g. (summary g)\<lparr>bar_timestamp := f g\<rparr>) gs))
      = sum_list (map bar_volume (concat gs))" for f gs
    by (induction gs) (simp_all add: summary_def)
  then show ?thesis
    by (simp add: loop concat_runs st_def Let_def del: map_map)
qed

definition minute_bar :: "int \<Rightarrow> real \<Rightarrow> real bar" where
  "minute_bar m x = \<lparr>bar_timestamp = m * 60 * ticks_per_sec, bar_open = x, bar_high = x + 2, bar_low = x - 1,
     bar_close = x + 1, bar_volume = 10\<rparr>"

lemma resampled_groups_by_period_witness:
  "map (\<lambda>b. (bar_timestamp b div (60 * ticks_per_sec), bar_open b, bar_high b, bar_volume b))
     (projr (resampled_preload \<lparr>tf_timeframe = Minutes, tf_compression = 5\<rparr>
        [minute_bar 3 100, minute_bar 4 108, minute_bar 5 90])) = [(0, 100, 110, 20), (5, 90, 92, 10)]"
proof -
  have ok: "valid_tfc \<lparr>tf_timeframe = Minutes, tf_compression = 5\<rparr>" by (simp add: valid_tfc_def)
  show ?thesis
    using resampled_groups_by_period [OF ok, of "[minute_bar 3 100, minute_bar 4 108, minute_bar 5 90]"]
    by (simp add: Let_def minute_bar_def summary_foldl accumulate_def period_start_def duration_of_def fixed_bucket_def
        signed_divide_int_def signed_modulo_int_def ticks_per_sec_def)
qed

subsection \<open>The classic resampler and the replay\<close>

text \<open>The five values of a bar without its timestamp.\<close>

definition untimed :: "real bar \<Rightarrow> real bar" where
  "untimed b = b\<lparr>bar_timestamp := 0\<rparr>"

lemma untimed_accumulate: "untimed (accumulate a b) = accumulate (untimed a) b"
  by (simp add: untimed_def accumulate_def)

lemma untimed_stamp [simp]: "untimed (b\<lparr>bar_timestamp := t\<rparr>) = untimed b"
  by (simp add: untimed_def)

lemma agg_update_fields:
  "ag_first (agg_update k b st) = False" "ag_bucket (agg_update k b st) = k"
  "bar_timestamp (ag_bar (agg_update k b st)) = bar_timestamp b"
  by (simp_all add: agg_update_def Let_def)

lemma agg_update_bar:
  "untimed (ag_bar (agg_update k b st)) =
     (if starts_new k st then untimed b
      else if ag_first st then untimed (b\<lparr>bar_volume := bar_volume (ag_bar st) + bar_volume b\<rparr>)
      else accumulate (untimed (ag_bar st)) b)"
  by (cases "ag_bar st"; cases b)
     (simp add: agg_update_def Let_def untimed_def accumulate_def)

lemma foldl_accumulate_untimed: "foldl accumulate (untimed a) bs = untimed (foldl accumulate a bs)"
  by (induction bs arbitrary: a) (simp_all add: untimed_accumulate [symmetric])

lemma resampler_loop_runs:
  assumes "\<not> ag_first st"
  shows "map untimed (resampler_loop tf c st bs) =
     untimed (foldl accumulate (ag_bar st) (takeWhile (\<lambda>b. get_bucket (bar_timestamp b) tf c = ag_bucket st) bs))
     # map (untimed \<circ> summary) (runs (\<lambda>b. get_bucket (bar_timestamp b) tf c)
         (dropWhile (\<lambda>b. get_bucket (bar_timestamp b) tf c = ag_bucket st) bs))"
  using assms
proof (induction bs arbitrary: st)
  case Nil
  then show ?case by simp
next
  case (Cons b bs)
  let ?k = "get_bucket (bar_timestamp b) tf c"
  let ?st = "agg_update ?k b st"
  have IH: "map untimed (resampler_loop tf c ?st bs) =
     untimed (foldl accumulate (ag_bar ?st) (takeWhile (\<lambda>b. get_bucket (bar_timestamp b) tf c = ?k) bs))
     # map (untimed \<circ> summary) (runs (\<lambda>b. get_bucket (bar_timestamp b) tf c)
         (dropWhile (\<lambda>b. get_bucket (bar_timestamp b) tf c = ?k) bs))"
    using Cons.IH [of ?st] by (simp add: agg_update_fields)
  show ?case
  proof (cases "?k = ag_bucket st")
    case True
    then have old: "\<not> starts_new ?k st" by (simp add: starts_new_def)
    have "untimed (ag_bar ?st) = untimed (accumulate (ag_bar st) b)"
      using old Cons.prems by (simp add: agg_update_bar untimed_accumulate)
    then have "untimed (foldl accumulate (ag_bar ?st) xs) = untimed (foldl accumulate (accumulate (ag_bar st) b) xs)"
      for xs by (metis foldl_accumulate_untimed)
    then show ?thesis using True old IH by (simp add: Let_def)
  next
    case False
    then have new: "starts_new ?k st" using Cons.prems by (simp add: starts_new_def)
    have "untimed (ag_bar ?st) = untimed b" using new by (simp add: agg_update_bar)
    then have "untimed (foldl accumulate (ag_bar ?st) xs) = untimed (summary (b # xs))" for xs
      using foldl_accumulate [of "[b]" xs] by (metis append_Cons append_Nil foldl_accumulate_untimed list.discI summary_single)
    then show ?thesis using False new IH by (simp add: Let_def)
  qed
qed

text \<open>The flags of the replay, as a list.\<close>

fun ends :: "('a \<Rightarrow> 'k) \<Rightarrow> 'a list \<Rightarrow> bool list" where
  "ends key [] = []"
| "ends key [x] = [True]"
| "ends key (x # y # xs) = (key x \<noteq> key y) # ends key (y # xs)"

lemma is_period_end_ends:
  "map (is_period_end tf c bars) [0..<length bars] = ends (\<lambda>b. get_bucket (bar_timestamp b) tf c) bars"
proof (induction "\<lambda>b :: real bar. get_bucket (bar_timestamp b) tf c" bars rule: ends.induct)
  case (3 x y xs)
  have "[0..<length (x # y # xs)] = 0 # map Suc [0..<length (y # xs)]"
    by (simp del: upt_Suc add: map_Suc_upt upt_conv_Cons)
  moreover have "is_period_end tf c (x # zs) (Suc i) = is_period_end tf c zs i" if "zs \<noteq> []" for zs i
    by (simp add: is_period_end_def)
  ultimately show ?case
    using 3 by (simp del: upt_Suc add: comp_def) (simp add: is_period_end_def)
qed (simp_all add: is_period_end_def)

lemma replay_ends_resampler:
  "map untimed (map snd (filter fst (zip (ends (\<lambda>b. get_bucket (bar_timestamp b) tf c) (b # bs))
      (replay_loop tf c st (b # bs)))))
   = map untimed (resampler_loop tf c (agg_update (get_bucket (bar_timestamp b) tf c) b st) bs)"
proof (induction bs arbitrary: b st)
  case Nil
  then show ?case by (simp add: agg_update_fields Let_def)
next
  case (Cons b' bs)
  let ?st = "agg_update (get_bucket (bar_timestamp b) tf c) b st"
  show ?case using Cons.IH [of b' ?st]
    by (auto simp: Let_def starts_new_def agg_update_fields)
qed

lemma replay_shape:
  "length (replay_loop tf c st bs) = length bs \<and> map bar_timestamp (replay_loop tf c st bs) = map bar_timestamp bs"
  by (induction bs arbitrary: st) (simp_all add: Let_def agg_update_fields)

text \<open>
  Replay and resampling agree: the replay emits one bar per source bar, with its
  timestamp; its bars at period ends carry exactly the values of the resampler's bars; and
  those are the summaries of the maximal runs of source bars in one bucket.
\<close>

theorem replay_period_ends_resample:
  "length (replay_preload tf c bars) = length bars
   \<and> map bar_timestamp (replay_preload tf c bars) = map bar_timestamp bars
   \<and> map untimed (map snd (filter fst (zip (map (is_period_end tf c bars) [0..<length bars])
        (replay_preload tf c bars)))) = map untimed (resampler_preload tf c bars)
   \<and> map untimed (resampler_preload tf c bars)
       = map (untimed \<circ> summary) (runs (\<lambda>b. get_bucket (bar_timestamp b) tf c) bars)"
proof (cases bars)
  case Nil
  then show ?thesis
    by (simp add: replay_preload_def resampler_preload_def agg_init_def)
next
  case (Cons b bs)
  let ?k = "get_bucket (bar_timestamp b) tf c"
  let ?st = "agg_update ?k b agg_init"
  have first: "\<not> starts_new ?k agg_init" by (simp add: starts_new_def agg_init_def)
  then have loop: "resampler_preload tf c bars = resampler_loop tf c ?st bs"
    by (simp add: resampler_preload_def Cons Let_def)
  have "untimed (ag_bar ?st) = untimed b"
    using first by (simp add: agg_update_bar) (simp add: agg_init_def untimed_def)
  then have sm: "untimed (foldl accumulate (ag_bar ?st) xs) = untimed (summary (b # xs))" for xs
    using foldl_accumulate [of "[b]" xs] by (metis append_Cons append_Nil foldl_accumulate_untimed list.discI summary_single)
  have "map untimed (resampler_preload tf c bars)
      = map (untimed \<circ> summary) (runs (\<lambda>b. get_bucket (bar_timestamp b) tf c) bars)"
    using resampler_loop_runs [of ?st tf c bs] unfolding loop by (simp add: agg_update_fields sm Cons)
  moreover have "map untimed (map snd (filter fst (zip (map (is_period_end tf c bars) [0..<length bars])
        (replay_preload tf c bars)))) = map untimed (resampler_preload tf c bars)"
    using replay_ends_resampler [of tf c b bs agg_init] loop
    unfolding is_period_end_ends replay_preload_def Cons by simp
  ultimately show ?thesis using replay_shape [of tf c agg_init bars] by (simp add: replay_preload_def)
qed

text \<open>
  The week bucket divides towards zero, so that before 1970 it joins two calendar weeks:
  Sunday 1969-12-28 and Monday 1969-12-29 share bucket 0.
\<close>

lemma week_bucket_before_epoch:
  "get_bucket (datetime_of_day (- 4)) Weeks 1 = get_bucket (datetime_of_day (- 3)) Weeks 1
   \<and> week_index (datetime_of_day (- 4)) \<noteq> week_index (datetime_of_day (- 3))"
  by (simp add: get_bucket_def week_index_def signed_divide_int_def)

end
