(* ===== verification/Analyzers.thy ===== *)
theory Analyzers
  imports Valuation
begin

text \<open>
  \<^verbatim>\<open>analyzers/\<close>: drawdown, returns, Sharpe ratio and trade statistics. The three per-bar
  analyzers are folds over the portfolio values of the bars; the \<open>next\<close> functions take the
  broker and the feed views and read the value through \<open>portfolio_value\<close>. A logarithm that
  is minus infinity in the code is \<open>NegInf\<close> here.
\<close>

subsection \<open>Drawdown\<close>

record drawdown =
  dd_peak :: real
  dd_len :: nat
  dd_drawdown :: real
  dd_moneydown :: real
  dd_max_len :: nat
  dd_max_drawdown :: real
  dd_max_moneydown :: real
  dd_values :: "real list"

definition drawdown_start :: drawdown where
  "drawdown_start = \<lparr>dd_peak = 0, dd_len = 0, dd_drawdown = 0, dd_moneydown = 0, dd_max_len = 0,
     dd_max_drawdown = 0, dd_max_moneydown = 0, dd_values = []\<rparr>"

definition drawdown_value :: "real \<Rightarrow> drawdown \<Rightarrow> drawdown" where
  "drawdown_value value d =
     (let peak = (if dd_peak d < value then value else dd_peak d);
          moneydown = peak - value;
          dd = (if 0 < peak then moneydown / peak * 100 else 0);
          len = (if 0 < dd then dd_len d + 1 else 0)
      in \<lparr>dd_peak = peak, dd_len = len, dd_drawdown = dd, dd_moneydown = moneydown,
          dd_max_len = max (dd_max_len d) len, dd_max_drawdown = max (dd_max_drawdown d) dd,
          dd_max_moneydown = max (dd_max_moneydown d) moneydown,
          dd_values = dd_values d @ [moneydown]\<rparr>)"

definition drawdown_next :: "broker \<Rightarrow> view list \<Rightarrow> drawdown \<Rightarrow> exn + drawdown" where
  "drawdown_next b views d = bind_r (portfolio_value views b) (\<lambda>value. Inr (drawdown_value value d))"

definition drawdown_run :: "real list \<Rightarrow> drawdown" where
  "drawdown_run vs = foldl (\<lambda>d v. drawdown_value v d) drawdown_start vs"

text \<open>The highest value so far; the code starts it at zero.\<close>

definition highest :: "real list \<Rightarrow> real" where
  "highest vs = foldl max 0 vs"

lemma highest_simps [simp]: "highest [] = 0" "highest (vs @ [v]) = max (highest vs) v"
  by (simp_all add: highest_def)

lemma highest_Max: "highest vs = Max (insert 0 (set vs))"
proof (induction vs rule: rev_induct)
  case (snoc v vs)
  have "insert 0 (set (vs @ [v])) = insert v (insert 0 (set vs))" by auto
  then show ?case
    using Max_insert [of "insert 0 (set vs)" v] snoc by (simp only: highest_simps) (simp add: max.commute)
qed simp

lemma highest_ge: "0 \<le> highest vs" "v \<in> set vs \<Longrightarrow> v \<le> highest vs"
  by (induction vs rule: rev_induct) (auto simp: le_max_iff_disj)

lemma highest_mem: "highest vs = 0 \<or> highest vs \<in> set vs"
  by (induction vs rule: rev_induct) (auto simp: max_def)

definition high_at :: "real list \<Rightarrow> nat \<Rightarrow> real" where
  "high_at vs i = highest (take (Suc i) vs)"

definition loss_at :: "real list \<Rightarrow> nat \<Rightarrow> real" where
  "loss_at vs i = high_at vs i - vs ! i"

definition percent_at :: "real list \<Rightarrow> nat \<Rightarrow> real" where
  "percent_at vs i = (if 0 < high_at vs i then loss_at vs i / high_at vs i * 100 else 0)"

lemma at_append [simp]:
  "i < length vs \<Longrightarrow> high_at (vs @ [v]) i = high_at vs i"
  "high_at (vs @ [v]) (length vs) = max (highest vs) v"
  "i < length vs \<Longrightarrow> loss_at (vs @ [v]) i = loss_at vs i"
  "loss_at (vs @ [v]) (length vs) = max (highest vs) v - v"
  "i < length vs \<Longrightarrow> percent_at (vs @ [v]) i = percent_at vs i"
  by (simp_all add: high_at_def loss_at_def percent_at_def nth_append)

lemma loss_nonneg: "i < length vs \<Longrightarrow> 0 \<le> loss_at vs i"
  using highest_ge(2) [of "vs ! i" "take (Suc i) vs"] by (simp add: loss_at_def high_at_def take_Suc_conv_app_nth)

lemma percent_pos: "i < length vs \<Longrightarrow> 0 < percent_at vs i \<longleftrightarrow> 0 < high_at vs i \<and> vs ! i < high_at vs i"
  by (simp add: percent_at_def zero_less_mult_iff zero_less_divide_iff) (auto simp: loss_at_def)

lemma drawdown_run_snoc: "drawdown_run (vs @ [v]) = drawdown_value v (drawdown_run vs)"
  by (simp add: drawdown_run_def)

lemma drawdown_run_nil: "drawdown_run [] = drawdown_start"
  by (simp add: drawdown_run_def)

lemma drawdown_fields:
  "dd_peak (drawdown_run vs) = highest vs"
  "dd_values (drawdown_run vs) = map (loss_at vs) [0..<length vs]"
  "dd_max_moneydown (drawdown_run vs) = highest (map (loss_at vs) [0..<length vs])"
  "dd_max_drawdown (drawdown_run vs) = highest (map (percent_at vs) [0..<length vs])"
  "dd_len (drawdown_run vs) = length (takeWhile (\<lambda>x. 0 < x) (rev (map (percent_at vs) [0..<length vs])))"
proof -
  have peak: "dd_peak (drawdown_run vs) = highest vs" for vs
    by (induction vs rule: rev_induct)
       (simp_all add: drawdown_run_nil drawdown_start_def drawdown_run_snoc drawdown_value_def Let_def max_def)
  have maps: "map (f (ws @ [v])) [0..<length ws] = map (f ws) [0..<length ws]"
    if "\<And>i. i < length ws \<Longrightarrow> f (ws @ [v]) i = f ws i" for f :: "real list \<Rightarrow> nat \<Rightarrow> real" and ws v
    using that by simp
  have pct: "percent_at (ws @ [v]) (length ws)
      = (if 0 < max (highest ws) v then (max (highest ws) v - v) / max (highest ws) v * 100 else 0)" for ws v
    by (simp add: percent_at_def)
  have up: "(if highest ws < v then v else highest ws) = max (highest ws) v" for ws v by (simp add: max_def)
  have "dd_values (drawdown_run vs) = map (loss_at vs) [0..<length vs]
    \<and> dd_max_moneydown (drawdown_run vs) = highest (map (loss_at vs) [0..<length vs])
    \<and> dd_max_drawdown (drawdown_run vs) = highest (map (percent_at vs) [0..<length vs])
    \<and> dd_len (drawdown_run vs) = length (takeWhile (\<lambda>x. 0 < x) (rev (map (percent_at vs) [0..<length vs])))"
  proof (induction vs rule: rev_induct)
    case Nil
    then show ?case by (simp add: drawdown_run_nil drawdown_start_def)
  next
    case (snoc v vs)
    then show ?case
      by (simp add: drawdown_run_snoc drawdown_value_def Let_def peak up maps [where f = loss_at]
          maps [where f = percent_at] pct)
  qed
  then show "dd_peak (drawdown_run vs) = highest vs"
    "dd_values (drawdown_run vs) = map (loss_at vs) [0..<length vs]"
    "dd_max_moneydown (drawdown_run vs) = highest (map (loss_at vs) [0..<length vs])"
    "dd_max_drawdown (drawdown_run vs) = highest (map (percent_at vs) [0..<length vs])"
    "dd_len (drawdown_run vs) = length (takeWhile (\<lambda>x. 0 < x) (rev (map (percent_at vs) [0..<length vs])))"
    using peak by simp_all
qed



subsection \<open>Returns\<close>

record returns =
  re_rtot :: fpval
  re_ravg :: fpval
  re_rnorm :: fpval
  re_rnorm100 :: fpval
  re_annualization :: real
  re_value_start :: real
  re_value_end :: real
  re_period_count :: nat
  re_initialized :: bool

definition returns_start :: "real \<Rightarrow> returns" where
  "returns_start annualization = \<lparr>re_rtot = Fin 0, re_ravg = Fin 0, re_rnorm = Fin 0, re_rnorm100 = Fin 0,
     re_annualization = annualization, re_value_start = 0, re_value_end = 0, re_period_count = 0,
     re_initialized = False\<rparr>"

definition returns_value :: "real \<Rightarrow> returns \<Rightarrow> returns" where
  "returns_value value r =
     (let r' = (if \<not> re_initialized r then r\<lparr>re_value_start := value, re_initialized := True\<rparr> else r)
      in r'\<lparr>re_value_end := value, re_period_count := re_period_count r' + 1\<rparr>)"

definition returns_next :: "broker \<Rightarrow> view list \<Rightarrow> returns \<Rightarrow> exn + returns" where
  "returns_next b views r = bind_r (portfolio_value views b) (\<lambda>value. Inr (returns_value value r))"

text \<open>\<open>std::log\<close> of a number that is not negative, and the arithmetic that meets minus infinity.\<close>

definition fp_log :: "real \<Rightarrow> fpval" where
  "fp_log x = (if x = 0 then NegInf else Fin (ln x))"

fun fp_scale :: "fpval \<Rightarrow> real \<Rightarrow> fpval" where
  "fp_scale (Fin x) c = Fin (x * c)"
| "fp_scale NegInf c = (if c < 0 then PosInf else if c = 0 then NaN else NegInf)"
| "fp_scale PosInf c = (if c < 0 then NegInf else if c = 0 then NaN else PosInf)"
| "fp_scale NaN c = NaN"

definition returns_stop :: "returns \<Rightarrow> returns" where
  "returns_stop r =
     (if \<not> re_initialized r \<or> re_period_count r = 0 then r
      else
        (let rtot = (if re_value_start r = 0 then NegInf
                     else (let ratio = re_value_end r / re_value_start r
                           in if ratio < 0 then NegInf else fp_log ratio));
             ravg = fp_scale rtot (1 / real (re_period_count r));
             rnorm = (case ravg of Fin x \<Rightarrow> Fin (exp (x * re_annualization r) - 1) | _ \<Rightarrow> ravg)
         in r\<lparr>re_rtot := rtot, re_ravg := ravg, re_rnorm := rnorm, re_rnorm100 := fp_scale rnorm 100\<rparr>))"

definition returns_run :: "real \<Rightarrow> real list \<Rightarrow> returns" where
  "returns_run annualization vs =
     returns_stop (foldl (\<lambda>r v. returns_value v r) (returns_start annualization) vs)"

lemma returns_fold:
  "foldl (\<lambda>r v. returns_value v r) (returns_start a) (v # vs) =
     (returns_start a)\<lparr>re_value_start := v, re_value_end := last (v # vs),
        re_period_count := length (v # vs), re_initialized := True\<rparr>"
  by (induction vs rule: rev_induct) (simp_all add: returns_value_def returns_start_def)

text \<open>
  Returns compound: over bars with positive first and last value the total return is
  the logarithm of their ratio, the sum of the per-bar log returns, its exponential the
  growth factor; the average spreads it over the bars and the normalised return is the
  growth at that pace over a year. A value that reached zero or changed sign gives minus
  infinity throughout, no bars all zeros.
\<close>

theorem returns_compound:
  "(\<forall>r. r = returns_run a (v # vs) \<longrightarrow>
      (if 0 < last (v # vs) / v then
         re_rtot r = Fin (ln (last (v # vs) / v))
         \<and> re_ravg r = Fin (ln (last (v # vs) / v) / real (length (v # vs)))
         \<and> re_rnorm r = Fin ((last (v # vs) / v) powr (a / real (length (v # vs))) - 1)
         \<and> re_rnorm100 r = Fin (((last (v # vs) / v) powr (a / real (length (v # vs))) - 1) * 100)
       else re_rtot r = NegInf \<and> re_ravg r = NegInf \<and> re_rnorm r = NegInf \<and> re_rnorm100 r = NegInf))
   \<and> ((\<forall>x \<in> set (v # vs). 0 < x) \<longrightarrow>
        ln (last (v # vs) / v) = sum_list (map (\<lambda>(x, y). ln (y / x)) (zip (v # vs) vs)))
   \<and> returns_run a [] = returns_start a"
proof -
  have sum: "ln (last (v # vs) / v) = sum_list (map (\<lambda>(x, y). ln (y / x)) (zip (v # vs) vs))"
    if "\<forall>x \<in> set (v # vs). 0 < x"
    using that
  proof (induction vs arbitrary: v)
    case (Cons w vs)
    have "0 < last (w # vs)" using Cons.prems last_in_set [of "w # vs"] by auto
    then have "ln (last (w # vs) / v) = ln (w / v) + ln (last (w # vs) / w)"
      using Cons.prems by (simp add: ln_div del: last.simps)
    then show ?case using Cons by simp
  qed simp
  define L where "L = last (v # vs)"
  define g n where "g = L / v" and "n = real (length (v # vs))"
  define r0 where "r0 = (returns_start a)\<lparr>re_value_start := v, re_value_end := L,
     re_period_count := length (v # vs), re_initialized := True\<rparr>"
  have run: "returns_run a (v # vs) = returns_stop r0"
    unfolding returns_run_def returns_fold r0_def L_def ..
  have f: "re_initialized r0" "re_period_count r0 \<noteq> 0" "re_value_start r0 = v" "re_value_end r0 = L"
    "real (re_period_count r0) = n" "re_annualization r0 = a"
    by (simp_all add: r0_def n_def returns_start_def)
  have zero: "v = 0 \<Longrightarrow> \<not> 0 < g" by (simp add: g_def)
  have n: "0 < n" by (simp add: n_def)
  have up: "returns_stop r0 = r0\<lparr>re_rtot := Fin (ln g), re_ravg := Fin (ln g / n),
      re_rnorm := Fin (g powr (a / n) - 1), re_rnorm100 := Fin ((g powr (a / n) - 1) * 100)\<rparr>" if "0 < g"
    using that zero by (auto simp: returns_stop_def f fp_log_def Let_def powr_def g_def [symmetric] mult.commute)
  have down: "returns_stop r0 = r0\<lparr>re_rtot := NegInf, re_ravg := NegInf, re_rnorm := NegInf, re_rnorm100 := NegInf\<rparr>"
    if "\<not> 0 < g"
    using that n by (auto simp: returns_stop_def f fp_log_def Let_def g_def [symmetric])
  have main: "if 0 < g then re_rtot r = Fin (ln g) \<and> re_ravg r = Fin (ln g / n)
      \<and> re_rnorm r = Fin (g powr (a / n) - 1) \<and> re_rnorm100 r = Fin ((g powr (a / n) - 1) * 100)
    else re_rtot r = NegInf \<and> re_ravg r = NegInf \<and> re_rnorm r = NegInf \<and> re_rnorm100 r = NegInf"
    if "r = returns_stop r0" for r
  proof (cases "0 < g")
    case True
    show ?thesis unfolding that up [OF True] using True by simp
  next
    case False
    show ?thesis unfolding that down [OF False] using False by simp
  qed
  show ?thesis
    unfolding run L_def [symmetric] g_def [symmetric] n_def [symmetric]
  proof (intro conjI allI impI)
    show "ln g = sum_list (map (\<lambda>(x, y). ln (y / x)) (zip (v # vs) vs))" if "\<forall>x \<in> set (v # vs). 0 < x"
      using sum [OF that] unfolding L_def [symmetric] g_def [symmetric] .
    show "returns_run a [] = returns_start a" by (simp add: returns_run_def returns_stop_def returns_start_def)
  qed (rule main)
qed

theorem returns_compound_witness:
  "re_rtot (returns_run 252 [100, 50, 200]) = Fin (ln 2) \<and> re_rtot (returns_run 252 [100, 50, 0]) = NegInf
   \<and> re_rnorm (returns_run 3 [100, 50, 200]) = Fin 1"
  using returns_compound [where a = 252 and v = 100 and vs = "[50, 200]", THEN conjunct1, rule_format, OF refl]
    returns_compound [where a = 252 and v = 100 and vs = "[50, 0]", THEN conjunct1, rule_format, OF refl]
    returns_compound [where a = 3 and v = 100 and vs = "[50, 200]", THEN conjunct1, rule_format, OF refl]
  by simp

subsection \<open>Sharpe ratio\<close>

text \<open>
  The model covers \<open>risk_free_rate >= -1\<close> and a positive number of trading days, where \<open>std::pow\<close>
  is the real power and no division is by zero.
\<close>

record sharpe =
  sh_risk_free :: real
  sh_trading_days :: nat
  sh_prev :: real
  sh_ratio :: real
  sh_returns :: "real list"
  sh_initialized :: bool

definition sharpe_start :: "real \<Rightarrow> nat \<Rightarrow> sharpe" where
  "sharpe_start rf days = \<lparr>sh_risk_free = rf, sh_trading_days = days, sh_prev = 0, sh_ratio = 0,
     sh_returns = [], sh_initialized = False\<rparr>"

definition sharpe_value :: "real \<Rightarrow> real \<Rightarrow> sharpe \<Rightarrow> sharpe" where
  "sharpe_value initial value s =
     (let s1 = (if \<not> sh_initialized s then s\<lparr>sh_prev := initial, sh_initialized := True\<rparr> else s);
          s2 = (if 0 < sh_prev s1
                then s1\<lparr>sh_returns := sh_returns s1 @ [(value - sh_prev s1) / sh_prev s1]\<rparr> else s1)
      in s2\<lparr>sh_prev := value\<rparr>)"

definition sharpe_next :: "broker \<Rightarrow> view list \<Rightarrow> sharpe \<Rightarrow> exn + sharpe" where
  "sharpe_next b views s =
     bind_r (portfolio_value views b) (\<lambda>value. Inr (sharpe_value (b_initial_cash b) value s))"

definition mean :: "real list \<Rightarrow> real" where
  "mean xs = sum_list xs / real (length xs)"

definition deviation :: "real list \<Rightarrow> real" where
  "deviation xs = sqrt (sum_list (map (\<lambda>x. (x - mean xs) * (x - mean xs)) xs) / real (length xs))"

definition sharpe_stop :: "sharpe \<Rightarrow> sharpe" where
  "sharpe_stop s =
     (if length (sh_returns s) < 2 then s\<lparr>sh_ratio := 0\<rparr>
      else
        (let factor = real (sh_trading_days s);
             period_rf = (1 + sh_risk_free s) powr (1 / factor) - 1;
             excess = map (\<lambda>r. r - period_rf) (sh_returns s);
             stddev = deviation excess
         in if stddev < 1 / 10 ^ 10 then s\<lparr>sh_ratio := 0\<rparr>
            else s\<lparr>sh_ratio := mean excess / stddev * sqrt factor\<rparr>))"

definition sharpe_run :: "real \<Rightarrow> nat \<Rightarrow> real \<Rightarrow> real list \<Rightarrow> sharpe" where
  "sharpe_run rf days initial vs =
     sharpe_stop (foldl (\<lambda>s v. sharpe_value initial v s) (sharpe_start rf days) vs)"

text \<open>The returns of consecutive values, from the initial cash on, over the bars that start positive.\<close>

fun bar_returns :: "real \<Rightarrow> real list \<Rightarrow> real list" where
  "bar_returns prev [] = []"
| "bar_returns prev (v # vs) = (if 0 < prev then (v - prev) / prev # bar_returns v vs else bar_returns v vs)"

lemma sharpe_loop:
  "sh_initialized s \<Longrightarrow> foldl (\<lambda>s v. sharpe_value initial v s) s vs =
     s\<lparr>sh_returns := sh_returns s @ bar_returns (sh_prev s) vs, sh_prev := last (sh_prev s # vs)\<rparr>"
  by (induction vs arbitrary: s) (auto simp: sharpe_value_def Let_def)

lemma sharpe_first: "sharpe_value initial v (sharpe_start rf days) = (sharpe_start rf days)
    \<lparr>sh_returns := (if 0 < initial then [(v - initial) / initial] else []), sh_prev := v, sh_initialized := True\<rparr>"
  by (simp add: sharpe_value_def sharpe_start_def Let_def)

lemma sharpe_fold:
  "sh_returns (foldl (\<lambda>s v. sharpe_value initial v s) (sharpe_start rf days) vs) = bar_returns initial vs"
  "sh_risk_free (foldl (\<lambda>s v. sharpe_value initial v s) (sharpe_start rf days) vs) = rf"
  "sh_trading_days (foldl (\<lambda>s v. sharpe_value initial v s) (sharpe_start rf days) vs) = days"
  by (cases vs; simp add: sharpe_first sharpe_loop; simp add: sharpe_start_def)+

lemma bar_returns_scale: "0 < c \<Longrightarrow> bar_returns (c * x) (map ((*) c) vs) = bar_returns x vs"
  by (induction vs arbitrary: x) (auto simp: zero_less_mult_iff right_diff_distrib [symmetric])

lemma bar_returns_compound:
  "0 < x \<Longrightarrow> \<forall>v \<in> set vs. 0 < v \<Longrightarrow> x * prod_list (map ((+) 1) (bar_returns x vs)) = last (x # vs)"
proof (induction vs arbitrary: x)
  case (Cons v vs)
  then have "v * prod_list (map ((+) 1) (bar_returns v vs)) = last (v # vs)" by simp
  moreover have "x * (1 + (v - x) / x) = v" using Cons.prems by (simp add: field_simps)
  ultimately show ?case using Cons.prems by (simp add: mult.assoc [symmetric])
qed simp

lemma bar_returns_length: "0 < x \<Longrightarrow> \<forall>v \<in> set vs. 0 < v \<Longrightarrow> length (bar_returns x vs) = length vs"
  by (induction vs arbitrary: x) auto

lemma sharpe_ratio_scale:
  "sh_returns s = sh_returns t \<Longrightarrow> sh_risk_free s = sh_risk_free t \<Longrightarrow> sh_trading_days s = sh_trading_days t
    \<Longrightarrow> sh_ratio (sharpe_stop s) = sh_ratio (sharpe_stop t)"
  by (simp add: sharpe_stop_def Let_def)

lemma sharpe_stop_returns [simp]: "sh_returns (sharpe_stop s) = sh_returns s"
  by (simp add: sharpe_stop_def Let_def)

text \<open>
  The Sharpe ratio over positive portfolio values: there is one return per bar and
  they compound from the initial cash to the last value; the ratio does not depend on
  the unit of account; it is zero over fewer than two bars and when every bar has the same
  return; otherwise, if the deviation counts, it has the sign of the mean excess return.
\<close>

theorem sharpe_ratio:
  assumes "0 < initial" and "\<forall>v \<in> set vs. 0 < v" and "0 < days" and "0 < c"
  shows "let s = sharpe_run rf days initial vs; rs = sh_returns s;
      free = (1 + rf) powr (1 / real days) - 1 in
     length rs = length vs
     \<and> initial * prod_list (map ((+) 1) rs) = last (initial # vs)
     \<and> sh_ratio (sharpe_run rf days (c * initial) (map ((*) c) vs)) = sh_ratio s
     \<and> (length vs < 2 \<longrightarrow> sh_ratio s = 0)
     \<and> (\<forall>r. rs = replicate (length vs) r \<longrightarrow> sh_ratio s = 0)
     \<and> (length vs \<ge> 2 \<and> 1 / 10 ^ 10 \<le> deviation (map (\<lambda>r. r - free) rs) \<longrightarrow>
          sgn (sh_ratio s) = sgn (mean rs - free))"
proof -
  let ?rs = "bar_returns initial vs" and ?f = "(1 + rf) powr (1 / real days) - 1"
  let ?s = "foldl (\<lambda>s v. sharpe_value initial v s) (sharpe_start rf days) vs"
  have rs: "sh_returns (sharpe_run rf days initial vs) = ?rs" by (simp add: sharpe_run_def sharpe_fold)
  have len: "length ?rs = length vs" using assms by (simp add: bar_returns_length)
  have scale: "sh_ratio (sharpe_run rf days (c * initial) (map ((*) c) vs)) = sh_ratio (sharpe_run rf days initial vs)"
    unfolding sharpe_run_def using assms(4) by (intro sharpe_ratio_scale) (simp_all add: sharpe_fold bar_returns_scale)
  have mean: "mean (map (\<lambda>r. r - f) xs) = mean xs - f" if "xs \<noteq> []" for f xs
    using that by (simp add: mean_def sum_list_subtractf sum_list_triv diff_divide_distrib)
  have short: "sh_ratio (sharpe_run rf days initial vs) = 0" if "length vs < 2"
    using that by (simp add: sharpe_run_def sharpe_stop_def sharpe_fold len)
  have flat: "sh_ratio (sharpe_run rf days initial vs) = 0" if "?rs = replicate (length vs) r" for r
  proof (cases "length vs < 2")
    case False
    let ?e = "map (\<lambda>r. r - ?f) ?rs"
    have "?e = replicate (length vs) (r - ?f)" by (simp add: that)
    moreover have "mean (replicate n x) = x" if "0 < n" for n and x :: real
      using that by (simp add: mean_def sum_list_replicate)
    ultimately have "deviation ?e = 0" using False by (simp add: deviation_def sum_list_replicate)
    then show ?thesis using False by (simp add: sharpe_run_def sharpe_stop_def sharpe_fold len Let_def)
  qed (rule short)
  have sign: "sgn (sh_ratio (sharpe_run rf days initial vs)) = sgn (mean ?rs - ?f)"
    if "2 \<le> length vs" "1 / 10 ^ 10 \<le> deviation (map (\<lambda>r. r - ?f) ?rs)"
  proof -
    have "?rs \<noteq> []" using that(1) len by force
    moreover have "0 < deviation (map (\<lambda>r. r - ?f) ?rs)" by (rule less_le_trans [OF _ that(2)]) simp
    ultimately show ?thesis
      using that assms(3)
      by (simp add: sharpe_run_def sharpe_stop_def sharpe_fold len Let_def mean sgn_mult sgn_divide)
  qed
  show ?thesis
    unfolding Let_def rs
    using len bar_returns_compound [OF assms(1,2)] scale short flat sign by blast
qed

theorem sharpe_ratio_witness:
  "sh_returns (sharpe_run 0 252 100 [110, 121]) = [1 / 10, 1 / 10]
   \<and> sh_ratio (sharpe_run 0 252 100 [110, 121]) = 0"
proof -
  have rs: "sh_returns (sharpe_run 0 252 100 [110, 121]) = [1 / 10, 1 / 10]"
    unfolding sharpe_run_def sharpe_stop_returns sharpe_fold by simp
  moreover have "\<exists>r :: real. r * 10 = 1" by (rule exI [of _ "1 / 10"]) simp
  ultimately show ?thesis
    using sharpe_ratio [of 100 "[110, 121]" 252 1 0] by (simp add: Let_def numeral_2_eq_2)
qed

end
