(* ===== verification/Trade_Stats.thy ===== *)
theory Trade_Stats
  imports Valuation "HOL-Library.Sublist"
begin

text \<open>
  \<^verbatim>\<open>analyzers/trade_analyzer.hpp\<close>: the statistics over the closed trades of a broker. The
  nested structs of \<open>Analysis\<close> are records; the loop body of \<open>analyze\<close> is \<open>analyze_trade\<close>,
  which also carries the eight \<open>have_*\<close> flags. A trade is won when its profit after
  commission is not negative.
\<close>

record totals =
  tt_total :: nat
  tt_open :: nat
  tt_closed :: nat

record streak =
  sk_current :: nat
  sk_longest :: nat

record pnl_summary =
  ps_total :: real
  ps_average :: real
  ps_max :: real

record won_lost =
  wl_total :: nat
  wl_pnl :: pnl_summary

record directional =
  di_total :: nat
  di_won :: nat
  di_lost :: nat
  di_pnl_total :: real
  di_pnl_average :: real
  di_pnl_won :: pnl_summary
  di_pnl_lost :: pnl_summary

record length_stats =
  ls_total :: nat
  ls_average :: real
  ls_max :: nat
  ls_min :: nat

record directional_length =
  dl_total :: length_stats
  dl_won :: length_stats
  dl_lost :: length_stats

record analysis =
  an_total :: totals
  an_streak_won :: streak
  an_streak_lost :: streak
  an_gross :: pnl_summary
  an_net :: pnl_summary
  an_won :: won_lost
  an_lost :: won_lost
  an_long :: directional
  an_short :: directional
  an_len_total :: length_stats
  an_len_won :: length_stats
  an_len_lost :: length_stats
  an_len_long :: directional_length
  an_len_short :: directional_length

record seen =
  have_won :: bool
  have_lost :: bool
  have_long :: bool
  have_short :: bool
  have_long_won :: bool
  have_long_lost :: bool
  have_short_won :: bool
  have_short_lost :: bool

definition no_pnl :: pnl_summary where
  "no_pnl = \<lparr>ps_total = 0, ps_average = 0, ps_max = 0\<rparr>"

definition no_directional :: directional where
  "no_directional = \<lparr>di_total = 0, di_won = 0, di_lost = 0, di_pnl_total = 0, di_pnl_average = 0,
     di_pnl_won = no_pnl, di_pnl_lost = no_pnl\<rparr>"

definition no_length :: length_stats where
  "no_length = \<lparr>ls_total = 0, ls_average = 0, ls_max = 0, ls_min = 0\<rparr>"

definition no_directional_length :: directional_length where
  "no_directional_length = \<lparr>dl_total = no_length, dl_won = no_length, dl_lost = no_length\<rparr>"

definition no_analysis :: analysis where
  "no_analysis = \<lparr>an_total = \<lparr>tt_total = 0, tt_open = 0, tt_closed = 0\<rparr>,
     an_streak_won = \<lparr>sk_current = 0, sk_longest = 0\<rparr>, an_streak_lost = \<lparr>sk_current = 0, sk_longest = 0\<rparr>,
     an_gross = no_pnl, an_net = no_pnl,
     an_won = \<lparr>wl_total = 0, wl_pnl = no_pnl\<rparr>, an_lost = \<lparr>wl_total = 0, wl_pnl = no_pnl\<rparr>,
     an_long = no_directional, an_short = no_directional,
     an_len_total = no_length, an_len_won = no_length, an_len_lost = no_length,
     an_len_long = no_directional_length, an_len_short = no_directional_length\<rparr>"

definition nothing_seen :: seen where
  "nothing_seen = \<lparr>have_won = False, have_lost = False, have_long = False, have_short = False,
     have_long_won = False, have_long_lost = False, have_short_won = False, have_short_lost = False\<rparr>"

subsection \<open>The loop body\<close>

definition add_pnl :: "real \<Rightarrow> pnl_summary \<Rightarrow> pnl_summary" where
  "add_pnl x p = p\<lparr>ps_total := ps_total p + x\<rparr>"

text \<open>\<open>max = have ? pick(max, x) : x\<close>: the largest win, the smallest (most negative) loss.\<close>

definition add_extreme :: "bool \<Rightarrow> (real \<Rightarrow> real \<Rightarrow> real) \<Rightarrow> real \<Rightarrow> pnl_summary \<Rightarrow> pnl_summary" where
  "add_extreme have_one pick x p =
     (add_pnl x p)\<lparr>ps_max := (if have_one then pick (ps_max p) x else x)\<rparr>"

definition add_outcome :: "bool \<Rightarrow> (real \<Rightarrow> real \<Rightarrow> real) \<Rightarrow> real \<Rightarrow> won_lost \<Rightarrow> won_lost" where
  "add_outcome have_one pick x w = \<lparr>wl_total = wl_total w + 1, wl_pnl = add_extreme have_one pick x (wl_pnl w)\<rparr>"

definition update_length_summary :: "nat \<Rightarrow> length_stats \<Rightarrow> length_stats" where
  "update_length_summary barlen s =
     s\<lparr>ls_total := ls_total s + barlen, ls_max := max (ls_max s) barlen,
       ls_min := (if ls_min s = 0 \<or> barlen < ls_min s then barlen else ls_min s)\<rparr>"

definition update_streak :: "bool \<Rightarrow> streak \<Rightarrow> streak" where
  "update_streak hit s =
     (let current = (if hit then sk_current s + 1 else 0)
      in \<lparr>sk_current = current, sk_longest = max (sk_longest s) current\<rparr>)"

definition update_side :: "bool \<Rightarrow> real \<Rightarrow> bool \<Rightarrow> bool \<Rightarrow> directional \<Rightarrow> directional" where
  "update_side won net have_won_one have_lost_one d =
     (let d' = d\<lparr>di_total := di_total d + 1, di_pnl_total := di_pnl_total d + net\<rparr>
      in if won then d'\<lparr>di_won := di_won d + 1, di_pnl_won := add_extreme have_won_one max net (di_pnl_won d)\<rparr>
         else d'\<lparr>di_lost := di_lost d + 1, di_pnl_lost := add_extreme have_lost_one min net (di_pnl_lost d)\<rparr>)"

definition update_side_length :: "bool \<Rightarrow> nat \<Rightarrow> directional_length \<Rightarrow> directional_length" where
  "update_side_length won barlen l =
     (let l' = l\<lparr>dl_total := update_length_summary barlen (dl_total l)\<rparr>
      in if won then l'\<lparr>dl_won := update_length_summary barlen (dl_won l')\<rparr>
         else l'\<lparr>dl_lost := update_length_summary barlen (dl_lost l')\<rparr>)"

definition update_seen :: "bool \<Rightarrow> bool \<Rightarrow> seen \<Rightarrow> seen" where
  "update_seen longside won h =
     (let h' = (if won then h\<lparr>have_won := True\<rparr> else h\<lparr>have_lost := True\<rparr>)
      in if longside
         then h'\<lparr>have_long := True, have_long_won := have_long_won h \<or> won,
                 have_long_lost := have_long_lost h \<or> \<not> won\<rparr>
         else h'\<lparr>have_short := True, have_short_won := have_short_won h \<or> won,
                 have_short_lost := have_short_lost h \<or> \<not> won\<rparr>)"

definition analyze_trade :: "analysis \<times> seen \<Rightarrow> trade \<times> real \<Rightarrow> analysis \<times> seen" where
  "analyze_trade s entry =
     (let (a, h) = s; (trade, orig_size) = entry;
          gross = t_pnl trade;
          net = closed_pnl trade orig_size;
          won = 0 \<le> net;
          longside = t_islong trade;
          barlen = t_barlen trade;
          a1 = a\<lparr>an_gross := add_pnl gross (an_gross a), an_net := add_pnl net (an_net a)\<rparr>;
          a2 = (if won then a1\<lparr>an_won := add_outcome (have_won h) max net (an_won a1)\<rparr>
                else a1\<lparr>an_lost := add_outcome (have_lost h) min net (an_lost a1)\<rparr>);
          a3 = a2\<lparr>an_streak_won := update_streak won (an_streak_won a2),
                  an_streak_lost := update_streak (\<not> won) (an_streak_lost a2)\<rparr>;
          a4 = (if longside
                then a3\<lparr>an_long := update_side won net (have_long_won h) (have_long_lost h) (an_long a3)\<rparr>
                else a3\<lparr>an_short := update_side won net (have_short_won h) (have_short_lost h) (an_short a3)\<rparr>);
          a5 = a4\<lparr>an_len_total := update_length_summary barlen (an_len_total a4)\<rparr>;
          a6 = (if won then a5\<lparr>an_len_won := update_length_summary barlen (an_len_won a5)\<rparr>
                else a5\<lparr>an_len_lost := update_length_summary barlen (an_len_lost a5)\<rparr>);
          a7 = (if longside then a6\<lparr>an_len_long := update_side_length won barlen (an_len_long a6)\<rparr>
                else a6\<lparr>an_len_short := update_side_length won barlen (an_len_short a6)\<rparr>)
      in (a7, update_seen longside won h))"

subsection \<open>Averages and the final clean-up\<close>

definition average_pnl :: "nat \<Rightarrow> pnl_summary \<Rightarrow> pnl_summary" where
  "average_pnl n p = p\<lparr>ps_average := ps_total p / real n\<rparr>"

definition average_length :: "nat \<Rightarrow> length_stats \<Rightarrow> length_stats" where
  "average_length n l = l\<lparr>ls_average := real (ls_total l) / real n\<rparr>"

definition finalize_directional ::
    "bool \<Rightarrow> directional \<times> directional_length \<Rightarrow> directional \<times> directional_length" where
  "finalize_directional have_trade dl =
     (let (d, l) = dl;
          (d1, l1) = (if 0 < di_total d
             then (d\<lparr>di_pnl_average := di_pnl_total d / real (di_total d)\<rparr>,
                   l\<lparr>dl_total := average_length (di_total d) (dl_total l)\<rparr>)
             else (d, l));
          (d2, l2) = (if 0 < di_won d1
             then (d1\<lparr>di_pnl_won := average_pnl (di_won d1) (di_pnl_won d1)\<rparr>,
                   l1\<lparr>dl_won := average_length (di_won d1) (dl_won l1)\<rparr>)
             else (d1\<lparr>di_pnl_won := (di_pnl_won d1)\<lparr>ps_max := 0\<rparr>\<rparr>, l1));
          (d3, l3) = (if 0 < di_lost d2
             then (d2\<lparr>di_pnl_lost := average_pnl (di_lost d2) (di_pnl_lost d2)\<rparr>,
                   l2\<lparr>dl_lost := average_length (di_lost d2) (dl_lost l2)\<rparr>)
             else (d2\<lparr>di_pnl_lost := (di_pnl_lost d2)\<lparr>ps_max := 0\<rparr>\<rparr>, l2));
          l4 = (if \<not> have_trade then l3\<lparr>dl_total := (dl_total l3)\<lparr>ls_min := 0\<rparr>\<rparr> else l3);
          l5 = (if di_won d3 = 0 then l4\<lparr>dl_won := (dl_won l4)\<lparr>ls_min := 0\<rparr>\<rparr> else l4);
          l6 = (if di_lost d3 = 0 then l5\<lparr>dl_lost := (dl_lost l5)\<lparr>ls_min := 0\<rparr>\<rparr> else l5)
      in (d3, l6))"

definition analyze_finish :: "analysis \<times> seen \<Rightarrow> analysis" where
  "analyze_finish s =
     (let (a, h) = s;
          n_closed = tt_closed (an_total a);
          a1 = (if 0 < n_closed
             then a\<lparr>an_gross := average_pnl n_closed (an_gross a), an_net := average_pnl n_closed (an_net a),
                    an_len_total := average_length n_closed (an_len_total a)\<rparr>
             else a);
          a2 = (if 0 < wl_total (an_won a1)
             then a1\<lparr>an_won := (an_won a1)\<lparr>wl_pnl := average_pnl (wl_total (an_won a1)) (wl_pnl (an_won a1))\<rparr>,
                     an_len_won := average_length (wl_total (an_won a1)) (an_len_won a1)\<rparr>
             else a1);
          a3 = (if 0 < wl_total (an_lost a2)
             then a2\<lparr>an_lost := (an_lost a2)\<lparr>wl_pnl := average_pnl (wl_total (an_lost a2)) (wl_pnl (an_lost a2))\<rparr>,
                     an_len_lost := average_length (wl_total (an_lost a2)) (an_len_lost a2)\<rparr>
             else a2);
          (ds, ls) = finalize_directional (have_long h) (an_long a3, an_len_long a3);
          (dt, lt) = finalize_directional (have_short h) (an_short a3, an_len_short a3);
          a4 = a3\<lparr>an_long := ds, an_len_long := ls, an_short := dt, an_len_short := lt\<rparr>;
          a5 = (if have_won h then a4
                else a4\<lparr>an_won := (an_won a4)\<lparr>wl_pnl := (wl_pnl (an_won a4))\<lparr>ps_max := 0\<rparr>\<rparr>\<rparr>)
      in if have_lost h then a5
         else a5\<lparr>an_lost := (an_lost a5)\<lparr>wl_pnl := (wl_pnl (an_lost a5))\<lparr>ps_max := 0\<rparr>\<rparr>\<rparr>)"

text \<open>\<open>analyze\<close> reads the two trade lists of the broker.\<close>

definition analyze_start :: "(trade \<times> real) list \<Rightarrow> (trade \<times> real) list \<Rightarrow> analysis" where
  "analyze_start opened trades = no_analysis\<lparr>an_total :=
     \<lparr>tt_total = length opened + length trades, tt_open = length opened, tt_closed = length trades\<rparr>\<rparr>"

definition analyze :: "(trade \<times> real) list \<Rightarrow> (trade \<times> real) list \<Rightarrow> analysis" where
  "analyze opened trades = analyze_finish (foldl analyze_trade (analyze_start opened trades, nothing_seen) trades)"

text \<open>The analyzer keeps a pointer to the broker of the last bar; \<open>stop\<close> reads that broker.\<close>

record trade_analyzer =
  ta_analysis :: analysis
  ta_has_broker :: bool

definition trade_analyzer_start :: trade_analyzer where
  "trade_analyzer_start = \<lparr>ta_analysis = no_analysis, ta_has_broker = False\<rparr>"

definition trade_analyzer_next :: "trade_analyzer \<Rightarrow> trade_analyzer" where
  "trade_analyzer_next t = t\<lparr>ta_has_broker := True\<rparr>"

definition trade_analyzer_stop :: "broker \<Rightarrow> trade_analyzer \<Rightarrow> trade_analyzer" where
  "trade_analyzer_stop b t =
     (if ta_has_broker t then t\<lparr>ta_analysis := analyze (b_open_trades b) (b_closed_trades b)\<rparr> else t)"

definition win_rate :: "analysis \<Rightarrow> real" where
  "win_rate a =
     (if tt_total (an_total a) = 0 then 0
      else real (wl_total (an_won a)) / real (tt_total (an_total a)) * 100)"

subsection \<open>The statistics without running state\<close>

definition best :: "(real set \<Rightarrow> real) \<Rightarrow> real list \<Rightarrow> real" where
  "best pick xs = (if xs = [] then 0 else pick (set xs))"

definition pnl_of :: "(real set \<Rightarrow> real) \<Rightarrow> real list \<Rightarrow> pnl_summary" where
  "pnl_of pick xs = \<lparr>ps_total = sum_list xs, ps_average = sum_list xs / real (length xs), ps_max = best pick xs\<rparr>"

definition outcome_of :: "(real set \<Rightarrow> real) \<Rightarrow> real list \<Rightarrow> won_lost" where
  "outcome_of pick xs = \<lparr>wl_total = length xs, wl_pnl = pnl_of pick xs\<rparr>"

text \<open>The recorded minimum length: the least of the lengths after the last zero.\<close>

definition shortest :: "nat list \<Rightarrow> nat" where
  "shortest ns = (let late = takeWhile (\<lambda>n. 0 < n) (rev ns) in if late = [] then 0 else Min (set late))"

definition lengths_of :: "nat list \<Rightarrow> length_stats" where
  "lengths_of ns = \<lparr>ls_total = sum_list ns, ls_average = real (sum_list ns) / real (length ns),
     ls_max = (if ns = [] then 0 else Max (set ns)), ls_min = shortest ns\<rparr>"

definition streak_of :: "bool list \<Rightarrow> streak" where
  "streak_of hits = \<lparr>sk_current = length (takeWhile id (rev hits)),
     sk_longest = Max (length ` {w. sublist w hits \<and> list_all id w})\<rparr>"

definition net :: "trade \<times> real \<Rightarrow> real" where
  "net e = closed_pnl (fst e) (snd e)"

definition wins :: "(trade \<times> real) list \<Rightarrow> (trade \<times> real) list" where
  "wins es = filter (\<lambda>e. 0 \<le> net e) es"

definition losses :: "(trade \<times> real) list \<Rightarrow> (trade \<times> real) list" where
  "losses es = filter (\<lambda>e. \<not> 0 \<le> net e) es"

definition longs :: "(trade \<times> real) list \<Rightarrow> (trade \<times> real) list" where
  "longs es = filter (\<lambda>e. t_islong (fst e)) es"

definition shorts :: "(trade \<times> real) list \<Rightarrow> (trade \<times> real) list" where
  "shorts es = filter (\<lambda>e. \<not> t_islong (fst e)) es"

definition bars :: "(trade \<times> real) list \<Rightarrow> nat list" where
  "bars es = map (\<lambda>e. t_barlen (fst e)) es"

definition side_of :: "(trade \<times> real) list \<Rightarrow> directional" where
  "side_of es = \<lparr>di_total = length es, di_won = length (wins es), di_lost = length (losses es),
     di_pnl_total = sum_list (map net es), di_pnl_average = sum_list (map net es) / real (length es),
     di_pnl_won = pnl_of Max (map net (wins es)), di_pnl_lost = pnl_of Min (map net (losses es))\<rparr>"

definition side_lengths_of :: "(trade \<times> real) list \<Rightarrow> directional_length" where
  "side_lengths_of es = \<lparr>dl_total = lengths_of (bars es), dl_won = lengths_of (bars (wins es)),
     dl_lost = lengths_of (bars (losses es))\<rparr>"

definition statistics_of :: "(trade \<times> real) list \<Rightarrow> (trade \<times> real) list \<Rightarrow> analysis" where
  "statistics_of opened es = \<lparr>
     an_total = \<lparr>tt_total = length opened + length es, tt_open = length opened, tt_closed = length es\<rparr>,
     an_streak_won = streak_of (map (\<lambda>e. 0 \<le> net e) es),
     an_streak_lost = streak_of (map (\<lambda>e. \<not> 0 \<le> net e) es),
     an_gross = (pnl_of Max (map (\<lambda>e. t_pnl (fst e)) es))\<lparr>ps_max := 0\<rparr>,
     an_net = (pnl_of Max (map net es))\<lparr>ps_max := 0\<rparr>,
     an_won = outcome_of Max (map net (wins es)), an_lost = outcome_of Min (map net (losses es)),
     an_long = side_of (longs es), an_short = side_of (shorts es),
     an_len_total = lengths_of (bars es), an_len_won = lengths_of (bars (wins es)),
     an_len_lost = lengths_of (bars (losses es)),
     an_len_long = side_lengths_of (longs es), an_len_short = side_lengths_of (shorts es)\<rparr>"

text \<open>The loop state after the trades \<open>es\<close>: the same, with the averages still zero.\<close>

definition raw_pnl :: "pnl_summary \<Rightarrow> pnl_summary" where
  "raw_pnl p = p\<lparr>ps_average := 0\<rparr>"

definition raw_length :: "length_stats \<Rightarrow> length_stats" where
  "raw_length l = l\<lparr>ls_average := 0\<rparr>"

definition raw_outcome :: "won_lost \<Rightarrow> won_lost" where
  "raw_outcome w = w\<lparr>wl_pnl := raw_pnl (wl_pnl w)\<rparr>"

definition raw_side :: "directional \<Rightarrow> directional" where
  "raw_side d = d\<lparr>di_pnl_average := 0, di_pnl_won := raw_pnl (di_pnl_won d), di_pnl_lost := raw_pnl (di_pnl_lost d)\<rparr>"

definition raw_side_length :: "directional_length \<Rightarrow> directional_length" where
  "raw_side_length l =
     \<lparr>dl_total = raw_length (dl_total l), dl_won = raw_length (dl_won l), dl_lost = raw_length (dl_lost l)\<rparr>"

definition raw_analysis :: "analysis \<Rightarrow> analysis" where
  "raw_analysis a = a\<lparr>an_gross := raw_pnl (an_gross a), an_net := raw_pnl (an_net a),
     an_won := raw_outcome (an_won a), an_lost := raw_outcome (an_lost a),
     an_long := raw_side (an_long a), an_short := raw_side (an_short a),
     an_len_total := raw_length (an_len_total a), an_len_won := raw_length (an_len_won a),
     an_len_lost := raw_length (an_len_lost a), an_len_long := raw_side_length (an_len_long a),
     an_len_short := raw_side_length (an_len_short a)\<rparr>"

definition seen_of :: "(trade \<times> real) list \<Rightarrow> seen" where
  "seen_of es = \<lparr>have_won = wins es \<noteq> [], have_lost = losses es \<noteq> [], have_long = longs es \<noteq> [],
     have_short = shorts es \<noteq> [], have_long_won = wins (longs es) \<noteq> [], have_long_lost = losses (longs es) \<noteq> [],
     have_short_won = wins (shorts es) \<noteq> [], have_short_lost = losses (shorts es) \<noteq> []\<rparr>"

subsection \<open>One trade more\<close>

lemma shortest_snoc: "shortest (ns @ [n]) = (if shortest ns = 0 \<or> n < shortest ns then n else shortest ns)"
proof -
  let ?late = "takeWhile (\<lambda>n. 0 < n) (rev ns)"
  have pos: "0 < x" if "x \<in> set ?late" for x using that set_takeWhileD by fastforce
  then have zero: "shortest ns = 0 \<longleftrightarrow> ?late = []"
    by (auto simp: shortest_def Let_def Min_eq_iff)
  show ?thesis
  proof (cases "n = 0 \<or> ?late = []")
    case True
    then show ?thesis using zero by (auto simp: shortest_def Let_def)
  next
    case False
    then have "shortest (ns @ [n]) = min n (shortest ns)" by (simp add: shortest_def Let_def)
    then show ?thesis using zero False by auto
  qed
qed

lemma raw_lengths_snoc:
  "raw_length (lengths_of (ns @ [n])) = update_length_summary n (raw_length (lengths_of ns))"
  by (auto simp: raw_length_def lengths_of_def update_length_summary_def shortest_snoc max.commute)

lemma raw_pnl_snoc:
  "raw_pnl (pnl_of Max (xs @ [x])) = add_extreme (xs \<noteq> []) max x (raw_pnl (pnl_of Max xs))"
  "raw_pnl (pnl_of Min (xs @ [x])) = add_extreme (xs \<noteq> []) min x (raw_pnl (pnl_of Min xs))"
  by (auto simp: raw_pnl_def pnl_of_def add_extreme_def add_pnl_def best_def max.commute min.commute)

lemma raw_sum_snoc: "(add_extreme b pick x p)\<lparr>ps_max := 0\<rparr> = add_pnl x (p\<lparr>ps_max := 0\<rparr>)"
  by (simp add: add_extreme_def add_pnl_def)

lemma raw_outcome_snoc:
  "raw_outcome (outcome_of Max (xs @ [x])) = add_outcome (xs \<noteq> []) max x (raw_outcome (outcome_of Max xs))"
  "raw_outcome (outcome_of Min (xs @ [x])) = add_outcome (xs \<noteq> []) min x (raw_outcome (outcome_of Min xs))"
  by (simp_all add: raw_outcome_def outcome_of_def add_outcome_def raw_pnl_snoc)

lemma split_snoc:
  "wins (es @ [e]) = (if 0 \<le> net e then wins es @ [e] else wins es)"
  "losses (es @ [e]) = (if 0 \<le> net e then losses es else losses es @ [e])"
  "longs (es @ [e]) = (if t_islong (fst e) then longs es @ [e] else longs es)"
  "shorts (es @ [e]) = (if t_islong (fst e) then shorts es else shorts es @ [e])"
  "bars (es @ [e]) = bars es @ [t_barlen (fst e)]"
  by (simp_all add: wins_def losses_def longs_def shorts_def bars_def)

lemma raw_side_snoc:
  "raw_side (side_of (es @ [e])) =
     update_side (0 \<le> net e) (net e) (wins es \<noteq> []) (losses es \<noteq> []) (raw_side (side_of es))"
  by (simp add: raw_side_def side_of_def update_side_def split_snoc raw_pnl_snoc)

lemma raw_side_length_snoc:
  "raw_side_length (side_lengths_of (es @ [e])) =
     update_side_length (0 \<le> net e) (t_barlen (fst e)) (raw_side_length (side_lengths_of es))"
  by (simp add: raw_side_length_def side_lengths_of_def update_side_length_def split_snoc raw_lengths_snoc)

lemma finite_runs: "finite {w. sublist w hits \<and> list_all id w}"
proof -
  have "{w. sublist w hits \<and> list_all id w} \<subseteq> set (sublists hits)" by (auto simp: set_sublists_eq)
  then show ?thesis by (rule finite_subset) simp
qed

lemma longest_run_ge: "sublist w hits \<Longrightarrow> list_all id w \<Longrightarrow> length w \<le> sk_longest (streak_of hits)"
  using finite_runs [of hits] by (auto simp: streak_of_def intro!: Max_ge)

lemma longest_run_mem: "\<exists>w. sublist w hits \<and> list_all id w \<and> length w = sk_longest (streak_of hits)"
proof -
  have "Max (length ` {w. sublist w hits \<and> list_all id w}) \<in> length ` {w. sublist w hits \<and> list_all id w}"
    using finite_runs [of hits] by (intro Max_in) (auto intro: exI [of _ "[]"])
  then show ?thesis by (auto simp: streak_of_def)
qed

lemma trailing_run: "suffix (rev (takeWhile id (rev hits))) hits"
  by (metis rev_rev_ident suffix_to_prefix takeWhile_is_prefix)

lemma suffix_run_le: "suffix w hits \<Longrightarrow> list_all id w \<Longrightarrow> length w \<le> length (takeWhile id (rev hits))"
  by (auto simp: suffix_def takeWhile_append list_all_iff)

lemma streak_snoc: "streak_of (hits @ [h]) = update_streak h (streak_of hits)"
proof -
  let ?now = "length (takeWhile id (rev (hits @ [h])))"
  have up: "sk_longest (streak_of (hits @ [h])) \<le> max (sk_longest (streak_of hits)) ?now"
  proof -
    obtain w where w: "sublist w (hits @ [h])" "list_all id w" "length w = sk_longest (streak_of (hits @ [h]))"
      using longest_run_mem by blast
    then show ?thesis
      using longest_run_ge [of w hits] suffix_run_le [of w "hits @ [h]"]
      by (auto simp: sublist_snoc le_max_iff_disj simp del: rev_append)
  qed
  have "list_all id (rev (takeWhile id (rev (hits @ [h]))))" by (auto simp: list_all_iff dest: set_takeWhileD)
  then have now: "?now \<le> sk_longest (streak_of (hits @ [h]))"
    using longest_run_ge [OF suffix_imp_sublist [OF trailing_run]] by (metis length_rev)
  obtain w where "sublist w hits" "list_all id w" "length w = sk_longest (streak_of hits)"
    using longest_run_mem by blast
  then have "sk_longest (streak_of hits) \<le> sk_longest (streak_of (hits @ [h]))"
    using longest_run_ge [of w "hits @ [h]"] by (simp add: sublist_snoc)
  then have "sk_longest (streak_of (hits @ [h])) = max (sk_longest (streak_of hits)) ?now"
    using up now by simp
  then show ?thesis by (simp add: streak_of_def update_streak_def Let_def)
qed

lemma streak_nil: "streak_of [] = \<lparr>sk_current = 0, sk_longest = 0\<rparr>"
  by (simp add: streak_of_def)

definition loop_state :: "totals \<Rightarrow> (trade \<times> real) list \<Rightarrow> analysis \<times> seen" where
  "loop_state tot es = (raw_analysis ((statistics_of [] es)\<lparr>an_total := tot\<rparr>), seen_of es)"

lemmas raw_snoc = split_snoc raw_lengths_snoc raw_pnl_snoc raw_sum_snoc raw_outcome_snoc raw_side_snoc
  raw_side_length_snoc streak_snoc

lemma seen_snoc: "seen_of (es @ [e]) = update_seen (t_islong (fst e)) (0 \<le> net e) (seen_of es)"
  by (simp add: seen_of_def update_seen_def split_snoc)

lemma raw_sum_eq: "raw_pnl (p\<lparr>ps_max := 0\<rparr>) = (raw_pnl p)\<lparr>ps_max := 0\<rparr>"
  by (simp add: raw_pnl_def)

lemma analyze_step: "analyze_trade (loop_state tot es) e = loop_state tot (es @ [e])"
proof -
  obtain t z where e: "e = (t, z)" by force
  have cp: "closed_pnl t z = net e" and long: "t_islong t = t_islong (fst e)" and bar: "t_barlen t = t_barlen (fst e)"
    and gross: "t_pnl t = t_pnl (fst e)"
    by (simp_all add: net_def e)
  show ?thesis
    unfolding loop_state_def analyze_trade_def Let_def
    unfolding e prod.case cp long bar gross
    unfolding e [symmetric] seen_snoc
    by (cases "0 \<le> net e"; cases "t_islong (fst e)")
       (simp_all add: raw_analysis_def statistics_of_def raw_snoc raw_sum_eq seen_of_def)
qed

lemma analyze_loop: "foldl analyze_trade (analyze_start opened es, nothing_seen) ts
    = loop_state (an_total (statistics_of opened es)) ts"
proof (induction ts rule: rev_induct)
  case Nil
  show ?case
    by (simp add: loop_state_def analyze_start_def no_analysis_def raw_analysis_def statistics_of_def streak_nil
        raw_pnl_def pnl_of_def raw_outcome_def outcome_of_def raw_side_def side_of_def raw_length_def
        lengths_of_def raw_side_length_def side_lengths_of_def no_pnl_def no_directional_def no_length_def
        no_directional_length_def wins_def losses_def longs_def shorts_def bars_def best_def shortest_def
        nothing_seen_def seen_of_def)
qed (simp add: analyze_step)

text \<open>The final averages turn the raw statistics into the finished ones.\<close>

lemma length_split [simp]:
  "length (bars es) = length es" "bars es = [] \<longleftrightarrow> es = []"
  by (simp_all add: bars_def)

lemma average_raw:
  "average_pnl (length xs) (raw_pnl (pnl_of pick xs)) = pnl_of pick xs"
  "n = length ns \<Longrightarrow> average_length n (raw_length (lengths_of ns)) = lengths_of ns"
  by (simp_all add: average_pnl_def raw_pnl_def pnl_of_def average_length_def raw_length_def lengths_of_def)

lemma raw_empty:
  "(pnl_of pick [])\<lparr>ps_max := 0\<rparr> = pnl_of pick []" "raw_length (lengths_of []) = lengths_of []"
  "(lengths_of [])\<lparr>ls_min := 0\<rparr> = lengths_of []" "raw_pnl (pnl_of pick []) = pnl_of pick []"
  "bars [] = []" "wins [] = []" "losses [] = []" "longs [] = []" "shorts [] = []"
  by (simp_all add: raw_pnl_def pnl_of_def raw_length_def lengths_of_def best_def shortest_def bars_def
      wins_def losses_def longs_def shorts_def)

text \<open>The averages, whatever the number of trades; an empty group keeps its zeros.\<close>

lemma average_or_empty:
  "(if 0 < length xs then average_pnl (length xs) (raw_pnl (pnl_of pick xs)) else (raw_pnl (pnl_of pick xs))\<lparr>ps_max := 0\<rparr>)
     = pnl_of pick xs"
  "n = length ns \<Longrightarrow> (if 0 < n then average_length n (raw_length (lengths_of ns)) else raw_length (lengths_of ns)) = lengths_of ns"
  by (auto simp: average_raw raw_empty)

lemma finalize_raw:
  "finalize_directional (es \<noteq> []) (raw_side (side_of es), raw_side_length (side_lengths_of es))
     = (side_of es, side_lengths_of es)"
proof -
  have w: "average_pnl (length (wins es)) (raw_pnl (pnl_of Max (map net (wins es)))) = pnl_of Max (map net (wins es))"
    and l: "average_pnl (length (losses es)) (raw_pnl (pnl_of Min (map net (losses es)))) = pnl_of Min (map net (losses es))"
    using average_raw(1) [of "map net (wins es)" Max] average_raw(1) [of "map net (losses es)" Min] by simp_all
  show ?thesis
    by (cases "es = []"; cases "wins es = []"; cases "losses es = []")
       (simp_all add: finalize_directional_def Let_def raw_side_def side_of_def raw_side_length_def
        side_lengths_of_def average_raw raw_empty w l)
qed

lemma analyze_statistics: "analyze opened es = statistics_of opened es"
proof -
  let ?A = "raw_analysis ((statistics_of [] es)\<lparr>an_total := an_total (statistics_of opened es)\<rparr>)"
  let ?S = "statistics_of opened es"
  have A: "tt_closed (an_total ?A) = length es" "an_gross ?A = raw_pnl (an_gross ?S)" "an_net ?A = raw_pnl (an_net ?S)"
    "an_won ?A = raw_outcome (an_won ?S)" "an_lost ?A = raw_outcome (an_lost ?S)"
    "an_long ?A = raw_side (side_of (longs es))" "an_short ?A = raw_side (side_of (shorts es))"
    "an_len_total ?A = raw_length (an_len_total ?S)" "an_len_won ?A = raw_length (an_len_won ?S)"
    "an_len_lost ?A = raw_length (an_len_lost ?S)"
    "an_len_long ?A = raw_side_length (side_lengths_of (longs es))"
    "an_len_short ?A = raw_side_length (side_lengths_of (shorts es))"
    by (simp_all add: raw_analysis_def statistics_of_def)
  have W: "wl_total (raw_outcome (an_won ?S)) = length (wins es)" "wl_total (raw_outcome (an_lost ?S)) = length (losses es)"
    by (simp_all add: raw_outcome_def statistics_of_def outcome_of_def)
  have avg: "average_pnl (length es) (raw_pnl (an_gross ?S)) = an_gross ?S"
    "average_pnl (length es) (raw_pnl (an_net ?S)) = an_net ?S"
    "average_pnl (length (wins es)) (wl_pnl (raw_outcome (an_won ?S))) = wl_pnl (an_won ?S)"
    "average_pnl (length (losses es)) (wl_pnl (raw_outcome (an_lost ?S))) = wl_pnl (an_lost ?S)"
    by (simp_all add: average_pnl_def raw_pnl_def statistics_of_def pnl_of_def raw_outcome_def outcome_of_def)
  have len: "average_length (length es) (raw_length (an_len_total ?S)) = an_len_total ?S"
    "average_length (length (wins es)) (raw_length (an_len_won ?S)) = an_len_won ?S"
    "average_length (length (losses es)) (raw_length (an_len_lost ?S)) = an_len_lost ?S"
    by (simp_all add: statistics_of_def average_raw)
  show ?thesis
    unfolding analyze_def analyze_loop loop_state_def analyze_finish_def
    apply (cases "es = []"; cases "wins es = []"; cases "losses es = []")
    apply (simp_all add: A W avg len Let_def finalize_raw seen_of_def cong: let_weak_cong prod.case_cong_weak if_weak_cong)
    apply (simp_all add: raw_analysis_def statistics_of_def raw_outcome_def outcome_of_def raw_empty
        finalize_raw [of "[]", simplified])
    done
qed

subsection \<open>What the statistics say\<close>

lemma won_lost_split:
  "length (wins es) + length (losses es) = length es"
  "sum_list (map net (wins es)) + sum_list (map net (losses es)) = sum_list (map net es)"
  "length (longs es) + length (shorts es) = length es"
  "length (wins (longs es)) + length (wins (shorts es)) = length (wins es)"
  "sum_list (map net (longs es)) + sum_list (map net (shorts es)) = sum_list (map net es)"
  "sum_list (bars (longs es)) + sum_list (bars (shorts es)) = sum_list (bars es)"
  by (induction es) (auto simp: wins_def losses_def longs_def shorts_def bars_def)

lemma pnl_signs: "0 \<le> sum_list (map net (wins es))" "sum_list (map net (losses es)) \<le> 0"
  by (auto simp: wins_def losses_def intro!: sum_list_nonneg sum_list_nonpos)

text \<open>
  C18. Trade statistics: the running statistics of \<open>analyze\<close> are the ones computed group by
  group from the closed trades (counts, sums, averages, largest win, largest loss, longest run
  of wins and of losses, trade lengths), won and lost trades and the long and the short side
  partition counts, profit and length, profits of won trades are never negative, those of
  lost trades never positive, and the win rate lies between 0 and 100.
\<close>

theorem trade_statistics:
  "let a = analyze opened es in
     a = statistics_of opened es
     \<and> wl_total (an_won a) + wl_total (an_lost a) = length es
     \<and> ps_total (wl_pnl (an_won a)) + ps_total (wl_pnl (an_lost a)) = ps_total (an_net a)
     \<and> 0 \<le> ps_total (wl_pnl (an_won a)) \<and> ps_total (wl_pnl (an_lost a)) \<le> 0
     \<and> di_total (an_long a) + di_total (an_short a) = length es
     \<and> di_won (an_long a) + di_won (an_short a) = wl_total (an_won a)
     \<and> di_pnl_total (an_long a) + di_pnl_total (an_short a) = ps_total (an_net a)
     \<and> ls_total (dl_total (an_len_long a)) + ls_total (dl_total (an_len_short a)) = ls_total (an_len_total a)
     \<and> ps_average (an_net a) * real (length es) = ps_total (an_net a)
     \<and> 0 \<le> win_rate a \<and> win_rate a \<le> 100"
proof -
  have a: "analyze opened es = statistics_of opened es" by (rule analyze_statistics)
  have rate: "0 \<le> win_rate (statistics_of opened es) \<and> win_rate (statistics_of opened es) \<le> 100"
  proof -
    have share: "0 \<le> real m / real n * 100 \<and> real m / real n * 100 \<le> 100" if "m \<le> n" for m n :: nat
      using that by (cases "n = 0") (simp_all add: divide_le_eq_1 del: times_divide_eq_left)
    have "length (wins es) \<le> length opened + length es" using won_lost_split(1) [of es] by linarith
    from share [OF this] show ?thesis by (simp add: win_rate_def statistics_of_def outcome_of_def)
  qed
  show ?thesis
    unfolding a Let_def
    using rate won_lost_split [of es] pnl_signs [of es]
    by (simp add: statistics_of_def outcome_of_def pnl_of_def side_of_def side_lengths_of_def lengths_of_def)
qed

text \<open>
  A trade opened and closed within one bar has length zero, which \<open>update_length_summary\<close>
  takes for "not set yet": the recorded minimum depends on the order of the trades.
\<close>

lemma minimum_length_order:
  "ls_min (foldl (\<lambda>l n. update_length_summary n l) no_length [3, 0, 5]) = 5"
  "ls_min (foldl (\<lambda>l n. update_length_summary n l) no_length [3, 5, 0]) = 0"
  by (simp_all add: update_length_summary_def no_length_def)

end
