(* ===== verification/Strategy.thy ===== *)
theory Strategy
  imports Valuation Feed Interval "HOL-Library.Word"
begin

text \<open>
  \<^verbatim>\<open>core/params.hpp\<close>, \<^verbatim>\<open>strategy/strategy.hpp\<close> and \<^verbatim>\<open>broker/sizer.hpp\<close>: typed parameters,
  the base class of strategies and the order sizers. Feeds are owned by the engine and seen
  through pointers; here \<open>st_feeds\<close> holds the indices of the engine's feed list, and the
  operations that read a feed take that list (\<open>nfeed\<close>: a feed with its name and interval).
  The virtual functions of a derived class are not under \<^verbatim>\<open>src/\<close> and come in as arguments
  (theory \<open>Cerebro\<close>).
\<close>

subsection \<open>Parameters\<close>

datatype param_value = PInt "64 word" | PReal real | PBool bool | PStr string

type_synonym param_map = "string \<rightharpoonup> param_value"

text \<open>A \<open>ParamView\<close> is a pointer to a map, possibly null.\<close>

type_synonym param_view = "param_map option"

definition pv_empty :: "param_view \<Rightarrow> bool" where
  "pv_empty v = (case v of None \<Rightarrow> True | Some m \<Rightarrow> m = Map.empty)"

definition pv_has :: "param_view \<Rightarrow> string \<Rightarrow> bool" where
  "pv_has v key = (case v of None \<Rightarrow> False | Some m \<Rightarrow> m key \<noteq> None)"

definition pv_at :: "param_view \<Rightarrow> string \<Rightarrow> exn + param_value" where
  "pv_at v key =
     (case v of
        None \<Rightarrow> Inl (OutOfRange ''parameter map is empty'')
      | Some m \<Rightarrow> (case m key of None \<Rightarrow> Inl (OutOfRange ''unordered_map::at'') | Some x \<Rightarrow> Inr x))"

text \<open>
  \<open>get<T>\<close> by the class of \<open>T\<close>. An integral \<open>T\<close> of another width truncates
  (\<open>static_cast\<close>); a floating \<open>T\<close> accepts integers.
\<close>

definition get_string :: "param_view \<Rightarrow> string \<Rightarrow> exn + string" where
  "get_string v key =
     bind_r (pv_at v key) (\<lambda>x. case x of PStr s \<Rightarrow> Inr s | _ \<Rightarrow> Inl BadVariantAccess)"

definition get_bool :: "param_view \<Rightarrow> string \<Rightarrow> exn + bool" where
  "get_bool v key =
     bind_r (pv_at v key) (\<lambda>x. case x of PBool b \<Rightarrow> Inr b | _ \<Rightarrow> Inl BadVariantAccess)"

definition get_integral :: "param_view \<Rightarrow> string \<Rightarrow> exn + 'w::len word" where
  "get_integral v key =
     bind_r (pv_at v key) (\<lambda>x. case x of PInt i \<Rightarrow> Inr (ucast i) | _ \<Rightarrow> Inl BadVariantAccess)"

definition get_floating :: "param_view \<Rightarrow> string \<Rightarrow> exn + real" where
  "get_floating v key =
     bind_r (pv_at v key) (\<lambda>x. case x of
        PReal r \<Rightarrow> Inr r
      | PInt i \<Rightarrow> Inr (real_of_int (sint i))
      | _ \<Rightarrow> Inl BadVariantAccess)"

definition merge_params :: "param_map \<Rightarrow> param_map \<Rightarrow> param_map" where
  "merge_params defaults overrides = (\<lambda>k. case overrides k of Some x \<Rightarrow> Some x | None \<Rightarrow> defaults k)"

subsection \<open>State of a strategy\<close>

record nfeed =
  nf_name :: string
  nf_tfc :: tfc
  nf_feed :: "real feed"

definition views_of :: "nfeed list \<Rightarrow> view list" where
  "views_of feeds = map (\<lambda>f. feed_view (nf_feed f)) feeds"

datatype sizer = FixedSize real | PercentSizer real | AllInSizer | FixedReverser real

record strategy =
  st_broker_set :: bool
  st_feeds :: "nat list"
  st_names :: "string list"
  st_lookup :: "string \<rightharpoonup> nat"
  st_params :: param_map
  st_params_initialized :: bool
  st_min_periods :: "nat list"
  st_feed_advanced :: "bool list"
  st_bars_delivered :: "nat list"
  st_sizer :: "sizer option"

definition new_strategy :: strategy where
  "new_strategy = \<lparr>st_broker_set = False, st_feeds = [], st_names = [], st_lookup = Map.empty,
     st_params = Map.empty, st_params_initialized = False, st_min_periods = [1],
     st_feed_advanced = [], st_bars_delivered = [], st_sizer = Some (FixedSize 1)\<rparr>"

definition setsizer :: "sizer option \<Rightarrow> strategy \<Rightarrow> strategy" where
  "setsizer sz s = s\<lparr>st_sizer := sz\<rparr>"

definition set_broker :: "bool \<Rightarrow> strategy \<Rightarrow> strategy" where
  "set_broker b s = s\<lparr>st_broker_set := b\<rparr>"

subsection \<open>Minimum periods\<close>

definition minimum_period :: "nat \<Rightarrow> strategy \<Rightarrow> nat" where
  "minimum_period k s = (if k < length (st_min_periods s) then st_min_periods s ! k else 0)"

definition set_minimum_period :: "nat \<Rightarrow> nat \<Rightarrow> strategy \<Rightarrow> strategy" where
  "set_minimum_period k bars s =
     (let ps = st_min_periods s;
          ps' = (if length ps \<le> k then ps @ replicate (k + 1 - length ps) 1 else ps)
      in s\<lparr>st_min_periods := ps'[k := bars]\<rparr>)"

definition require_minimum_period :: "nat \<Rightarrow> nat \<Rightarrow> strategy \<Rightarrow> strategy" where
  "require_minimum_period k bars s =
     (if minimum_period k s < bars then set_minimum_period k bars s else s)"

record history_requirement =
  hr_feed_index :: nat
  hr_bars :: nat

fun apply_indicator_history_requirements ::
  "history_requirement list \<Rightarrow> strategy \<Rightarrow> exn + strategy" where
  "apply_indicator_history_requirements [] s = Inr s"
| "apply_indicator_history_requirements (r # rs) s =
     (if length (st_feeds s) \<le> hr_feed_index r then
        Inl (InvalidArgument ''indicator history requirement references an unavailable feed'')
      else if hr_bars r = 0 then
        Inl (InvalidArgument ''indicator history requirement must be positive'')
      else apply_indicator_history_requirements rs
             (require_minimum_period (hr_feed_index r) (hr_bars r) s))"

subsection \<open>Clock flags and generated indicators\<close>

definition feed_advanced :: "nat \<Rightarrow> strategy \<Rightarrow> bool" where
  "feed_advanced k s = (if k < length (st_feed_advanced s) then st_feed_advanced s ! k else False)"

definition bars_delivered :: "nat \<Rightarrow> strategy \<Rightarrow> nat" where
  "bars_delivered k s = (if k < length (st_bars_delivered s) then st_bars_delivered s ! k else 0)"

definition set_feed_advanced :: "bool list \<Rightarrow> strategy \<Rightarrow> strategy" where
  "set_feed_advanced flags s = s\<lparr>st_feed_advanced := flags\<rparr>"

definition set_bars_delivered :: "nat list \<Rightarrow> strategy \<Rightarrow> strategy" where
  "set_bars_delivered counts s = s\<lparr>st_bars_delivered := counts\<rparr>"

text \<open>\<open>update_indicators(feed_index)\<close> is virtual: \<open>upd\<close>, on the state of the derived class.\<close>

definition advance_generated_indicators :: "(nat \<Rightarrow> 'u \<Rightarrow> 'u) \<Rightarrow> strategy \<Rightarrow> 'u \<Rightarrow> 'u" where
  "advance_generated_indicators upd s u =
     (if st_feed_advanced s = [] then upd 0 u
      else foldl (\<lambda>u i. if st_feed_advanced s ! i then upd i u else u) u
             [0..<length (st_feed_advanced s)])"

subsection \<open>Data access\<close>

definition digit_char :: "nat \<Rightarrow> char" where
  "digit_char d = char_of (48 + d)"

fun nat_to_string :: "nat \<Rightarrow> string" where
  "nat_to_string n =
     (if n < 10 then [digit_char n] else nat_to_string (n div 10) @ [digit_char (n mod 10)])"

declare nat_to_string.simps [simp del]

definition resolved_name :: "nfeed \<Rightarrow> nat \<Rightarrow> string" where
  "resolved_name f i = (if nf_name f = [] then ''data'' @ nat_to_string i else nf_name f)"

definition rebuild_data_lookup :: "nfeed list \<Rightarrow> strategy \<Rightarrow> strategy" where
  "rebuild_data_lookup feeds s =
     (let names = map (\<lambda>i. resolved_name (feeds ! (st_feeds s ! i)) i) [0..<length (st_feeds s)]
      in s\<lparr>st_names := names,
           st_lookup := foldl (\<lambda>m (name, p). m(name \<mapsto> p)) Map.empty (zip names (st_feeds s))\<rparr>)"

definition set_data_feeds :: "nat list \<Rightarrow> nfeed list \<Rightarrow> strategy \<Rightarrow> strategy" where
  "set_data_feeds ps feeds s = rebuild_data_lookup feeds (s\<lparr>st_feeds := ps\<rparr>)"

definition data :: "nat \<Rightarrow> strategy \<Rightarrow> exn + nat" where
  "data i s = (if i < length (st_feeds s) then Inr (st_feeds s ! i) else Inl (OutOfRange ''vector::at''))"

definition data_by_name :: "string \<Rightarrow> strategy \<Rightarrow> exn + nat" where
  "data_by_name name s =
     (case st_lookup s name of
        None \<Rightarrow> Inl (OutOfRange (''DataFeed not found: '' @ name))
      | Some p \<Rightarrow> Inr p)"

definition has_data :: "string \<Rightarrow> strategy \<Rightarrow> bool" where
  "has_data name s = (st_lookup s name \<noteq> None)"

definition data_name :: "nat \<Rightarrow> strategy \<Rightarrow> exn + string" where
  "data_name i s = (if i < length (st_names s) then Inr (st_names s ! i) else Inl (OutOfRange ''vector::at''))"

definition data_count :: "strategy \<Rightarrow> nat" where
  "data_count s = length (st_feeds s)"

definition set_params :: "param_map \<Rightarrow> param_map \<Rightarrow> strategy \<Rightarrow> strategy" where
  "set_params defaults overrides s =
     s\<lparr>st_params := merge_params defaults overrides, st_params_initialized := True\<rparr>"

definition ensure_params_initialized :: "param_map \<Rightarrow> strategy \<Rightarrow> strategy" where
  "ensure_params_initialized defaults s =
     (if st_params_initialized s then s else set_params defaults Map.empty s)"

subsection \<open>Sizing\<close>

text \<open>\<open>Sizer::getsizing\<close> of the four sizers; \<open>views\<close> are the strategy's feeds.\<close>

definition sizer_getsizing ::
  "sizer \<Rightarrow> order_side \<Rightarrow> real \<Rightarrow> nat \<Rightarrow> view list \<Rightarrow> broker \<Rightarrow> exn + real" where
  "sizer_getsizing sz sd price di views b =
     (case sz of
        FixedSize n \<Rightarrow> Inr n
      | PercentSizer percents \<Rightarrow>
          (if price \<le> 0 then Inr 0
           else bind_r (portfolio_value views b) (\<lambda>value. Inr ((value * (percents / 100)) / price)))
      | AllInSizer \<Rightarrow>
          (if price \<le> 0 then Inr 0
           else if sd = Buy then Inr (cash b / price)
           else Inr \<bar>p_size (position_of di b)\<bar>)
      | FixedReverser base \<Rightarrow>
          (let pos_size = \<bar>p_size (position_of di b)\<bar>
           in if pos_size < eps then Inr base else Inr (pos_size + base)))"

definition getsizing :: "order_side \<Rightarrow> real \<Rightarrow> nat \<Rightarrow> nfeed list \<Rightarrow> strategy \<Rightarrow> broker \<Rightarrow> exn + real" where
  "getsizing sd price di feeds s b =
     (case st_sizer s of
        None \<Rightarrow> Inr 1
      | Some sz \<Rightarrow>
          bind_r (if price \<le> 0 then bind_r (data di s) (\<lambda>p. line_at (fd_close (nf_feed (feeds ! p))) 0)
                  else Inr price) (\<lambda>price'.
            bind_r (data di s) (\<lambda>p.
              sizer_getsizing sz sd price' di (map (\<lambda>p. views_of feeds ! p) (st_feeds s)) b)))"

subsection \<open>Orders\<close>

definition strategy_order ::
  "order_side \<Rightarrow> real option \<Rightarrow> real \<Rightarrow> order_type \<Rightarrow> nat \<Rightarrow> nfeed list \<Rightarrow> strategy \<Rightarrow> broker \<Rightarrow>
     exn + (nat \<times> broker)" where
  "strategy_order sd size_arg price ty di feeds s b =
     (if \<not> st_broker_set s then Inr (0, b)
      else bind_r (case size_arg of Some x \<Rightarrow> Inr x | None \<Rightarrow> getsizing sd price di feeds s b)
             (\<lambda>actual_size. if sd = Buy then buy actual_size price None ty di b
                            else sell actual_size price None ty di b))"

definition strategy_buy ::
  "real option \<Rightarrow> real \<Rightarrow> order_type \<Rightarrow> nat \<Rightarrow> nfeed list \<Rightarrow> strategy \<Rightarrow> broker \<Rightarrow> exn + (nat \<times> broker)" where
  "strategy_buy size_arg price ty di feeds s b = strategy_order Buy size_arg price ty di feeds s b"

definition strategy_sell ::
  "real option \<Rightarrow> real \<Rightarrow> order_type \<Rightarrow> nat \<Rightarrow> nfeed list \<Rightarrow> strategy \<Rightarrow> broker \<Rightarrow> exn + (nat \<times> broker)" where
  "strategy_sell size_arg price ty di feeds s b = strategy_order Sell size_arg price ty di feeds s b"

definition strategy_close :: "nat \<Rightarrow> strategy \<Rightarrow> broker \<Rightarrow> exn + (nat \<times> broker)" where
  "strategy_close di s b = (if \<not> st_broker_set s then Inr (0, b) else close di b)"

definition strategy_cancel :: "nat \<Rightarrow> strategy \<Rightarrow> broker \<Rightarrow> exn + broker" where
  "strategy_cancel oid s b = (if st_broker_set s then cancel_order oid b else Inr b)"

definition strategy_order_ext ::
  "order_side \<Rightarrow> real \<Rightarrow> order_params \<Rightarrow> strategy \<Rightarrow> broker \<Rightarrow> exn + (nat \<times> broker)" where
  "strategy_order_ext sd sz params s b =
     (if \<not> st_broker_set s then Inr (0, b)
      else if sd = Buy then buy_ext sz params b else sell_ext sz params b)"

definition strategy_bracket ::
  "order_side \<Rightarrow> real \<Rightarrow> real \<Rightarrow> real \<Rightarrow> nat \<Rightarrow> strategy \<Rightarrow> broker \<Rightarrow> bracket_result \<times> broker" where
  "strategy_bracket sd sz lp sp di s b =
     (if \<not> st_broker_set s then (\<lparr>main_id = 0, stop_id = 0, limit_id = 0\<rparr>, b)
      else bracket sd sz lp sp di b)"

subsection \<open>Parameters: typing\<close>

text \<open>
  Typed access to strategy parameters: an override wins over the default and other
  keys keep theirs; a lookup throws \<open>out_of_range\<close> exactly for a missing key; each getter
  returns the stored value of its own alternative, \<open>double\<close> getters also accept integers by
  their signed value, integer getters of w bits return the stored 64-bit value modulo
  2^w, and every other alternative is a \<open>bad_variant_access\<close>.
\<close>

theorem params_typed:
  "(let v = Some (merge_params defaults overrides) in
      pv_at v key = (case overrides key of Some x \<Rightarrow> Inr x | None \<Rightarrow>
          (case defaults key of Some x \<Rightarrow> Inr x | None \<Rightarrow> Inl (OutOfRange ''unordered_map::at'')))
      \<and> pv_has v key = (\<exists>x. pv_at v key = Inr x))
   \<and> (pv_at v key = Inr (PInt i) \<longrightarrow>
        get_integral v key = Inr (ucast i :: 'w::len word)
        \<and> uint (ucast i :: 'w word) = uint i mod 2 ^ LENGTH('w)
        \<and> get_floating v key = Inr (real_of_int (sint i))
        \<and> get_bool v key = Inl BadVariantAccess \<and> get_string v key = Inl BadVariantAccess)
   \<and> (pv_at v key = Inr (PReal r) \<longrightarrow> get_floating v key = Inr r
        \<and> (get_integral v key :: exn + 'w word) = Inl BadVariantAccess
        \<and> get_bool v key = Inl BadVariantAccess \<and> get_string v key = Inl BadVariantAccess)
   \<and> (pv_at v key = Inr (PBool t) \<longrightarrow> get_bool v key = Inr t
        \<and> (get_integral v key :: exn + 'w word) = Inl BadVariantAccess
        \<and> get_floating v key = Inl BadVariantAccess \<and> get_string v key = Inl BadVariantAccess)
   \<and> (pv_at v key = Inr (PStr s) \<longrightarrow> get_string v key = Inr s
        \<and> (get_integral v key :: exn + 'w word) = Inl BadVariantAccess
        \<and> get_floating v key = Inl BadVariantAccess \<and> get_bool v key = Inl BadVariantAccess)"
  by (auto simp: pv_at_def pv_has_def merge_params_def get_integral_def get_floating_def
      get_bool_def get_string_def unsigned_ucast_eq take_bit_eq_mod Let_def split: option.splits)

theorem params_typed_witness:
  "get_integral (Some [''period'' \<mapsto> PInt 300]) ''period'' = Inr (44 :: 8 word)
   \<and> get_floating (Some [''period'' \<mapsto> PInt (- 1)]) ''period'' = Inr (- 1)
   \<and> get_bool (Some [''period'' \<mapsto> PInt 1]) ''period'' = Inl BadVariantAccess"
  using params_typed [where v = "Some [''period'' \<mapsto> PInt 300]" and i = 300 and 'w = "8" and key = "''period''"]
    params_typed [where v = "Some [''period'' \<mapsto> PInt (- 1)]" and i = "- 1" and 'w = "8" and key = "''period''"]
    params_typed [where v = "Some [''period'' \<mapsto> PInt 1]" and i = 1 and 'w = "8" and key = "''period''"]
  by (simp add: pv_at_def)

subsection \<open>Minimum periods\<close>

lemma minimum_period_set:
  "minimum_period j (set_minimum_period k bars s) =
     (if j = k then bars
      else if j < length (st_min_periods s) then st_min_periods s ! j
      else if j < k then 1 else 0)"
  by (auto simp: minimum_period_def set_minimum_period_def Let_def nth_append nth_list_update)

lemma minimum_period_require:
  "minimum_period k s \<le> minimum_period k (require_minimum_period i n s)"
  "n \<le> minimum_period i (require_minimum_period i n s)"
  "minimum_period k (require_minimum_period i n s) \<in> {minimum_period k s, 1} \<union> (if i = k then {n} else {})"
  by (auto simp: require_minimum_period_def minimum_period_set) (auto simp: minimum_period_def)

lemma require_feeds [simp]: "st_feeds (require_minimum_period i n s) = st_feeds s"
  by (simp add: require_minimum_period_def set_minimum_period_def Let_def)

text \<open>
  C15. Declared indicator history: the declaration is accepted exactly when every entry
  names an available feed and a positive number of bars, otherwise it throws; once
  accepted, every declared warm-up is satisfied, no existing requirement is weakened, and
  each minimum period is the old one, one of the declared ones for that feed, or 1.
\<close>

theorem history_requirements_met:
  "((\<exists>s'. apply_indicator_history_requirements rs s = Inr s') \<longleftrightarrow>
      (\<forall>r \<in> set rs. hr_feed_index r < data_count s \<and> 0 < hr_bars r))
   \<and> (\<forall>s'. apply_indicator_history_requirements rs s = Inr s' \<longrightarrow>
        (\<forall>r \<in> set rs. hr_bars r \<le> minimum_period (hr_feed_index r) s')
        \<and> (\<forall>k. minimum_period k s \<le> minimum_period k s'
             \<and> minimum_period k s' \<in> {minimum_period k s, 1}
                 \<union> hr_bars ` {r \<in> set rs. hr_feed_index r = k}))"
proof (induction rs arbitrary: s)
  case (Cons r rs)
  let ?s = "require_minimum_period (hr_feed_index r) (hr_bars r) s"
  have base: "minimum_period k s \<le> minimum_period k ?s"
    "minimum_period k ?s \<in> {minimum_period k s, 1} \<union> (if hr_feed_index r = k then {hr_bars r} else {})" for k
    by (rule minimum_period_require)+
  have mine: "hr_bars r \<le> minimum_period (hr_feed_index r) ?s" by (rule minimum_period_require(2))
  show ?case
  proof (cases "hr_feed_index r < data_count s \<and> 0 < hr_bars r")
    case True
    have IH: "\<forall>s'. apply_indicator_history_requirements rs ?s = Inr s' \<longrightarrow>
        (\<forall>r \<in> set rs. hr_bars r \<le> minimum_period (hr_feed_index r) s')
        \<and> (\<forall>k. minimum_period k ?s \<le> minimum_period k s'
             \<and> minimum_period k s' \<in> {minimum_period k ?s, 1}
                 \<union> hr_bars ` {r \<in> set rs. hr_feed_index r = k})"
      and ok: "(\<exists>s'. apply_indicator_history_requirements rs ?s = Inr s') \<longleftrightarrow>
        (\<forall>r \<in> set rs. hr_feed_index r < data_count s \<and> 0 < hr_bars r)"
      using Cons.IH [of ?s] by (simp_all add: data_count_def)
    have step: "apply_indicator_history_requirements (r # rs) s = apply_indicator_history_requirements rs ?s"
      using True by (simp add: data_count_def)
    have "minimum_period k s \<le> minimum_period k s'
             \<and> minimum_period k s' \<in> {minimum_period k s, 1}
                 \<union> hr_bars ` {x \<in> set (r # rs). hr_feed_index x = k}"
      if "apply_indicator_history_requirements rs ?s = Inr s'" for s' k
    proof -
      have "minimum_period k ?s \<le> minimum_period k s'"
        "minimum_period k s' \<in> {minimum_period k ?s, 1} \<union> hr_bars ` {r \<in> set rs. hr_feed_index r = k}"
        using IH that by auto
      then show ?thesis using base [of k] by (auto split: if_splits)
    qed
    moreover have "\<forall>x \<in> set (r # rs). hr_bars x \<le> minimum_period (hr_feed_index x) s'"
      if "apply_indicator_history_requirements rs ?s = Inr s'" for s'
      using IH that mine by (auto intro: order_trans)
    ultimately show ?thesis unfolding step using ok True by simp
  next
    case False
    then show ?thesis by (auto simp: data_count_def)
  qed
qed simp

theorem history_requirements_met_witness:
  "\<exists>s'. apply_indicator_history_requirements
          [\<lparr>hr_feed_index = 2, hr_bars = 5\<rparr>, \<lparr>hr_feed_index = 0, hr_bars = 3\<rparr>]
          (new_strategy\<lparr>st_feeds := [0, 1, 2]\<rparr>) = Inr s'
      \<and> 5 \<le> minimum_period 2 s' \<and> 3 \<le> minimum_period 0 s'"
  using history_requirements_met [where rs = "[\<lparr>hr_feed_index = 2, hr_bars = 5\<rparr>, \<lparr>hr_feed_index = 0, hr_bars = 3\<rparr>]"
      and s = "new_strategy\<lparr>st_feeds := [0, 1, 2]\<rparr>"]
  by (auto simp: data_count_def)

text \<open>Declaring a warm-up for feed 2 also gives feed 1 a minimum period of one bar.\<close>

lemma set_minimum_period_pads:
  "minimum_period 1 new_strategy = 0 \<and> minimum_period 1 (set_minimum_period 2 5 new_strategy) = 1"
  by (simp add: minimum_period_set new_strategy_def) (simp add: minimum_period_def)

subsection \<open>Names of feeds\<close>

lemma digit_value: "d < 10 \<Longrightarrow> (of_char (digit_char d) :: nat) = 48 + d"
  by (simp add: digit_char_def)

definition string_value :: "string \<Rightarrow> nat" where
  "string_value cs = foldl (\<lambda>a c. 10 * a + (of_char c - 48)) 0 cs"

lemma string_value_digits: "string_value (nat_to_string n) = n"
proof (induction n rule: nat_to_string.induct)
  case (1 n)
  then show ?case
    by (subst nat_to_string.simps) (auto simp: string_value_def digit_value)
qed

lemma lookup_none: "n \<notin> fst ` set xs \<Longrightarrow> foldl (\<lambda>m (k, p). m(k \<mapsto> p)) m0 xs n = m0 n"
  by (induction xs arbitrary: m0) auto

lemma lookup_some: "n \<in> fst ` set xs \<Longrightarrow> \<exists>p. foldl (\<lambda>m (k, p). m(k \<mapsto> p)) m0 xs n = Some p"
  by (induction xs rule: rev_induct) (force simp: case_prod_beta)+

lemma lookup_last:
  "i < length xs \<Longrightarrow> fst (xs ! i) = n \<Longrightarrow> \<forall>j. i < j \<and> j < length xs \<longrightarrow> fst (xs ! j) \<noteq> n \<Longrightarrow>
     foldl (\<lambda>m (k, p). m(k \<mapsto> p)) m0 xs n = Some (snd (xs ! i))"
proof (induction xs rule: rev_induct)
  case (snoc x xs)
  show ?case
  proof (cases "i = length xs")
    case True
    then show ?thesis using snoc.prems by (auto simp: case_prod_beta)
  next
    case False
    then have i: "i < length xs" using snoc.prems(1) by simp
    have "fst x \<noteq> n" using snoc.prems(3) i by (auto dest: spec [where x = "length xs"])
    moreover have "fst (xs ! j) \<noteq> n" if "i < j" "j < length xs" for j
      using snoc.prems(3) that by (auto simp: nth_append dest: spec [where x = j])
    moreover have "fst (xs ! i) = n" using snoc.prems(2) i by (simp add: nth_append)
    ultimately show ?thesis using snoc.IH i by (auto simp: case_prod_beta nth_append)
  qed
qed simp

text \<open>
  Feeds by name: after \<open>set_data_feeds\<close> every feed has a name, its own or
  \<open>data<index>\<close>; looking a name up succeeds exactly for these names, and yields the last feed
  that carries it, so that index and name agree whenever names are not repeated, as is the
  case for the default names.
\<close>

theorem data_name_lookup:
  fixes ps :: "nat list"
  assumes "s' = set_data_feeds ps feeds s"
  shows "data_count s' = length ps
     \<and> (\<forall>i < length ps. data_name i s' = Inr (resolved_name (feeds ! (ps ! i)) i)
          \<and> has_data (resolved_name (feeds ! (ps ! i)) i) s'
          \<and> ((\<forall>j. i < j \<and> j < length ps \<longrightarrow>
                resolved_name (feeds ! (ps ! j)) j \<noteq> resolved_name (feeds ! (ps ! i)) i) \<longrightarrow>
              data_by_name (resolved_name (feeds ! (ps ! i)) i) s' = data i s'))
     \<and> (\<forall>n. has_data n s' \<longleftrightarrow> n \<in> set (st_names s'))
     \<and> (\<forall>n. \<not> has_data n s' \<longrightarrow> data_by_name n s' = Inl (OutOfRange (''DataFeed not found: '' @ n)))
     \<and> ((\<forall>i < length ps. nf_name (feeds ! (ps ! i)) = []) \<longrightarrow> distinct (st_names s'))"
proof -
  let ?name = "\<lambda>i. resolved_name (feeds ! (ps ! i)) i"
  let ?xs = "zip (map ?name [0..<length ps]) ps"
  have s': "st_feeds s' = ps" "st_names s' = map ?name [0..<length ps]"
    "st_lookup s' = foldl (\<lambda>m (k, p). m(k \<mapsto> p)) Map.empty ?xs"
    using assms by (simp_all add: set_data_feeds_def rebuild_data_lookup_def Let_def)
  have "set (map fst ?xs) = set (st_names s')" by (simp add: s'(2))
  then have keys: "fst ` set ?xs = set (st_names s')" by (simp only: set_map)
  have has: "has_data n s' \<longleftrightarrow> n \<in> set (st_names s')" for n
    using lookup_none [of n ?xs Map.empty] lookup_some [of n ?xs Map.empty] keys
    by (auto simp: has_data_def s'(3))
  have last: "data_by_name (?name i) s' = data i s'"
    if "i < length ps" "\<forall>j. i < j \<and> j < length ps \<longrightarrow> ?name j \<noteq> ?name i" for i
    using lookup_last [of i ?xs "?name i" Map.empty] that
    by (simp add: data_by_name_def data_def s')
  have inj: "inj_on ?name {0..<length ps}" if "\<forall>i < length ps. nf_name (feeds ! (ps ! i)) = []"
    using that by (intro inj_onI) (simp add: resolved_name_def, metis string_value_digits)
  have missing: "\<not> has_data n s' \<longrightarrow> data_by_name n s' = Inl (OutOfRange (''DataFeed not found: '' @ n))" for n
    by (simp add: has_data_def data_by_name_def)
  have "data_name i s' = Inr (?name i) \<and> has_data (?name i) s'" if "i < length ps" for i
    using that by (simp add: has) (simp add: data_name_def s')
  moreover have "(\<forall>i < length ps. nf_name (feeds ! (ps ! i)) = []) \<longrightarrow> distinct (st_names s')"
    using inj by (simp add: s'(2) distinct_map)
  moreover have "data_count s' = length ps" by (simp add: data_count_def s'(1))
  ultimately show ?thesis using last has missing by blast
qed

definition unnamed_feed :: nfeed where
  "unnamed_feed = \<lparr>nf_name = [], nf_tfc = default_tfc, nf_feed = empty_feed\<rparr>"

theorem data_name_lookup_witness:
  "data_by_name ''data1'' (set_data_feeds [0, 1] [unnamed_feed\<lparr>nf_name := ''SPY''\<rparr>, unnamed_feed] new_strategy)
     = Inr 1
   \<and> \<not> has_data ''data0'' (set_data_feeds [0, 1] [unnamed_feed\<lparr>nf_name := ''SPY''\<rparr>, unnamed_feed] new_strategy)"
proof -
  let ?fs = "[unnamed_feed\<lparr>nf_name := ''SPY''\<rparr>, unnamed_feed]"
  let ?s = "set_data_feeds [0, 1] ?fs new_strategy"
  have n: "resolved_name (?fs ! ([0, 1] ! 1)) 1 = ''data1''" "resolved_name (?fs ! ([0, 1] ! 0)) 0 = ''SPY''"
    by code_simp+
  have "data_by_name ''data1'' ?s = data 1 ?s"
    using data_name_lookup [OF refl, of "[0, 1]" ?fs new_strategy] n
    by (metis (no_types, lifting) One_nat_def length_Cons lessI list.size(3) not_less_eq)
  moreover have "\<not> has_data ''data0'' ?s"
    using data_name_lookup [OF refl, of "[0, 1]" ?fs new_strategy] n
    by (simp add: set_data_feeds_def rebuild_data_lookup_def upt_rec)
  ultimately show ?thesis by (simp add: data_def set_data_feeds_def rebuild_data_lookup_def)
qed

subsection \<open>Sizing\<close>

text \<open>
  What the sizers promise, at the given price or, when none is given, at the current
  close: all-in buying costs exactly the cash and all-in selling closes the position, a
  percentage sizer commits that share of the portfolio value, the reverser turns a
  position into its base size on the other side and opens the base size when flat; no
  sizer means one unit, and a feed index out of range throws.
\<close>

theorem sizing_contract:
  assumes "di < length (st_feeds s)"
    and "line_at (fd_close (nf_feed (feeds ! (st_feeds s ! di)))) 0 = Inr c" and "0 < c"
  shows "let px = (if price \<le> 0 then c else price);
             pos = p_size (position_of di b);
             size_of = (\<lambda>sz sd. getsizing sd price di feeds (setsizer sz s) b);
             closing = (if 0 < pos then Sell else Buy)
         in size_of None sd = Inr 1 \<and> size_of (Some (FixedSize n)) sd = Inr n
          \<and> (\<exists>x. size_of (Some AllInSizer) Buy = Inr x \<and> x * px = cash b)
          \<and> size_of (Some AllInSizer) Sell = Inr \<bar>pos\<bar>
          \<and> (\<forall>v. portfolio_value (map (\<lambda>p. views_of feeds ! p) (st_feeds s)) b = Inr v \<longrightarrow>
               (\<exists>x. size_of (Some (PercentSizer pct)) sd = Inr x \<and> x * px = v * pct / 100))
          \<and> (if \<bar>pos\<bar> < eps then size_of (Some (FixedReverser base)) sd = Inr base
             else (\<exists>x. size_of (Some (FixedReverser base)) sd = Inr x
                     \<and> pos + signed_size closing x = (if 0 < pos then - base else base)))
          \<and> getsizing sd price (length (st_feeds s)) feeds (setsizer (Some sz) s) b
              = Inl (OutOfRange ''vector::at'')"
proof -
  define px where "px = (if price \<le> 0 then c else price)"
  have pos: "0 < px" using assms(3) by (simp add: px_def)
  have eval: "getsizing sd price di feeds (setsizer (Some sz) s) b
      = sizer_getsizing sz sd px di (map (\<lambda>p. views_of feeds ! p) (st_feeds s)) b" for sz sd
    using assms by (auto simp: getsizing_def setsizer_def data_def px_def)
  have none: "getsizing sd price di feeds (setsizer None s) b = Inr 1"
    by (simp add: getsizing_def setsizer_def)
  have bad: "getsizing sd price (length (st_feeds s)) feeds (setsizer (Some sz) s) b
      = Inl (OutOfRange ''vector::at'')" for sz
    by (simp add: getsizing_def setsizer_def data_def)
  show ?thesis
    unfolding Let_def px_def [symmetric] none bad eval sizer_getsizing_def
    using pos by (auto simp: signed_size_def eps_def)
qed

theorem sizing_contract_witness:
  "\<exists>x. getsizing Buy 0 0 [unnamed_feed\<lparr>nf_feed := advanced 0 [\<lparr>bar_timestamp = 7, bar_open = 1, bar_high = 3,
          bar_low = 1, bar_close = 4, bar_volume = 10\<rparr>]\<rparr>]
        (setsizer (Some AllInSizer) (new_strategy\<lparr>st_feeds := [0]\<rparr>)) (new_broker USD 100 None) = Inr x \<and> x * 4 = 100"
proof -
  let ?s = "new_strategy\<lparr>st_feeds := [0]\<rparr>"
  let ?fs = "[unnamed_feed\<lparr>nf_feed := advanced 0 [\<lparr>bar_timestamp = 7, bar_open = 1, bar_high = 3,
     bar_low = 1, bar_close = 4, bar_volume = 10\<rparr>]\<rparr>]"
  have "line_at (fd_close (nf_feed (?fs ! (st_feeds ?s ! 0)))) 0 = Inr 4"
    by (simp add: advanced_def feed_of_bars_def line_at_def Let_def)
  then show ?thesis
    using sizing_contract [of 0 ?s ?fs 4 0 "new_broker USD 100 None"]
    by (simp add: Let_def cash_def cash_of_def new_broker_def)
qed

end
