(* ===== verification/Live_Engine.thy ===== *)
theory Live_Engine
  imports Live_Fills Valuation Strategy
begin

text \<open>
  \<^verbatim>\<open>live/live_engine.hpp\<close>, \<^verbatim>\<open>live/live_data_feed.hpp\<close> and \<^verbatim>\<open>live/market_connector.hpp\<close>: the
  event-driven engine. The connector is an interface without code under \<^verbatim>\<open>src/\<close>: the calls
  the engine makes of it are appended, in order, to \<open>le_out\<close>, and what it delivers comes in as
  events (\<open>live_event\<close>), one after the other, as the callback gate serialises them; it is
  taken not to deliver while one of its functions is being called. \<open>Clock::now()\<close> reads the next
  value of \<open>le_clock\<close>.

  A hook of a strategy is a program of type \<open>act\<close>: it ends with its new state, throws, or makes
  one call of the broker and continues with what the broker then shows. The broker hands an
  order to the connector as the last action of a placing call, so the rate limit, which can
  trip the kill switch and flatten, runs between two calls of the strategy, as in the code.
\<close>

subsection \<open>Feeds and limits\<close>

datatype connector_state = Disconnected | Connecting | Connected | Reconnecting | ErrorState

record snapshot =
  sn_symbol :: string
  sn_bid_price :: real
  sn_ask_price :: real
  sn_last_price :: real
  sn_bid_size :: real
  sn_ask_size :: real
  sn_last_size :: real
  sn_data_index :: nat

definition empty_snapshot :: snapshot where
  "empty_snapshot = \<lparr>sn_symbol = [], sn_bid_price = 0, sn_ask_price = 0, sn_last_price = 0,
     sn_bid_size = 0, sn_ask_size = 0, sn_last_size = 0, sn_data_index = 0\<rparr>"

record live_feed =
  lf_data :: nfeed
  lf_last :: snapshot
  lf_pushed :: nat

definition new_live_feed :: "string \<Rightarrow> live_feed" where
  "new_live_feed symbol = \<lparr>lf_data = \<lparr>nf_name = symbol, nf_tfc = default_tfc, nf_feed = empty_feed\<rparr>,
     lf_last = empty_snapshot, lf_pushed = 0\<rparr>"

text \<open>The two branches of \<open>push_snapshot\<close> are the same statements.\<close>

definition push_snapshot :: "snapshot \<Rightarrow> datetime \<Rightarrow> live_feed \<Rightarrow> live_feed" where
  "push_snapshot s stamp f =
     (let p = sn_last_price s;
          bar = \<lparr>bar_timestamp = stamp, bar_open = p, bar_high = p, bar_low = p, bar_close = p,
                 bar_volume = sn_last_size s\<rparr>;
          d = lf_data f
      in \<lparr>lf_data = d\<lparr>nf_feed := feed_forward bar (nf_feed d)\<rparr>, lf_last = s, lf_pushed = lf_pushed f + 1\<rparr>)"

record risk_limits =
  lr_max_abs_position :: "real option"
  lr_max_drawdown_percent :: "real option"
  lr_max_orders_per_second :: "nat option"
  lr_heartbeat_timeout :: "int option"
  lr_flatten_on_breach :: bool
  lr_auto_reconnect :: bool
  lr_max_reconnect_attempts :: nat
  lr_reconnect_interval :: int

definition default_limits :: risk_limits where
  "default_limits = \<lparr>lr_max_abs_position = None, lr_max_drawdown_percent = None,
     lr_max_orders_per_second = None, lr_heartbeat_timeout = None, lr_flatten_on_breach = True,
     lr_auto_reconnect = False, lr_max_reconnect_attempts = 3, lr_reconnect_interval = 1000\<rparr>"

subsection \<open>Strategies and state\<close>

datatype 'u act =
  Done strategy 'u
| Throw exn
| Ask client_call "broker \<Rightarrow> 'u act"

type_synonym 'u live_hook = "nfeed list \<Rightarrow> strategy \<Rightarrow> 'u \<Rightarrow> broker \<Rightarrow> 'u act"

record 'u live_class =
  lc_default_params :: param_map
  lc_init :: "'u live_hook"
  lc_start :: "'u live_hook"
  lc_prenext :: "'u live_hook"
  lc_nextstart :: "'u live_hook"
  lc_next :: "'u live_hook"
  lc_stop :: "'u live_hook"

text \<open>Calls of the connector; a submitted order carries the clock reading of its rate check, if any.\<close>

datatype connector_call =
  ToConnect
| ToDisconnect
| ToSubscribe string
| ToSubmit order "datetime option"
| ToCancel nat
| ToSetCallbacks
| ToClearCallbacks

datatype live_phase = LPrenext | LNextstart | LNext

record live_call =
  lv_phase :: live_phase
  lv_feed :: nat
  lv_delivered :: "nat list"
  lv_base :: strategy

record 'u live =
  le_class :: "'u live_class"
  le_base :: strategy
  le_state :: 'u
  le_limits :: risk_limits
  le_broker :: broker
  le_started :: bool
  le_nextstart_fired :: bool
  le_killed :: bool
  le_flattening :: bool
  le_reason :: string
  le_peak :: real
  le_feeds :: "live_feed list"
  le_has_state_callback :: bool
  le_states :: "connector_state list"
  le_stamps :: "datetime list"
  le_last_data :: datetime
  le_reconnects :: nat
  le_gate_active :: bool
  le_gate_owner :: bool
  le_clock :: "nat \<Rightarrow> datetime"
  le_tick :: nat
  le_out :: "connector_call list"
  le_calls :: "live_call list"

text \<open>The constructor; \<open>None\<close> stands for a null pointer.\<close>

definition new_live ::
  "bool \<Rightarrow> ('u live_class \<times> strategy \<times> 'u) option \<Rightarrow> risk_limits \<Rightarrow> (nat \<Rightarrow> datetime) \<Rightarrow> exn + 'u live" where
  "new_live connector strat limits clock =
     (if \<not> connector then Inl (InvalidArgument ''LiveEngine requires a connector'')
      else (case strat of
          None \<Rightarrow> Inl (InvalidArgument ''LiveEngine requires a strategy'')
        | Some (cls, base, u) \<Rightarrow>
            Inr \<lparr>le_class = cls, le_base = base, le_state = u, le_limits = limits,
              le_broker = new_broker USD 10000 None, le_started = False, le_nextstart_fired = False,
              le_killed = False, le_flattening = False, le_reason = [], le_peak = 0, le_feeds = [],
              le_has_state_callback = False, le_states = [], le_stamps = [], le_last_data = 0,
              le_reconnects = 0, le_gate_active = False, le_gate_owner = True, le_clock = clock,
              le_tick = 0, le_out = [], le_calls = []\<rparr>))"

definition send :: "connector_call \<Rightarrow> 'u live \<Rightarrow> 'u live" where
  "send c e = e\<lparr>le_out := le_out e @ [c]\<rparr>"

definition clock_now :: "'u live \<Rightarrow> datetime \<times> 'u live" where
  "clock_now e = (le_clock e (le_tick e), e\<lparr>le_tick := le_tick e + 1\<rparr>)"

definition feed_ptrs :: "'u live \<Rightarrow> nfeed list" where
  "feed_ptrs e = map lf_data (le_feeds e)"

definition symbol_names :: "'u live \<Rightarrow> string list" where
  "symbol_names e = map (\<lambda>f. nf_name (lf_data f)) (le_feeds e)"

subsection \<open>Order routing: rate limit, kill switch, flattening\<close>

text \<open>
  The broker records what it hands to its connector (\<open>ConnectorSubmit\<close>, \<open>ConnectorCancel\<close>);
  \<open>route\<close> passes the new records on, orders through \<open>submit\<close>.
\<close>

type_synonym 'u submit = "order \<Rightarrow> 'u live \<Rightarrow> exn + 'u live"

fun relay :: "'u submit \<Rightarrow> event \<Rightarrow> 'u live \<Rightarrow> exn + 'u live" where
  "relay submit (ConnectorSubmit ord) e = submit ord e"
| "relay submit (ConnectorCancel oid) e = Inr (send (ToCancel oid) e)"
| "relay submit _ e = Inr e"

definition route :: "'u submit \<Rightarrow> broker \<Rightarrow> 'u live \<Rightarrow> exn + 'u live" where
  "route submit b e =
     fold_r (relay submit) (drop (length (b_events (le_broker e))) (b_events b)) (e\<lparr>le_broker := b\<rparr>)"

definition flatten_one :: "'u submit \<Rightarrow> nat \<Rightarrow> 'u live \<Rightarrow> exn + 'u live" where
  "flatten_one submit di e =
     (if is_flat (position_of di (le_broker e)) then Inr e
      else bind_r (close di (le_broker e)) (\<lambda>r. route submit (snd r) e))"

definition flatten_with :: "'u submit \<Rightarrow> 'u live \<Rightarrow> exn + 'u live" where
  "flatten_with submit e =
     bind_r (fold_r (flatten_one submit) [0..<length (le_feeds e)] (e\<lparr>le_flattening := True\<rparr>))
       (\<lambda>e'. Inr (e'\<lparr>le_flattening := False\<rparr>))"

text \<open>
  Submission once the kill switch has tripped, where the rate check reads no clock and cannot
  trip it again; \<open>submit_live\<close> is the general case and agrees with it there.
\<close>

definition submit_killed :: "'u submit" where
  "submit_killed ord e =
     Inr (if lr_max_orders_per_second (le_limits e) = None \<or> le_flattening e then send (ToSubmit ord None) e else e)"

definition trigger_kill_switch :: "string \<Rightarrow> 'u live \<Rightarrow> exn + 'u live" where
  "trigger_kill_switch reason e =
     (if le_killed e then Inr e
      else (let e' = e\<lparr>le_killed := True, le_reason := reason\<rparr>
            in if lr_flatten_on_breach (le_limits e) then flatten_with submit_killed e' else Inr e'))"

definition purge :: "datetime \<Rightarrow> datetime list \<Rightarrow> datetime list" where
  "purge t stamps = dropWhile (\<lambda>s. ticks_per_sec < t - s) stamps"

text \<open>The result: whether the order may go, and the clock reading it was stamped with.\<close>

definition check_order_rate :: "'u live \<Rightarrow> exn + (bool \<times> datetime option \<times> 'u live)" where
  "check_order_rate e =
     (case lr_max_orders_per_second (le_limits e) of
        None \<Rightarrow> Inr (True, None, e)
      | Some most \<Rightarrow>
          if le_killed e then Inr (le_flattening e, None, e)
          else
            (let (t, e1) = clock_now e;
                 e2 = e1\<lparr>le_stamps := purge t (le_stamps e1)\<rparr>
             in if most \<le> length (le_stamps e2)
                then bind_r (trigger_kill_switch ''order rate limit exceeded'' e2) (\<lambda>e3. Inr (False, None, e3))
                else Inr (True, Some t, e2\<lparr>le_stamps := le_stamps e2 @ [t]\<rparr>)))"

definition submit_live :: "'u submit" where
  "submit_live ord e =
     bind_r (check_order_rate e) (\<lambda>(ok, stamp, e'). Inr (if ok then send (ToSubmit ord stamp) e' else e'))"

definition flatten_positions :: "'u live \<Rightarrow> exn + 'u live" where
  "flatten_positions e = flatten_with submit_live e"

text \<open>A call of the broker by the strategy or by the owner of the engine.\<close>

definition broker_call :: "client_call \<Rightarrow> 'u live \<Rightarrow> exn + 'u live" where
  "broker_call c e = bind_r (client_step c (le_broker e)) (\<lambda>b. route submit_live b e)"

primrec run_act :: "'u act \<Rightarrow> 'u live \<Rightarrow> exn + 'u live" where
  "run_act (Done base u) e = Inr (e\<lparr>le_base := base, le_state := u\<rparr>)"
| "run_act (Throw x) e = Inl x"
| "run_act (Ask c k) e = bind_r (broker_call c e) (\<lambda>e'. run_act (k (le_broker e')) e')"

definition run_hook :: "'u live_hook \<Rightarrow> 'u live \<Rightarrow> exn + 'u live" where
  "run_hook h e = run_act (h (feed_ptrs e) (le_base e) (le_state e) (le_broker e)) e"

subsection \<open>Risk limits and reconnection\<close>

definition position_breach :: "real \<Rightarrow> 'u live \<Rightarrow> bool" where
  "position_breach most e = list_ex (\<lambda>i. most < \<bar>p_size (position_of i (le_broker e))\<bar>) [0..<length (le_feeds e)]"

definition drawdown_breach :: "real \<Rightarrow> real \<Rightarrow> real \<Rightarrow> bool" where
  "drawdown_breach most peak value = (0 < peak \<and> most \<le> (peak - value) / peak * 100)"

definition evaluate_risk_limits :: "'u live \<Rightarrow> exn + 'u live" where
  "evaluate_risk_limits e =
     (if le_killed e then Inr e
      else bind_r (portfolio_value (views_of (feed_ptrs e)) (le_broker e)) (\<lambda>value.
        let e1 = (if le_peak e < value then e\<lparr>le_peak := value\<rparr> else e)
        in if (case lr_max_drawdown_percent (le_limits e1) of
                 Some most \<Rightarrow> drawdown_breach most (le_peak e1) value | None \<Rightarrow> False)
           then trigger_kill_switch ''max drawdown breached'' e1
           else if (case lr_max_abs_position (le_limits e1) of
                 Some most \<Rightarrow> position_breach most e1 | None \<Rightarrow> False)
           then trigger_kill_switch ''max position breached'' e1
           else Inr e1))"

definition subscribe_all :: "'u live \<Rightarrow> 'u live" where
  "subscribe_all e = e\<lparr>le_out := le_out e @ map ToSubscribe (symbol_names e)\<rparr>"

definition try_reconnect :: "'u live \<Rightarrow> exn + (bool \<times> 'u live)" where
  "try_reconnect e =
     (if \<not> le_started e \<or> \<not> lr_auto_reconnect (le_limits e) then Inr (False, e)
      else if lr_max_reconnect_attempts (le_limits e) \<le> le_reconnects e then
        bind_r (trigger_kill_switch ''max reconnect attempts exceeded'' e) (\<lambda>e'. Inr (False, e'))
      else Inr (True, subscribe_all (send ToConnect (e\<lparr>le_reconnects := le_reconnects e + 1\<rparr>))))"

text \<open>\<open>duration_cast\<close> to milliseconds truncates towards zero.\<close>

definition check_heartbeat :: "datetime \<Rightarrow> 'u live \<Rightarrow> exn + 'u live" where
  "check_heartbeat t e =
     (if \<not> le_started e \<or> le_killed e then Inr e
      else (case lr_heartbeat_timeout (le_limits e) of
          None \<Rightarrow> Inr e
        | Some timeout \<Rightarrow>
            if timeout \<le> (t - le_last_data e) sdiv 1000000
            then trigger_kill_switch ''heartbeat timeout'' e else Inr e))"

definition handle_connector_state :: "connector_state \<Rightarrow> 'u live \<Rightarrow> exn + 'u live" where
  "handle_connector_state st e =
     (let e1 = (if le_has_state_callback e then e\<lparr>le_states := le_states e @ [st]\<rparr> else e)
      in if st = Disconnected \<and> le_started e1 \<and> \<not> le_killed e1 then
           (if lr_auto_reconnect (le_limits e1) then bind_r (try_reconnect e1) (\<lambda>r. Inr (snd r))
            else trigger_kill_switch ''connector disconnected'' e1)
         else Inr e1)"

subsection \<open>Feeds\<close>

definition add_feed :: "string \<Rightarrow> 'u live \<Rightarrow> 'u live" where
  "add_feed symbol e = e\<lparr>le_feeds := le_feeds e @ [new_live_feed symbol]\<rparr>"

definition refresh_symbols :: "'u live \<Rightarrow> 'u live" where
  "refresh_symbols e = e\<lparr>le_broker := set_live_symbols (symbol_names e) (le_broker e)\<rparr>"

definition give_feeds :: "'u live \<Rightarrow> 'u live" where
  "give_feeds e = e\<lparr>le_base := set_data_feeds [0..<length (le_feeds e)] (feed_ptrs e) (le_base e)\<rparr>"

definition subscribe :: "string \<Rightarrow> 'u live \<Rightarrow> 'u live" where
  "subscribe symbol e =
     (let e1 = (if symbol \<in> set (symbol_names e) then e
                else refresh_symbols (give_feeds (add_feed symbol e)))
      in if le_started e1 then send (ToSubscribe symbol) e1 else e1)"

definition ensure_feed :: "string \<Rightarrow> 'u live \<Rightarrow> 'u live" where
  "ensure_feed symbol e =
     (if symbol \<in> set (symbol_names e) then e
      else (let e1 = refresh_symbols (add_feed symbol e)
            in if le_started e1 then send (ToSubscribe symbol) e1 else e1))"

fun index_from :: "nat \<Rightarrow> string \<Rightarrow> string list \<Rightarrow> nat option" where
  "index_from i symbol [] = None"
| "index_from i symbol (n # ns) = (if n = symbol then Some i else index_from (i + 1) symbol ns)"

definition index_of_symbol :: "string \<Rightarrow> 'u live \<Rightarrow> exn + nat" where
  "index_of_symbol symbol e =
     (case index_from 0 symbol (symbol_names e) of
        None \<Rightarrow> Inl (LogicError ''live feed cache is inconsistent'')
      | Some i \<Rightarrow> Inr i)"

subsection \<open>Handlers\<close>

definition delivered :: "'u live \<Rightarrow> nat list" where
  "delivered e = map lf_pushed (le_feeds e)"

definition live_ready :: "nat list \<Rightarrow> strategy \<Rightarrow> bool" where
  "live_ready ds base = list_all (\<lambda>i. minimum_period i base \<le> ds ! i) [0..<length ds]"

definition record_live_call :: "live_phase \<Rightarrow> nat \<Rightarrow> 'u live \<Rightarrow> 'u live" where
  "record_live_call ph i e =
     e\<lparr>le_calls := le_calls e @ [\<lparr>lv_phase = ph, lv_feed = i, lv_delivered = delivered e, lv_base = le_base e\<rparr>]\<rparr>"

definition live_lifecycle :: "nat \<Rightarrow> 'u live \<Rightarrow> exn + 'u live" where
  "live_lifecycle i e =
     (if i \<noteq> 0 \<or> \<not> live_ready (delivered e) (le_base e) then
        run_hook (lc_prenext (le_class e)) (record_live_call LPrenext i e)
      else if \<not> le_nextstart_fired e then
        bind_r (run_hook (lc_nextstart (le_class e)) (record_live_call LNextstart i e))
          (\<lambda>e'. Inr (e'\<lparr>le_nextstart_fired := True\<rparr>))
      else run_hook (lc_next (le_class e)) (record_live_call LNext i e))"

definition push_feed :: "nat \<Rightarrow> snapshot \<Rightarrow> datetime \<Rightarrow> 'u live \<Rightarrow> 'u live" where
  "push_feed i snap wall e = e\<lparr>le_feeds := (le_feeds e)[i := push_snapshot snap wall (le_feeds e ! i)]\<rparr>"

definition show_progress :: "nat \<Rightarrow> 'u live \<Rightarrow> 'u live" where
  "show_progress i e =
     e\<lparr>le_base := set_bars_delivered (delivered e)
        (set_feed_advanced ((replicate (length (le_feeds e)) False)[i := True]) (le_base e))\<rparr>"

definition receive :: "snapshot \<Rightarrow> datetime \<Rightarrow> 'u live \<Rightarrow> nat \<Rightarrow> exn + 'u live" where
  "receive snap wall e i =
     (let e3 = push_feed i snap wall e;
          e4 = e3\<lparr>le_broker := set_bar_index (lf_pushed (le_feeds e3 ! i) - 1) (le_broker e3)\<rparr>
      in bind_r (live_lifecycle i (show_progress i (give_feeds e4))) evaluate_risk_limits)"

definition handle_market_data :: "snapshot \<Rightarrow> datetime \<Rightarrow> 'u live \<Rightarrow> exn + 'u live" where
  "handle_market_data snap wall e =
     (let (t, e1) = clock_now e;
          e2 = ensure_feed (sn_symbol snap) (e1\<lparr>le_last_data := t, le_reconnects := 0\<rparr>)
      in bind_r (index_of_symbol (sn_symbol snap) e2) (receive snap wall e2))"

definition handle_fill :: "trade \<Rightarrow> 'u live \<Rightarrow> exn + 'u live" where
  "handle_fill t e = evaluate_risk_limits (e\<lparr>le_broker := record_live_fill t (le_broker e)\<rparr>)"

text \<open>\<open>dispatch\<close>: a callback that arrives while the gate is shut, or after destruction, does nothing.\<close>

definition dispatch :: "('u live \<Rightarrow> exn + 'u live) \<Rightarrow> 'u live \<Rightarrow> exn + 'u live" where
  "dispatch handler e = (if le_gate_active e \<and> le_gate_owner e then handler e else Inr e)"

subsection \<open>Start, stop and replacement\<close>

definition attach :: "'u live \<Rightarrow> 'u live" where
  "attach e = give_feeds (e\<lparr>le_base := set_broker True (le_base e)\<rparr>)"

definition launch_strategy :: "'u live \<Rightarrow> exn + 'u live" where
  "launch_strategy e =
     (let e1 = attach e;
          e2 = e1\<lparr>le_base := ensure_params_initialized (lc_default_params (le_class e1)) (le_base e1)\<rparr>
      in bind_r (run_hook (lc_init (le_class e2)) e2) (run_hook (lc_start (le_class e2))))"

definition live_start :: "'u live \<Rightarrow> exn + 'u live" where
  "live_start e =
     (if le_started e then Inr e
      else (let b1 = set_live_connector True (le_broker e);
                b2 = set_live_symbols (symbol_names e) b1;
                b3 = set_trade_notify True (set_order_notify True b2)
            in bind_r (launch_strategy (e\<lparr>le_broker := b3\<rparr>)) (\<lambda>e1.
               let e2 = subscribe_all (send ToConnect (send ToSetCallbacks (e1\<lparr>le_gate_active := True\<rparr>)));
                   (t, e3) = clock_now e2
               in Inr (e3\<lparr>le_last_data := t, le_started := True\<rparr>))))"

definition live_stop :: "'u live \<Rightarrow> exn + 'u live" where
  "live_stop e =
     (if \<not> le_started e then Inr e
      else bind_r (if lr_flatten_on_breach (le_limits e) then flatten_positions e else Inr e) (\<lambda>e1.
           bind_r (run_hook (lc_stop (le_class e1)) e1) (\<lambda>e2.
             Inr ((send ToDisconnect (send ToClearCallbacks e2))\<lparr>le_started := False, le_gate_active := False\<rparr>))))"

definition replace_strategy :: "('u live_class \<times> strategy \<times> 'u) option \<Rightarrow> 'u live \<Rightarrow> exn + 'u live" where
  "replace_strategy fresh e =
     (if \<not> le_started e then Inl (LogicError ''cannot reload strategy on a stopped engine'')
      else (case fresh of
          None \<Rightarrow> Inl (InvalidArgument ''replacement strategy must not be null'')
        | Some (cls, base, u) \<Rightarrow>
            bind_r (run_hook (lc_stop (le_class e)) e) (\<lambda>e1.
            bind_r (launch_strategy (e1\<lparr>le_class := cls, le_base := base, le_state := u, le_calls := []\<rparr>)) (\<lambda>e2.
              Inr (e2\<lparr>le_nextstart_fired := False\<rparr>)))))"

text \<open>The destructor stops the engine and shuts the gate for good.\<close>

definition live_destroy :: "'u live \<Rightarrow> exn + 'u live" where
  "live_destroy e = bind_r (live_stop e) (\<lambda>e'. Inr (e'\<lparr>le_gate_active := False, le_gate_owner := False\<rparr>))"

subsection \<open>Events\<close>

datatype 'u live_event =
  Start
| Stop
| Destroy
| Subscribe string
| Replace "('u live_class \<times> strategy \<times> 'u) option"
| MarketData snapshot datetime
| FillReport trade
| StateChange connector_state
| Heartbeat datetime
| Reconnect
| OwnerCall client_call
| OwnerCash real
| OwnerCommission commission_info
| OwnerStateCallback bool

fun live_handle :: "'u live_event \<Rightarrow> 'u live \<Rightarrow> exn + 'u live" where
  "live_handle Start e = live_start e"
| "live_handle Stop e = live_stop e"
| "live_handle Destroy e = live_destroy e"
| "live_handle (Subscribe symbol) e = Inr (subscribe symbol e)"
| "live_handle (Replace fresh) e = replace_strategy fresh e"
| "live_handle (MarketData snap wall) e = dispatch (handle_market_data snap wall) e"
| "live_handle (FillReport t) e = dispatch (handle_fill t) e"
| "live_handle (StateChange st) e = dispatch (handle_connector_state st) e"
| "live_handle (Heartbeat t) e = check_heartbeat t e"
| "live_handle Reconnect e = bind_r (try_reconnect e) (\<lambda>r. Inr (snd r))"
| "live_handle (OwnerCall c) e = broker_call c e"
| "live_handle (OwnerCash x) e = Inr (e\<lparr>le_broker := set_cash x (le_broker e)\<rparr>)"
| "live_handle (OwnerCommission info) e = Inr (e\<lparr>le_broker := set_commission info (le_broker e)\<rparr>)"
| "live_handle (OwnerStateCallback f) e = Inr (e\<lparr>le_has_state_callback := f\<rparr>)"

text \<open>The engines that a sequence of events leads to; an event whose handler throws ends the history.\<close>

inductive live_reach :: "'u live \<Rightarrow> 'u live \<Rightarrow> bool" where
  live_refl: "live_reach e e"
| live_event: "live_reach e e1 \<Longrightarrow> live_handle ev e1 = Inr e2 \<Longrightarrow> live_reach e e2"

end
