(* ===== verification/Live_Safety.thy ===== *)
theory Live_Safety
  imports Live_Engine
begin

text \<open>
  Safety of the live engine. The two locales are the interface between the engine's code and an
  invariant: \<open>order_routing\<close> asks that an invariant survive a change of the broker, a
  cancellation, the submission of an order and a strategy's own state, and gives it through
  every call a strategy makes; \<open>engine_invariant\<close> adds the kill switch, flattening and the fields
  the handlers write, and gives it through every event, hence on every reachable engine.
\<close>

subsection \<open>Loops and calls\<close>

locale order_routing =
  fixes I :: "'u live \<Rightarrow> bool"
  assumes broker: "I e \<Longrightarrow> I (e\<lparr>le_broker := b\<rparr>)"
    and cancel: "I e \<Longrightarrow> I (send (ToCancel oid) e)"
    and submit: "I e \<Longrightarrow> submit_live ord e = Inr e' \<Longrightarrow> I e'"
    and hook: "I e \<Longrightarrow> I (e\<lparr>le_base := base, le_state := u\<rparr>)"
    and base: "I e \<Longrightarrow> I (e\<lparr>le_base := base\<rparr>)"
begin

lemma relay_keeps: "relay submit_live ev e = Inr e' \<Longrightarrow> I e \<Longrightarrow> I e'"
  by (cases ev) (auto intro: submit cancel)

lemma broker_call_keeps: "broker_call c e = Inr e' \<Longrightarrow> I e \<Longrightarrow> I e'"
  by (auto simp: broker_call_def bind_r_Inr route_def intro: broker elim!: fold_r_invariant relay_keeps)

lemma run_act_keeps: "run_act p e = Inr e' \<Longrightarrow> I e \<Longrightarrow> I e'"
proof (induction p arbitrary: e)
  case (Ask c k)
  then obtain e1 where "broker_call c e = Inr e1" "run_act (k (le_broker e1)) e1 = Inr e'"
    by (auto simp: bind_r_Inr)
  then show ?case using Ask.IH [OF rangeI] Ask.prems(2) broker_call_keeps by blast
qed (auto intro: hook)

lemma run_hook_keeps: "run_hook h e = Inr e' \<Longrightarrow> I e \<Longrightarrow> I e'"
  by (simp add: run_hook_def run_act_keeps)

lemma give_feeds_keeps: "I e \<Longrightarrow> I (give_feeds e)"
  by (simp add: give_feeds_def base)

lemma launch_keeps: "launch_strategy e = Inr e' \<Longrightarrow> I e \<Longrightarrow> I e'"
  by (auto simp: launch_strategy_def attach_def Let_def bind_r_Inr intro!: base give_feeds_keeps
      elim!: run_hook_keeps)

end

text \<open>An invariant that does not look at the record of calls survives them all.\<close>

locale strategy_runs = order_routing +
  assumes calls: "I e \<Longrightarrow> I (e\<lparr>le_calls := cs\<rparr>)"
    and fired: "I e \<Longrightarrow> I (e\<lparr>le_nextstart_fired := f\<rparr>)"
    and swap: "I e \<Longrightarrow> I (e\<lparr>le_class := cls, le_base := base, le_state := u, le_calls := cs\<rparr>)"
begin

lemma lifecycle_keeps: "I e \<Longrightarrow> live_lifecycle i e = Inr e' \<Longrightarrow> I e'"
  by (auto simp: live_lifecycle_def record_live_call_def bind_r_Inr split: if_splits
      intro: calls fired elim!: run_hook_keeps)

lemma replace_keeps: "I e \<Longrightarrow> replace_strategy fresh e = Inr e' \<Longrightarrow> I e'"
  by (auto simp: replace_strategy_def bind_r_Inr split: if_splits option.splits
      intro!: fired swap elim!: run_hook_keeps launch_keeps)

end

text \<open>Flattening, for either way of submitting.\<close>

lemma flatten_keeps:
  assumes "flatten_with submit e = Inr e'" and "I e"
    and broker: "\<And>e b. I e \<Longrightarrow> I (e\<lparr>le_broker := b\<rparr>)"
    and cancel: "\<And>e oid. I e \<Longrightarrow> I (send (ToCancel oid) e)"
    and flag: "\<And>e f. I e \<Longrightarrow> I (e\<lparr>le_flattening := f\<rparr>)"
    and submit: "\<And>ord e e'. I e \<Longrightarrow> submit ord e = Inr e' \<Longrightarrow> I e'"
  shows "I e'"
proof -
  have relay: "relay submit ev e = Inr e' \<Longrightarrow> I e \<Longrightarrow> I e'" for ev e e'
    by (cases ev) (auto intro: submit cancel)
  have one: "flatten_one submit di e = Inr e' \<Longrightarrow> I e \<Longrightarrow> I e'" for di e e'
    by (auto simp: flatten_one_def bind_r_Inr route_def split: if_splits intro: broker elim!: fold_r_invariant relay)
  obtain e1 where e1: "fold_r (flatten_one submit) [0..<length (le_feeds e)] (e\<lparr>le_flattening := True\<rparr>) = Inr e1"
    and e': "e' = e1\<lparr>le_flattening := False\<rparr>"
    using assms(1) by (auto simp: flatten_with_def bind_r_Inr)
  have "I e1" by (rule fold_r_invariant [where P = I, OF e1]) (auto intro: flag assms(2) one)
  then show ?thesis unfolding e' by (rule flag)
qed

lemma flatten_ends: "flatten_with submit e = Inr e' \<Longrightarrow> \<not> le_flattening e'"
  by (auto simp: flatten_with_def bind_r_Inr)

text \<open>Once the kill switch has tripped, the two ways of submitting agree.\<close>

lemma submit_live_killed: "le_killed e \<Longrightarrow> submit_live ord e = submit_killed ord e"
  by (auto simp: submit_live_def check_order_rate_def submit_killed_def split: option.splits)

text \<open>What a submission can do to an engine that still runs.\<close>

lemma submit_live_cases:
  assumes "submit_live ord e = Inr e'"
  obtains (free) "lr_max_orders_per_second (le_limits e) = None" "e' = send (ToSubmit ord None) e"
  | (latched) most where "lr_max_orders_per_second (le_limits e) = Some most" "le_killed e"
      "e' = (if le_flattening e then send (ToSubmit ord None) e else e)"
  | (tripped) most t where "lr_max_orders_per_second (le_limits e) = Some most" "\<not> le_killed e"
      "t = le_clock e (le_tick e)" "most \<le> length (purge t (le_stamps e))"
      "trigger_kill_switch ''order rate limit exceeded''
         (e\<lparr>le_tick := le_tick e + 1, le_stamps := purge t (le_stamps e)\<rparr>) = Inr e'"
  | (sent) most t where "lr_max_orders_per_second (le_limits e) = Some most" "\<not> le_killed e"
      "t = le_clock e (le_tick e)" "length (purge t (le_stamps e)) < most"
      "e' = send (ToSubmit ord (Some t))
         (e\<lparr>le_tick := le_tick e + 1, le_stamps := purge t (le_stamps e) @ [t]\<rparr>)"
proof (cases "lr_max_orders_per_second (le_limits e)")
  case None
  then show ?thesis using assms free by (simp add: submit_live_def check_order_rate_def)
next
  case (Some most)
  show ?thesis
  proof (cases "le_killed e")
    case True
    then show ?thesis using assms Some latched by (auto simp: submit_live_def check_order_rate_def)
  next
    case False
    let ?t = "le_clock e (le_tick e)"
    show ?thesis
    proof (cases "most \<le> length (purge ?t (le_stamps e))")
      case True
      then have "trigger_kill_switch ''order rate limit exceeded''
         (e\<lparr>le_tick := le_tick e + 1, le_stamps := purge ?t (le_stamps e)\<rparr>) = Inr e'"
        using assms Some False by (auto simp: submit_live_def check_order_rate_def clock_now_def bind_r_Inr)
      then show ?thesis using Some False True tripped by blast
    next
      case small: False
      then have "e' = send (ToSubmit ord (Some ?t))
         (e\<lparr>le_tick := le_tick e + 1, le_stamps := purge ?t (le_stamps e) @ [?t]\<rparr>)"
        using assms Some False by (simp add: submit_live_def check_order_rate_def clock_now_def)
      then show ?thesis using Some False small sent by (meson not_le)
    qed
  qed
qed

subsection \<open>Every event\<close>

locale engine_invariant = order_routing +
  assumes trigger: "I e \<Longrightarrow> trigger_kill_switch reason e = Inr e' \<Longrightarrow> I e'"
    and lifecycle: "I e \<Longrightarrow> live_lifecycle i e = Inr e' \<Longrightarrow> I e'"
    and replace: "I e \<Longrightarrow> replace_strategy fresh e = Inr e' \<Longrightarrow> I e'"
    and talk: "c \<in> {ToConnect, ToDisconnect, ToSetCallbacks, ToClearCallbacks} \<union> range ToSubscribe
        \<Longrightarrow> I e \<Longrightarrow> I (send c e)"
    and peak: "I e \<Longrightarrow> I (e\<lparr>le_peak := v\<rparr>)"
    and feeds: "I e \<Longrightarrow> I (e\<lparr>le_feeds := fs\<rparr>)"
    and started: "I e \<Longrightarrow> I (e\<lparr>le_started := s\<rparr>)"
    and gate: "I e \<Longrightarrow> I (e\<lparr>le_gate_active := s\<rparr>)"
    and times: "I e \<Longrightarrow> I (e\<lparr>le_tick := le_tick e + 1, le_last_data := le_clock e (le_tick e)\<rparr>)"
    and attempts: "I e \<Longrightarrow> I (e\<lparr>le_reconnects := n\<rparr>)"
    and callback: "I e \<Longrightarrow> I (e\<lparr>le_has_state_callback := s\<rparr>)"
    and states: "I e \<Longrightarrow> I (e\<lparr>le_states := sts\<rparr>)"
begin

lemma subscribe_all_keeps: "I e \<Longrightarrow> I (subscribe_all e)"
proof -
  have "I e \<Longrightarrow> I (e\<lparr>le_out := le_out e @ map ToSubscribe ns\<rparr>)" for ns
  proof (induction ns rule: rev_induct)
    case (snoc n ns)
    then show ?case using talk [of "ToSubscribe n" "e\<lparr>le_out := le_out e @ map ToSubscribe ns\<rparr>"]
      by (simp add: send_def)
  qed simp
  then show "I e \<Longrightarrow> I (subscribe_all e)" by (simp add: subscribe_all_def)
qed

lemma refresh_keeps: "I e \<Longrightarrow> I (refresh_symbols e)"
  by (simp add: refresh_symbols_def broker)

lemma feed_keeps: "I e \<Longrightarrow> I (subscribe symbol e)" "I e \<Longrightarrow> I (ensure_feed symbol e)"
  by (auto simp: subscribe_def ensure_feed_def add_feed_def Let_def
      intro!: talk feeds refresh_keeps give_feeds_keeps)

lemma evaluate_keeps: "evaluate_risk_limits e = Inr e' \<Longrightarrow> I e \<Longrightarrow> I e'"
  by (auto simp: evaluate_risk_limits_def bind_r_Inr Let_def split: if_splits option.splits
      intro: peak elim!: trigger [rotated])

lemma reconnect_keeps: "try_reconnect e = Inr r \<Longrightarrow> I e \<Longrightarrow> I (snd r)"
  by (auto simp: try_reconnect_def bind_r_Inr split: if_splits
      intro!: subscribe_all_keeps talk attempts elim!: trigger [rotated])

lemma heartbeat_keeps: "check_heartbeat t e = Inr e' \<Longrightarrow> I e \<Longrightarrow> I e'"
  by (auto simp: check_heartbeat_def split: if_splits option.splits elim!: trigger [rotated])

lemma state_keeps: "handle_connector_state st e = Inr e' \<Longrightarrow> I e \<Longrightarrow> I e'"
proof -
  assume h: "handle_connector_state st e = Inr e'" and "I e"
  define e1 where "e1 = (if le_has_state_callback e then e\<lparr>le_states := le_states e @ [st]\<rparr> else e)"
  have "I e1" using states [OF \<open>I e\<close>] \<open>I e\<close> by (simp add: e1_def)
  then show "I e'"
    using h unfolding handle_connector_state_def e1_def [symmetric] Let_def
    by (auto simp: bind_r_Inr split: if_splits dest: reconnect_keeps elim!: trigger [rotated])
qed

lemma fill_keeps: "handle_fill t e = Inr e' \<Longrightarrow> I e \<Longrightarrow> I e'"
  by (auto simp: handle_fill_def intro: broker elim!: evaluate_keeps)

lemma market_keeps: "handle_market_data snap wall e = Inr e' \<Longrightarrow> I e \<Longrightarrow> I e'"
proof -
  assume h: "handle_market_data snap wall e = Inr e'" and "I e"
  define e2 where "e2 = ensure_feed (sn_symbol snap)
    (e\<lparr>le_tick := le_tick e + 1, le_last_data := le_clock e (le_tick e), le_reconnects := 0\<rparr>)"
  have "I e2" unfolding e2_def using attempts [OF times [OF \<open>I e\<close>], of 0] by (simp add: feed_keeps)
  moreover obtain i e5 where
    "live_lifecycle i (show_progress i (give_feeds
       ((push_feed i snap wall e2)\<lparr>le_broker := set_bar_index (lf_pushed (le_feeds (push_feed i snap wall e2) ! i) - 1)
          (le_broker (push_feed i snap wall e2))\<rparr>))) = Inr e5"
    "evaluate_risk_limits e5 = Inr e'"
    using h by (auto simp: handle_market_data_def receive_def clock_now_def Let_def bind_r_Inr e2_def)
  ultimately show "I e'"
    by (auto simp: show_progress_def push_feed_def intro!: base give_feeds_keeps broker feeds
        elim!: evaluate_keeps lifecycle [rotated])
qed

lemma start_keeps: "live_start e = Inr e' \<Longrightarrow> I e \<Longrightarrow> I e'"
proof -
  assume h: "live_start e = Inr e'" and "I e"
  show "I e'"
  proof (cases "le_started e")
    case False
    then obtain b e1 where e1: "launch_strategy (e\<lparr>le_broker := b\<rparr>) = Inr e1"
      and e': "e' = (let e2 = subscribe_all (send ToConnect (send ToSetCallbacks (e1\<lparr>le_gate_active := True\<rparr>)))
        in e2\<lparr>le_tick := le_tick e2 + 1, le_last_data := le_clock e2 (le_tick e2), le_started := True\<rparr>)"
      using h by (auto simp: live_start_def bind_r_Inr clock_now_def Let_def)
    have "I e1" using launch_keeps [OF e1] broker [OF \<open>I e\<close>] by blast
    then have "I (subscribe_all (send ToConnect (send ToSetCallbacks (e1\<lparr>le_gate_active := True\<rparr>))))"
      by (intro subscribe_all_keeps talk gate) auto
    from started [OF times [OF this], of True] show ?thesis unfolding e' Let_def by simp
  qed (use h \<open>I e\<close> in \<open>simp add: live_start_def\<close>)
qed

lemma quiet_handle_keeps:
  "live_handle ev e = Inr e' \<Longrightarrow> ev \<noteq> Stop \<Longrightarrow> ev \<noteq> Destroy \<Longrightarrow> I e \<Longrightarrow> I e'"
proof (cases ev)
  case Reconnect
  then show "live_handle ev e = Inr e' \<Longrightarrow> I e \<Longrightarrow> I e'"
    using reconnect_keeps by (auto simp: bind_r_Inr)
qed (auto simp: dispatch_def split: if_splits intro: feed_keeps broker callback
    elim!: start_keeps replace [rotated] market_keeps fill_keeps state_keeps heartbeat_keeps
      broker_call_keeps)

end

locale stop_invariant = engine_invariant +
  assumes flatten: "I e \<Longrightarrow> flatten_positions e = Inr e' \<Longrightarrow> I e'"
    and owner: "I e \<Longrightarrow> I (e\<lparr>le_gate_owner := s\<rparr>)"
begin

lemma stop_keeps: "live_stop e = Inr e' \<Longrightarrow> I e \<Longrightarrow> I e'"
proof -
  assume h: "live_stop e = Inr e'" and "I e"
  show "I e'"
  proof (cases "le_started e")
    case True
    then obtain e1 e2 where "(if lr_flatten_on_breach (le_limits e) then flatten_positions e else Inr e) = Inr e1"
      and e2: "run_hook (lc_stop (le_class e1)) e1 = Inr e2"
      and e': "e' = (send ToDisconnect (send ToClearCallbacks e2))\<lparr>le_started := False, le_gate_active := False\<rparr>"
      using h by (auto simp: live_stop_def bind_r_Inr)
    then have "I e1" using \<open>I e\<close> by (auto split: if_splits intro: flatten)
    then have "I e2" using run_hook_keeps [OF e2] by blast
    then show ?thesis using gate [OF started [of "send ToDisconnect (send ToClearCallbacks e2)" False], of False]
      unfolding e' by (simp add: talk)
  qed (use h \<open>I e\<close> in \<open>simp add: live_stop_def\<close>)
qed

lemma handle_keeps: "live_handle ev e = Inr e' \<Longrightarrow> I e \<Longrightarrow> I e'"
proof (cases "ev = Stop \<or> ev = Destroy")
  case True
  then show "live_handle ev e = Inr e' \<Longrightarrow> I e \<Longrightarrow> I e'"
    by (auto simp: live_destroy_def bind_r_Inr intro!: owner [OF gate, simplified] elim!: stop_keeps)
qed (auto intro: quiet_handle_keeps)

lemma reach_keeps: "live_reach e e' \<Longrightarrow> I e \<Longrightarrow> I e'"
  by (induction rule: live_reach.induct) (auto elim!: handle_keeps)

end

subsection \<open>The kill switch latches\<close>

definition latched :: "string \<Rightarrow> 'u live \<Rightarrow> bool" where
  "latched reason e \<longleftrightarrow> le_killed e \<and> le_reason e = reason"

lemma latched_simps [simp]:
  "latched r (e\<lparr>le_broker := b\<rparr>) = latched r e" "latched r (send c e) = latched r e"
  "latched r (e\<lparr>le_base := base\<rparr>) = latched r e" "latched r (e\<lparr>le_state := u\<rparr>) = latched r e"
  "latched r (e\<lparr>le_flattening := f\<rparr>) = latched r e" "latched r (e\<lparr>le_calls := cs\<rparr>) = latched r e"
  "latched r (e\<lparr>le_nextstart_fired := f\<rparr>) = latched r e" "latched r (e\<lparr>le_class := cls\<rparr>) = latched r e"
  "latched r (e\<lparr>le_peak := v\<rparr>) = latched r e" "latched r (e\<lparr>le_feeds := fs\<rparr>) = latched r e"
  "latched r (e\<lparr>le_started := f\<rparr>) = latched r e" "latched r (e\<lparr>le_gate_active := f\<rparr>) = latched r e"
  "latched r (e\<lparr>le_gate_owner := f\<rparr>) = latched r e" "latched r (e\<lparr>le_tick := n\<rparr>) = latched r e"
  "latched r (e\<lparr>le_last_data := t\<rparr>) = latched r e" "latched r (e\<lparr>le_reconnects := n\<rparr>) = latched r e"
  "latched r (e\<lparr>le_has_state_callback := f\<rparr>) = latched r e" "latched r (e\<lparr>le_states := sts\<rparr>) = latched r e"
  by (simp_all add: latched_def send_def)

lemma submit_killed_latched: "latched reason e \<Longrightarrow> submit_killed ord e = Inr e' \<Longrightarrow> latched reason e'"
  by (auto simp: submit_killed_def split: if_splits)

lemma submit_live_latched: "latched reason e \<Longrightarrow> submit_live ord e = Inr e' \<Longrightarrow> latched reason e'"
  using submit_killed_latched by (auto simp: submit_live_killed latched_def)

lemma flatten_latched:
  assumes "flatten_with submit e = Inr e'" and "latched reason e" and "submit = submit_killed \<or> submit = submit_live"
  shows "latched reason e'"
  by (rule flatten_keeps [where I = "latched reason", OF assms(1,2)])
     (use assms(3) in \<open>auto elim: submit_killed_latched submit_live_latched\<close>)

lemma trigger_latches: "trigger_kill_switch reason e = Inr e' \<Longrightarrow> le_killed e'"
  using flatten_latched [of submit_killed "e\<lparr>le_killed := True, le_reason := reason\<rparr>" e' reason]
  by (auto simp: trigger_kill_switch_def Let_def latched_def split: if_splits)

lemma trigger_latched: "latched reason e \<Longrightarrow> trigger_kill_switch why e = Inr e' \<Longrightarrow> latched reason e'"
  by (simp add: trigger_kill_switch_def latched_def)

interpretation latch_runs: strategy_runs "latched reason" for reason
  by unfold_locales (auto elim: submit_live_latched)

interpretation latch: stop_invariant "latched reason" for reason
  by unfold_locales
     (auto elim: latch_runs.lifecycle_keeps latch_runs.replace_keeps flatten_latched [OF _ _ disjI2 [OF refl]] trigger_latched
       simp: flatten_positions_def)

subsection \<open>No order after the kill switch but those of flattening\<close>

lemma send_simps [simp]:
  "le_killed (send c e) = le_killed e" "le_flattening (send c e) = le_flattening e"
  "le_limits (send c e) = le_limits e" "le_stamps (send c e) = le_stamps e"
  "le_clock (send c e) = le_clock e" "le_tick (send c e) = le_tick e"
  "le_calls (send c e) = le_calls e" "le_nextstart_fired (send c e) = le_nextstart_fired e"
  "le_out (send c e) = le_out e @ [c]"
  by (simp_all add: send_def)

lemma trigger_settled: "\<not> le_flattening e \<Longrightarrow> trigger_kill_switch reason e = Inr e' \<Longrightarrow> \<not> le_flattening e'"
  by (auto simp: trigger_kill_switch_def Let_def flatten_ends split: if_splits)

interpretation settled_runs: strategy_runs "\<lambda>e. \<not> le_flattening e"
  by unfold_locales (auto elim!: submit_live_cases dest: trigger_settled [rotated] split: if_splits)

interpretation settled: stop_invariant "\<lambda>e. \<not> le_flattening e"
  by unfold_locales
     (auto simp: flatten_positions_def dest: flatten_ends settled_runs.lifecycle_keeps settled_runs.replace_keeps trigger_settled)

fun is_submit :: "connector_call \<Rightarrow> bool" where
  "is_submit (ToSubmit ord stamp) = True"
| "is_submit _ = False"

definition orders_out :: "'u live \<Rightarrow> connector_call list" where
  "orders_out e = filter is_submit (le_out e)"

definition silenced :: "nat \<Rightarrow> connector_call list \<Rightarrow> 'u live \<Rightarrow> bool" where
  "silenced most sent e \<longleftrightarrow> le_killed e \<and> \<not> le_flattening e
     \<and> lr_max_orders_per_second (le_limits e) = Some most \<and> orders_out e = sent"

lemma submit_silenced:
  "submit_live ord e = Inr e' \<Longrightarrow> le_killed e \<Longrightarrow> \<not> le_flattening e
     \<Longrightarrow> lr_max_orders_per_second (le_limits e) = Some most \<Longrightarrow> e' = e"
  by (simp add: submit_live_killed submit_killed_def)

interpretation silenced_runs: strategy_runs "silenced most sent" for most sent
  by unfold_locales (auto dest: submit_silenced simp: silenced_def orders_out_def)

interpretation silenced: engine_invariant "silenced most sent" for most sent
  by unfold_locales
     (auto dest: silenced_runs.lifecycle_keeps silenced_runs.replace_keeps simp: trigger_kill_switch_def,
      auto simp: silenced_def orders_out_def trigger_kill_switch_def)

text \<open>
  C21. The kill switch latches: in every engine reached from a new one, once it has tripped it stays
  tripped for its first reason, and, where an order rate is set, no event but stopping
  (or destroying) the engine sends another order to the connector, whatever the strategy does.
\<close>

theorem kill_switch_latches:
  assumes "new_live True strat limits clock = Inr e0" and "live_reach e0 e" and "le_killed e"
  shows "(\<forall>e'. live_reach e e' \<longrightarrow> le_killed e' \<and> le_reason e' = le_reason e)
    \<and> (\<forall>most ev e'. lr_max_orders_per_second (le_limits e) = Some most \<and> ev \<noteq> Stop \<and> ev \<noteq> Destroy
         \<and> live_handle ev e = Inr e' \<longrightarrow> orders_out e' = orders_out e)"
proof (intro conjI allI impI)
  show "le_killed e'" "le_reason e' = le_reason e" if "live_reach e e'" for e'
    using latch.reach_keeps [OF that, of "le_reason e"] assms(3) by (auto simp: latched_def)
next
  fix most ev e'
  assume ev: "lr_max_orders_per_second (le_limits e) = Some most \<and> ev \<noteq> Stop \<and> ev \<noteq> Destroy
    \<and> live_handle ev e = Inr e'"
  have "\<not> le_flattening e0"
    using assms(1) by (auto simp: new_live_def split: option.splits if_splits)
  then have "\<not> le_flattening e" by (rule settled.reach_keeps [OF assms(2)])
  then have "silenced most (orders_out e) e" using assms(3) ev by (simp add: silenced_def)
  then have "silenced most (orders_out e) e'" using silenced.quiet_handle_keeps ev by blast
  then show "orders_out e' = orders_out e" by (simp add: silenced_def)
qed

subsection \<open>The order rate\<close>

fun stamp_of :: "connector_call \<Rightarrow> datetime list" where
  "stamp_of (ToSubmit ord (Some t)) = [t]"
| "stamp_of _ = []"

definition stamps_of :: "connector_call list \<Rightarrow> datetime list" where
  "stamps_of out = concat (map stamp_of out)"

lemma stamps_of_snoc [simp]: "stamps_of [] = []" "stamps_of (out @ [c]) = stamps_of out @ stamp_of c"
  by (simp_all add: stamps_of_def)

definition unstamped :: "'u live \<Rightarrow> bool" where
  "unstamped e \<longleftrightarrow> (\<exists>ord. ToSubmit ord None \<in> set (le_out e))"

lemma unstamped_simps [simp]:
  "unstamped (send c e) = ((\<exists>ord. c = ToSubmit ord None) \<or> unstamped e)"
  by (auto simp: unstamped_def)

lemma unstamped_cong: "le_out e' = le_out e \<Longrightarrow> unstamped e' = unstamped e"
  by (simp add: unstamped_def)

text \<open>
  The queue of stamps is the tail of the stamps sent; what has left it is more than a second older
  than some later reading of the clock.
\<close>

definition spaced :: "nat \<Rightarrow> datetime list \<Rightarrow> bool" where
  "spaced most ts \<longleftrightarrow> (\<forall>i. i + most < length ts \<longrightarrow> ticks_per_sec < ts ! (i + most) - ts ! i)"

definition rate_ok :: "nat \<Rightarrow> (nat \<Rightarrow> datetime) \<Rightarrow> 'u live \<Rightarrow> bool" where
  "rate_ok most clock e \<longleftrightarrow> lr_max_orders_per_second (le_limits e) = Some most \<and> le_clock e = clock
     \<and> (\<exists>old. stamps_of (le_out e) = old @ le_stamps e
            \<and> (\<forall>s \<in> set old. \<exists>k < le_tick e. ticks_per_sec < clock k - s))
     \<and> spaced most (stamps_of (le_out e)) \<and> (unstamped e \<longrightarrow> le_killed e)"

lemma rate_ok_simps [simp]:
  "rate_ok m c (e\<lparr>le_broker := b\<rparr>) = rate_ok m c e" "rate_ok m c (e\<lparr>le_base := base\<rparr>) = rate_ok m c e"
  "rate_ok m c (e\<lparr>le_state := u\<rparr>) = rate_ok m c e" "rate_ok m c (e\<lparr>le_flattening := f\<rparr>) = rate_ok m c e"
  "rate_ok m c (e\<lparr>le_calls := cs\<rparr>) = rate_ok m c e" "rate_ok m c (e\<lparr>le_nextstart_fired := f\<rparr>) = rate_ok m c e"
  "rate_ok m c (e\<lparr>le_class := cls\<rparr>) = rate_ok m c e" "rate_ok m c (e\<lparr>le_peak := v\<rparr>) = rate_ok m c e"
  "rate_ok m c (e\<lparr>le_feeds := fs\<rparr>) = rate_ok m c e" "rate_ok m c (e\<lparr>le_started := f\<rparr>) = rate_ok m c e"
  "rate_ok m c (e\<lparr>le_gate_active := f\<rparr>) = rate_ok m c e" "rate_ok m c (e\<lparr>le_gate_owner := f\<rparr>) = rate_ok m c e"
  "rate_ok m c (e\<lparr>le_last_data := t\<rparr>) = rate_ok m c e" "rate_ok m c (e\<lparr>le_reconnects := n\<rparr>) = rate_ok m c e"
  "rate_ok m c (e\<lparr>le_has_state_callback := f\<rparr>) = rate_ok m c e" "rate_ok m c (e\<lparr>le_states := sts\<rparr>) = rate_ok m c e"
  by (simp_all add: rate_ok_def unstamped_def)

lemma rate_ok_talk: "stamp_of c = [] \<Longrightarrow> \<not> is_submit c \<or> le_killed e \<Longrightarrow> rate_ok m clock e \<Longrightarrow> rate_ok m clock (send c e)"
  by (auto simp: rate_ok_def)

lemma one_later: "\<exists>k<n. P k \<Longrightarrow> \<exists>k<Suc n. P k"
  using less_SucI by blast

lemma rate_ok_tick: "rate_ok m clock e \<Longrightarrow> rate_ok m clock (e\<lparr>le_tick := Suc (le_tick e)\<rparr>)"
  unfolding rate_ok_def unstamped_def by (auto intro!: one_later)

lemma rate_ok_kill: "rate_ok m clock e \<Longrightarrow> rate_ok m clock (e\<lparr>le_killed := True, le_reason := r\<rparr>)"
  by (simp add: rate_ok_def)

lemma purge_split: "\<exists>gone. ts = gone @ purge t ts \<and> (\<forall>s \<in> set gone. ticks_per_sec < t - s)"
  unfolding purge_def
  by (rule exI [of _ "takeWhile (\<lambda>s. ticks_per_sec < t - s) ts"]) (auto dest: set_takeWhileD)

lemma rate_ok_purge:
  assumes "rate_ok m clock e" and t: "t = le_clock e (le_tick e)"
  shows "rate_ok m clock (e\<lparr>le_tick := le_tick e + 1, le_stamps := purge t (le_stamps e)\<rparr>)"
proof -
  obtain old where old: "stamps_of (le_out e) = old @ le_stamps e"
    "\<forall>s \<in> set old. \<exists>k < le_tick e. ticks_per_sec < clock k - s"
    using assms(1) by (auto simp: rate_ok_def)
  obtain gone where gone: "le_stamps e = gone @ purge t (le_stamps e)" "\<forall>s \<in> set gone. ticks_per_sec < t - s"
    using purge_split by blast
  have "t = clock (le_tick e)" using assms by (simp add: rate_ok_def)
  then have "\<forall>s \<in> set gone. \<exists>k < Suc (le_tick e). ticks_per_sec < clock k - s"
    using gone(2) lessI by blast
  then have "\<forall>s \<in> set (old @ gone). \<exists>k < Suc (le_tick e). ticks_per_sec < clock k - s"
    using old(2) by (auto intro: one_later)
  moreover have "stamps_of (le_out e) = (old @ gone) @ purge t (le_stamps e)" using old(1) gone(1) by simp
  ultimately have "\<exists>old. stamps_of (le_out e) = old @ purge t (le_stamps e)
      \<and> (\<forall>s \<in> set old. \<exists>k < Suc (le_tick e). ticks_per_sec < clock k - s)"
    by blast
  then show ?thesis using assms(1) by (simp add: rate_ok_def unstamped_def)
qed

text \<open>One more stamp: the one a window before it has left the queue.\<close>

lemma rate_ok_push:
  assumes ok: "rate_ok m clock e" and "mono clock" and t: "t = clock (le_tick e - 1)" "0 < le_tick e"
    and room: "length (le_stamps e) < m"
  shows "rate_ok m clock (send (ToSubmit ord (Some t)) (e\<lparr>le_stamps := le_stamps e @ [t]\<rparr>))"
proof -
  obtain old where old: "stamps_of (le_out e) = old @ le_stamps e"
    "\<forall>s \<in> set old. \<exists>k < le_tick e. ticks_per_sec < clock k - s"
    using ok by (auto simp: rate_ok_def)
  let ?ts = "stamps_of (le_out e)"
  have late: "ticks_per_sec < t - s" if "s \<in> set old" for s
  proof -
    from old(2) that obtain k where k: "k < le_tick e" "ticks_per_sec < clock k - s" by blast
    then have "clock k \<le> t" unfolding t(1) by (intro monoD [OF assms(2)]) simp
    then show ?thesis using k(2) by linarith
  qed
  have "spaced m (?ts @ [t])"
    unfolding spaced_def
  proof (intro allI impI)
    fix i assume i: "i + m < length (?ts @ [t])"
    show "ticks_per_sec < (?ts @ [t]) ! (i + m) - (?ts @ [t]) ! i"
    proof (cases "i + m < length ?ts")
      case True
      then show ?thesis using ok by (simp add: rate_ok_def spaced_def nth_append)
    next
      case False
      then have eq: "i + m = length ?ts" using i by simp
      then have "i < length old" using room old(1) by simp
      then have "(?ts @ [t]) ! i \<in> set old" using old(1) by (simp add: nth_append)
      then show ?thesis using late eq by (simp add: nth_append)
    qed
  qed
  then show ?thesis using ok old by (auto simp: rate_ok_def unstamped_def)
qed

lemma flatten_rate_ok:
  assumes "flatten_with submit_killed e = Inr e'" and "rate_ok m clock e" and "le_killed e"
  shows "rate_ok m clock e'"
proof -
  have "rate_ok m clock e' \<and> le_killed e'"
    by (rule flatten_keeps [where I = "\<lambda>e. rate_ok m clock e \<and> le_killed e", OF assms(1)])
       (use assms(2,3) in \<open>auto simp: submit_killed_def split: if_splits intro: rate_ok_talk\<close>)
  then show ?thesis ..
qed

lemma trigger_rate_ok:
  "rate_ok m clock e \<Longrightarrow> trigger_kill_switch reason e = Inr e' \<Longrightarrow> rate_ok m clock e'"
  using rate_ok_kill [of m clock e reason]
  by (auto simp: trigger_kill_switch_def Let_def split: if_splits elim!: flatten_rate_ok)

lemma submit_rate_ok:
  assumes "rate_ok m clock e" and "mono clock" and "submit_live ord e = Inr e'"
  shows "rate_ok m clock e'"
  using assms(3)
proof (cases rule: submit_live_cases)
  case free
  then show ?thesis using assms(1) by (simp add: rate_ok_def)
next
  case (latched most)
  then show ?thesis using assms(1) by (auto intro: rate_ok_talk)
next
  case (tripped most t)
  then show ?thesis using trigger_rate_ok rate_ok_purge assms(1) by blast
next
  case (sent most t)
  let ?e = "e\<lparr>le_tick := le_tick e + 1, le_stamps := purge t (le_stamps e)\<rparr>"
  have "rate_ok m clock ?e" using rate_ok_purge assms(1) sent(3) by blast
  moreover have "t = clock (le_tick ?e - 1)" "length (le_stamps ?e) < m"
    using assms(1) sent by (simp_all add: rate_ok_def)
  ultimately have "rate_ok m clock (send (ToSubmit ord (Some t)) (?e\<lparr>le_stamps := le_stamps ?e @ [t]\<rparr>))"
    using assms(2) by (intro rate_ok_push) simp_all
  then show ?thesis using sent(5) by simp
qed

interpretation rate_runs: strategy_runs "\<lambda>e. mono clock \<and> rate_ok most clock e" for most clock
  by unfold_locales (auto intro: rate_ok_talk submit_rate_ok)

lemma flatten_rate:
  assumes "mono clock \<and> rate_ok most clock e" and "flatten_positions e = Inr e'"
  shows "mono clock \<and> rate_ok most clock e'"
  by (rule flatten_keeps [where I = "\<lambda>e. mono clock \<and> rate_ok most clock e", OF assms(2) [unfolded flatten_positions_def] assms(1)])
     (auto intro: rate_ok_talk submit_rate_ok)

interpretation rate: stop_invariant "\<lambda>e. mono clock \<and> rate_ok most clock e" for most clock
  by unfold_locales
     (auto intro: rate_ok_talk rate_ok_tick trigger_rate_ok dest: flatten_rate [OF conjI]
       rate_runs.lifecycle_keeps [OF conjI] rate_runs.replace_keeps [OF conjI])

text \<open>
  C20. The order rate: in every engine reached from a new one whose limit is \<open>most\<close> orders a
  second, under a clock that never goes back, the orders passed to the connector that the rate
  check stamped are more than a second apart from the \<open>most\<close>-th after them, so no window of
  a second holds more than \<open>most\<close>; an order passes without a stamp only once the kill
  switch has tripped.
\<close>

theorem order_rate_bounded:
  assumes "new_live True strat limits clock = Inr e0" and "live_reach e0 e" and "mono clock"
    and "lr_max_orders_per_second limits = Some most"
  shows "let ts = stamps_of (le_out e) in
    (\<forall>i. i + most < length ts \<longrightarrow> ticks_per_sec < ts ! (i + most) - ts ! i)
    \<and> (\<forall>ord. ToSubmit ord None \<in> set (le_out e) \<longrightarrow> le_killed e)"
proof -
  have "rate_ok most clock e0"
    using assms(1,4) by (auto simp: new_live_def rate_ok_def spaced_def unstamped_def split: option.splits)
  then have "rate_ok most clock e" using rate.reach_keeps [OF assms(2)] assms(3) by blast
  then show ?thesis by (auto simp: rate_ok_def spaced_def unstamped_def Let_def)
qed

subsection \<open>Risk limits\<close>

definition within_limits :: "'u live \<Rightarrow> bool" where
  "within_limits e \<longleftrightarrow> (\<exists>v. portfolio_value (views_of (feed_ptrs e)) (le_broker e) = Inr v \<and> v \<le> le_peak e
     \<and> (\<forall>most. lr_max_drawdown_percent (le_limits e) = Some most \<longrightarrow>
          le_peak e \<le> 0 \<or> (le_peak e - v) / le_peak e * 100 < most)
     \<and> (\<forall>most. lr_max_abs_position (le_limits e) = Some most \<longrightarrow>
          (\<forall>i < length (le_feeds e). \<bar>p_size (position_of i (le_broker e))\<bar> \<le> most)))"

lemma evaluate_outcome:
  assumes "evaluate_risk_limits e = Inr e'"
  shows "le_killed e' \<or> within_limits e'"
proof (cases "le_killed e")
  case False
  then obtain v where v: "portfolio_value (views_of (feed_ptrs e)) (le_broker e) = Inr v"
    and rest: "(let e1 = (if le_peak e < v then e\<lparr>le_peak := v\<rparr> else e)
        in if (case lr_max_drawdown_percent (le_limits e1) of
                 Some most \<Rightarrow> drawdown_breach most (le_peak e1) v | None \<Rightarrow> False)
           then trigger_kill_switch ''max drawdown breached'' e1
           else if (case lr_max_abs_position (le_limits e1) of
                 Some most \<Rightarrow> position_breach most e1 | None \<Rightarrow> False)
           then trigger_kill_switch ''max position breached'' e1
           else Inr e1) = Inr e'"
    using assms by (auto simp: evaluate_risk_limits_def bind_r_Inr)
  define e1 where "e1 = (if le_peak e < v then e\<lparr>le_peak := v\<rparr> else e)"
  have e1: "portfolio_value (views_of (feed_ptrs e1)) (le_broker e1) = Inr v" "v \<le> le_peak e1"
    using v by (auto simp: e1_def feed_ptrs_def)
  show ?thesis
  proof (cases "e' = e1")
    case True
    have "within_limits e'" if alive: "\<not> le_killed e'"
    proof -
      from alive have "\<not> (case lr_max_drawdown_percent (le_limits e1) of
                 Some most \<Rightarrow> drawdown_breach most (le_peak e1) v | None \<Rightarrow> False)"
        and "\<not> (case lr_max_abs_position (le_limits e1) of
                 Some most \<Rightarrow> position_breach most e1 | None \<Rightarrow> False)"
        using rest unfolding e1_def [symmetric] Let_def by (auto dest: trigger_latches split: if_splits)
      then show "within_limits e'"
        using e1 unfolding True within_limits_def
        by (auto simp: drawdown_breach_def position_breach_def list_ex_iff not_less not_le)
    qed
    then show ?thesis by blast
  next
    case False
    then show ?thesis
      using rest unfolding e1_def [symmetric] Let_def by (auto dest: trigger_latches split: if_splits)
  qed
qed (use assms in \<open>simp add: evaluate_risk_limits_def\<close>)

text \<open>
  C22. Risk limits are enforced: after market data and after a fill, a running engine is within its
  drawdown and position limits, measured on the portfolio it then has, or its kill switch has
  tripped; a stale heartbeat, a disconnection without automatic reconnection and one attempt
  too many trip it as well; between two bars of market data it never makes more attempts than
  allowed.
\<close>

theorem risk_limits_enforced:
  assumes "le_gate_active e" and "le_gate_owner e" and "le_started e"
  shows "(\<forall>snap wall e'. live_handle (MarketData snap wall) e = Inr e' \<longrightarrow> le_killed e' \<or> within_limits e')
    \<and> (\<forall>t e'. live_handle (FillReport t) e = Inr e' \<longrightarrow> le_killed e' \<or> within_limits e')
    \<and> (\<forall>t timeout e'. lr_heartbeat_timeout (le_limits e) = Some timeout \<and> live_handle (Heartbeat t) e = Inr e' \<longrightarrow>
         le_killed e' \<or> (t - le_last_data e) sdiv 1000000 < timeout)
    \<and> (\<forall>e'. \<not> lr_auto_reconnect (le_limits e) \<and> live_handle (StateChange Disconnected) e = Inr e' \<longrightarrow> le_killed e')
    \<and> (\<forall>e'. lr_auto_reconnect (le_limits e) \<and> live_handle Reconnect e = Inr e' \<longrightarrow>
         le_killed e' \<or> le_reconnects e' = le_reconnects e + 1 \<and> le_reconnects e' \<le> lr_max_reconnect_attempts (le_limits e))"
proof (intro conjI allI impI)
  fix snap wall e' assume "live_handle (MarketData snap wall) e = Inr e'"
  then show "le_killed e' \<or> within_limits e'"
    using assms evaluate_outcome by (auto simp: dispatch_def handle_market_data_def receive_def Let_def bind_r_Inr split_beta)
next
  fix t e' assume "live_handle (FillReport t) e = Inr e'"
  then show "le_killed e' \<or> within_limits e'"
    using assms evaluate_outcome by (auto simp: dispatch_def handle_fill_def)
next
  fix t timeout e'
  assume "lr_heartbeat_timeout (le_limits e) = Some timeout \<and> live_handle (Heartbeat t) e = Inr e'"
  then show "le_killed e' \<or> (t - le_last_data e) sdiv 1000000 < timeout"
    using assms(3) by (auto simp: check_heartbeat_def dest: trigger_latches split: if_splits)
next
  fix e' assume "\<not> lr_auto_reconnect (le_limits e) \<and> live_handle (StateChange Disconnected) e = Inr e'"
  then show "le_killed e'"
    using assms by (cases "le_killed e")
      (auto simp: dispatch_def handle_connector_state_def Let_def dest: trigger_latches split: if_splits)
next
  fix e' assume "lr_auto_reconnect (le_limits e) \<and> live_handle Reconnect e = Inr e'"
  then show "le_killed e' \<or> le_reconnects e' = le_reconnects e + 1 \<and> le_reconnects e' \<le> lr_max_reconnect_attempts (le_limits e)"
    using assms(3)
    by (auto simp: try_reconnect_def bind_r_Inr subscribe_all_def send_def dest: trigger_latches split: if_splits)
qed

subsection \<open>The lifecycle of a strategy\<close>

definition decisions :: "'u live \<Rightarrow> live_phase list" where
  "decisions e = filter (\<lambda>ph. ph \<noteq> LPrenext) (map lv_phase (le_calls e))"

definition traced :: "'u live \<Rightarrow> bool" where
  "traced e \<longleftrightarrow> (\<exists>n. decisions e = (if le_nextstart_fired e then LNextstart # replicate n LNext else []))
     \<and> (\<forall>c \<in> set (le_calls e). lv_phase c = LPrenext \<longleftrightarrow> lv_feed c \<noteq> 0 \<or> \<not> live_ready (lv_delivered c) (lv_base c))"

definition same_trace :: "live_call list \<Rightarrow> bool \<Rightarrow> 'u live \<Rightarrow> bool" where
  "same_trace cs f e \<longleftrightarrow> le_calls e = cs \<and> le_nextstart_fired e = f"

lemma same_trace_simps [simp]:
  "same_trace cs f (e\<lparr>le_broker := b\<rparr>) = same_trace cs f e" "same_trace cs f (send c e) = same_trace cs f e"
  "same_trace cs f (e\<lparr>le_base := base\<rparr>) = same_trace cs f e" "same_trace cs f (e\<lparr>le_state := u\<rparr>) = same_trace cs f e"
  "same_trace cs f (e\<lparr>le_flattening := b'\<rparr>) = same_trace cs f e" "same_trace cs f (e\<lparr>le_killed := b'\<rparr>) = same_trace cs f e"
  "same_trace cs f (e\<lparr>le_reason := r\<rparr>) = same_trace cs f e" "same_trace cs f (e\<lparr>le_stamps := ts\<rparr>) = same_trace cs f e"
  "same_trace cs f (e\<lparr>le_tick := n\<rparr>) = same_trace cs f e"
  by (simp_all add: same_trace_def)

lemma trigger_trace: "trigger_kill_switch reason e = Inr e' \<Longrightarrow> same_trace cs f e \<Longrightarrow> same_trace cs f e'"
  by (auto simp: trigger_kill_switch_def Let_def submit_killed_def split: if_splits
      elim!: flatten_keeps [where I = "same_trace cs f"])

lemma submit_trace: "submit_live ord e = Inr e' \<Longrightarrow> same_trace cs f e \<Longrightarrow> same_trace cs f e'"
  by (erule submit_live_cases) (auto elim!: trigger_trace)

lemma flatten_trace: "flatten_positions e = Inr e' \<Longrightarrow> same_trace cs f e \<Longrightarrow> same_trace cs f e'"
  unfolding flatten_positions_def
  by (erule flatten_keeps [where I = "same_trace cs f"]) (auto elim: submit_trace)

interpretation trace_routing: order_routing "same_trace cs f" for cs f
  by unfold_locales (auto elim: submit_trace)

lemma traced_cong:
  "same_trace (le_calls e) (le_nextstart_fired e) e' \<Longrightarrow> traced e' = traced e"
  by (simp add: same_trace_def traced_def decisions_def)

lemma traced_hook: "run_hook h e = Inr e' \<Longrightarrow> traced e' = traced e \<and> le_calls e' = le_calls e
    \<and> le_nextstart_fired e' = le_nextstart_fired e"
  using trace_routing.run_hook_keeps [of h e e' "le_calls e" "le_nextstart_fired e"] traced_cong [of e e']
  by (auto simp: same_trace_def)

lemma traced_lifecycle: "traced e \<Longrightarrow> live_lifecycle i e = Inr e' \<Longrightarrow> traced e'"
proof (cases "i \<noteq> 0 \<or> \<not> live_ready (delivered e) (le_base e)")
  case True
  assume "traced e" and h: "live_lifecycle i e = Inr e'"
  have "run_hook (lc_prenext (le_class e)) (record_live_call LPrenext i e) = Inr e'"
    using h True by (auto simp: live_lifecycle_def)
  moreover have "traced (record_live_call LPrenext i e)"
    using \<open>traced e\<close> True by (auto simp: traced_def record_live_call_def decisions_def)
  ultimately show "traced e'" using traced_hook by blast
next
  case False
  assume "traced e" and h: "live_lifecycle i e = Inr e'"
  then obtain n where n: "decisions e = (if le_nextstart_fired e then LNextstart # replicate n LNext else [])"
    by (auto simp: traced_def)
  show "traced e'"
  proof (cases "le_nextstart_fired e")
    case True
    then have "run_hook (lc_next (le_class e)) (record_live_call LNext i e) = Inr e'"
      using h False by (auto simp: live_lifecycle_def)
    moreover have "decisions (record_live_call LNext i e) = LNextstart # replicate (Suc n) LNext"
      using n True by (simp add: decisions_def record_live_call_def replicate_append_same)
    then have "traced (record_live_call LNext i e)"
      using \<open>traced e\<close> True False unfolding traced_def
      by (auto simp: record_live_call_def intro!: exI [of _ "Suc n"])
    ultimately show ?thesis using traced_hook by blast
  next
    case fresh: False
    then obtain e1 where e1: "run_hook (lc_nextstart (le_class e)) (record_live_call LNextstart i e) = Inr e1"
      and e': "e' = e1\<lparr>le_nextstart_fired := True\<rparr>"
      using h False by (auto simp: live_lifecycle_def bind_r_Inr)
    have "le_calls e1 = le_calls (record_live_call LNextstart i e)" using traced_hook [OF e1] by simp
    then show ?thesis
      using \<open>traced e\<close> n fresh False unfolding e' traced_def
      by (auto simp: decisions_def record_live_call_def intro: exI [of _ 0])
  qed
qed

lemma traced_replace: "replace_strategy fresh e = Inr e' \<Longrightarrow> traced e'"
proof -
  assume h: "replace_strategy fresh e = Inr e'"
  then obtain cls base u e1 e2 where
    "launch_strategy (e1\<lparr>le_class := cls, le_base := base, le_state := u, le_calls := []\<rparr>) = Inr e2"
    and e': "e' = e2\<lparr>le_nextstart_fired := False\<rparr>"
    by (auto simp: replace_strategy_def bind_r_Inr split: if_splits option.splits)
  from this(1) have "same_trace [] (le_nextstart_fired e1) e2"
    by (rule trace_routing.launch_keeps) (simp add: same_trace_def)
  then show "traced e'" by (simp add: e' same_trace_def traced_def decisions_def)
qed

lemma traced_simps [simp]:
  "traced (e\<lparr>le_broker := b\<rparr>) = traced e" "traced (send c e) = traced e" "traced (e\<lparr>le_base := base\<rparr>) = traced e"
  "traced (e\<lparr>le_state := u\<rparr>) = traced e" "traced (e\<lparr>le_peak := v\<rparr>) = traced e" "traced (e\<lparr>le_feeds := fs\<rparr>) = traced e"
  "traced (e\<lparr>le_started := f\<rparr>) = traced e" "traced (e\<lparr>le_gate_active := f\<rparr>) = traced e"
  "traced (e\<lparr>le_gate_owner := f\<rparr>) = traced e" "traced (e\<lparr>le_tick := k\<rparr>) = traced e"
  "traced (e\<lparr>le_last_data := t\<rparr>) = traced e" "traced (e\<lparr>le_reconnects := k\<rparr>) = traced e"
  "traced (e\<lparr>le_has_state_callback := f\<rparr>) = traced e" "traced (e\<lparr>le_states := sts\<rparr>) = traced e"
  by (simp_all add: traced_def decisions_def)

lemma traced_step:
  "submit_live ord e = Inr e' \<Longrightarrow> traced e' = traced e" "trigger_kill_switch reason e = Inr e' \<Longrightarrow> traced e' = traced e"
  "flatten_positions e = Inr e' \<Longrightarrow> traced e' = traced e"
  using submit_trace trigger_trace flatten_trace traced_cong by (metis same_trace_def)+

interpretation traced: stop_invariant traced
  by unfold_locales (auto simp: traced_step dest: traced_lifecycle traced_replace)

text \<open>
  C23. The lifecycle of a live strategy: in every engine reached from a new one, the current strategy
  was asked for decisions by one \<open>nextstart\<close> followed by \<open>next\<close> calls only, \<open>nextstart_fired\<close> saying
  whether the first has happened, and a call is \<open>prenext\<close> exactly when it comes from a feed
  other than the first or when some feed has delivered fewer bars than its minimum period.
\<close>

theorem live_lifecycle_phases:
  assumes "new_live True strat limits clock = Inr e0" and "live_reach e0 e"
  shows "(\<exists>n. decisions e = (if le_nextstart_fired e then LNextstart # replicate n LNext else []))
     \<and> (\<forall>c \<in> set (le_calls e). lv_phase c = LPrenext \<longleftrightarrow>
          lv_feed c \<noteq> 0 \<or> (\<exists>i < length (lv_delivered c). lv_delivered c ! i < minimum_period i (lv_base c)))"
proof -
  have "traced e0"
    using assms(1) by (auto simp: new_live_def traced_def decisions_def split: option.splits)
  then have "traced e" by (rule traced.reach_keeps [OF assms(2)])
  then show ?thesis by (auto simp: traced_def live_ready_def list_all_iff not_le)
qed

subsection \<open>A run\<close>

definition live_run :: "'u live_event list \<Rightarrow> 'u live \<Rightarrow> exn + 'u live" where
  "live_run evs e = fold_r live_handle evs e"

lemma live_run_reach: "live_run evs e = Inr e' \<Longrightarrow> live_reach e e'"
  unfolding live_run_def
  by (rule fold_r_invariant [where P = "live_reach e"]) (auto intro: live_refl live_event)

text \<open>A strategy that buys one unit at every call; a clock with a fixed step.\<close>

definition eager :: "unit live_class" where
  "eager = (let buy_one = (\<lambda>feeds s u b. Ask (Place Buy 1 0 None Market 0) (\<lambda>b. Done s u));
                rest = (\<lambda>feeds s u b. Done s u)
            in \<lparr>lc_default_params = Map.empty, lc_init = rest, lc_start = rest, lc_prenext = buy_one,
                lc_nextstart = buy_one, lc_next = buy_one, lc_stop = rest\<rparr>)"

definition demo_clock :: "int \<Rightarrow> nat \<Rightarrow> datetime" where
  "demo_clock ms n = int n * ms * 1000000"

definition demo_data :: "unit live_event" where
  "demo_data = MarketData (empty_snapshot\<lparr>sn_symbol := ''A'', sn_last_price := 5\<rparr>) 0"

definition demo_start :: "int \<Rightarrow> risk_limits \<Rightarrow> unit live" where
  "demo_start ms limits =
     (case new_live True (Some (eager, new_strategy, ())) limits (demo_clock ms) of Inr e \<Rightarrow> e)"

definition demo_run :: "int \<Rightarrow> risk_limits \<Rightarrow> unit live_event list \<Rightarrow> exn + unit live" where
  "demo_run ms limits evs = live_run (Subscribe ''A'' # Start # evs) (demo_start ms limits)"

lemma demo_new: "new_live True (Some (eager, new_strategy, ())) limits (demo_clock ms) = Inr (demo_start ms limits)"
  by (simp add: demo_start_def new_live_def)

lemma demo_reach: "demo_run ms limits evs = Inr e \<Longrightarrow> live_reach (demo_start ms limits) e"
  unfolding demo_run_def by (rule live_run_reach)

lemma case_Inr: "(case r of Inl x \<Rightarrow> False | Inr y \<Rightarrow> P y) \<longleftrightarrow> (\<exists>y. r = Inr y \<and> P y)"
  by (cases r) auto

abbreviation one_a_second :: risk_limits where
  "one_a_second \<equiv> default_limits\<lparr>lr_max_orders_per_second := Some 1\<rparr>"

theorem order_rate_bounded_witness:
  "\<exists>e. demo_run 600 one_a_second [demo_data, demo_data] = Inr e \<and> length (stamps_of (le_out e)) = 2
     \<and> ticks_per_sec < stamps_of (le_out e) ! 1 - stamps_of (le_out e) ! 0"
proof -
  have "case demo_run 600 one_a_second [demo_data, demo_data] of Inl x \<Rightarrow> False
      | Inr e \<Rightarrow> length (stamps_of (le_out e)) = 2"
    by code_simp
  then obtain e where e: "demo_run 600 one_a_second [demo_data, demo_data] = Inr e" "length (stamps_of (le_out e)) = 2"
    unfolding case_Inr by blast
  have "mono (demo_clock 600)" by (simp add: mono_def demo_clock_def)
  then have "\<forall>i. i + 1 < length (stamps_of (le_out e)) \<longrightarrow>
      ticks_per_sec < stamps_of (le_out e) ! (i + 1) - stamps_of (le_out e) ! i"
    using order_rate_bounded [OF demo_new demo_reach [OF e(1)], of 1] by (simp add: Let_def)
  from this [rule_format, of 0] show ?thesis using e by auto
qed

theorem kill_switch_latches_witness:
  "\<exists>e e'. demo_run 100 one_a_second [demo_data, demo_data] = Inr e \<and> le_killed e
     \<and> live_handle demo_data e = Inr e' \<and> orders_out e' = orders_out e
     \<and> le_reason e' = ''order rate limit exceeded''"
proof -
  have "case demo_run 100 one_a_second [demo_data, demo_data] of Inl x \<Rightarrow> False
      | Inr e \<Rightarrow> le_killed e \<and> le_reason e = ''order rate limit exceeded'' \<and> lr_max_orders_per_second (le_limits e) = Some 1
          \<and> (case live_handle demo_data e of Inl x \<Rightarrow> False | Inr e' \<Rightarrow> True)"
    by code_simp
  then obtain e e' where e: "demo_run 100 one_a_second [demo_data, demo_data] = Inr e" "le_killed e"
    "le_reason e = ''order rate limit exceeded''" "lr_max_orders_per_second (le_limits e) = Some 1"
    "live_handle demo_data e = Inr e'"
    unfolding case_Inr by blast
  note k = kill_switch_latches [OF demo_new demo_reach [OF e(1)] e(2)]
  have "live_reach e e'" using live_event [OF live_refl e(5)] .
  then have "le_reason e' = le_reason e" using k by blast
  moreover have "orders_out e' = orders_out e"
    using k [THEN conjunct2, rule_format, of 1 demo_data e'] e(4,5) by (simp add: demo_data_def)
  ultimately show ?thesis using e by auto
qed

theorem risk_limits_enforced_witness:
  "\<exists>e e'. demo_run 100 (default_limits\<lparr>lr_max_abs_position := Some 0\<rparr>) [demo_data] = Inr e
     \<and> live_handle (FillReport ((report 1 5)\<lparr>t_id := 1\<rparr>)) e = Inr e' \<and> (le_killed e' \<or> within_limits e')"
proof -
  let ?l = "default_limits\<lparr>lr_max_abs_position := Some 0\<rparr>"
  have "case demo_run 100 ?l [demo_data] of Inl x \<Rightarrow> False
      | Inr e \<Rightarrow> le_gate_active e \<and> le_gate_owner e \<and> le_started e
          \<and> (case live_handle (FillReport ((report 1 5)\<lparr>t_id := 1\<rparr>)) e of Inl x \<Rightarrow> False | Inr e' \<Rightarrow> True)"
    by code_simp
  then obtain e e' where e: "demo_run 100 ?l [demo_data] = Inr e" "le_gate_active e" "le_gate_owner e" "le_started e"
    "live_handle (FillReport ((report 1 5)\<lparr>t_id := 1\<rparr>)) e = Inr e'"
    unfolding case_Inr by blast
  then show ?thesis using risk_limits_enforced [OF e(2-4)] by blast
qed

theorem live_lifecycle_phases_witness:
  "\<exists>e. demo_run 100 default_limits [demo_data, demo_data, demo_data] = Inr e
     \<and> decisions e = [LNextstart, LNext, LNext]
     \<and> \<not> (\<exists>c \<in> set (le_calls e). lv_phase c \<noteq> LPrenext \<and> lv_feed c \<noteq> 0)"
proof -
  have "case demo_run 100 default_limits [demo_data, demo_data, demo_data] of Inl x \<Rightarrow> False
      | Inr e \<Rightarrow> decisions e = [LNextstart, LNext, LNext]"
    by code_simp
  then obtain e where e: "demo_run 100 default_limits [demo_data, demo_data, demo_data] = Inr e"
    "decisions e = [LNextstart, LNext, LNext]"
    unfolding case_Inr by blast
  then show ?thesis using live_lifecycle_phases [OF demo_new demo_reach [OF e(1)]] by blast
qed

text \<open>
  Without an order rate the check passes every order, after the kill switch as before: the
  engine below was stopped by a stale heartbeat and still sends the next order of its strategy.
\<close>

lemma orders_after_kill:
  "case demo_run 100 (default_limits\<lparr>lr_heartbeat_timeout := Some 10\<rparr>) [Heartbeat 1000000000, demo_data] of
     Inl x \<Rightarrow> False | Inr e \<Rightarrow> le_killed e \<and> length (orders_out e) = 1"
  by code_simp

end
