(* ===== verification/Cerebro.thy ===== *)
theory Cerebro
  imports Strategy Resample
begin

text \<open>
  \<^verbatim>\<open>engine/cerebro.hpp\<close>: the multi-clock engine loop. The virtual functions of strategies,
  analyzers and observers are arguments (\<open>strategy_class\<close>, \<open>monitor\<close>): a hook of a strategy
  reads the feeds and may change the strategy, its own members and the broker. The vectors
  that run parallel to the feeds (cursor, bars delivered, advanced flag) are one \<open>slot\<close> per
  feed. \<open>preload\<close> of a feed leaves the columns of its bars (theorem \<open>mem_preload_columns\<close>).
  Every lifecycle call of a strategy is recorded with what the engine showed it (\<open>cl_calls\<close>),
  for the properties. A candidate collector is attached in theory \<open>Corrected\<close>; notifications are the
  events of the broker.
\<close>

subsection \<open>State\<close>

record source =
  src_feed :: nfeed
  src_bars :: "real bar list"

record slot =
  sl_data :: nfeed
  sl_cursor :: nat
  sl_delivered :: nat
  sl_flag :: bool

type_synonym ('u, 'b) hook = "nfeed list \<Rightarrow> strategy \<times> 'u \<times> 'b \<Rightarrow> exn + (strategy \<times> 'u \<times> 'b)"

record ('u, 'b) strategy_class =
  cls_default_params :: param_map
  cls_init :: "('u, 'b) hook"
  cls_start :: "('u, 'b) hook"
  cls_prenext :: "('u, 'b) hook"
  cls_nextstart :: "('u, 'b) hook"
  cls_next :: "('u, 'b) hook"
  cls_stop :: "('u, 'b) hook"

datatype phase = Prenext | Nextstart | Next

record call =
  ca_bar :: nat
  ca_phase :: phase
  ca_slots :: "slot list"
  ca_periods :: "nat list"

record ('u, 'b) cell =
  cl_class :: "('u, 'b) strategy_class"
  cl_base :: strategy
  cl_state :: 'u
  cl_entered :: bool
  cl_calls :: "call list"

record 'm monitor =
  mo_state :: 'm
  mo_start :: "'m \<Rightarrow> 'm"
  mo_next :: "broker \<Rightarrow> nfeed list \<Rightarrow> 'm \<Rightarrow> exn + 'm"
  mo_stop :: "'m \<Rightarrow> 'm"

record ('u, 'm) engine =
  en_sources :: "source list"
  en_cells :: "('u, broker) cell list"
  en_analyzers :: "'m monitor list"
  en_observers :: "'m monitor list"
  en_broker :: broker
  en_warmup_end_ms :: int
  en_final_delivered :: "nat list"

definition new_engine :: "('u, 'm) engine" where
  "new_engine = \<lparr>en_sources = [], en_cells = [], en_analyzers = [], en_observers = [],
     en_broker = new_broker USD 10000 None, en_warmup_end_ms = 0, en_final_delivered = []\<rparr>"

subsection \<open>Assembly\<close>

definition add_data :: "source \<Rightarrow> string \<Rightarrow> ('u, 'm) engine \<Rightarrow> ('u, 'm) engine" where
  "add_data src name e =
     (let src' = (if name = [] then src else src\<lparr>src_feed := (src_feed src)\<lparr>nf_name := name\<rparr>\<rparr>)
      in e\<lparr>en_sources := en_sources e @ [src']\<rparr>)"

definition new_cell :: "('u, 'b) strategy_class \<Rightarrow> 'u \<Rightarrow> ('u, 'b) cell" where
  "new_cell cls u = \<lparr>cl_class = cls, cl_base = new_strategy, cl_state = u, cl_entered = False, cl_calls = []\<rparr>"

definition add_strategy :: "('u, broker) cell \<Rightarrow> ('u, 'm) engine \<Rightarrow> ('u, 'm) engine" where
  "add_strategy c e = e\<lparr>en_cells := en_cells e @ [c]\<rparr>"

definition add_strategy_with_params ::
  "param_map \<Rightarrow> ('u, broker) strategy_class \<Rightarrow> 'u \<Rightarrow> ('u, 'm) engine \<Rightarrow> ('u, 'm) engine" where
  "add_strategy_with_params params cls u e =
     add_strategy ((new_cell cls u)\<lparr>cl_base := set_params (cls_default_params cls) params new_strategy\<rparr>) e"

definition add_analyzer :: "'m monitor \<Rightarrow> ('u, 'm) engine \<Rightarrow> ('u, 'm) engine" where
  "add_analyzer m e = e\<lparr>en_analyzers := en_analyzers e @ [m]\<rparr>"

definition add_observer :: "'m monitor \<Rightarrow> ('u, 'm) engine \<Rightarrow> ('u, 'm) engine" where
  "add_observer m e = e\<lparr>en_observers := en_observers e @ [m]\<rparr>"

definition engine_set_cash :: "real \<Rightarrow> ('u, 'm) engine \<Rightarrow> ('u, 'm) engine" where
  "engine_set_cash c e = e\<lparr>en_broker := set_cash c (en_broker e)\<rparr>"

definition engine_set_commission :: "commission_info \<Rightarrow> ('u, 'm) engine \<Rightarrow> ('u, 'm) engine" where
  "engine_set_commission info e = e\<lparr>en_broker := set_commission info (en_broker e)\<rparr>"

definition engine_set_slippage_perc ::
  "real \<Rightarrow> bool \<Rightarrow> bool \<Rightarrow> bool \<Rightarrow> bool \<Rightarrow> ('u, 'm) engine \<Rightarrow> ('u, 'm) engine" where
  "engine_set_slippage_perc perc so sl sm sx e =
     e\<lparr>en_broker := set_slippage_perc perc so sl sm sx (en_broker e)\<rparr>"

definition engine_set_slippage_fixed ::
  "real \<Rightarrow> bool \<Rightarrow> bool \<Rightarrow> bool \<Rightarrow> bool \<Rightarrow> ('u, 'm) engine \<Rightarrow> ('u, 'm) engine" where
  "engine_set_slippage_fixed fixed so sl sm sx e =
     e\<lparr>en_broker := set_slippage_fixed fixed so sl sm sx (en_broker e)\<rparr>"

subsection \<open>Alignment of the context feeds\<close>

definition preload_source :: "source \<Rightarrow> nfeed" where
  "preload_source src = (src_feed src)\<lparr>nf_feed := feed_of_bars (src_bars src)\<rparr>"

definition new_slot :: "nfeed \<Rightarrow> slot" where
  "new_slot f = \<lparr>sl_data = f, sl_cursor = 0, sl_delivered = 0, sl_flag = False\<rparr>"

definition advance_data :: "nfeed \<Rightarrow> nfeed" where
  "advance_data f = f\<lparr>nf_feed := feed_advance (nf_feed f)\<rparr>"

text \<open>One more context bar becomes visible; the first needs no advance.\<close>

definition deliver :: "slot \<Rightarrow> slot" where
  "deliver sl =
     sl\<lparr>sl_data := (if 0 < sl_delivered sl then advance_data (sl_data sl) else sl_data sl),
        sl_delivered := sl_delivered sl + 1, sl_flag := True, sl_cursor := sl_cursor sl + 1\<rparr>"

text \<open>The loop over the bars not yet delivered, given by their timestamps.\<close>

fun gate :: "datetime \<Rightarrow> datetime list \<Rightarrow> slot \<Rightarrow> exn + slot" where
  "gate exec_close [] sl = Inr sl"
| "gate exec_close (t # ts) sl =
     bind_r (period_end t (nf_tfc (sl_data sl))) (\<lambda>bar_period_end.
       if bar_period_end \<le> exec_close then gate exec_close ts (deliver sl) else Inr sl)"

definition gate_slot :: "datetime \<Rightarrow> slot \<Rightarrow> exn + slot" where
  "gate_slot exec_close sl =
     (let f = nf_feed (sl_data sl)
      in gate exec_close (drop (sl_cursor sl) (take (feed_size f) (ln_data (fd_datetime f)))) sl)"

definition bar_close :: "tfc \<Rightarrow> datetime \<Rightarrow> exn + datetime" where
  "bar_close tf open_time =
     (if tf_timeframe tf = Weeks \<or> tf_timeframe tf = Months then period_end open_time tf
      else bind_r (duration_of tf) (\<lambda>len. Inr (open_time + len * ticks_per_sec)))"

definition exec_close_of :: "nat \<Rightarrow> nfeed \<Rightarrow> exn + datetime" where
  "exec_close_of num_feeds f =
     bind_r (line_at (fd_datetime (nf_feed f)) 0) (\<lambda>open_time.
       if num_feeds = 1 then Inr open_time else bar_close (nf_tfc f) open_time)"

definition align :: "nat \<Rightarrow> slot list \<Rightarrow> exn + slot list" where
  "align bar slots =
     (case slots of
        [] \<Rightarrow> Inr []
      | m # cs \<Rightarrow>
          (let m' = m\<lparr>sl_flag := True, sl_delivered := bar + 1\<rparr>
           in if cs = [] then Inr [m']
              else bind_r (exec_close_of (length slots) (sl_data m)) (\<lambda>ec.
                     bind_r (map_r (\<lambda>sl. gate_slot ec (sl\<lparr>sl_flag := False\<rparr>)) cs) (\<lambda>cs'.
                       Inr (m' # cs')))))"

definition advance_master :: "slot list \<Rightarrow> slot list" where
  "advance_master slots =
     (case slots of [] \<Rightarrow> [] | m # cs \<Rightarrow> m\<lparr>sl_data := advance_data (sl_data m)\<rparr> # cs)"

subsection \<open>One bar\<close>

definition call_hook :: "('u, 'b) hook \<Rightarrow> nfeed list \<Rightarrow> ('u, 'b) cell \<Rightarrow> 'b \<Rightarrow> exn + (('u, 'b) cell \<times> 'b)" where
  "call_hook h feeds c b =
     bind_r (h feeds (cl_base c, cl_state c, b)) (\<lambda>(s, u, b'). Inr (c\<lparr>cl_base := s, cl_state := u\<rparr>, b'))"

definition all_ready :: "slot list \<Rightarrow> strategy \<Rightarrow> bool" where
  "all_ready slots s = (\<forall>k \<in> set [0..<length slots]. minimum_period k s \<le> sl_delivered (slots ! k))"

definition record_call :: "nat \<Rightarrow> phase \<Rightarrow> slot list \<Rightarrow> ('u, 'b) cell \<Rightarrow> ('u, 'b) cell" where
  "record_call bar ph slots c =
     c\<lparr>cl_calls := cl_calls c @ [\<lparr>ca_bar = bar, ca_phase = ph, ca_slots = slots,
         ca_periods = map (\<lambda>k. minimum_period k (cl_base c)) [0..<length slots]\<rparr>]\<rparr>"

text \<open>The timestamp of the first bar of \<open>next\<close>, in milliseconds (division towards zero).\<close>

definition warmup_stamp :: "nat \<Rightarrow> slot list \<Rightarrow> int \<Rightarrow> int" where
  "warmup_stamp bar slots w =
     (if w = 0 then
        (let dt = ln_data (fd_datetime (nf_feed (sl_data (hd slots))))
         in if bar < length dt then (dt ! bar) sdiv 1000000 else w)
      else w)"

definition lifecycle ::
  "nat \<Rightarrow> slot list \<Rightarrow> ('u, 'b) cell \<Rightarrow> 'b \<times> int \<Rightarrow> exn + (('u, 'b) cell \<times> ('b \<times> int))" where
  "lifecycle bar slots c st =
     (let (b, w) = st; feeds = map sl_data slots;
          run = (\<lambda>ph h c w. bind_r (call_hook h feeds (record_call bar ph slots c) b)
                              (\<lambda>(c', b'). Inr (c', (b', w))))
      in if cl_entered c then run Next (cls_next (cl_class c)) c w
         else if all_ready slots (cl_base c) then
           run Nextstart (cls_nextstart (cl_class c)) (c\<lparr>cl_entered := True\<rparr>) (warmup_stamp bar slots w)
         else run Prenext (cls_prenext (cl_class c)) c w)"

record ('u, 'm) run_state =
  rs_slots :: "slot list"
  rs_cells :: "('u, broker) cell list"
  rs_broker :: broker
  rs_warmup_ms :: int
  rs_analyzers :: "'m monitor list"
  rs_observers :: "'m monitor list"

definition propagate :: "slot list \<Rightarrow> ('u, 'b) cell \<Rightarrow> ('u, 'b) cell" where
  "propagate slots c =
     c\<lparr>cl_base := set_bars_delivered (map sl_delivered slots)
                    (set_feed_advanced (map sl_flag slots) (cl_base c))\<rparr>"

definition monitor_next :: "broker \<Rightarrow> nfeed list \<Rightarrow> 'm monitor \<Rightarrow> exn + 'm monitor" where
  "monitor_next b feeds m = bind_r (mo_next m b feeds (mo_state m)) (\<lambda>x. Inr (m\<lparr>mo_state := x\<rparr>))"

definition bar_step :: "nat \<Rightarrow> nat \<Rightarrow> ('u, 'm) run_state \<Rightarrow> exn + ('u, 'm) run_state" where
  "bar_step num_bars bar rs =
     (let b0 = set_bar_index bar (rs_broker rs)
      in bind_r (align bar (rs_slots rs)) (\<lambda>slots.
         let feeds = map sl_data slots;
             cells = map (propagate slots) (rs_cells rs);
             b1 = process_orders (views_of feeds) b0
         in bind_r (map_state_r (lifecycle bar slots) cells (b1, rs_warmup_ms rs)) (\<lambda>(cells', (b2, w)).
            bind_r (map_r (monitor_next b2 feeds) (rs_analyzers rs)) (\<lambda>ans.
            bind_r (map_r (monitor_next b2 feeds) (rs_observers rs)) (\<lambda>obs.
              Inr (\<lparr>rs_slots = (if bar + 1 < num_bars then advance_master slots else slots),
                    rs_cells = cells', rs_broker = b2, rs_warmup_ms = w,
                    rs_analyzers = ans, rs_observers = obs\<rparr>))))))"

subsection \<open>The run\<close>

record run_options =
  ro_runonce :: bool
  ro_preload :: bool

definition finer_message :: "nat \<Rightarrow> tfc \<Rightarrow> tfc \<Rightarrow> string" where
  "finer_message k exec_tf ctx_tf =
     ''Cerebro: context feed '' @ nat_to_string k @
     '' is finer than feed 0 (execution); the execution feed must be the finest or equal. Got feed 0 = '' @
     interval_to_string exec_tf @ '', feed '' @ nat_to_string k @ '' = '' @ interval_to_string ctx_tf"

definition finer_context :: "nfeed list \<Rightarrow> nat option" where
  "finer_context feeds =
     find (\<lambda>k. finer_than (nf_tfc (feeds ! k)) (nf_tfc (feeds ! 0))) [1..<length feeds]"

definition warmup_message :: "nat \<Rightarrow> tfc \<Rightarrow> nat \<Rightarrow> nat \<Rightarrow> string" where
  "warmup_message k tf available required =
     ''Cerebro: feed '' @ nat_to_string k @ '' (interval '' @
     (if interval_to_string tf = [] then ''unknown'' else interval_to_string tf) @ '') has '' @
     nat_to_string available @ '' bars but warmup requires '' @ nat_to_string required"

definition warmup_short :: "nfeed list \<Rightarrow> strategy \<Rightarrow> nat option" where
  "warmup_short feeds s =
     find (\<lambda>k. feed_size (nf_feed (feeds ! k)) < minimum_period k s) [0..<length feeds]"

fun check_warmup_feasibility :: "nfeed list \<Rightarrow> ('u, 'b) cell list \<Rightarrow> exn + unit" where
  "check_warmup_feasibility feeds [] = Inr ()"
| "check_warmup_feasibility feeds (c # cs) =
     (case warmup_short feeds (cl_base c) of
        Some k \<Rightarrow> Inl (InvalidArgument (warmup_message k (nf_tfc (feeds ! k))
                   (feed_size (nf_feed (feeds ! k))) (minimum_period k (cl_base c))))
      | None \<Rightarrow> check_warmup_feasibility feeds cs)"

definition init_cell :: "nfeed list \<Rightarrow> ('u, 'b) cell \<Rightarrow> 'b \<Rightarrow> exn + (('u, 'b) cell \<times> 'b)" where
  "init_cell feeds c b =
     (let s0 = set_data_feeds [0..<length feeds] feeds (set_broker True (cl_base c));
          c0 = c\<lparr>cl_base := ensure_params_initialized (cls_default_params (cl_class c)) s0,
                 cl_entered := False\<rparr>
      in bind_r (call_hook (cls_init (cl_class c)) feeds c0 b) (\<lambda>(c1, b1).
           call_hook (cls_start (cl_class c)) feeds c1 b1))"

definition prepare :: "nfeed list \<Rightarrow> ('u, 'm) engine \<Rightarrow> exn + ('u, 'm) run_state" where
  "prepare feeds e =
     (let b0 = set_trade_notify True (set_order_notify True (en_broker e))
      in bind_r (map_state_r (init_cell feeds) (en_cells e) b0) (\<lambda>(cells, b).
         bind_r (check_warmup_feasibility feeds cells) (\<lambda>_.
           Inr (\<lparr>rs_slots = map new_slot feeds, rs_cells = cells, rs_broker = b,
                 rs_warmup_ms = en_warmup_end_ms e,
                 rs_analyzers = map (\<lambda>m. m\<lparr>mo_state := mo_start m (mo_state m)\<rparr>) (en_analyzers e),
                 rs_observers = map (\<lambda>m. m\<lparr>mo_state := mo_start m (mo_state m)\<rparr>) (en_observers e)\<rparr>))))"

definition finish :: "('u, 'm) run_state \<Rightarrow> ('u, 'm) engine \<Rightarrow> exn + ('u, 'm) engine" where
  "finish rs e =
     bind_r (map_state_r (\<lambda>c b. call_hook (cls_stop (cl_class c)) (map sl_data (rs_slots rs)) c b)
               (rs_cells rs) (rs_broker rs)) (\<lambda>(cells, b).
       Inr (e\<lparr>en_cells := cells, en_broker := b, en_warmup_end_ms := rs_warmup_ms rs,
              en_final_delivered := map sl_delivered (rs_slots rs),
              en_analyzers := map (\<lambda>m. m\<lparr>mo_state := mo_stop m (mo_state m)\<rparr>) (rs_analyzers rs),
              en_observers := map (\<lambda>m. m\<lparr>mo_state := mo_stop m (mo_state m)\<rparr>) (rs_observers rs)\<rparr>))"

definition cerebro_run :: "run_options \<Rightarrow> ('u, 'm) engine \<Rightarrow> exn + ('u, 'm) engine" where
  "cerebro_run opts e =
     (let feeds = map preload_source (en_sources e)
      in if en_sources e = [] then Inr e
         else if \<not> ro_preload opts then
           Inl (InvalidArgument ''Cerebro currently requires preload=true; streaming execution is not implemented'')
         else if feed_size (nf_feed (feeds ! 0)) = 0 then Inr e
         else (case finer_context feeds of
                 Some k \<Rightarrow> Inl (InvalidArgument (finer_message k (nf_tfc (feeds ! 0)) (nf_tfc (feeds ! k))))
               | None \<Rightarrow>
                   bind_r (prepare feeds e) (\<lambda>rs.
                   bind_r (fold_r (bar_step (feed_size (nf_feed (feeds ! 0))))
                             [0..<feed_size (nf_feed (feeds ! 0))] rs) (\<lambda>rs'.
                     finish rs' e))))"

subsection \<open>No lookahead\<close>

text \<open>The clock of a run: the slots at each bar, which no hook can change.\<close>

fun clock_at :: "nfeed list \<Rightarrow> nat \<Rightarrow> exn + slot list" where
  "clock_at feeds 0 = align 0 (map new_slot feeds)"
| "clock_at feeds (Suc b) = bind_r (clock_at feeds b) (\<lambda>slots. align (Suc b) (advance_master slots))"

definition closed_by :: "datetime \<Rightarrow> tfc \<Rightarrow> datetime \<Rightarrow> bool" where
  "closed_by ec tf t = (case period_end t tf of Inr e \<Rightarrow> e \<le> ec | Inl _ \<Rightarrow> False)"

text \<open>A context slot between bars: d bars delivered, the cursor at the last of them.\<close>

definition slot_at :: "source \<Rightarrow> nat \<Rightarrow> bool \<Rightarrow> slot" where
  "slot_at src d fl =
     \<lparr>sl_data = (src_feed src)\<lparr>nf_feed := advanced (d - 1) (src_bars src)\<rparr>,
      sl_cursor = d, sl_delivered = d, sl_flag = fl\<rparr>"

abbreviation src_times :: "source \<Rightarrow> datetime list" where
  "src_times src \<equiv> map bar_timestamp (src_bars src)"

lemma new_slot_at: "new_slot (preload_source src) = slot_at src 0 False"
  by (simp add: new_slot_def preload_source_def slot_at_def advanced_def)

lemma deliver_slot_at: "deliver (slot_at src d fl) = slot_at src (Suc d) True"
  by (cases d) (simp_all add: deliver_def slot_at_def advance_data_def advanced_def)

lemma gate_slot_at:
  assumes "valid_tfc (nf_tfc (src_feed src))"
  shows "gate ec ts (slot_at src d fl) =
     Inr (let n = length (takeWhile (closed_by ec (nf_tfc (src_feed src))) ts)
          in slot_at src (d + n) (fl \<or> 0 < n))"
proof (induction ts arbitrary: d fl)
  case Nil
  then show ?case by simp
next
  case (Cons t ts)
  obtain e where e: "period_end t (nf_tfc (src_feed src)) = Inr e"
    using period_end_total [OF assms] by blast
  have tf: "nf_tfc (sl_data (slot_at src d fl)) = nf_tfc (src_feed src)" by (simp add: slot_at_def)
  show ?case
    using Cons.IH by (simp add: tf e closed_by_def deliver_slot_at Let_def)
qed

lemma gate_slot_slot_at:
  assumes "valid_tfc (nf_tfc (src_feed src))"
  shows "gate_slot ec (slot_at src d fl) =
     Inr (let n = length (takeWhile (closed_by ec (nf_tfc (src_feed src))) (drop d (src_times src)))
          in slot_at src (d + n) (fl \<or> 0 < n))"
proof -
  have "take (feed_size (nf_feed (sl_data (slot_at src d fl)))) (ln_data (fd_datetime (nf_feed (sl_data (slot_at src d fl)))))
      = src_times src" "sl_cursor (slot_at src d fl) = d"
    by (simp_all add: slot_at_def advanced_lines feed_size_def line_size_def Let_def)
  then show ?thesis using gate_slot_at [OF assms] by (simp add: gate_slot_def Let_def)
qed

lemma bar_close_total:
  assumes "valid_tfc tf"
  obtains e where "bar_close tf t = Inr e"
proof (cases "tf_timeframe tf = Weeks \<or> tf_timeframe tf = Months")
  case True
  then show thesis using that period_end_total [OF assms, of t] by (metis bar_close_def)
next
  case False
  then obtain len where "duration_of tf = Inr len"
    using assms by (auto simp: valid_tfc_def duration_of_def split: timeframe.splits)
  then show thesis using that False by (simp add: bar_close_def)
qed

lemma bar_close_mono:
  assumes "valid_tfc tf" and "t \<le> u" and "bar_close tf t = Inr e" and "bar_close tf u = Inr e'"
  shows "e \<le> e'"
  using assms period_end_mono [OF assms(1,2), of e e']
  by (auto simp: bar_close_def bind_r_Inr split: if_splits)

text \<open>Reading on after the first n elements that satisfy a stronger test.\<close>

lemma takeWhile_resume:
  assumes "\<And>x. P x \<Longrightarrow> Q x"
  shows "length (takeWhile P xs) + length (takeWhile Q (drop (length (takeWhile P xs)) xs))
       = length (takeWhile Q xs)"
  using assms by (induction xs) auto

text \<open>The close of master bar b, the number of context bars closed by then, the slots.\<close>

definition close_at :: "source \<Rightarrow> nat \<Rightarrow> datetime" where
  "close_at m b = projr (bar_close (nf_tfc (src_feed m)) (bar_timestamp (src_bars m ! b)))"

definition visible :: "source \<Rightarrow> nat \<Rightarrow> source \<Rightarrow> nat" where
  "visible m b c = length (takeWhile (closed_by (close_at m b) (nf_tfc (src_feed c))) (src_times c))"

definition newly_visible :: "source \<Rightarrow> nat \<Rightarrow> source \<Rightarrow> bool" where
  "newly_visible m b c = ((if b = 0 then 0 else visible m (b - 1) c) < visible m b c)"

definition master_at :: "source \<Rightarrow> nat \<Rightarrow> nat \<Rightarrow> bool \<Rightarrow> slot" where
  "master_at m b d fl =
     \<lparr>sl_data = (src_feed m)\<lparr>nf_feed := advanced b (src_bars m)\<rparr>, sl_cursor = 0, sl_delivered = d, sl_flag = fl\<rparr>"

definition slots_at :: "source \<Rightarrow> source list \<Rightarrow> nat \<Rightarrow> slot list" where
  "slots_at m cs b =
     master_at m b (b + 1) True # map (\<lambda>c. slot_at c (visible m b c) (newly_visible m b c)) cs"

lemma exec_close_master:
  assumes "b < length (src_bars m)" and "valid_tfc (nf_tfc (src_feed m))" and "n \<noteq> 1"
  shows "exec_close_of n (sl_data (master_at m b d fl)) = Inr (close_at m b)"
proof -
  obtain e where "bar_close (nf_tfc (src_feed m)) (bar_timestamp (src_bars m ! b)) = Inr e"
    using bar_close_total [OF assms(2)] .
  then show ?thesis
    using assms(1,3)
    by (simp add: exec_close_of_def master_at_def advanced_lines line_at_def Let_def close_at_def)
qed

lemma close_at_mono:
  assumes "sorted (src_times m)" and "Suc b < length (src_bars m)" and "valid_tfc (nf_tfc (src_feed m))"
  shows "close_at m b \<le> close_at m (Suc b)"
proof -
  let ?t = "\<lambda>b. bar_timestamp (src_bars m ! b)"
  have "?t b \<le> ?t (Suc b)"
    using assms(1,2) by (metis (no_types, lifting) Suc_lessD le_SucI le_refl length_map nth_map sorted_nth_mono)
  moreover obtain e where "bar_close (nf_tfc (src_feed m)) (?t b) = Inr e"
    using bar_close_total [OF assms(3)] .
  moreover obtain e' where "bar_close (nf_tfc (src_feed m)) (?t (Suc b)) = Inr e'"
    using bar_close_total [OF assms(3)] .
  ultimately show ?thesis using bar_close_mono [OF assms(3)] by (simp add: close_at_def)
qed

lemma visible_step:
  assumes "close_at m b \<le> close_at m (Suc b)"
  shows "visible m b c + length (takeWhile (closed_by (close_at m (Suc b)) (nf_tfc (src_feed c)))
           (drop (visible m b c) (src_times c))) = visible m (Suc b) c"
  unfolding visible_def
  by (rule takeWhile_resume) (use assms in \<open>auto simp: closed_by_def split: sum.splits\<close>)

lemma align_contexts:
  assumes "\<forall>c \<in> set cs. valid_tfc (nf_tfc (src_feed c))"
  shows "map_r (\<lambda>sl. gate_slot ec (sl\<lparr>sl_flag := False\<rparr>)) (map (\<lambda>c. slot_at c (d c) (fl c)) cs)
     = Inr (map (\<lambda>c. let n = length (takeWhile (closed_by ec (nf_tfc (src_feed c))) (drop (d c) (src_times c)))
                     in slot_at c (d c + n) (0 < n)) cs)"
  using assms
proof (induction cs)
  case (Cons c cs)
  have "(slot_at c (d c) (fl c))\<lparr>sl_flag := False\<rparr> = slot_at c (d c) False" by (simp add: slot_at_def)
  then show ?case using Cons gate_slot_slot_at [of c ec "d c" False] by (simp add: Let_def)
qed simp

lemma clock_at_slots:
  assumes valid: "\<forall>src \<in> set (m # cs). valid_tfc (nf_tfc (src_feed src))"
    and "sorted (src_times m)" and "b < length (src_bars m)"
  shows "clock_at (map preload_source (m # cs)) b = Inr (slots_at m cs b)"
  using assms(3)
proof (induction b)
  case 0
  have m0: "new_slot (preload_source m) = master_at m 0 0 False"
    by (simp add: new_slot_at slot_at_def master_at_def)
  have cs0: "map (\<lambda>x. new_slot (preload_source x)) cs = map (\<lambda>c. slot_at c 0 False) cs"
    by (simp add: new_slot_at)
  have ec: "exec_close_of n (sl_data (master_at m 0 0 False)) = Inr (close_at m 0)" if "n \<noteq> 1" for n
    using exec_close_master [OF _ _ that] valid 0 by simp
  show ?case
    using align_contexts [of cs "close_at m 0" "\<lambda>_. 0" "\<lambda>_. False"] valid
    by (auto simp: align_def Let_def m0 cs0 ec o_def slots_at_def visible_def newly_visible_def)
       (simp_all add: master_at_def)
next
  case (Suc b)
  let ?m = "master_at m (Suc b) (Suc b) True"
  have lt: "b < length (src_bars m)" using Suc.prems by simp
  have adv: "advance_master (slots_at m cs b) = ?m # tl (slots_at m cs b)"
    by (simp add: advance_master_def slots_at_def master_at_def advance_data_def advanced_def)
  have ec: "exec_close_of n (sl_data ?m) = Inr (close_at m (Suc b))" if "n \<noteq> 1" for n
    using exec_close_master [OF Suc.prems _ that] valid by simp
  have vis: "visible m b c + length (takeWhile (closed_by (close_at m (Suc b)) (nf_tfc (src_feed c)))
      (drop (visible m b c) (src_times c))) = visible m (Suc b) c" for c
    using visible_step close_at_mono [OF assms(2) Suc.prems] valid by simp
  then have new: "takeWhile (closed_by (close_at m (Suc b)) (nf_tfc (src_feed c)))
      (drop (visible m b c) (src_times c)) \<noteq> [] \<longleftrightarrow> newly_visible m (Suc b) c" for c
  proof -
    have "newly_visible m (Suc b) c \<longleftrightarrow> visible m b c < visible m (Suc b) c"
      by (simp add: newly_visible_def)
    then show ?thesis using vis [of c] unfolding length_greater_0_conv [symmetric] by linarith
  qed
  have "align (Suc b) (?m # tl (slots_at m cs b)) = Inr (slots_at m cs (Suc b))"
    using align_contexts [of cs "close_at m (Suc b)" "visible m b" "newly_visible m b"] valid
    by (auto simp: align_def Let_def ec slots_at_def vis new) (simp_all add: master_at_def)
  then show ?case using Suc.IH [OF lt] by (simp add: adv)
qed


text \<open>Two one-minute bars, and a five-minute feed whose second bar is still open.\<close>

definition demo_source :: "int \<Rightarrow> real bar list \<Rightarrow> source" where
  "demo_source n bars =
     \<lparr>src_feed = \<lparr>nf_name = [], nf_tfc = \<lparr>tf_timeframe = Minutes, tf_compression = n\<rparr>, nf_feed = empty_feed\<rparr>,
      src_bars = bars\<rparr>"

definition demo_context :: source where
  "demo_context = demo_source 5 [minute_bar 0 50, minute_bar 5 60]"


text \<open>
  Before the first context bar has closed the context feed shows that bar already: at
  09:01 the five-minute bar of 09:00 is visible, with a close that is still to come.
\<close>

lemma context_bar_shown_early:
  "\<exists>slots. clock_at (map preload_source [demo_source 1 [minute_bar 0 100], demo_context]) 0 = Inr slots
     \<and> sl_delivered (slots ! 1) = 0
     \<and> feed_view (nf_feed (sl_data (slots ! 1))) = Some (quote_of_bar (minute_bar 0 50))"
proof -
  let ?m = "demo_source 1 [minute_bar 0 100]"
  have "visible ?m 0 demo_context = 0"
    by (simp add: visible_def close_at_def bar_close_def closed_by_def demo_context_def demo_source_def
        minute_bar_def period_end_def advance_periods_def period_start_def duration_of_def
        fixed_bucket_def signed_divide_int_def signed_modulo_int_def ticks_per_sec_def)
  moreover have "clock_at (map preload_source [?m, demo_context]) 0 = Inr (slots_at ?m [demo_context] 0)"
    by (rule clock_at_slots) (simp_all add: demo_source_def demo_context_def valid_tfc_def)
  ultimately show ?thesis
    by (simp add: slots_at_def slot_at_def feed_view_advanced) (simp add: demo_context_def demo_source_def)
qed

subsection \<open>Lifecycle calls\<close>

definition phases :: "nat \<Rightarrow> nat \<Rightarrow> phase list" where
  "phases p n = (if p < n then replicate p Prenext @ [Nextstart] @ replicate (n - p - 1) Next
                 else replicate n Prenext)"

definition call_ok :: "nfeed list \<Rightarrow> call \<Rightarrow> bool" where
  "call_ok feeds x \<longleftrightarrow> clock_at feeds (ca_bar x) = Inr (ca_slots x)
     \<and> length (ca_periods x) = length (ca_slots x)
     \<and> (ca_phase x = Prenext \<longrightarrow> (\<exists>k < length (ca_slots x). sl_delivered (ca_slots x ! k) < ca_periods x ! k))
     \<and> (ca_phase x = Nextstart \<longrightarrow> (\<forall>k < length (ca_slots x). ca_periods x ! k \<le> sl_delivered (ca_slots x ! k)))"

definition calls_ok :: "nfeed list \<Rightarrow> nat \<Rightarrow> ('u, 'b) cell \<Rightarrow> bool" where
  "calls_ok feeds n c \<longleftrightarrow> map ca_bar (cl_calls c) = [0..<n]
     \<and> (\<forall>x \<in> set (cl_calls c). call_ok feeds x)
     \<and> (\<exists>p. map ca_phase (cl_calls c) = phases p n \<and> cl_entered c = (p < n))"

lemma map_state_r_each:
  assumes "map_state_r f xs s = Inr (ys, t)" and "\<And>x s y t. f x s = Inr (y, t) \<Longrightarrow> Q x y" and "y \<in> set ys"
  shows "\<exists>x \<in> set xs. Q x y"
proof -
  have "True \<and> list_all2 Q xs ys"
    by (rule map_state_r_invariant [OF assms(1), of "\<lambda>_. True"]) (simp_all add: assms(2))
  then show ?thesis using assms(3) by (metis in_set_conv_nth list_all2_conv_all_nth)
qed

lemma call_hook_calls:
  "call_hook h feeds c b = Inr (c', b') \<Longrightarrow> cl_calls c' = cl_calls c \<and> cl_entered c' = cl_entered c"
  by (auto simp: call_hook_def bind_r_Inr)

lemma phases_snoc:
  "p < n \<Longrightarrow> phases p n @ [Next] = phases p (Suc n)"
  "\<not> p < n \<Longrightarrow> phases p n @ [Nextstart] = phases n (Suc n)"
  "\<not> p < n \<Longrightarrow> phases p n @ [Prenext] = phases (Suc n) (Suc n)"
  by (auto simp: phases_def Suc_diff_le replicate_append_same simp flip: replicate_Suc Suc_diff_Suc)

lemma lifecycle_calls:
  assumes run: "lifecycle n slots c st = Inr (c', st')"
    and ok: "calls_ok feeds n c" and clock: "clock_at feeds n = Inr slots"
  shows "calls_ok feeds (Suc n) c'"
proof -
  obtain b w where st: "st = (b, w)" by (cases st)
  let ?periods = "map (\<lambda>k. minimum_period k (cl_base c)) [0..<length slots]"
  let ?call = "\<lambda>ph. \<lparr>ca_bar = n, ca_phase = ph, ca_slots = slots, ca_periods = ?periods\<rparr>"
  obtain p where p: "map ca_phase (cl_calls c) = phases p n" "cl_entered c = (p < n)"
    using ok by (auto simp: calls_ok_def)
  have bars: "map ca_bar (cl_calls c) = [0..<n]" "\<forall>x \<in> set (cl_calls c). call_ok feeds x"
    using ok by (auto simp: calls_ok_def)
  have step: "calls_ok feeds (Suc n) c'"
    if "cl_calls c' = cl_calls c @ [?call ph]" "call_ok feeds (?call ph)"
      "phases p n @ [ph] = phases q (Suc n)" "cl_entered c' = (q < Suc n)" for ph q
    using that bars p by (auto simp: calls_ok_def)
  show ?thesis
  proof (cases "cl_entered c")
    case True
    then have c': "cl_calls c' = cl_calls c @ [?call Next]" "cl_entered c'"
      using run call_hook_calls by (fastforce simp: lifecycle_def st Let_def bind_r_Inr record_call_def)+
    show ?thesis
      using step [OF c'(1) _ phases_snoc(1)] c'(2) True p(2) clock by (auto simp: call_ok_def)
  next
    case False
    show ?thesis
    proof (cases "all_ready slots (cl_base c)")
      case True
      then have c': "cl_calls c' = cl_calls c @ [?call Nextstart]" "cl_entered c'"
        using run False call_hook_calls
        by (fastforce simp: lifecycle_def st Let_def bind_r_Inr record_call_def)+
      show ?thesis
        using step [OF c'(1) _ phases_snoc(2)] c'(2) False p(2) clock True
        by (auto simp: call_ok_def all_ready_def)
    next
      case not_ready: False
      then have c': "cl_calls c' = cl_calls c @ [?call Prenext]" "\<not> cl_entered c'"
        using run False call_hook_calls
        by (fastforce simp: lifecycle_def st Let_def bind_r_Inr record_call_def)+
      have "call_ok feeds (?call Prenext)"
        using clock not_ready by (auto simp: call_ok_def all_ready_def not_le)
      then show ?thesis
        using step [OF c'(1) _ phases_snoc(3)] c'(2) False p(2) by simp
    qed
  qed
qed

lemma bar_loop_calls:
  assumes "fold_r (bar_step N) [0..<n] rs0 = Inr rs" and "n \<le> N"
    and "rs_slots rs0 = map new_slot feeds"
    and "\<forall>c \<in> set (rs_cells rs0). calls_ok feeds 0 c"
  shows "(n < N \<longrightarrow> align n (rs_slots rs) = clock_at feeds n)
    \<and> (\<forall>c \<in> set (rs_cells rs). calls_ok feeds n c)
    \<and> (0 < n \<longrightarrow> (\<exists>slots. clock_at feeds (n - 1) = Inr slots
          \<and> map sl_delivered (rs_slots rs) = map sl_delivered slots))"
  using assms(1,2)
proof (induction n arbitrary: rs)
  case 0
  then show ?case using assms(3,4) by simp
next
  case (Suc n)
  obtain rs1 where rs1: "fold_r (bar_step N) [0..<n] rs0 = Inr rs1" "bar_step N n rs1 = Inr rs"
    using Suc.prems(1) by (auto simp: fold_r_append bind_r_Inr)
  have IH: "align n (rs_slots rs1) = clock_at feeds n" "\<forall>c \<in> set (rs_cells rs1). calls_ok feeds n c"
    using Suc.IH [OF rs1(1)] Suc.prems(2) by auto
  obtain slots st st' where slots: "clock_at feeds n = Inr slots"
    and life: "map_state_r (lifecycle n slots) (map (propagate slots) (rs_cells rs1)) st = Inr (rs_cells rs, st')"
    and next_slots: "rs_slots rs = (if n + 1 < N then advance_master slots else slots)"
    using rs1(2) IH(1) by (auto simp: bar_step_def Let_def bind_r_Inr split_beta)
  have "calls_ok feeds n c \<longrightarrow> calls_ok feeds (Suc n) c'" if "lifecycle n slots c st = Inr (c', st')" for c st c' st'
    using lifecycle_calls [OF that _ slots] by blast
  then have "\<exists>c \<in> set (map (propagate slots) (rs_cells rs1)). calls_ok feeds n c \<longrightarrow> calls_ok feeds (Suc n) c'"
    if "c' \<in> set (rs_cells rs)" for c'
    by (rule map_state_r_each [OF life _ that])
  moreover have "\<forall>c \<in> set (map (propagate slots) (rs_cells rs1)). calls_ok feeds n c"
    using IH(2) by (auto simp: propagate_def calls_ok_def)
  ultimately have "\<forall>c \<in> set (rs_cells rs). calls_ok feeds (Suc n) c" by blast
  moreover have "map sl_delivered (rs_slots rs) = map sl_delivered slots"
    by (cases slots) (auto simp: next_slots advance_master_def)
  ultimately show ?case using slots next_slots by auto
qed

lemma prepare_calls:
  assumes "prepare feeds e = Inr rs" and "\<forall>c \<in> set (en_cells e). cl_calls c = []"
  shows "rs_slots rs = map new_slot feeds \<and> (\<forall>c \<in> set (rs_cells rs). calls_ok feeds 0 c)"
proof -
  obtain b0 b where cells: "map_state_r (init_cell feeds) (en_cells e) b0 = Inr (rs_cells rs, b)"
    and slots: "rs_slots rs = map new_slot feeds"
    using assms(1) by (auto simp: prepare_def Let_def bind_r_Inr split_beta)
  have "cl_calls c' = cl_calls c \<and> \<not> cl_entered c'" if "init_cell feeds c b = Inr (c', b')" for c b c' b'
  proof -
    note run = that
    let ?c0 = "c\<lparr>cl_base := ensure_params_initialized (cls_default_params (cl_class c))
        (set_data_feeds [0..<length feeds] feeds (set_broker True (cl_base c))), cl_entered := False\<rparr>"
    obtain c1 b1 where "call_hook (cls_init (cl_class c)) feeds ?c0 b = Inr (c1, b1)"
      "call_hook (cls_start (cl_class c)) feeds c1 b1 = Inr (c', b')"
      using run by (auto simp: init_cell_def Let_def bind_r_Inr)
    then have "cl_calls c' = cl_calls ?c0 \<and> cl_entered c' = cl_entered ?c0"
      by (simp only: call_hook_calls)
    then show ?thesis by simp
  qed
  then have "\<exists>c0 \<in> set (en_cells e). cl_calls c = cl_calls c0 \<and> \<not> cl_entered c" if "c \<in> set (rs_cells rs)" for c
    by (rule map_state_r_each [OF cells _ that])
  then have "cl_calls c = [] \<and> \<not> cl_entered c" if "c \<in> set (rs_cells rs)" for c
    using that assms(2) by auto
  then show ?thesis using slots by (auto simp: calls_ok_def phases_def)
qed

text \<open>The three stages of a run over n bars that returns.\<close>

lemma cerebro_run_stages:
  assumes "cerebro_run opts e = Inr e'" and "en_sources e = src # srcs" and "src_bars src \<noteq> []"
  obtains rs rs' where
    "prepare (map preload_source (src # srcs)) e = Inr rs"
    "fold_r (bar_step (length (src_bars src))) [0..<length (src_bars src)] rs = Inr rs'"
    "finish rs' e = Inr e'"
proof -
  have n: "feed_size (nf_feed (preload_source src)) = length (src_bars src)"
    by (simp add: preload_source_def feed_of_bars_def feed_size_def line_size_def Let_def)
  show thesis
    using assms that by (auto simp: cerebro_run_def n Let_def bind_r_Inr split: if_splits option.splits)
qed

text \<open>
  C12. Lifecycle of a strategy: in a run over n bars every strategy gets exactly one call
  per bar, in order: some \<open>prenext\<close>, then one \<open>nextstart\<close>, then \<open>next\<close> to the end (or only
  \<open>prenext\<close>); each call sees the feeds of the clock at its bar, so that \<open>no_lookahead\<close>
  speaks about it; a \<open>prenext\<close> means that some feed had delivered fewer bars than its
  minimum period, the \<open>nextstart\<close> that all feeds had enough; and the final counts are those
  of the clock at the last bar.
\<close>

theorem lifecycle_phases:
  assumes "cerebro_run opts e = Inr e'" and "en_sources e = src # srcs" and "src_bars src \<noteq> []"
    and "\<forall>c \<in> set (en_cells e). cl_calls c = []"
  shows "let feeds = map preload_source (en_sources e); n = length (src_bars src) in
     (\<forall>c \<in> set (en_cells e').
        map ca_bar (cl_calls c) = [0..<n]
        \<and> (\<exists>p. map ca_phase (cl_calls c) = phases p n)
        \<and> (\<forall>x \<in> set (cl_calls c).
             clock_at feeds (ca_bar x) = Inr (ca_slots x)
             \<and> (ca_phase x = Prenext \<longrightarrow>
                  (\<exists>k < length (ca_slots x). sl_delivered (ca_slots x ! k) < ca_periods x ! k))
             \<and> (ca_phase x = Nextstart \<longrightarrow>
                  (\<forall>k < length (ca_slots x). ca_periods x ! k \<le> sl_delivered (ca_slots x ! k)))))
     \<and> (\<exists>slots. clock_at feeds (n - 1) = Inr slots \<and> en_final_delivered e' = map sl_delivered slots)"
proof -
  let ?feeds = "map preload_source (src # srcs)" and ?n = "length (src_bars src)"
  obtain rs rs' where prep: "prepare ?feeds e = Inr rs"
    and loop: "fold_r (bar_step ?n) [0..<?n] rs = Inr rs'" and fin: "finish rs' e = Inr e'"
    using cerebro_run_stages [OF assms(1-3)] by blast
  have "0 < ?n" using assms(3) by simp
  moreover have "rs_slots rs = map new_slot ?feeds" "\<forall>c \<in> set (rs_cells rs). calls_ok ?feeds 0 c"
    using prepare_calls [OF prep assms(4)] by auto
  ultimately have L: "\<forall>c \<in> set (rs_cells rs'). calls_ok ?feeds ?n c"
    and clock: "\<exists>slots. clock_at ?feeds (?n - 1) = Inr slots \<and> map sl_delivered (rs_slots rs') = map sl_delivered slots"
    using bar_loop_calls [OF loop le_refl] by auto
  obtain h b where cells: "map_state_r h (rs_cells rs') (rs_broker rs') = Inr (en_cells e', b)"
    and h: "h = (\<lambda>c b. call_hook (cls_stop (cl_class c)) (map sl_data (rs_slots rs')) c b)"
    and delivered: "en_final_delivered e' = map sl_delivered (rs_slots rs')"
    using fin by (auto simp: finish_def bind_r_Inr split_beta)
  have "cl_calls c' = cl_calls c" if "h c b = Inr (c', b')" for c b c' b'
    using that unfolding h by (rule call_hook_calls [THEN conjunct1])
  then have same: "\<exists>c0 \<in> set (rs_cells rs'). cl_calls c = cl_calls c0" if "c \<in> set (en_cells e')" for c
    by (rule map_state_r_each [OF cells _ that])
  have "map ca_bar (cl_calls c) = [0..<?n] \<and> (\<exists>p. map ca_phase (cl_calls c) = phases p ?n)
      \<and> (\<forall>x \<in> set (cl_calls c). call_ok ?feeds x)" if "c \<in> set (en_cells e')" for c
  proof -
    note mem = that
    obtain c0 where "c0 \<in> set (rs_cells rs')" "cl_calls c = cl_calls c0" using same mem by blast
    then show ?thesis using L unfolding calls_ok_def by fastforce
  qed
  then have "\<forall>c \<in> set (en_cells e'). map ca_bar (cl_calls c) = [0..<?n]
        \<and> (\<exists>p. map ca_phase (cl_calls c) = phases p ?n)
        \<and> (\<forall>x \<in> set (cl_calls c).
             clock_at ?feeds (ca_bar x) = Inr (ca_slots x)
             \<and> (ca_phase x = Prenext \<longrightarrow>
                  (\<exists>k < length (ca_slots x). sl_delivered (ca_slots x ! k) < ca_periods x ! k))
             \<and> (ca_phase x = Nextstart \<longrightarrow>
                  (\<forall>k < length (ca_slots x). ca_periods x ! k \<le> sl_delivered (ca_slots x ! k))))"
    unfolding call_ok_def by blast
  then show ?thesis unfolding assms(2) Let_def delivered using clock by (rule conjI)
qed

end
