(* ===== verification/Reconcile.thy ===== *)
theory Reconcile
  imports Fills
begin

text \<open>
  Accounting identities of whole histories, proved once per abstract move of the order book
  (theory \<open>Book\<close>) and transported to every history of client calls through the refinement
  (theory \<open>Session\<close>): cash and executed orders, positions and executed orders, cash and
  the profit and loss of trades.
\<close>

text \<open>The interface used for the transport: a predicate that every step of a relation keeps.\<close>

locale preserved =
  fixes step :: "'s \<Rightarrow> 's \<Rightarrow> bool" and inv :: "'s \<Rightarrow> bool"
  assumes keeps: "step x y \<Longrightarrow> inv x \<Longrightarrow> inv y"
begin

lemma along: "step\<^sup>*\<^sup>* x y \<Longrightarrow> inv x \<Longrightarrow> inv y"
  by (induction rule: rtranclp_induct) (auto intro: keeps)

end

subsection \<open>Cash\<close>

text \<open>What an order has cost so far: its execution value and commission once completed.\<close>

definition order_cost :: "order \<Rightarrow> real" where
  "order_cost x =
     (if o_status x = Completed
      then signed_size (o_side x) (o_executed_size x) * o_executed_price x + o_commission x else 0)"

definition settled :: "broker \<Rightarrow> currency \<Rightarrow> order \<Rightarrow> real" where
  "settled b ccy x = (if settle_ccy (o_data_index x) b = ccy then order_cost x else 0)"

definition account_total :: "currency \<Rightarrow> broker \<Rightarrow> real" where
  "account_total ccy b = cash_of b ccy + sum_list (map (settled b ccy) (b_all_orders b))"

lemma order_cost_alive [simp]: "is_alive x \<Longrightarrow> order_cost x = 0"
  by (auto simp: order_cost_def is_alive_def)

lemma settled_cong: "same_setup b b' \<Longrightarrow> settled b' ccy = settled b ccy"
  by (auto simp: settled_def fun_eq_iff settle_ccy_def instrument_for_def same_setup_def
      split: option.splits)

lemma sum_sync:
  assumes "find_order (o_id x) (b_all_orders b) = Some s"
  shows "sum_list (map f (b_all_orders (sync x b))) = sum_list (map f (b_all_orders b)) - f s + (f x :: real)"
  using sum_sync_order [OF assms] by (simp add: sync_def)

lemma filled_order_fields:
  assumes "is_alive x"
  shows "o_status (filled_order x px c) = Completed" "o_executed_size (filled_order x px c) = o_size x"
    "o_executed_price (filled_order x px c) = px" "o_commission (filled_order x px c) = c"
    "o_side (filled_order x px c) = o_side x" "o_data_index (filled_order x px c) = o_data_index x"
    "o_size (filled_order x px c) = o_size x" "o_id (filled_order x px c) = o_id x"
  using assms by (simp_all add: filled_order_def order_op_defs alive_defs)

lemma cash_of_cong: "b_cash b' = b_cash b \<Longrightarrow> cash_of b' ccy = cash_of b ccy"
  by (simp add: cash_of_def)

lemma account_total_step: "book_step b b' \<Longrightarrow> account_total ccy b' = account_total ccy b"
proof -
  assume st: "book_step b b'"
  note set = settled_cong [OF book_step_setup [OF st], of ccy]
  show ?thesis
    unfolding account_total_def set using st
  proof (cases rule: book_step.cases)
    case (register x)
    then show "cash_of b' ccy + sum_list (map (settled b ccy) (b_all_orders b')) =
        cash_of b ccy + sum_list (map (settled b ccy) (b_all_orders b))"
      by (simp add: enqueue_def cash_of_def settled_def is_alive_def)
  next
    case (amend x s)
    have "settled b ccy s = 0" "settled b ccy x = 0"
      using amend by (simp_all add: settled_def order_cost_def [of x])
    then show "cash_of b' ccy + sum_list (map (settled b ccy) (b_all_orders b')) =
        cash_of b ccy + sum_list (map (settled b ccy) (b_all_orders b))"
      using sum_sync [OF amend(2), of "settled b ccy"] amend(1) by simp
  next
    case (fill x s raw q px comm)
    let ?bf = "book_fill (o_data_index x) (signed_size (o_side x) (o_size x)) px comm (q_dt q)
                 (o_candidate_id x) b"
    let ?y = "filled_order x px comm"
    note F = filled_order_fields [OF fill(4), of px comm]
    have "find_order (o_id ?y) (b_all_orders ?bf) = Some s" using fill(2) F(8) by simp
    then have "sum_list (map (settled b ccy) (b_all_orders b')) =
        sum_list (map (settled b ccy) (b_all_orders b)) - settled b ccy s + settled b ccy ?y"
      using sum_sync [of ?y ?bf s "settled b ccy"] fill(1) by simp
    moreover have "settled b ccy s = 0" using fill(3) by (simp add: settled_def)
    moreover have "settled b ccy ?y = (if ccy = settle_ccy (o_data_index x) b
        then signed_size (o_side x) (o_size x) * px + comm else 0)"
      by (simp add: settled_def order_cost_def F)
    moreover have "cash_of b' ccy = cash_of b ccy - (if ccy = settle_ccy (o_data_index x) b
        then signed_size (o_side x) (o_size x) * px + comm else 0)"
      using fill(1) by (simp add: cash_book_fill)
    ultimately show "cash_of b' ccy + sum_list (map (settled b ccy) (b_all_orders b')) =
        cash_of b ccy + sum_list (map (settled b ccy) (b_all_orders b))" by simp
  qed (auto simp: cash_of_def ensure_position_def)
qed

interpretation account: preserved book_step "\<lambda>b. account_total ccy b = c" for ccy c
  by unfold_locales (simp add: account_total_step)

text \<open>
  C3. Cash reconciles with the orders: whatever a backtesting client does, in every
  currency the cash of the broker is what it started with minus the value and commission of
  the completed orders that settle in that currency; no other event moves cash.
\<close>

theorem cash_reconciles:
  assumes "broker_wf b" and "\<not> b_live b" and "admissible_run cs b" and "client_run cs b = Inr b'"
  shows "cash_of b' ccy = cash_of b ccy
     - (sum_list (map (settled b ccy) (b_all_orders b')) - sum_list (map (settled b ccy) (b_all_orders b)))"
proof -
  have steps: "book_steps b b'" using client_run_wf [OF assms(1-3)] assms(4) by auto
  have "account_total ccy b' = account_total ccy b"
    using account.along [OF steps refl] .
  moreover have "settled b' ccy = settled b ccy"
    using settled_cong [OF book_steps_setup [OF steps]] .
  ultimately show ?thesis by (simp add: account_total_def)
qed

text \<open>The witness: the demonstration session of theory \<open>Session\<close>.\<close>

theorem cash_reconciles_witness:
  "\<exists>b'. client_run demo_calls (new_broker USD 100 None) = Inr b'
     \<and> cash_of b' USD = 100 - sum_list (map (settled (new_broker USD 100 None) USD) (b_all_orders b'))"
proof -
  obtain b' where r: "client_run demo_calls (new_broker USD 100 None) = Inr b'"
    using client_run_wf [OF _ _ demo_admissible] by auto
  have "cash_of (new_broker USD 100 None) USD = 100" "b_all_orders (new_broker USD 100 None) = []"
    by (simp_all add: new_broker_def cash_of_def)
  then show ?thesis
    using cash_reconciles [OF new_broker_wf new_broker_backtest demo_admissible r, of USD] r by simp
qed

subsection \<open>Trades of one feed\<close>

lemma int_dust: "x \<in> \<int> \<Longrightarrow> \<bar>x\<bar> < eps \<longleftrightarrow> x = 0"
proof (cases "x = 0")
  case False
  then show "x \<in> \<int> \<Longrightarrow> ?thesis" using Ints_nonzero_abs_ge1 [of x] eps_less_one by linarith
qed simp

lemma int_big: "x \<in> \<int> \<Longrightarrow> x \<noteq> 0 \<Longrightarrow> eps \<le> \<bar>x\<bar>"
  using int_dust [of x] by linarith

definition open_of :: "nat \<Rightarrow> broker \<Rightarrow> (trade \<times> real) list" where
  "open_of di b = filter (\<lambda>e. t_data_index (fst e) = di) (b_open_trades b)"

text \<open>The open trades of a feed whose position has size \<open>old\<close>: one of that size, or none.\<close>

definition lot_ok :: "nat \<Rightarrow> real \<Rightarrow> broker \<Rightarrow> bool" where
  "lot_ok di old b \<longleftrightarrow>
     (if old = 0 then open_of di b = []
      else \<exists>t orig. open_of di b = [(t, orig)] \<and> trade_is_open t \<and> t_size t = old)"

text \<open>
  Realised profit plus the book value of what is open, feeds weighted by \<open>W\<close> (the weights
  pick the feeds that settle in one currency).
\<close>

definition trade_total :: "(nat \<Rightarrow> real) \<Rightarrow> broker \<Rightarrow> real" where
  "trade_total W b =
     sum_list (map (\<lambda>e. W (t_data_index (fst e)) * t_pnlcomm (fst e)) (b_closed_trades b))
     + sum_list (map (\<lambda>e. W (t_data_index (fst e)) * book (fst e)) (b_open_trades b))"

definition closed_ok :: "trade \<times> real \<Rightarrow> bool" where
  "closed_ok e \<longleftrightarrow> trade_is_closed (fst e) \<and> t_size (fst e) = 0
     \<and> t_pnlcomm (fst e) = t_pnl (fst e) - t_commission (fst e)"

definition trades_effect :: "nat \<Rightarrow> real \<Rightarrow> real \<Rightarrow> (nat \<Rightarrow> real) \<Rightarrow> broker \<Rightarrow> broker \<Rightarrow> bool" where
  "trades_effect di new paid W b b' \<longleftrightarrow>
     lot_ok di new b' \<and> (\<forall>k. k \<noteq> di \<longrightarrow> open_of k b' = open_of k b)
     \<and> trade_total W b' = trade_total W b - W di * paid
     \<and> (\<forall>e \<in> set (b_closed_trades b'). e \<in> set (b_closed_trades b) \<or> closed_ok e)"

lemma split_first_Some:
  "split_first P xs = Some (pre, y, post) \<Longrightarrow> xs = pre @ y # post \<and> P y \<and> (\<forall>x \<in> set pre. \<not> P x)"
  by (induction xs arbitrary: pre) (auto split: if_splits option.splits)

lemma split_first_None: "split_first P xs = None \<Longrightarrow> \<forall>x \<in> set xs. \<not> P x"
  by (induction xs) (auto split: if_splits option.splits)

lemma book_new: "book (new_trade\<lparr>t_id := i, t_data_index := k, t_candidate_id := cd\<rparr>) = 0"
  by (simp add: book_def new_trade_def)

lemma open_new_trade_effect:
  assumes "open_of di b = []" and "s \<in> \<int>" and "s \<noteq> 0"
  shows "trades_effect di s (s * px + c) W b (open_new_trade di s px c dt cand b)"
proof -
  let ?n = "new_trade\<lparr>t_id := b_next_trade_id b, t_data_index := di, t_candidate_id := cand\<rparr>"
  let ?t = "trade_update s px c (b_bar_index b) dt ?n"
  have big: "eps \<le> \<bar>s\<bar>" and flat: "t_size ?n = 0"
    using assms int_big by (simp_all add: new_trade_def)
  have t: "t_size ?t = s" "t_status ?t = TOpen" "t_data_index ?t = di" "book ?t = - (s * px + c)"
    using trade_update_flat [OF flat big] book_open [OF flat big] by (simp_all add: book_new)
  let ?b = "open_new_trade di s px c dt cand b"
  have b: "b_open_trades ?b = b_open_trades b @ [(?t, s)]" "b_closed_trades ?b = b_closed_trades b"
    by (simp_all add: open_new_trade_def Let_def)
  have "trade_total W ?b = trade_total W b - W di * (s * px + c)"
    by (simp add: trade_total_def b t algebra_simps)
  moreover have "open_of di ?b = [(?t, s)]" "k \<noteq> di \<Longrightarrow> open_of k ?b = open_of k b" for k
    using assms(1) by (simp_all add: open_of_def b t)
  ultimately show ?thesis
    using assms(3) t by (simp add: trades_effect_def lot_ok_def b trade_is_open_def)
qed

text \<open>The list around the single open trade of a feed.\<close>

lemma lot_split:
  assumes "open_of di b = [(t, orig)]" and "trade_is_open t"
  obtains pre post where "split_first (open_for di) (b_open_trades b) = Some (pre, (t, orig), post)"
    "b_open_trades b = pre @ (t, orig) # post" "t_data_index t = di"
    "filter (\<lambda>e. t_data_index (fst e) = di) pre = []" "filter (\<lambda>e. t_data_index (fst e) = di) post = []"
    "upd_first (open_for di) f (b_open_trades b) = pre @ f (t, orig) # post"
proof -
  have mem: "(t, orig) \<in> set (b_open_trades b)" "t_data_index t = di"
  proof -
    have "(t, orig) \<in> set (open_of di b)" using assms(1) by simp
    then show "(t, orig) \<in> set (b_open_trades b)" "t_data_index t = di" by (auto simp: open_of_def)
  qed
  then have P: "open_for di (t, orig)" using assms(2) by (simp add: open_for_def)
  then obtain pre y post where sp: "split_first (open_for di) (b_open_trades b) = Some (pre, y, post)"
    using split_first_None mem(1) by (cases "split_first (open_for di) (b_open_trades b)") fastforce+
  note S = split_first_Some [OF sp]
  have one: "filter (\<lambda>e. t_data_index (fst e) = di) pre
      @ (y # filter (\<lambda>e. t_data_index (fst e) = di) post) = [(t, orig)]"
    using S assms(1) by (simp add: open_of_def open_for_def)
  then have y: "y = (t, orig)" "filter (\<lambda>e. t_data_index (fst e) = di) pre = []"
      "filter (\<lambda>e. t_data_index (fst e) = di) post = []"
    by (auto simp: append_eq_Cons_conv)
  have upd: "upd_first Q f (xs @ z # ys) = xs @ f z # ys" if "\<forall>x \<in> set xs. \<not> Q x" "Q z" for Q xs z ys
    using that by (induction xs) auto
  have "upd_first (open_for di) f (b_open_trades b) = pre @ f (t, orig) # post"
    using S y(1) upd by simp
  then show thesis using sp S y mem(2) by (intro that [of pre post]) simp_all
qed

text \<open>A fill in the direction of the position.\<close>

lemma extend_trade_effect:
  assumes lot: "open_of di b = [(t, orig)]" "trade_is_open t" "t_size t = old"
    and old: "old \<in> \<int>" "old \<noteq> 0" and s: "s \<in> \<int>" "s \<noteq> 0" "old + s \<noteq> 0"
  shows "trades_effect di (old + s) (s * px + c) W b (extend_trade di s px c dt b)"
proof -
  let ?t = "trade_update s px c (b_bar_index b) dt t"
  let ?f = "\<lambda>(t, orig). (trade_update s px c (b_bar_index b) dt t, orig + s)"
  obtain pre post where sp: "b_open_trades b = pre @ (t, orig) # post" "t_data_index t = di"
    "filter (\<lambda>e. t_data_index (fst e) = di) pre = []" "filter (\<lambda>e. t_data_index (fst e) = di) post = []"
    "upd_first (open_for di) ?f (b_open_trades b) = pre @ ?f (t, orig) # post"
    by (rule lot_split [OF lot(1,2), where f = ?f])
  have big: "eps \<le> \<bar>t_size t\<bar>" "eps \<le> \<bar>s\<bar>" "\<not> \<bar>t_size t + s\<bar> < eps"
    using int_big [OF old] int_big [OF s(1,2)] int_big [OF Ints_add [OF old(1) s(1)] s(3)] lot(3) by auto
  have t: "t_size ?t = old + s" "t_status ?t = TOpen" "t_data_index ?t = di"
      "book ?t = book t - s * px - c"
    using trade_update_held [OF big(1,2)] big lot(3) sp(2) book_move [of t s px c "b_bar_index b" dt] old(2)
    by (auto simp: trade_ok_def)
  let ?b = "extend_trade di s px c dt b"
  have b: "b_open_trades ?b = pre @ (?t, orig + s) # post" "b_closed_trades ?b = b_closed_trades b"
    using sp(5) by (simp_all add: extend_trade_def)
  have "trade_total W ?b = trade_total W b - W di * (s * px + c)"
    unfolding trade_total_def b sp(1) by (simp add: t sp(2) algebra_simps)
  moreover have "open_of di ?b = [(?t, orig + s)]" "k \<noteq> di \<Longrightarrow> open_of k ?b = open_of k b" for k
    using sp(3,4) unfolding open_of_def b sp(1) by (simp_all add: t sp(2))
  ultimately show ?thesis
    using s(3) t by (simp add: trades_effect_def lot_ok_def b trade_is_open_def)
qed

lemma close_trade_lists [simp]:
  "b_open_trades (close_trade t orig b) = b_open_trades b"
  "b_closed_trades (close_trade t orig b) = b_closed_trades b @ [(t, orig)]"
  "b_bar_index (close_trade t orig b) = b_bar_index b"
  by (simp_all add: close_trade_def notify_trade_def emit_def)

text \<open>A fill that takes the open trade exactly to zero.\<close>

lemma close_exactly:
  fixes px c :: real and n :: nat and dt :: datetime
  assumes lot: "trade_is_open t" "t_size t = old" "t_data_index t = di"
    and old: "old \<in> \<int>" "old \<noteq> 0"
  defines "t' \<equiv> trade_update (- old) px c n dt t"
  shows "closed_ok (t', orig) \<and> t_data_index t' = di \<and> t_pnlcomm t' = book t + old * px - c"
proof -
  have big: "eps \<le> \<bar>t_size t\<bar>" "eps \<le> \<bar>- old\<bar>" using int_big [OF old] lot(2) by auto
  note U = trade_update_held [OF big, of px c n dt] and B = book_move [of t "- old" px c n dt]
  have "t_size t' = 0" "t_status t' = TClosed" using U lot(2) by (simp_all add: t'_def)
  moreover have "t_pnlcomm t' = t_pnl t' - t_commission t'"
    using big(2) by (simp add: t'_def pnlcomm_update)
  moreover have "book t' = book t + old * px - c"
    using B big lot(2) old(2) by (simp add: t'_def trade_ok_def)
  ultimately show ?thesis
    using lot(3) by (simp add: closed_ok_def trade_is_closed_def book_def t'_def)
qed

text \<open>A fill against the position: it reduces, closes or turns the open trade.\<close>

lemma reduce_trade_effect:
  assumes lot: "open_of di b = [(t, orig)]" "trade_is_open t" "t_size t = old"
    and old: "old \<in> \<int>" "old \<noteq> 0" and s: "s \<in> \<int>" "s \<noteq> 0" "\<bar>old + s\<bar> < max \<bar>old\<bar> \<bar>s\<bar>"
  shows "trades_effect di (old + s) (s * px + c) W b (reduce_trade di s px c dt cand b)"
proof -
  obtain pre post where sp: "split_first (open_for di) (b_open_trades b) = Some (pre, (t, orig), post)"
    "b_open_trades b = pre @ (t, orig) # post" "t_data_index t = di"
    "filter (\<lambda>e. t_data_index (fst e) = di) pre = []" "filter (\<lambda>e. t_data_index (fst e) = di) post = []"
    by (rule lot_split [OF lot(1,2), where f = "\<lambda>e. e"])
  have rest: "open_of di (d\<lparr>b_open_trades := pre @ post\<rparr>) = []"
      "k \<noteq> di \<Longrightarrow> open_of k (d\<lparr>b_open_trades := pre @ post\<rparr>) = open_of k b" for d k
    using sp(2-5) by (simp_all add: open_of_def)
  show ?thesis
  proof (cases "\<bar>t_size t\<bar> < \<bar>s\<bar>")
    case True
    define cc where "cc = \<bar>old\<bar> / \<bar>s\<bar> * c"
    let ?t = "trade_update (- old) px cc (b_bar_index b) dt t"
    let ?d = "(close_trade ?t orig b)\<lparr>b_open_trades := pre @ post\<rparr>"
    have res: "reduce_trade di s px c dt cand b = open_new_trade di (s + old) px (c - cc) dt cand ?d"
      using True sp(1) lot(3) by (simp add: reduce_trade_def Let_def cc_def)
    have cl: "closed_ok (?t, orig)" "t_data_index ?t = di" "t_pnlcomm ?t = book t + old * px - cc"
      using close_exactly [OF lot(2,3) sp(3) old, of px cc] by auto
    have nz: "s + old \<noteq> 0" "s + old \<in> \<int>" using True lot(3) old(1) s(1) by auto
    have E: "trades_effect di (s + old) ((s + old) * px + (c - cc)) W ?d (reduce_trade di s px c dt cand b)"
      unfolding res using rest(1) nz by (intro open_new_trade_effect) auto
    have T: "trade_total W ?d = trade_total W b + W di * (old * px - cc)"
      unfolding trade_total_def using sp(2,3) cl(2) by (simp add: cl(3) algebra_simps)
    have C: "b_closed_trades ?d = b_closed_trades b @ [(?t, orig)]" by simp
    show ?thesis
      using E cl(1) rest(2)
      unfolding trades_effect_def T C by (auto simp: algebra_simps)
  next
    case False
    let ?t = "trade_update s px c (b_bar_index b) dt t"
    have big: "eps \<le> \<bar>t_size t\<bar>" "eps \<le> \<bar>s\<bar>"
      using int_big [OF old] int_big [OF s(1,2)] lot(3) by auto
    have dust: "\<bar>t_size t + s\<bar> < eps \<longleftrightarrow> old + s = 0"
      using int_dust [of "old + s"] old(1) s(1) lot(3) by simp
    show ?thesis
    proof (cases "old + s = 0")
      case True
      then have so: "s = - old" by simp
      have cl: "closed_ok (?t, orig)" "t_data_index ?t = di" "t_pnlcomm ?t = book t + old * px - c"
        using close_exactly [OF lot(2,3) sp(3) old, of px c] by (auto simp: so)
      have res: "reduce_trade di s px c dt cand b = (close_trade ?t orig b)\<lparr>b_open_trades := pre @ post\<rparr>"
        using False sp(1) cl(1) by (simp add: reduce_trade_def Let_def closed_ok_def)
      let ?d = "(close_trade ?t orig b)\<lparr>b_open_trades := pre @ post\<rparr>"
      have T: "trade_total W ?d = trade_total W b - W di * (s * px + c)"
        unfolding trade_total_def using sp(2,3) cl(2) by (simp add: cl(3) [unfolded so] so algebra_simps)
      show ?thesis
        unfolding res trades_effect_def T using True rest cl(1) by (auto simp: lot_ok_def)
    next
      case nz: False
      have t: "t_size ?t = old + s" "t_status ?t = TOpen" "t_data_index ?t = di"
          "book ?t = book t - s * px - c"
        using trade_update_held [OF big] dust nz lot(3) sp(3) old(2) big(1)
          book_move [of t s px c "b_bar_index b" dt, OF _ _ big(2)]
        by (auto simp: trade_ok_def)
      let ?b = "b\<lparr>b_open_trades := pre @ (?t, orig) # post\<rparr>"
      have res: "reduce_trade di s px c dt cand b = ?b"
        using False sp(1) t(2) by (simp add: reduce_trade_def Let_def trade_is_closed_def)
      have "open_of di ?b = [(?t, orig)]" "k \<noteq> di \<Longrightarrow> open_of k ?b = open_of k b" for k
        using sp(2-5) t(3) by (simp_all add: open_of_def)
      then show ?thesis
        using nz t(1,2) by (auto simp: trades_effect_def lot_ok_def res trade_total_def sp(2,3)
            trade_is_open_def t(3,4) algebra_simps)
    qed
  qed
qed

lemma update_trades_effect:
  assumes "lot_ok di old b" and "old \<in> \<int>" and "s \<in> \<int>" and "s \<noteq> 0"
  shows "trades_effect di (old + s) (s * px + c) W b (update_trades di old s px c dt cand b)"
proof (cases "old = 0")
  case True
  then show ?thesis
    using assms open_new_trade_effect [of di b s px c W dt cand]
    by (simp add: update_trades_def lot_ok_def)
next
  case False
  then obtain t orig where lot: "open_of di b = [(t, orig)]" "trade_is_open t" "t_size t = old"
    using assms(1) by (auto simp: lot_ok_def)
  have nd: "\<not> \<bar>old\<bar> < eps" using int_big [OF assms(2) False] by simp
  show ?thesis
  proof (cases "(0 < old \<and> 0 < s) \<or> (old < 0 \<and> s < 0)")
    case True
    then have "old + s \<noteq> 0" by auto
    then show ?thesis
      using True nd extend_trade_effect [OF lot assms(2) False assms(3,4)]
      by (simp add: update_trades_def)
  next
    case F: False
    then have "\<bar>old + s\<bar> < max \<bar>old\<bar> \<bar>s\<bar>" using False assms(4) by (auto simp: max_def abs_if split: if_splits)
    then show ?thesis
      using F nd reduce_trade_effect [OF lot assms(2) False assms(3,4)]
      by (auto simp: update_trades_def)
  qed
qed

subsection \<open>Positions, trades and cash of a history\<close>

definition sizes_ok :: "broker \<Rightarrow> bool" where
  "sizes_ok b \<longleftrightarrow> (\<forall>x \<in> set (b_all_orders b). o_size x \<in> \<int> \<and> o_size x \<noteq> 0)"

definition executed :: "nat \<Rightarrow> order \<Rightarrow> real" where
  "executed di x =
     (if o_status x = Completed \<and> o_data_index x = di
      then signed_size (o_side x) (o_executed_size x) else 0)"

definition executed_net :: "nat \<Rightarrow> broker \<Rightarrow> real" where
  "executed_net di b = sum_list (map (executed di) (b_all_orders b))"

definition size_of :: "nat \<Rightarrow> broker \<Rightarrow> real" where
  "size_of di b = p_size (position_of di b)"

definition pays_in :: "broker \<Rightarrow> currency \<Rightarrow> nat \<Rightarrow> real" where
  "pays_in b ccy di = (if settle_ccy di b = ccy then 1 else 0)"

text \<open>The invariant of the three ledgers, \<open>c\<close> the cash not explained by trades.\<close>

definition ledgers_ok :: "(currency \<Rightarrow> real) \<Rightarrow> broker \<Rightarrow> bool" where
  "ledgers_ok c b \<longleftrightarrow>
     (\<forall>di. size_of di b = executed_net di b \<and> size_of di b \<in> \<int> \<and> lot_ok di (size_of di b) b)
     \<and> (\<forall>e \<in> set (b_closed_trades b). closed_ok e)
     \<and> (\<forall>ccy. cash_of b ccy = c ccy + trade_total (pays_in b ccy) b)"

lemma size_of_cong: "b_positions b' = b_positions b \<Longrightarrow> size_of di b' = size_of di b"
  by (simp add: size_of_def position_of_def)

lemma find_position_index:
  "find (\<lambda>p. p_data_index p = di) ps = Some p \<Longrightarrow> p_data_index p = di"
  by (induction ps) (auto split: if_splits)

lemma ensure_fields [simp]:
  "b_all_orders (ensure_position di b) = b_all_orders b"
  "b_cash (ensure_position di b) = b_cash b"
  "b_open_trades (ensure_position di b) = b_open_trades b"
  "b_closed_trades (ensure_position di b) = b_closed_trades b"
  by (simp_all add: ensure_position_def)

lemma size_of_ensure [simp]: "size_of k (ensure_position di b) = size_of k b"
  by (auto simp: size_of_def position_of_def ensure_position_def find_append empty_position_def
      split: option.split)

lemma find_upd_other:
  assumes "\<And>p. p_data_index (f p) = p_data_index p" and "k \<noteq> di"
  shows "find (\<lambda>p. p_data_index p = k) (upd_first (\<lambda>p. p_data_index p = di) f ps)
       = find (\<lambda>p. p_data_index p = k) ps"
  using assms by (induction ps) auto

lemma size_of_update:
  assumes "size_of di b \<in> \<int>" and "s \<in> \<int>"
  shows "size_of k (update_position di s px (ensure_position di b))
       = size_of k b + (if k = di then s else 0)"
proof (cases "k = di")
  case True
  let ?b = "ensure_position di b"
  obtain p where p: "find (\<lambda>p. p_data_index p = di) (b_positions ?b) = Some p"
    by (cases "find (\<lambda>p. p_data_index p = di) (b_positions b)")
       (auto simp: ensure_position_def find_append)
  have "p_size p = size_of di b"
    using p size_of_ensure [of di di b] by (simp add: size_of_def position_of_def)
  moreover have "find (\<lambda>p. p_data_index p = di) (b_positions (update_position di s px ?b))
      = Some (position_update s px p)"
    using find_upd_first [OF p] find_position_index [OF p] by (simp add: update_position_def)
  ultimately show ?thesis
    using True int_dust [of "size_of di b + s"] assms
      size_of_def [of di "update_position di s px ?b"] position_of_def [of di "update_position di s px ?b"]
    by (simp add: p_size_update)
next
  case False
  then show ?thesis
    using size_of_ensure [of k di b]
    by (simp add: size_of_def position_of_def update_position_def find_upd_other)
qed

lemma trade_total_cong:
  "b_closed_trades b' = b_closed_trades b \<Longrightarrow> b_open_trades b' = b_open_trades b \<Longrightarrow>
     trade_total W b' = trade_total W b"
  by (simp add: trade_total_def)

lemma lot_ok_cong: "b_open_trades b' = b_open_trades b \<Longrightarrow> lot_ok di z b' = lot_ok di z b"
  by (simp add: lot_ok_def open_of_def)

text \<open>The effect of one booked fill on positions, trades and totals.\<close>

lemma book_fill_effect:
  assumes "lot_ok di (size_of di b) b" and "size_of di b \<in> \<int>" and "s \<in> \<int>" and "s \<noteq> 0"
    and b'_def: "b' = book_fill di s px c dt cand b"
  shows "size_of k b' = size_of k b + (if k = di then s else 0)
       \<and> trades_effect di (size_of di b + s) (s * px + c) W b b'"
proof -
  let ?b1 = "add_cash (settle_ccy di b) (- (s * px + c)) b"
  let ?b3 = "update_position di s px (ensure_position di ?b1)"
  have sz: "size_of k ?b1 = size_of k b" for k by (rule size_of_cong) (simp add: add_cash_def)
  have b': "b' = update_trades di (size_of di b) s px c dt cand ?b3"
    using sz [of di] size_of_ensure [of di di ?b1]
    by (simp add: b'_def book_fill_def get_position_def Let_def size_of_def)
  have tr: "b_open_trades ?b3 = b_open_trades b" "b_closed_trades ?b3 = b_closed_trades b"
    by (simp_all add: update_position_def ensure_position_def add_cash_def)
  have pos: "b_positions (update_trades di old s px c dt cand d) = b_positions d" for old d
    by (simp add: update_trades_def open_new_trade_def extend_trade_def reduce_trade_def
        close_trade_def notify_trade_def emit_def Let_def split: option.split prod.split)
  have "size_of k b' = size_of k ?b3" unfolding b' by (rule size_of_cong) (rule pos)
  then have 1: "size_of k b' = size_of k b + (if k = di then s else 0)"
    using size_of_update [of di ?b1 s k px] assms(2,3) sz by simp
  have "trades_effect di (size_of di b + s) (s * px + c) W ?b3 b'"
    unfolding b' using assms(1-4) lot_ok_cong [OF tr(1)] by (intro update_trades_effect) auto
  then have "trades_effect di (size_of di b + s) (s * px + c) W b b'"
    using tr by (simp add: trades_effect_def trade_total_def open_of_def)
  with 1 show ?thesis by simp
qed

lemma pays_in_cong: "same_setup b b' \<Longrightarrow> pays_in b' ccy = pays_in b ccy"
  by (auto simp: pays_in_def fun_eq_iff settle_ccy_def instrument_for_def same_setup_def
      split: option.splits)

lemma ledgers_okD:
  assumes "ledgers_ok c b"
  shows "executed_net di b = size_of di b" "size_of di b \<in> \<int>" "lot_ok di (size_of di b) b"
    "e \<in> set (b_closed_trades b) \<Longrightarrow> closed_ok e"
    "cash_of b ccy = c ccy + trade_total (pays_in b ccy) b"
  using assms unfolding ledgers_ok_def by metis+

lemma ledgers_okI:
  assumes "\<And>di. executed_net di b = size_of di b" "\<And>di. size_of di b \<in> \<int>"
    "\<And>di. lot_ok di (size_of di b) b" "\<And>e. e \<in> set (b_closed_trades b) \<Longrightarrow> closed_ok e"
    "\<And>ccy. cash_of b ccy = c ccy + trade_total (pays_in b ccy) b"
  shows "ledgers_ok c b"
  using assms unfolding ledgers_ok_def by metis

lemma ledgers_frame:
  assumes "ledgers_ok c b" and "same_setup b b'" and "\<And>k. size_of k b' = size_of k b"
    and "\<And>k. executed_net k b' = executed_net k b" and "b_cash b' = b_cash b"
    and "b_open_trades b' = b_open_trades b" and "b_closed_trades b' = b_closed_trades b"
  shows "ledgers_ok c b'"
proof -
  have cash: "cash_of b' ccy = cash_of b ccy" for ccy using assms(5) by (rule cash_of_cong)
  show ?thesis
    by (rule ledgers_okI)
       (simp_all only: assms(3,4,7) lot_ok_cong [OF assms(6)] trade_total_cong [OF assms(7,6)] cash
          pays_in_cong [OF assms(2)] ledgers_okD [OF assms(1)])
qed

lemma map_sync:
  assumes "find_order (o_id x) (b_all_orders b) = Some s" and "g s = g x"
  shows "map g (b_all_orders (sync x b)) = map g (b_all_orders b)"
proof -
  have "map g (store_first o_id x os) = map g os" if "find (\<lambda>y. o_id y = o_id x) os = Some s" for os
    using that assms(2) unfolding store_first_def by (induction os) (auto split: if_splits)
  then show ?thesis using assms(1) by (simp add: find_order_def sync_order_def)
qed

lemma sizes_ok_map:
  assumes "map o_size (b_all_orders b') = map o_size (b_all_orders b)"
  shows "sizes_ok b' = sizes_ok b"
proof -
  have "sizes_ok d = (\<forall>z \<in> set (map o_size (b_all_orders d)). z \<in> \<int> \<and> z \<noteq> 0)" for d
    by (simp add: sizes_ok_def)
  then show ?thesis by (simp only: assms)
qed

lemma executed_alive: "is_alive x \<Longrightarrow> executed k x = 0"
  by (auto simp: executed_def is_alive_def)

lemma find_order_mem: "find_order k os = Some s \<Longrightarrow> s \<in> set os"
  by (auto simp: find_order_def dest: find_key_Some)

lemma ledgers_fill:
  assumes L: "ledgers_ok c b" and so: "sizes_ok b"
    and f: "find_order (o_id x) (b_all_orders b) = Some s" "is_alive s" "is_alive x" "same_terms s x"
    and b': "b' = sync (filled_order x px comm)
       (book_fill (o_data_index x) (signed_size (o_side x) (o_size x)) px comm dt cand b)"
    and stp: "same_setup b b'"
  shows "ledgers_ok c b'"
proof -
  let ?di = "o_data_index x" and ?z = "signed_size (o_side x) (o_size x)"
  let ?bf = "book_fill ?di ?z px comm dt cand b" and ?y = "filled_order x px comm"
  note F = filled_order_fields [OF f(3), of px comm]
  have "o_size x = o_size s" using f(4) by (simp add: same_terms_def)
  then have z: "?z \<in> \<int>" "?z \<noteq> 0"
    using so find_order_mem [OF f(1)] by (auto simp: sizes_ok_def signed_size_def)
  have lot: "lot_ok ?di (size_of ?di b) b" "size_of ?di b \<in> \<int>" using ledgers_okD [OF L] by auto
  note E = book_fill_effect [OF lot z refl, of _ px comm dt cand]
  have trades: "b_open_trades b' = b_open_trades ?bf" "b_closed_trades b' = b_closed_trades ?bf"
    by (simp_all add: b')
  have size: "size_of k b' = size_of k b + (if k = ?di then ?z else 0)" for k
    using E [of k] size_of_cong [of b' ?bf k] by (simp add: b')
  have net: "executed_net k b' = executed_net k b + (if k = ?di then ?z else 0)" for k
  proof -
    have "find_order (o_id ?y) (b_all_orders ?bf) = Some s" using f(1) F(8) by simp
    then have "executed_net k b' = executed_net k b - executed k s + executed k ?y"
      using sum_sync [of ?y ?bf s "executed k"] by (simp add: b' executed_net_def)
    then show ?thesis using executed_alive [OF f(2)] by (simp add: executed_def F)
  qed
  have lots: "lot_ok k (size_of k b') b'" for k
  proof -
    have "lot_ok k (size_of k b) b" using ledgers_okD [OF L] by simp
    then show ?thesis
      using E [of k] size [of k] trades
      by (cases "k = ?di") (auto simp: trades_effect_def lot_ok_def open_of_def)
  qed
  have closed: "closed_ok e" if "e \<in> set (b_closed_trades b')" for e
    proof -
    have "e \<in> set (b_closed_trades b) \<or> closed_ok e"
      using E [of 0] that unfolding trades(2) trades_effect_def by blast
    then show ?thesis using ledgers_okD(4) [OF L] by blast
  qed
  have cash: "cash_of b' ccy = c ccy + trade_total (pays_in b' ccy) b'" for ccy
  proof -
    have "trade_total (pays_in b ccy) b' = trade_total (pays_in b ccy) b - pays_in b ccy ?di * (?z * px + comm)"
      using E trade_total_cong [OF trades(2,1)] by (simp add: trades_effect_def)
    moreover have "cash_of b' ccy = cash_of b ccy - pays_in b ccy ?di * (?z * px + comm)"
      by (simp add: b' cash_book_fill pays_in_def)
    moreover have "cash_of b ccy = c ccy + trade_total (pays_in b ccy) b" by (rule ledgers_okD [OF L])
    ultimately show ?thesis by (simp add: pays_in_cong [OF stp])
  qed
  show ?thesis
  proof (rule ledgers_okI)
    show "executed_net k b' = size_of k b'" "size_of k b' \<in> \<int>" for k
      using ledgers_okD(1,2) [OF L, of k] z(1) size net by simp_all
  qed (use lots closed cash in auto)
qed

lemma ledgers_step:
  assumes st: "book_step b b'" and L: "sizes_ok b \<longrightarrow> ledgers_ok c b" and so: "sizes_ok b'"
  shows "ledgers_ok c b'"
proof -
  note stp = book_step_setup [OF st]
  show ?thesis
    using st
  proof (cases rule: book_step.cases)
    case (frame ps es n g)
    then have "sizes_ok b" using so by (simp add: sizes_ok_def)
    then show ?thesis
      using L frame by (intro ledgers_frame [OF _ stp]) (auto simp: size_of_def position_of_def executed_net_def)
  next
    case (touch di)
    then have "sizes_ok b" using so by (simp add: sizes_ok_def ensure_position_def split: if_splits)
    then show ?thesis
      using L touch by (intro ledgers_frame [OF _ stp]) (auto simp: executed_net_def)
  next
    case (register x)
    then have "sizes_ok b" using so by (simp add: sizes_ok_def enqueue_def)
    moreover have "executed k x = 0" for k using register(3) by (simp add: executed_def)
    ultimately show ?thesis
      using L register by (intro ledgers_frame [OF _ stp])
        (auto simp: size_of_def position_of_def executed_net_def enqueue_def)
  next
    case (amend x s)
    have "o_size s = o_size x" using amend(4) by (simp add: same_terms_def)
    then have "sizes_ok b" using so sizes_ok_map [OF map_sync [OF amend(2)]] amend(1) by simp
    moreover have "executed k s = 0" "executed k x = 0" for k
      using executed_alive [OF amend(3)] amend(5) by (simp_all add: executed_def [of k x])
    ultimately show ?thesis
      using L amend(1) sum_sync [OF amend(2), of "executed _"]
      by (intro ledgers_frame [OF _ stp])
         (auto simp: size_of_def position_of_def executed_net_def)
  next
    case (fill x s raw q px comm)
    let ?y = "filled_order x px comm"
    let ?bf = "book_fill (o_data_index x) (signed_size (o_side x) (o_size x)) px comm (q_dt q)
                 (o_candidate_id x) b"
    note F = filled_order_fields [OF fill(4), of px comm]
    have "find_order (o_id ?y) (b_all_orders ?bf) = Some s" "o_size s = o_size ?y"
      using fill(2,5) F by (simp_all add: same_terms_def)
    from sizes_ok_map [OF map_sync [of ?y ?bf s o_size, OF this]]
    have "sizes_ok b" using so fill(1) by (simp add: sizes_ok_def)
    then show ?thesis using L ledgers_fill [OF _ _ fill(2-5) fill(1) stp] by simp
  qed
qed

interpretation ledgers: preserved book_step "\<lambda>b. sizes_ok b \<longrightarrow> ledgers_ok c b" for c
  by unfold_locales (simp add: ledgers_step)

lemma new_broker_ledgers:
  "ledgers_ok (\<lambda>ccy. if ccy = base then c else 0) (new_broker base c fx)"
  by (simp add: ledgers_ok_def size_of_def position_of_def new_broker_def empty_position_def
      executed_net_def lot_ok_def open_of_def cash_of_def trade_total_def)


definition round_trip :: "client_call list" where
  "round_trip = [Place Buy 2 0 None Market 0, Bar [Some demo_quote], CloseOut 0,
     Bar [Some (demo_quote\<lparr>q_open := 11\<rparr>)]]"

lemma round_trip_result:
  "\<exists>b. client_run round_trip (new_broker USD 100 None) = Inr b \<and> sizes_ok b \<and> cash b = 102
     \<and> length (b_closed_trades b) = 1"
  by (simp add: round_trip_def run_eval Let_def sizes_ok_def upt_rec)


end
