(* ===== verification/Backtest.thy ===== *)
theory Backtest
  imports Cerebro Reconcile
begin

text \<open>
  \<^verbatim>\<open>engine/cerebro.hpp\<close> together with the broker: a backtest whose strategies touch the
  broker only through its public calls is itself a history of client calls, so that the
  refinement and the reconciliation theorems of the broker speak about whole runs; and the
  runs that the engine refuses.
\<close>

subsection \<open>Reaching a broker state by client calls\<close>

definition client_reach :: "broker \<Rightarrow> broker \<Rightarrow> bool" where
  "client_reach b b' \<longleftrightarrow> (\<exists>cs. admissible_run cs b \<and> client_run cs b = Inr b')"

lemma client_run_append: "client_run (cs @ ds) b = bind_r (client_run cs b) (client_run ds)"
proof (induction cs arbitrary: b)
  case (Cons c cs)
  then show ?case by (cases "client_step c b") simp_all
qed simp

lemma admissible_run_append:
  "admissible_run cs b \<Longrightarrow> client_run cs b = Inr b' \<Longrightarrow> admissible_run ds b' \<Longrightarrow> admissible_run (cs @ ds) b"
  by (induction cs arbitrary: b) (auto split: sum.splits)

lemma client_reach_refl [simp]: "client_reach b b"
  unfolding client_reach_def by (rule exI [of _ "[]"]) simp

lemma client_reach_trans [trans]: "client_reach a b \<Longrightarrow> client_reach b c \<Longrightarrow> client_reach a c"
  unfolding client_reach_def
proof (elim exE conjE)
  fix cs ds
  assume "admissible_run cs a" "client_run cs a = Inr b" "admissible_run ds b" "client_run ds b = Inr c"
  then show "\<exists>es. admissible_run es a \<and> client_run es a = Inr c"
    by (intro exI [of _ "cs @ ds"]) (simp add: client_run_append admissible_run_append)
qed

lemma client_reach_step: "admissible c b \<Longrightarrow> client_step c b = Inr b' \<Longrightarrow> client_reach b b'"
  unfolding client_reach_def by (rule exI [of _ "[c]"]) simp

lemma client_reach_bar_index: "client_reach b (set_bar_index n b)"
  by (rule client_reach_step [of "BarIndex n"]) simp_all

lemma client_reach_orders: "client_reach b (process_orders views b)"
  by (rule client_reach_step [of "Bar views"]) simp_all

subsection \<open>A run is a history of client calls\<close>

text \<open>The hooks of a strategy change the state they share only within a relation.\<close>

definition hook_within :: "('b \<Rightarrow> 'b \<Rightarrow> bool) \<Rightarrow> ('u, 'b) hook \<Rightarrow> bool" where
  "hook_within R h \<longleftrightarrow> (\<forall>feeds s u b s' u' b'. h feeds (s, u, b) = Inr (s', u', b') \<longrightarrow> R b b')"

definition class_within :: "('b \<Rightarrow> 'b \<Rightarrow> bool) \<Rightarrow> ('u, 'b) strategy_class \<Rightarrow> bool" where
  "class_within R cls \<longleftrightarrow> hook_within R (cls_init cls) \<and> hook_within R (cls_start cls) \<and> hook_within R (cls_prenext cls)
     \<and> hook_within R (cls_nextstart cls) \<and> hook_within R (cls_next cls) \<and> hook_within R (cls_stop cls)"

locale shared_state =
  fixes R :: "'b \<Rightarrow> 'b \<Rightarrow> bool"
  assumes stays: "R b b" and onward: "R a b \<Longrightarrow> R b c \<Longrightarrow> R a c"
begin

lemma call_hook_within:
  assumes "hook_within R h" and "call_hook h feeds c b = Inr (c', b')"
  shows "R b b' \<and> cl_class c' = cl_class c"
  using assms by (auto simp: call_hook_def bind_r_Inr hook_within_def)

lemma init_cell_within:
  assumes "class_within R (cl_class c)" and "init_cell feeds c b = Inr (c', b')"
  shows "R b b' \<and> cl_class c' = cl_class c"
proof -
  let ?c0 = "c\<lparr>cl_base := ensure_params_initialized (cls_default_params (cl_class c))
      (set_data_feeds [0..<length feeds] feeds (set_broker True (cl_base c))), cl_entered := False\<rparr>"
  have cls: "hook_within R (cls_init (cl_class c))" "hook_within R (cls_start (cl_class c))"
    using assms(1) by (simp_all add: class_within_def)
  obtain c1 b1 where "call_hook (cls_init (cl_class c)) feeds ?c0 b = Inr (c1, b1)"
    "call_hook (cls_start (cl_class c)) feeds c1 b1 = Inr (c', b')"
    using assms(2) by (auto simp: init_cell_def Let_def bind_r_Inr)
  from call_hook_within [OF cls(1) this(1)] call_hook_within [OF cls(2) this(2)]
  show ?thesis by (auto intro: onward)
qed

lemma lifecycle_within:
  assumes "class_within R (cl_class c)" and "lifecycle bar slots c st = Inr (c', st')"
  shows "R (fst st) (fst st') \<and> cl_class c' = cl_class c"
proof -
  have cls: "hook_within R (cls_prenext (cl_class c))" "hook_within R (cls_nextstart (cl_class c))"
    "hook_within R (cls_next (cl_class c))" using assms(1) by (simp_all add: class_within_def)
  let ?feeds = "map sl_data slots"
  have reach: "R (fst st) (fst st') \<and> cl_class c' = cl_class c"
    if "hook_within R h" "cl_class c0 = cl_class c" "call_hook h ?feeds c0 (fst st) = Inr (c', fst st')" for h c0
    using call_hook_within [OF that(1,3)] that(2) by simp
  have rcl: "cl_class (record_call bar ph slots c0) = cl_class c0" for ph c0
    by (simp add: record_call_def)
  show ?thesis
  proof (cases "cl_entered c")
    case True
    then have "call_hook (cls_next (cl_class c)) ?feeds (record_call bar Next slots c) (fst st) = Inr (c', fst st')"
      using assms(2) by (auto simp: lifecycle_def Let_def bind_r_Inr split: prod.splits)
    then show ?thesis using reach [OF cls(3)] rcl by blast
  next
    case not_entered: False
    show ?thesis
    proof (cases "all_ready slots (cl_base c)")
      case True
      then have "call_hook (cls_nextstart (cl_class c)) ?feeds
          (record_call bar Nextstart slots (c\<lparr>cl_entered := True\<rparr>)) (fst st) = Inr (c', fst st')"
        using assms(2) not_entered by (auto simp: lifecycle_def Let_def bind_r_Inr split: prod.splits)
      moreover have "cl_class (record_call bar Nextstart slots (c\<lparr>cl_entered := True\<rparr>)) = cl_class c"
        by (simp add: rcl)
      ultimately show ?thesis using reach [OF cls(2)] by blast
    next
      case False
      then have "call_hook (cls_prenext (cl_class c)) ?feeds (record_call bar Prenext slots c) (fst st)
          = Inr (c', fst st')"
        using assms(2) not_entered by (auto simp: lifecycle_def Let_def bind_r_Inr split: prod.splits)
      then show ?thesis using reach [OF cls(1)] rcl by blast
    qed
  qed
qed

text \<open>The loop over the strategies, for any of the two bodies.\<close>

lemma cells_within:
  assumes "map_state_r f cs s = Inr (cs', t)" and "\<forall>c \<in> set cs. class_within R (cl_class c)"
    and "\<And>c s c' t. class_within R (cl_class c) \<Longrightarrow> f c s = Inr (c', t) \<Longrightarrow>
           R (br s) (br t) \<and> cl_class c' = cl_class c"
  shows "R (br s) (br t) \<and> (\<forall>c \<in> set cs'. class_within R (cl_class c))"
proof -
  have "R (br s) (br t) \<and> list_all2 (\<lambda>c c'. class_within R (cl_class c')) cs cs'"
  proof (rule map_state_r_invariant [OF assms(1)])
    fix c u c' v
    assume "c \<in> set cs" "f c u = Inr (c', v)" "R (br s) (br u)"
    then show "R (br s) (br v) \<and> class_within R (cl_class c')"
      using assms(2,3) onward by metis
  qed (simp add: stays)
  then show ?thesis by (metis in_set_conv_nth list_all2_conv_all_nth)
qed

end

interpretation trading: shared_state client_reach
  by unfold_locales (rule client_reach_refl, rule client_reach_trans)

abbreviation hook_trades :: "('u, broker) hook \<Rightarrow> bool" where
  "hook_trades \<equiv> hook_within client_reach"

abbreviation class_trades :: "('u, broker) strategy_class \<Rightarrow> bool" where
  "class_trades \<equiv> class_within client_reach"

lemma bar_step_reach:
  assumes "bar_step N n rs = Inr rs'" and "\<forall>c \<in> set (rs_cells rs). class_trades (cl_class c)"
  shows "client_reach (rs_broker rs) (rs_broker rs') \<and> (\<forall>c \<in> set (rs_cells rs'). class_trades (cl_class c))"
proof -
  let ?b0 = "set_bar_index n (rs_broker rs)"
  obtain slots w w' where
    run: "map_state_r (lifecycle n slots) (map (propagate slots) (rs_cells rs))
            (process_orders (views_of (map sl_data slots)) ?b0, w) = Inr (rs_cells rs', (rs_broker rs', w'))"
    using assms(1) by (auto simp: bar_step_def Let_def bind_r_Inr split_beta)
  have "\<forall>c \<in> set (map (propagate slots) (rs_cells rs)). class_trades (cl_class c)"
    using assms(2) by (auto simp: propagate_def)
  from trading.cells_within [OF run this, of fst] trading.lifecycle_within
  have "client_reach (process_orders (views_of (map sl_data slots)) ?b0) (rs_broker rs')
      \<and> (\<forall>c \<in> set (rs_cells rs'). class_trades (cl_class c))" by force
  then show ?thesis
    using client_reach_trans [OF client_reach_trans [OF client_reach_bar_index client_reach_orders]] by blast
qed

definition notifying :: "broker \<Rightarrow> broker" where
  "notifying b = set_trade_notify True (set_order_notify True b)"

lemma engine_run_reach:
  assumes "cerebro_run opts e = Inr e'" and "en_sources e = src # srcs" and "src_bars src \<noteq> []"
    and "\<forall>c \<in> set (en_cells e). class_trades (cl_class c)"
  shows "client_reach (notifying (en_broker e)) (en_broker e')"
proof -
  let ?feeds = "map preload_source (src # srcs)" and ?n = "length (src_bars src)"
  let ?ok = "\<lambda>cs. \<forall>c \<in> set cs. class_trades (cl_class c)"
  obtain rs rs' where prep: "prepare ?feeds e = Inr rs"
    and loop: "fold_r (bar_step ?n) [0..<?n] rs = Inr rs'" and fin: "finish rs' e = Inr e'"
    using cerebro_run_stages [OF assms(1-3)] by blast
  have "map_state_r (init_cell ?feeds) (en_cells e) (notifying (en_broker e)) = Inr (rs_cells rs, rs_broker rs)"
    using prep by (auto simp: prepare_def notifying_def Let_def bind_r_Inr split_beta)
  from trading.cells_within [OF this assms(4), of id] trading.init_cell_within
  have 1: "client_reach (notifying (en_broker e)) (rs_broker rs) \<and> ?ok (rs_cells rs)" by force
  have 2: "client_reach (notifying (en_broker e)) (rs_broker rs') \<and> ?ok (rs_cells rs')"
  proof (rule fold_r_invariant [OF loop, where P = "\<lambda>rs. client_reach (notifying (en_broker e)) (rs_broker rs)
      \<and> ?ok (rs_cells rs)"])
    fix n r r'
    assume "bar_step ?n n r = Inr r'"
      "client_reach (notifying (en_broker e)) (rs_broker r) \<and> ?ok (rs_cells r)"
    then show "client_reach (notifying (en_broker e)) (rs_broker r') \<and> ?ok (rs_cells r')"
      using bar_step_reach client_reach_trans by blast
  qed (rule 1)
  let ?stop = "\<lambda>c b. call_hook (cls_stop (cl_class c)) (map sl_data (rs_slots rs')) c b"
  have "map_state_r ?stop (rs_cells rs') (rs_broker rs') = Inr (en_cells e', en_broker e')"
    using fin by (auto simp: finish_def bind_r_Inr split_beta)
  moreover have "client_reach b b' \<and> cl_class c' = cl_class c"
    if "class_trades (cl_class c)" "?stop c b = Inr (c', b')" for c b c' b'
    using that trading.call_hook_within by (metis class_within_def)
  ultimately have "client_reach (rs_broker rs') (en_broker e')"
    using trading.cells_within [of ?stop "rs_cells rs'" "rs_broker rs'" "en_cells e'" "en_broker e'" id] 2
    unfolding id_apply by blast
  then show ?thesis using 2 client_reach_trans by blast
qed

subsection \<open>Runs that return\<close>

definition hook_total :: "('u, 'b) hook \<Rightarrow> bool" where
  "hook_total h \<longleftrightarrow> (\<forall>feeds st. \<exists>st'. h feeds st = Inr st')"

definition class_total :: "('u, 'b) strategy_class \<Rightarrow> bool" where
  "class_total cls \<longleftrightarrow> hook_total (cls_init cls) \<and> hook_total (cls_start cls) \<and> hook_total (cls_prenext cls)
     \<and> hook_total (cls_nextstart cls) \<and> hook_total (cls_next cls) \<and> hook_total (cls_stop cls)"

definition monitor_total :: "'m monitor \<Rightarrow> bool" where
  "monitor_total m \<longleftrightarrow> (\<forall>b feeds x. \<exists>y. mo_next m b feeds x = Inr y)"

definition keeps_periods :: "('u, 'b) hook \<Rightarrow> bool" where
  "keeps_periods h \<longleftrightarrow> (\<forall>feeds s u b s' u' b'. h feeds (s, u, b) = Inr (s', u', b') \<longrightarrow>
      st_min_periods s' = st_min_periods s)"

lemma map_state_r_total:
  assumes "\<And>x s. x \<in> set xs \<Longrightarrow> \<exists>y t. f x s = Inr (y, t)"
  shows "\<exists>ys t. map_state_r f xs s = Inr (ys, t)"
  using assms
proof (induction xs arbitrary: s)
  case (Cons x xs)
  obtain y t where "f x s = Inr (y, t)" using Cons.prems [of x s] by auto
  moreover obtain ys u where "map_state_r f xs t = Inr (ys, u)" using Cons by (metis list.set_intros(2))
  ultimately show ?case by simp
qed simp

lemma map_r_total: "(\<And>x. x \<in> set xs \<Longrightarrow> \<exists>y. f x = Inr y) \<Longrightarrow> \<exists>ys. map_r f xs = Inr ys"
proof (induction xs)
  case (Cons x xs)
  then obtain y ys where "f x = Inr y" "map_r f xs = Inr ys" by (metis list.set_intros(1,2))
  then show ?case by simp
qed simp

lemma call_hook_total:
  assumes "hook_total h"
  shows "\<exists>c' b'. call_hook h feeds c b = Inr (c', b') \<and> cl_class c' = cl_class c"
proof -
  obtain st' where "h feeds (cl_base c, cl_state c, b) = Inr st'"
    using assms unfolding hook_total_def by blast
  then show ?thesis by (cases st') (simp add: call_hook_def)
qed

lemma lifecycle_total:
  assumes "class_total (cl_class c)"
  shows "\<exists>c' st'. lifecycle bar slots c st = Inr (c', st') \<and> cl_class c' = cl_class c"
proof -
  obtain b w where st: "st = (b, w)" by (cases st)
  have each: "\<exists>c' b'. call_hook h (map sl_data slots) (record_call bar ph slots c0) b = Inr (c', b')
      \<and> cl_class c' = cl_class c0" if "hook_total h" for h ph c0
    using call_hook_total [OF that, of "map sl_data slots" "record_call bar ph slots c0" b]
    by (simp add: record_call_def)
  have h: "hook_total (cls_next (cl_class c))" "hook_total (cls_nextstart (cl_class c))"
    "hook_total (cls_prenext (cl_class c))" using assms by (simp_all add: class_total_def)
  show ?thesis
    using each [OF h(1), of Next c] each [OF h(2), of Nextstart "c\<lparr>cl_entered := True\<rparr>"]
      each [OF h(3), of Prenext c]
    by (auto simp: lifecycle_def st Let_def)
qed

definition all_total :: "('u, 'm) run_state \<Rightarrow> bool" where
  "all_total rs \<longleftrightarrow> (\<forall>c \<in> set (rs_cells rs). class_total (cl_class c))
     \<and> (\<forall>m \<in> set (rs_analyzers rs) \<union> set (rs_observers rs). monitor_total m)"

lemma monitors_total:
  assumes "\<forall>m \<in> set ms. monitor_total m"
  shows "\<exists>ms'. map_r (monitor_next b feeds) ms = Inr ms' \<and> (\<forall>m \<in> set ms'. monitor_total m)"
proof -
  have each: "\<exists>y. monitor_next b feeds m = Inr y" if "m \<in> set ms" for m
  proof -
    have "\<exists>y. mo_next m b feeds (mo_state m) = Inr y"
      using assms that unfolding monitor_total_def by blast
    then show ?thesis by (auto simp: monitor_next_def)
  qed
  then obtain ms' where r: "map_r (monitor_next b feeds) ms = Inr ms'"
    using map_r_total [of ms "monitor_next b feeds"] by blast
  have "monitor_total (ms' ! i)" if "i < length ms'" for i
  proof -
    have "monitor_next b feeds (ms ! i) = Inr (ms' ! i)" "monitor_total (ms ! i)"
      using r that assms by (simp_all add: map_r_Inr)
    then obtain x where x: "(ms ! i)\<lparr>mo_state := x\<rparr> = ms' ! i" and mt: "monitor_total (ms ! i)"
      by (auto simp: monitor_next_def bind_r_Inr)
    have "monitor_total ((ms ! i)\<lparr>mo_state := x\<rparr>)" using mt by (simp add: monitor_total_def)
    then show ?thesis unfolding x .
  qed
  then show ?thesis using r by (auto simp: in_set_conv_nth)
qed

lemma bar_step_total:
  assumes "all_total rs" and "align n (rs_slots rs) = Inr slots"
  shows "\<exists>rs'. bar_step N n rs = Inr rs' \<and> all_total rs'"
proof -
  let ?cells = "map (propagate slots) (rs_cells rs)"
  let ?b = "process_orders (views_of (map sl_data slots)) (set_bar_index n (rs_broker rs))"
  have total: "\<forall>c \<in> set ?cells. class_total (cl_class c)"
    using assms(1) by (auto simp: all_total_def propagate_def)
  have "\<exists>c' st'. lifecycle n slots c st = Inr (c', st')" if "c \<in> set ?cells" for c st
    using lifecycle_total total that by blast
  then obtain cs st where run: "map_state_r (lifecycle n slots) ?cells (?b, rs_warmup_ms rs) = Inr (cs, st)"
    using map_state_r_total [of ?cells "lifecycle n slots"] by blast
  have "class_total (cl_class c) \<longrightarrow> cl_class c' = cl_class c"
    if "lifecycle n slots c u = Inr (c', v)" for c u c' v
    using lifecycle_total [of c n slots u] that by auto
  then have cs: "class_total (cl_class c')" if "c' \<in> set cs" for c'
    using map_state_r_each [OF run _ that, of "\<lambda>c c'. class_total (cl_class c) \<longrightarrow> cl_class c' = cl_class c"]
      total by (metis (full_types))
  obtain b w where st: "st = (b, w)" by (cases st)
  obtain ms os where "map_r (monitor_next b (map sl_data slots)) (rs_analyzers rs) = Inr ms"
    "map_r (monitor_next b (map sl_data slots)) (rs_observers rs) = Inr os"
    "\<forall>m \<in> set ms \<union> set os. monitor_total m"
    using monitors_total [of "rs_analyzers rs"] monitors_total [of "rs_observers rs"] assms(1)
    unfolding all_total_def by (metis Un_iff)
  then show ?thesis using cs run by (simp add: bar_step_def Let_def assms(2) st all_total_def)
qed

lemma bar_loop_total:
  assumes "all_total rs0" and "rs_slots rs0 = map new_slot feeds"
    and "\<forall>c \<in> set (rs_cells rs0). calls_ok feeds 0 c"
    and clock: "\<And>n. n < N \<Longrightarrow> \<exists>slots. clock_at feeds n = Inr slots"
    and "n \<le> N"
  shows "\<exists>rs. fold_r (bar_step N) [0..<n] rs0 = Inr rs \<and> all_total rs"
  using assms(5)
proof (induction n)
  case 0
  then show ?case using assms(1) by simp
next
  case (Suc n)
  then obtain rs where rs: "fold_r (bar_step N) [0..<n] rs0 = Inr rs" "all_total rs" by auto
  have "align n (rs_slots rs) = clock_at feeds n"
    using bar_loop_calls [OF rs(1) _ assms(2,3)] Suc.prems by simp
  moreover obtain slots where "clock_at feeds n = Inr slots" using clock [of n] Suc.prems by auto
  ultimately have "align n (rs_slots rs) = Inr slots" by simp
  then obtain rs' where "bar_step N n rs = Inr rs'" "all_total rs'"
    using bar_step_total [OF rs(2)] by blast
  then show ?case using rs(1) by (simp add: fold_r_append)
qed

text \<open>Preparation: the hooks are total and leave the minimum periods alone, the warm-up fits.\<close>

definition fits :: "nfeed list \<Rightarrow> ('u, 'b) cell \<Rightarrow> bool" where
  "fits feeds c \<longleftrightarrow> class_total (cl_class c)
     \<and> keeps_periods (cls_init (cl_class c)) \<and> keeps_periods (cls_start (cl_class c))
     \<and> warmup_short feeds (cl_base c) = None"

lemma call_hook_periods:
  "keeps_periods h \<Longrightarrow> call_hook h feeds c b = Inr (c', b') \<Longrightarrow>
     st_min_periods (cl_base c') = st_min_periods (cl_base c)"
  unfolding keeps_periods_def by (auto simp: call_hook_def bind_r_Inr) blast

lemma warmup_short_cong: "st_min_periods s' = st_min_periods s \<Longrightarrow> warmup_short feeds s' = warmup_short feeds s"
  by (simp add: warmup_short_def minimum_period_def)

lemma init_cell_total:
  assumes "fits feeds c"
  shows "\<exists>c' b'. init_cell feeds c b = Inr (c', b') \<and> fits feeds c'"
proof -
  let ?c0 = "c\<lparr>cl_base := ensure_params_initialized (cls_default_params (cl_class c))
      (set_data_feeds [0..<length feeds] feeds (set_broker True (cl_base c))), cl_entered := False\<rparr>"
  have h: "hook_total (cls_init (cl_class c))" "hook_total (cls_start (cl_class c))"
    "keeps_periods (cls_init (cl_class c))" "keeps_periods (cls_start (cl_class c))"
    using assms by (simp_all add: fits_def class_total_def)
  obtain c1 b1 where 1: "call_hook (cls_init (cl_class c)) feeds ?c0 b = Inr (c1, b1)" "cl_class c1 = cl_class ?c0"
    using call_hook_total [OF h(1)] by blast
  obtain c2 b2 where 2: "call_hook (cls_start (cl_class c)) feeds c1 b1 = Inr (c2, b2)" "cl_class c2 = cl_class c1"
    using call_hook_total [OF h(2)] by blast
  have "st_min_periods (cl_base ?c0) = st_min_periods (cl_base c)"
    by (simp add: ensure_params_initialized_def set_params_def set_data_feeds_def rebuild_data_lookup_def
        set_broker_def Let_def)
  then have "warmup_short feeds (cl_base c2) = warmup_short feeds (cl_base c)"
    using call_hook_periods [OF h(3) 1(1)] call_hook_periods [OF h(4) 2(1)] by (intro warmup_short_cong) simp
  then have "fits feeds c2" using assms 1(2) 2(2) by (simp add: fits_def)
  then show ?thesis using 1(1) 2(1) by (simp add: init_cell_def Let_def)
qed

lemma prepare_total:
  assumes "\<forall>c \<in> set (en_cells e). fits feeds c"
    and "\<forall>m \<in> set (en_analyzers e) \<union> set (en_observers e). monitor_total m"
  shows "\<exists>rs. prepare feeds e = Inr rs \<and> all_total rs"
proof -
  have "\<exists>c' b'. init_cell feeds c b = Inr (c', b')" if "c \<in> set (en_cells e)" for c and b :: broker
    using init_cell_total [of feeds c b] assms(1) that by blast
  then obtain cs b where run: "map_state_r (init_cell feeds) (en_cells e) (notifying (en_broker e)) = Inr (cs, b)"
    using map_state_r_total [of "en_cells e" "init_cell feeds"] by blast
  have "fits feeds c \<longrightarrow> fits feeds c'" if "init_cell feeds c u = Inr (c', v)" for c c' :: "('a, broker) cell" and u v
    using init_cell_total [of feeds c u] that by auto
  then have cs: "fits feeds c'" if "c' \<in> set cs" for c'
    using map_state_r_each [OF run _ that, of "\<lambda>c c'. fits feeds c \<longrightarrow> fits feeds c'"] assms(1) by blast
  then have "check_warmup_feasibility feeds cs = Inr ()"
    by (induction cs) (simp_all add: fits_def)
  then show ?thesis
    using cs run assms(2) by (auto simp: prepare_def notifying_def [symmetric] Let_def all_total_def fits_def monitor_total_def)
qed

lemma finish_total: "all_total rs \<Longrightarrow> \<exists>e'. finish rs e = Inr e'"
proof -
  assume total: "all_total rs"
  let ?stop = "\<lambda>c b. call_hook (cls_stop (cl_class c)) (map sl_data (rs_slots rs)) c b"
  have "\<exists>c' b'. ?stop c b = Inr (c', b')" if "c \<in> set (rs_cells rs)" for c b
    using total that call_hook_total by (metis all_total_def class_total_def)
  then obtain cs b where "map_state_r ?stop (rs_cells rs) (rs_broker rs) = Inr (cs, b)"
    using map_state_r_total [of "rs_cells rs" ?stop] by blast
  then show ?thesis by (simp add: finish_def)
qed

text \<open>What an engine needs to run to the end.\<close>

definition runnable :: "('u, 'm) engine \<Rightarrow> bool" where
  "runnable e \<longleftrightarrow>
     (case en_sources e of
        [] \<Rightarrow> False
      | m # cs \<Rightarrow> src_bars m \<noteq> [] \<and> sorted (src_times m)
          \<and> (\<forall>src \<in> set (m # cs). valid_tfc (nf_tfc (src_feed src))
               \<and> \<not> finer_than (nf_tfc (src_feed src)) (nf_tfc (src_feed m))))
     \<and> (\<forall>c \<in> set (en_cells e). cl_calls c = [] \<and> fits (map preload_source (en_sources e)) c)
     \<and> (\<forall>m \<in> set (en_analyzers e) \<union> set (en_observers e). monitor_total m)"

lemma runnable_returns:
  assumes "runnable e" and "ro_preload opts"
  shows "\<exists>e'. cerebro_run opts e = Inr e'"
proof -
  obtain m cs where src: "en_sources e = m # cs" using assms(1) by (auto simp: runnable_def split: list.splits)
  let ?feeds = "map preload_source (m # cs)" and ?n = "length (src_bars m)"
  have R: "src_bars m \<noteq> []" "sorted (src_times m)"
      "\<forall>src \<in> set (m # cs). valid_tfc (nf_tfc (src_feed src))"
      "\<forall>src \<in> set (m # cs). \<not> finer_than (nf_tfc (src_feed src)) (nf_tfc (src_feed m))"
      "\<forall>c \<in> set (en_cells e). cl_calls c = []" "\<forall>c \<in> set (en_cells e). fits ?feeds c"
      "\<forall>m \<in> set (en_analyzers e) \<union> set (en_observers e). monitor_total m"
    using assms(1) unfolding runnable_def src by auto
  have size: "feed_size (nf_feed (preload_source m)) = ?n"
    by (simp add: preload_source_def feed_of_bars_def feed_size_def line_size_def Let_def)
  have tfc: "nf_tfc (preload_source x) = nf_tfc (src_feed x)" for x by (simp add: preload_source_def)
  have "\<not> finer_than (nf_tfc (?feeds ! k)) (nf_tfc (?feeds ! 0))" if "k < length ?feeds" for k
  proof -
    have "?feeds ! k = preload_source ((m # cs) ! k)" using that by (simp only: nth_map length_map)
    moreover have "(m # cs) ! k \<in> set (m # cs)" using that by (simp only: nth_mem length_map)
    ultimately show ?thesis using R(4) by (simp only: tfc list.map nth_Cons_0) blast
  qed
  then have fine: "finer_context ?feeds = None"
    unfolding finer_context_def find_None_iff set_upt by simp
  obtain rs where rs: "prepare ?feeds e = Inr rs" "all_total rs" using prepare_total [OF R(6,7)] by blast
  have slots: "rs_slots rs = map new_slot ?feeds" "\<forall>c \<in> set (rs_cells rs). calls_ok ?feeds 0 c"
    using prepare_calls [OF rs(1) R(5)] by auto
  obtain rs' where rs': "fold_r (bar_step ?n) [0..<?n] rs = Inr rs'" "all_total rs'"
    using bar_loop_total [OF rs(2) slots, of ?n ?n] clock_at_slots [OF R(3,2)] by blast
  obtain e' where "finish rs' e = Inr e'" using finish_total [OF rs'(2)] by blast
  then show ?thesis
    using rs(1) rs'(1) fine R(1) assms(2) by (simp add: cerebro_run_def src size Let_def)
qed

subsection \<open>Properties of whole backtests\<close>

text \<open>An engine for the examples: one feed of two daily bars, one strategy that does nothing.\<close>

definition idle_hook :: "('u, 'b) hook" where
  "idle_hook feeds st = Inr st"

definition idle_class :: "('u, 'b) strategy_class" where
  "idle_class = \<lparr>cls_default_params = Map.empty, cls_init = idle_hook, cls_start = idle_hook,
     cls_prenext = idle_hook, cls_nextstart = idle_hook, cls_next = idle_hook, cls_stop = idle_hook\<rparr>"

definition day_source :: source where
  "day_source = \<lparr>src_feed = \<lparr>nf_name = [], nf_tfc = default_tfc, nf_feed = empty_feed\<rparr>,
     src_bars = [(minute_bar 0 100), (minute_bar 1440 101)]\<rparr>"

definition idle_engine :: "(unit, unit) engine" where
  "idle_engine = add_strategy (new_cell idle_class ()) (add_data day_source [] new_engine)"

lemma idle_hook_ok [simp]: "hook_total idle_hook" "keeps_periods idle_hook" "hook_trades idle_hook"
  by (auto simp: hook_total_def keeps_periods_def hook_within_def idle_hook_def)

lemma idle_engine_fields:
  "en_sources idle_engine = [day_source]" "en_cells idle_engine = [new_cell idle_class ()]"
  "en_broker idle_engine = new_broker USD 10000 None" "en_analyzers idle_engine = []" "en_observers idle_engine = []"
  by (simp_all add: idle_engine_def add_strategy_def add_data_def new_engine_def)

lemma idle_engine_runnable: "runnable idle_engine"
  by (simp add: runnable_def idle_engine_fields day_source_def minute_bar_def ticks_per_sec_def valid_tfc_def
      default_tfc_def finer_than_def fits_def class_total_def idle_class_def new_cell_def warmup_short_def
      minimum_period_def new_strategy_def preload_source_def feed_size_def line_size_def feed_of_bars_def Let_def)

lemma idle_engine_trades: "\<forall>c \<in> set (en_cells idle_engine). class_trades (cl_class c)"
  by (simp add: idle_engine_fields new_cell_def class_within_def idle_class_def)

lemma idle_engine_returns: "\<exists>e'. cerebro_run \<lparr>ro_runonce = False, ro_preload = True\<rparr> idle_engine = Inr e'"
  by (rule runnable_returns [OF idle_engine_runnable]) simp




text \<open>A strategy that buys two units when it starts: filled at the open of the second bar.\<close>

definition buyer_class :: "(unit, broker) strategy_class" where
  "buyer_class = idle_class\<lparr>cls_nextstart := (\<lambda>feeds (s, u, b).
     bind_r (strategy_buy (Some 2) 0 Market 0 feeds s b) (\<lambda>(oid, b'). Inr (s, u, b')))\<rparr>"

definition buyer_engine :: "(unit, unit) engine" where
  "buyer_engine = add_strategy (new_cell buyer_class ()) (add_data day_source [] new_engine)"

lemma buyer_engine_fields:
  "en_sources buyer_engine = [day_source]" "en_cells buyer_engine = [new_cell buyer_class ()]"
  "en_broker buyer_engine = new_broker USD 10000 None"
  by (simp_all add: buyer_engine_def add_strategy_def add_data_def new_engine_def)

lemma buyer_result:
  "case cerebro_run \<lparr>ro_runonce = False, ro_preload = True\<rparr> buyer_engine of
     Inl _ \<Rightarrow> False
   | Inr e' \<Rightarrow> map o_size (b_all_orders (en_broker e')) = [2] \<and> cash_of (en_broker e') USD = 9798
               \<and> map (\<lambda>c. map ca_phase (cl_calls c)) (en_cells e') = [[Nextstart, Next]]"
  by code_simp

lemma buyer_trades: "\<forall>c \<in> set (en_cells buyer_engine). class_trades (cl_class c)"
proof -
  have "client_reach b b'" if "strategy_buy (Some 2) 0 Market 0 feeds s b = Inr (k, b')" for feeds s b k b'
    using that client_reach_step [of "Place Buy 2 0 None Market 0" b b']
    by (auto simp: strategy_buy_def strategy_order_def split: if_splits)
  then have "hook_trades (cls_nextstart buyer_class)"
    by (auto simp: hook_within_def buyer_class_def bind_r_Inr)
  then show ?thesis by (simp add: buyer_engine_fields new_cell_def class_within_def buyer_class_def idle_class_def)
qed

lemma buyer_returns:
  obtains e' where "cerebro_run \<lparr>ro_runonce = False, ro_preload = True\<rparr> buyer_engine = Inr e'"
    "sizes_ok (en_broker e')" "cash_of (en_broker e') USD = 9798"
    "map (\<lambda>c. map ca_phase (cl_calls c)) (en_cells e') = [[Nextstart, Next]]"
proof -
  obtain e' where r: "cerebro_run \<lparr>ro_runonce = False, ro_preload = True\<rparr> buyer_engine = Inr e'"
    "map o_size (b_all_orders (en_broker e')) = [2]" "cash_of (en_broker e') USD = 9798"
    "map (\<lambda>c. map ca_phase (cl_calls c)) (en_cells e') = [[Nextstart, Next]]"
    using buyer_result by (auto split: sum.splits)
  have "o_size ` set (b_all_orders (en_broker e')) = {2}" using r(2) by (metis list.set_map list.simps(15) empty_set)
  then have two: "o_size x = 2" if "x \<in> set (b_all_orders (en_broker e'))" for x
    using that by (metis image_eqI singletonD)
  have "sizes_ok (en_broker e')" by (simp add: sizes_ok_def two)
  then show thesis by (rule that [OF r(1) _ r(3,4)])
qed


theorem lifecycle_phases_witness:
  "\<exists>e' c. cerebro_run \<lparr>ro_runonce = False, ro_preload = True\<rparr> buyer_engine = Inr e' \<and> c \<in> set (en_cells e')
     \<and> map ca_bar (cl_calls c) = [0, 1] \<and> map ca_phase (cl_calls c) = [Nextstart, Next]"
proof -
  obtain e' where r: "cerebro_run \<lparr>ro_runonce = False, ro_preload = True\<rparr> buyer_engine = Inr e'"
    "map (\<lambda>c. map ca_phase (cl_calls c)) (en_cells e') = [[Nextstart, Next]]" by (rule buyer_returns)
  then obtain c where c: "en_cells e' = [c]" "map ca_phase (cl_calls c) = [Nextstart, Next]"
    by (cases "en_cells e'") auto
  have "map ca_bar (cl_calls c) = [0..<2]"
    using lifecycle_phases [OF r(1) buyer_engine_fields(1)]
    by (simp add: Let_def day_source_def buyer_engine_fields new_cell_def c(1) numeral_2_eq_2)
  then show ?thesis using r(1) c by (simp add: upt_rec)
qed

subsection \<open>Refusals and completion\<close>



end
