(* ===== verification/Optimizer.thy ===== *)
theory Optimizer
  imports Backtest
begin

text \<open>
  \<^verbatim>\<open>engine/optimizer.hpp\<close>: the Cartesian product of the parameter ranges and the worker threads
  that evaluate it. A schedule is a sequence of steps of the workers; the critical sections of
  the code (taking the next index under the mutex, writing a slot of the result vector) are one
  step each. The virtual \<open>clone\<close> of a feed, the strategy factory and the result extractor are
  arguments, as in the code; so is the number of hardware threads.
\<close>

subsection \<open>The grid\<close>

record opt_result =
  op_params :: param_map
  op_final_value :: real
  op_sharpe_ratio :: real
  op_max_drawdown :: real
  op_total_trades :: nat

definition empty_result :: opt_result where
  "empty_result = \<lparr>op_params = Map.empty, op_final_value = 0, op_sharpe_ratio = 0, op_max_drawdown = 0,
     op_total_trades = 0\<rparr>"

record param_range =
  pr_name :: string
  pr_values :: "param_value list"

definition first_grid :: "param_range \<Rightarrow> param_map list" where
  "first_grid r = map (\<lambda>v. Map.empty(pr_name r \<mapsto> v)) (pr_values r)"

definition cross_grid :: "param_map list \<Rightarrow> param_range \<Rightarrow> param_map list" where
  "cross_grid grid r = concat (map (\<lambda>m. map (\<lambda>v. m(pr_name r \<mapsto> v)) (pr_values r)) grid)"

fun generate_param_grid :: "param_range list \<Rightarrow> param_map list" where
  "generate_param_grid [] = []"
| "generate_param_grid (r # rs) = foldl cross_grid (first_grid r) rs"

subsection \<open>One combination\<close>

record opt_config =
  og_cash :: real
  og_commission :: commission_info
  og_max_threads :: nat

record ('u, 'm) opt_job =
  oj_config :: opt_config
  oj_hardware :: nat
  oj_feeds :: "source list"
  oj_clone :: "source \<Rightarrow> source option"
  oj_factory :: "param_map \<Rightarrow> ('u, broker) cell"
  oj_extract :: "('u, 'm) engine \<Rightarrow> param_map \<Rightarrow> opt_result"
  oj_ranges :: "param_range list"

definition job_grid :: "('u, 'm) opt_job \<Rightarrow> param_map list" where
  "job_grid j = generate_param_grid (oj_ranges j)"

fun add_clones :: "(source \<Rightarrow> source option) \<Rightarrow> source list \<Rightarrow> ('u, 'm) engine \<Rightarrow> ('u, 'm) engine option" where
  "add_clones cl [] e = Some e"
| "add_clones cl (f # fs) e = (case cl f of None \<Rightarrow> None | Some g \<Rightarrow> add_clones cl fs (add_data g [] e))"

definition default_run :: run_options where
  "default_run = \<lparr>ro_runonce = False, ro_preload = True\<rparr>"

definition job_engine :: "('u, 'm) opt_job \<Rightarrow> param_map \<Rightarrow> ('u, 'm) engine option" where
  "job_engine j params =
     map_option
       (\<lambda>e. let c = oj_factory j params
            in add_strategy (c\<lparr>cl_base := set_params (cls_default_params (cl_class c)) params (cl_base c)\<rparr>) e)
       (add_clones (oj_clone j) (oj_feeds j)
          (engine_set_commission (og_commission (oj_config j)) (engine_set_cash (og_cash (oj_config j)) new_engine)))"

text \<open>An exception of the run, no result because a feed cannot be cloned, or the result.\<close>

definition evaluate :: "('u, 'm) opt_job \<Rightarrow> param_map \<Rightarrow> exn + opt_result option" where
  "evaluate j params =
     (case job_engine j params of
        None \<Rightarrow> Inr None
      | Some e \<Rightarrow>
          bind_r (cerebro_run default_run e) (\<lambda>e'. Inr (Some ((oj_extract j e' params)\<lparr>op_params := params\<rparr>))))"

subsection \<open>The workers\<close>

datatype worker = Ready | Busy nat | Stopped

record opt_state =
  os_next :: nat
  os_results :: "opt_result list"
  os_workers :: "worker list"
  os_crash :: "exn option"

definition num_threads :: "('u, 'm) opt_job \<Rightarrow> nat" where
  "num_threads j =
     (let n = og_max_threads (oj_config j)
      in if n = 0 then (if oj_hardware j = 0 then 1 else oj_hardware j) else n)"

definition opt_start :: "('u, 'm) opt_job \<Rightarrow> opt_state" where
  "opt_start j =
     \<lparr>os_next = 0, os_results = replicate (length (job_grid j)) empty_result,
      os_workers = replicate (min (num_threads j) (length (job_grid j))) Ready, os_crash = None\<rparr>"

text \<open>The next step of worker \<open>t\<close>; an exception that leaves a thread ends the program.\<close>

definition worker_step :: "('u, 'm) opt_job \<Rightarrow> nat \<Rightarrow> opt_state \<Rightarrow> opt_state option" where
  "worker_step j t s =
     (if length (os_workers s) \<le> t \<or> os_crash s \<noteq> None then None
      else (case os_workers s ! t of
              Stopped \<Rightarrow> None
            | Ready \<Rightarrow>
                if length (job_grid j) \<le> os_next s then Some (s\<lparr>os_workers := (os_workers s)[t := Stopped]\<rparr>)
                else Some (s\<lparr>os_workers := (os_workers s)[t := Busy (os_next s)], os_next := Suc (os_next s)\<rparr>)
            | Busy i \<Rightarrow>
                (case evaluate j (job_grid j ! i) of
                   Inl e \<Rightarrow> Some (s\<lparr>os_crash := Some e\<rparr>)
                 | Inr None \<Rightarrow> Some (s\<lparr>os_workers := (os_workers s)[t := Stopped]\<rparr>)
                 | Inr (Some r) \<Rightarrow>
                     Some (s\<lparr>os_workers := (os_workers s)[t := Ready], os_results := (os_results s)[i := r]\<rparr>))))"

inductive schedule :: "('u, 'm) opt_job \<Rightarrow> opt_state \<Rightarrow> nat \<Rightarrow> opt_state \<Rightarrow> bool" for j where
  idle: "schedule j s 0 s"
| step: "schedule j s k s' \<Longrightarrow> worker_step j t s' = Some s'' \<Longrightarrow> schedule j s (Suc k) s''"

text \<open>\<open>join\<close> returns when every worker has returned.\<close>

definition joined :: "opt_state \<Rightarrow> bool" where
  "joined s \<longleftrightarrow> os_crash s = None \<and> (\<forall>w \<in> set (os_workers s). w = Stopped)"

definition optimizer_returns :: "('u, 'm) opt_job \<Rightarrow> opt_result list \<Rightarrow> bool" where
  "optimizer_returns j R =
     (if job_grid j = [] then R = []
      else (\<exists>k s. schedule j (opt_start j) k s \<and> joined s \<and> R = os_results s))"

subsection \<open>The grid is the Cartesian product\<close>

definition assign :: "string list \<Rightarrow> param_value list \<Rightarrow> param_map" where
  "assign names vs = foldl (\<lambda>m (n, v). m(n \<mapsto> v)) Map.empty (zip names vs)"

lemma assign_snoc: "length names = length vs \<Longrightarrow> assign (names @ [n]) (vs @ [v]) = (assign names vs)(n \<mapsto> v)"
  by (simp add: assign_def)

lemma product_lists_snoc:
  "product_lists (xss @ [xs]) = concat (map (\<lambda>ys. map (\<lambda>x. ys @ [x]) xs) (product_lists xss))"
proof (induction xss)
  case Nil
  show ?case by (induction xs) simp_all
next
  case (Cons zs xss)
  have "map ((#) z) (concat (map f ys)) = concat (map (\<lambda>y. map ((#) z) (f y)) ys)" for z :: 'a and f :: "'a list \<Rightarrow> 'a list list" and ys
    by (induction ys) simp_all
  moreover have "concat (map f (concat yss)) = concat (map (\<lambda>ys. concat (map f ys)) yss)" for f :: "'a list \<Rightarrow> 'a list list" and yss
    by (induction yss) simp_all
  ultimately show ?case by (simp add: Cons.IH comp_def)
qed

lemma product_lists_length: "length (product_lists xss) = prod_list (map length xss)"
  by (induction xss) (simp_all add: length_concat comp_def sum_list_triv)

lemma product_lists_lengths: "vs \<in> set (product_lists xss) \<Longrightarrow> length vs = length xss"
  using in_set_product_lists_length by blast

lemma product_lists_distinct: "list_all distinct xss \<Longrightarrow> distinct (product_lists xss)"
proof (induction xss)
  case (Cons xs xss)
  have "distinct (concat (map (\<lambda>x. map ((#) x) yss) xs))" if "distinct xs" "distinct yss" for yss :: "'a list list"
    using that(1)
  proof (induction xs)
    case (Cons x xs)
    have "distinct (map ((#) x) yss)" using that(2) by (simp add: distinct_map)
    then show ?case using Cons by auto
  qed simp
  then show ?case using Cons by simp
qed simp

lemma grid_fold:
  "foldl cross_grid (first_grid r) rs = map (assign (map pr_name (r # rs))) (product_lists (map pr_values (r # rs)))"
proof (induction rs rule: rev_induct)
  case Nil
  have "concat (map (\<lambda>x. [[x]]) vs) = map (\<lambda>x. [x]) vs" for vs :: "param_value list" by (induction vs) simp_all
  then show ?case by (simp add: first_grid_def assign_def)
next
  case (snoc q rs)
  let ?ns = "map pr_name (r # rs)" and ?vss = "map pr_values (r # rs)"
  have ext: "assign (?ns @ [pr_name q]) (vs @ [v]) = (assign ?ns vs)(pr_name q \<mapsto> v)" if "vs \<in> set (product_lists ?vss)" for vs v
    using product_lists_lengths [OF that] by (intro assign_snoc) simp
  have "foldl cross_grid (first_grid r) (rs @ [q]) = cross_grid (map (assign ?ns) (product_lists ?vss)) q"
    using snoc.IH by simp
  also have "\<dots> = concat (map (\<lambda>vs. map (\<lambda>v. (assign ?ns vs)(pr_name q \<mapsto> v)) (pr_values q)) (product_lists ?vss))"
    by (simp add: cross_grid_def comp_def)
  also have "\<dots> = concat (map (\<lambda>vs. map (\<lambda>v. assign (?ns @ [pr_name q]) (vs @ [v])) (pr_values q)) (product_lists ?vss))"
    by (intro arg_cong [of _ _ concat] map_cong refl) (simp only: ext)
  also have "\<dots> = map (assign (?ns @ [pr_name q])) (product_lists (?vss @ [pr_values q]))"
    by (simp only: product_lists_snoc map_concat map_map comp_def)
  finally show ?case by simp
qed

lemma assign_map_of:
  assumes "length names = length vs" and "distinct names"
  shows "assign names vs = map_of (zip names vs)"
  using assms
proof (induction names vs rule: rev_induct2)
  case (4 n names v vs)
  then show ?case by (auto simp: assign_snoc map_add_def fun_eq_iff dest: map_of_SomeD set_zip_leftD split: option.splits)
qed (simp_all add: assign_def)

lemma choice_entry:
  assumes "length vs = length ranges" and "distinct (map pr_name ranges)" and "i < length ranges"
  shows "assign (map pr_name ranges) vs (pr_name (ranges ! i)) = Some (vs ! i)"
proof -
  have "map_of (zip (map pr_name ranges) vs) (map pr_name ranges ! i) = Some (vs ! i)"
    using assms by (intro map_of_zip_nth) simp_all
  then show ?thesis using assms by (simp add: assign_map_of)
qed

lemma grid_set:
  assumes "distinct (map pr_name ranges)"
  shows "assign (map pr_name ranges) ` set (product_lists (map pr_values ranges)) =
    {m. dom m = set (map pr_name ranges) \<and> (\<forall>r \<in> set ranges. \<exists>v \<in> set (pr_values r). m (pr_name r) = Some v)}"
    (is "?f ` ?P = ?M")
proof (intro set_eqI iffI)
  fix m assume "m \<in> ?f ` ?P"
  then obtain vs where vs: "m = ?f vs" "list_all2 (\<lambda>x ys. x \<in> set ys) vs (map pr_values ranges)"
    by (auto simp: product_lists_set)
  then have len: "length vs = length ranges" by (auto dest: list_all2_lengthD)
  have "dom m = set (map pr_name ranges)" unfolding vs(1) by (subst assign_map_of) (simp_all add: len assms)
  moreover have "\<exists>v \<in> set (pr_values (ranges ! i)). m (pr_name (ranges ! i)) = Some v" if "i < length ranges" for i
    using choice_entry [OF len assms that] list_all2_nthD [OF vs(2), of i] that len by (simp add: vs(1))
  ultimately show "m \<in> ?M" by (auto simp: in_set_conv_nth)
next
  fix m assume m: "m \<in> ?M"
  let ?vs = "map (\<lambda>r. the (m (pr_name r))) ranges"
  have "?f ?vs = m"
  proof
    fix x
    show "?f ?vs x = m x"
    proof (cases "x \<in> set (map pr_name ranges)")
      case True
      then obtain i where "i < length ranges" "x = pr_name (ranges ! i)" by (auto simp: in_set_conv_nth)
      moreover obtain v where "m (pr_name (ranges ! i)) = Some v" using m calculation by (auto dest: bspec [OF _ nth_mem])
      ultimately show ?thesis using choice_entry [of ?vs ranges i] assms by simp
    next
      case False
      then have "m x = None" "map_of (zip (map pr_name ranges) ?vs) x = None" using m by auto
      then show ?thesis by (simp add: assign_map_of assms)
    qed
  qed
  moreover have "?vs \<in> ?P" using m by (auto simp: product_lists_set list_all2_conv_all_nth dest!: bspec [OF _ nth_mem])
  ultimately show "m \<in> ?f ` ?P" by (metis imageI)
qed

lemma grid_inj:
  assumes "distinct (map pr_name ranges)"
  shows "inj_on (assign (map pr_name ranges)) (set (product_lists (map pr_values ranges)))"
proof (rule inj_onI)
  fix vs ws assume "vs \<in> set (product_lists (map pr_values ranges))" "ws \<in> set (product_lists (map pr_values ranges))"
    and eq: "assign (map pr_name ranges) vs = assign (map pr_name ranges) ws"
  then have len: "length vs = length ranges" "length ws = length ranges" by (auto dest: product_lists_lengths)
  have "vs ! i = ws ! i" if "i < length ranges" for i
    using choice_entry [OF len(1) assms that] choice_entry [OF len(2) assms that] eq by simp
  then show "vs = ws" using len by (intro nth_equalityI) simp_all
qed

text \<open>
  The grid is the Cartesian product of the ranges, in lexicographic order: the reference is
  the product of the lists of values with each choice turned into a map, later ranges winning
  where a name is repeated. Its length is the product of the numbers of values; with distinct
  names every combination of values occurs, each exactly once when the values of every range
  are distinct, and no range at all gives an empty grid.
\<close>

theorem param_grid_product:
  "generate_param_grid [] = []
   \<and> (ranges \<noteq> [] \<longrightarrow>
        generate_param_grid ranges = map (assign (map pr_name ranges)) (product_lists (map pr_values ranges))
        \<and> length (generate_param_grid ranges) = prod_list (map (length \<circ> pr_values) ranges)
        \<and> (distinct (map pr_name ranges) \<longrightarrow>
             set (generate_param_grid ranges) =
               {m. dom m = set (map pr_name ranges) \<and> (\<forall>r \<in> set ranges. \<exists>v \<in> set (pr_values r). m (pr_name r) = Some v)}
             \<and> (list_all (distinct \<circ> pr_values) ranges \<longrightarrow> distinct (generate_param_grid ranges))))"
proof -
  have eq: "generate_param_grid ranges = map (assign (map pr_name ranges)) (product_lists (map pr_values ranges))"
    if "ranges \<noteq> []"
    using that grid_fold by (cases ranges) simp_all
  show ?thesis
    using grid_set [of ranges] grid_inj [of ranges] product_lists_distinct [of "map pr_values ranges"]
    by (auto simp: eq product_lists_length distinct_map list_all_iff comp_def simp del: generate_param_grid.simps(2))
qed

theorem param_grid_product_witness:
  "let ranges = [\<lparr>pr_name = ''fast'', pr_values = [PInt 5, PInt 10]\<rparr>, \<lparr>pr_name = ''slow'', pr_values = [PInt 20, PInt 30, PInt 40]\<rparr>]
   in length (generate_param_grid ranges) = 6 \<and> distinct (generate_param_grid ranges)
      \<and> [''fast'' \<mapsto> PInt 10, ''slow'' \<mapsto> PInt 20] \<in> set (generate_param_grid ranges)"
proof -
  let ?ranges = "[\<lparr>pr_name = ''fast'', pr_values = [PInt 5, PInt 10]\<rparr>, \<lparr>pr_name = ''slow'', pr_values = [PInt 20, PInt 30, PInt 40]\<rparr>]"
  have h: "?ranges \<noteq> []" "distinct (map pr_name ?ranges)" "list_all (distinct \<circ> pr_values) ?ranges" by simp_all
  note p = param_grid_product [of ?ranges, THEN conjunct2, THEN mp, OF h(1)]
  note q = p [THEN conjunct2, THEN conjunct2, THEN mp, OF h(2)]
  have "length (generate_param_grid ?ranges) = 6" using p [THEN conjunct2, THEN conjunct1] by simp
  moreover have "distinct (generate_param_grid ?ranges)" using q [THEN conjunct2, THEN mp, OF h(3)] .
  moreover have "[''fast'' \<mapsto> PInt 10, ''slow'' \<mapsto> PInt 20] \<in> set (generate_param_grid ?ranges)"
    unfolding q [THEN conjunct1] by auto
  ultimately show ?thesis unfolding Let_def by blast
qed

subsection \<open>Schedules\<close>

fun weight :: "worker \<Rightarrow> nat" where
  "weight Ready = 1"
| "weight (Busy i) = 2"
| "weight Stopped = 0"

text \<open>The steps left: each step takes one, a worker that gives up takes more.\<close>

definition potential :: "('u, 'm) opt_job \<Rightarrow> opt_state \<Rightarrow> nat" where
  "potential j s = 2 * (length (job_grid j) - os_next s) + sum_list (map weight (os_workers s))"

lemma weight_update:
  assumes "t < length ws"
  shows "sum_list (map weight (ws[t := w])) + weight (ws ! t) = sum_list (map weight ws) + weight w"
  using assms
proof (induction ws arbitrary: t)
  case (Cons v ws)
  show ?case
  proof (cases t)
    case (Suc u)
    then show ?thesis using Cons.IH [of u] Cons.prems by simp
  qed simp
qed simp

lemma worker_step_cases:
  assumes "worker_step j t s = Some s'"
  obtains (take) "os_workers s ! t = Ready" "os_next s < length (job_grid j)"
      "s' = s\<lparr>os_workers := (os_workers s)[t := Busy (os_next s)], os_next := Suc (os_next s)\<rparr>"
  | (retire) "os_workers s ! t = Ready" "length (job_grid j) \<le> os_next s"
      "s' = s\<lparr>os_workers := (os_workers s)[t := Stopped]\<rparr>"
  | (crash) i e where "os_workers s ! t = Busy i" "evaluate j (job_grid j ! i) = Inl e" "s' = s\<lparr>os_crash := Some e\<rparr>"
  | (abandon) i where "os_workers s ! t = Busy i" "evaluate j (job_grid j ! i) = Inr None"
      "s' = s\<lparr>os_workers := (os_workers s)[t := Stopped]\<rparr>"
  | (finish) i r where "os_workers s ! t = Busy i" "evaluate j (job_grid j ! i) = Inr (Some r)"
      "s' = s\<lparr>os_workers := (os_workers s)[t := Ready], os_results := (os_results s)[i := r]\<rparr>"
  using assms unfolding worker_step_def
  by (auto split: if_splits worker.splits sum.splits option.splits)

lemma worker_step_live:
  "worker_step j t s = Some s' \<Longrightarrow> t < length (os_workers s) \<and> os_crash s = None"
  by (auto simp: worker_step_def split: if_splits)

lemma schedule_potential:
  "schedule j s k s' \<Longrightarrow>
     k + potential j s' + (if os_crash s' = None then 1 else 0) \<le> potential j s + (if os_crash s = None then 1 else 0)"
proof (induction rule: schedule.induct)
  case (step s k s' t s'')
  note live = worker_step_live [OF step.hyps(2)]
  note w = weight_update [of t "os_workers s'", OF conjunct1 [OF live]]
  from step.hyps(2) have "Suc (potential j s'' + (if os_crash s'' = None then 1 else 0)) \<le> potential j s' + 1"
    by (cases rule: worker_step_cases)
       (use w [of Stopped] w [of Ready] w [of "Busy (os_next s')"] live in \<open>auto simp: potential_def\<close>)
  then show ?case using step.IH live by simp
qed simp

text \<open>No combination is in the hands of two workers.\<close>

definition single :: "worker list \<Rightarrow> bool" where
  "single ws \<longleftrightarrow> (\<forall>t u i. t < length ws \<and> u < length ws \<and> ws ! t = Busy i \<and> ws ! u = Busy i \<longrightarrow> t = u)"

lemma single_replicate: "single (replicate n Ready)"
  by (auto simp: single_def)

lemma single_update:
  assumes "single ws" and "t < length ws" and "\<And>i. w = Busy i \<Longrightarrow> Busy i \<notin> set ws"
  shows "single (ws[t := w])"
proof -
  have "a = b" if "a < length ws" "b < length ws" "ws[t := w] ! a = Busy i" "ws[t := w] ! b = Busy i" for a b i
  proof (cases "w = Busy i")
    case True
    then have "ws ! u \<noteq> Busy i" if "u < length ws" for u using assms(3) nth_mem [OF that] by auto
    then show ?thesis using that assms(2) by (auto simp: nth_list_update split: if_splits)
  next
    case False
    then have "a \<noteq> t" "b \<noteq> t" using that assms(2) by auto
    then show ?thesis using that assms(1) by (auto simp: single_def)
  qed
  then show ?thesis by (simp add: single_def)
qed

text \<open>The invariant of the workers when every combination can be evaluated.\<close>

definition shares :: "('u, 'm) opt_job \<Rightarrow> (param_map \<Rightarrow> opt_result) \<Rightarrow> opt_state \<Rightarrow> bool" where
  "shares j best s \<longleftrightarrow>
     os_crash s = None \<and> os_next s \<le> length (job_grid j) \<and> length (os_results s) = length (job_grid j)
     \<and> (Stopped \<in> set (os_workers s) \<longrightarrow> os_next s = length (job_grid j))
     \<and> (\<forall>i. Busy i \<in> set (os_workers s) \<longrightarrow> i < os_next s)
     \<and> single (os_workers s)
     \<and> (\<forall>i < length (job_grid j). os_results s ! i =
           (if i < os_next s \<and> Busy i \<notin> set (os_workers s) then best (job_grid j ! i) else empty_result))"

lemma shares_start: "shares j best (opt_start j)"
  by (auto simp: shares_def opt_start_def single_replicate)

lemma update_member:
  assumes "t < length ws" and "ws ! t = v0" and "v \<noteq> v0"
  shows "v \<in> set (ws[t := w]) \<longleftrightarrow> v = w \<or> v \<in> set ws"
proof
  show "v \<in> set (ws[t := w])" if v: "v = w \<or> v \<in> set ws"
  proof (cases "v = w")
    case False
    then obtain u where "u < length ws" "ws ! u = v" using v by (auto simp: in_set_conv_nth)
    moreover then have "u \<noteq> t" using assms by blast
    ultimately show ?thesis using nth_mem [of u "ws[t := w]"] by simp
  qed (use assms in \<open>simp add: set_update_memI\<close>)
qed (use set_update_subset_insert in fastforce)

lemma update_removes:
  assumes "t < length ws" and "\<forall>u < length ws. ws ! u = ws ! t \<longrightarrow> u = t" and "w \<noteq> ws ! t"
  shows "ws ! t \<notin> set (ws[t := w])"
  using assms by (auto simp: in_set_conv_nth nth_list_update split: if_splits)

lemma shares_step:
  assumes ok: "\<forall>p \<in> set (job_grid j). evaluate j p = Inr (Some (best p))"
    and s: "shares j best s" and step: "worker_step j t s = Some s'"
  shows "shares j best s' \<and> potential j s = Suc (potential j s')"
  using step
proof (cases rule: worker_step_cases)
  note S = s [unfolded shares_def]
  have t: "t < length (os_workers s)" using worker_step_live [OF step] by simp
  note w = weight_update [OF t]
  {
    case take
    have fresh: "Busy (os_next s) \<notin> set (os_workers s)" using S by blast
    have mem: "Busy i \<in> set (os_workers s') \<longleftrightarrow> i = os_next s \<or> Busy i \<in> set (os_workers s)" for i
      using update_member [OF t take(1), of "Busy i" "Busy (os_next s)"] by (simp add: take(3))
    have stop: "Stopped \<notin> set (os_workers s)" using S take(2) by auto
    then have "Stopped \<notin> set (os_workers s')" using take(3) set_update_subset_insert by fastforce
    moreover have "single (os_workers s')"
      using single_update [OF _ t, of "Busy (os_next s)"] S fresh by (simp add: take(3))
    ultimately show ?thesis
      using S take w [of "Busy (os_next s)"] mem fresh by (auto simp: shares_def potential_def less_Suc_eq)
  next
    case retire
    have mem: "Busy i \<in> set (os_workers s') \<longleftrightarrow> Busy i \<in> set (os_workers s)" for i
      using update_member [OF t retire(1), of "Busy i" Stopped] by (simp add: retire(3))
    have "single (os_workers s')" using single_update [OF _ t, of Stopped] S by (simp add: retire(3))
    then show ?thesis using S retire w [of Stopped] mem by (auto simp: shares_def potential_def)
  next
    case (crash i e)
    then show ?thesis using ok S t by (metis nth_mem order_less_le_trans sum.distinct(1))
  next
    case (abandon i)
    then have "i < length (job_grid j)" using S t by (metis nth_mem order_less_le_trans)
    then show ?thesis using ok abandon(2) by auto
  next
    case (finish i r)
    then have i: "i < os_next s" "i < length (job_grid j)" using S t by (metis nth_mem order_less_le_trans)+
    then have r: "r = best (job_grid j ! i)" using ok finish(2) by auto
    have mem: "Busy k \<in> set (os_workers s') \<longleftrightarrow> k \<noteq> i \<and> Busy k \<in> set (os_workers s)" for k
      using update_member [OF t finish(1), of "Busy k" Ready] update_removes [OF t, of Ready] finish(1,3) t S [unfolded single_def]
      by (cases "k = i") auto
    have stop: "Stopped \<in> set (os_workers s') \<Longrightarrow> Stopped \<in> set (os_workers s)"
      using update_member [OF t finish(1), of Stopped Ready] by (simp add: finish(3))
    have "single (os_workers s')" using single_update [OF _ t, of Ready] S by (simp add: finish(3))
    then show ?thesis
      using S finish w [of Ready] mem stop r i by (auto simp: shares_def potential_def nth_list_update)
  }
qed

lemma shares_schedule:
  assumes "\<forall>p \<in> set (job_grid j). evaluate j p = Inr (Some (best p))"
  shows "schedule j (opt_start j) k s \<Longrightarrow> shares j best s \<and> k + potential j s = potential j (opt_start j)"
proof (induction "opt_start j" k s rule: schedule.induct)
  case (step k s t s')
  then show ?case using shares_step [OF assms _ step.hyps(3)] by simp
qed (simp add: shares_start)

lemma potential_start:
  "potential j (opt_start j) = 2 * length (job_grid j) + min (num_threads j) (length (job_grid j))"
  by (simp add: potential_def opt_start_def sum_list_replicate)

lemma weightless: "sum_list (map weight ws) = 0 \<longleftrightarrow> (\<forall>w \<in> set ws. w = Stopped)"
proof -
  have "weight w = 0 \<longleftrightarrow> w = Stopped" for w by (cases w) simp_all
  then show ?thesis by (simp add: sum_list_eq_0_iff)
qed

text \<open>A worker that has not returned can move.\<close>

lemma worker_progress:
  assumes "os_crash s = None" and "\<not> joined s"
  shows "\<exists>t s'. worker_step j t s = Some s'"
proof -
  obtain t where t: "t < length (os_workers s)" "os_workers s ! t \<noteq> Stopped"
    using assms by (auto simp: joined_def in_set_conv_nth)
  then have "worker_step j t s \<noteq> None"
    using assms(1) by (auto simp: worker_step_def split: worker.splits sum.splits option.splits)
  then show ?thesis by auto
qed

lemma schedule_completes:
  assumes "\<forall>p \<in> set (job_grid j). evaluate j p = Inr (Some (best p))" and "schedule j (opt_start j) k s"
  shows "\<exists>k' s'. schedule j (opt_start j) k' s' \<and> joined s'"
  using assms(2)
proof (induction "potential j s" arbitrary: k s rule: less_induct)
  case less
  show ?case
  proof (cases "joined s")
    case False
    have s: "shares j best s" using shares_schedule [OF assms(1) less.prems] by blast
    then have "os_crash s = None" by (simp add: shares_def)
    then obtain t s' where step: "worker_step j t s = Some s'" using worker_progress False by blast
    have "potential j s' < potential j s" using shares_step [OF assms(1) s step] by simp
    then show ?thesis using less.hyps schedule.step [OF less.prems step] by blast
  qed (use less.prems in blast)
qed

lemma joined_results:
  assumes "shares j best s" and "joined s" and "job_grid j \<noteq> []" and "os_workers s \<noteq> []"
  shows "os_results s = map best (job_grid j)"
proof -
  have "Stopped \<in> set (os_workers s)" using assms(2,4) by (metis joined_def hd_in_set)
  moreover have "Busy i \<notin> set (os_workers s)" for i using assms(2) by (auto simp: joined_def)
  ultimately show ?thesis using assms(1) by (intro nth_equalityI) (auto simp: shares_def)
qed

lemma schedule_workers:
  "schedule j s k s' \<Longrightarrow> length (os_workers s') = length (os_workers s)"
proof (induction rule: schedule.induct)
  case (step s k s' t s'')
  from step.hyps(2) show ?case by (cases rule: worker_step_cases) (use step.IH in simp_all)
qed simp

lemma threads_positive: "0 < num_threads j"
  by (simp add: num_threads_def Let_def)

lemma workers_exist:
  assumes "schedule j (opt_start j) k s" and "job_grid j \<noteq> []"
  shows "os_workers s \<noteq> []"
proof -
  have "length (os_workers s) = min (num_threads j) (length (job_grid j))"
    using schedule_workers [OF assms(1)] by (simp add: opt_start_def)
  moreover have "0 < min (num_threads j) (length (job_grid j))" using threads_positive assms(2) by simp
  ultimately show ?thesis by force
qed

text \<open>
  C27. The threads of the optimizer do not show: when every combination can be evaluated, the
  optimizer returns, and whatever the number of threads and however they are interleaved the
  result vector is the evaluation of the grid, combination by combination in its order. Every
  schedule is finite: with n combinations and t threads all have returned after exactly
  2 n + t steps, before that some thread can always move, and none ever crashes.
\<close>

theorem optimizer_schedule_free:
  assumes "\<forall>p \<in> set (job_grid j). evaluate j p = Inr (Some (best p))"
  shows "(optimizer_returns j R \<longleftrightarrow> R = map best (job_grid j))
   \<and> (\<forall>k s. schedule j (opt_start j) k s \<longrightarrow>
        (let n = length (job_grid j); t = min (num_threads j) n
         in os_crash s = None \<and> k \<le> 2 * n + t \<and> (joined s \<longleftrightarrow> k = 2 * n + t)
            \<and> (k < 2 * n + t \<longrightarrow> (\<exists>w s'. worker_step j w s = Some s'))))"
proof
  show "optimizer_returns j R \<longleftrightarrow> R = map best (job_grid j)"
  proof (cases "job_grid j = []")
    case False
    have unique: "os_results s = map best (job_grid j)" if "schedule j (opt_start j) k s" "joined s" for k s
    proof (rule joined_results [OF _ that(2) False])
      show "shares j best s" using shares_schedule [OF assms that(1)] by blast
      show "os_workers s \<noteq> []" by (rule workers_exist [OF that(1) False])
    qed
    moreover obtain k s where ks: "schedule j (opt_start j) k s" "joined s"
      using schedule_completes [OF assms schedule.idle] by blast
    ultimately have "os_results s = map best (job_grid j)" by blast
    then have "\<exists>k s. schedule j (opt_start j) k s \<and> joined s \<and> map best (job_grid j) = os_results s"
      using ks by metis
    then show ?thesis unfolding optimizer_returns_def using False unique by metis
  qed (simp add: optimizer_returns_def)
next
  have "os_crash s = None \<and> k \<le> potential j (opt_start j) \<and> (joined s \<longleftrightarrow> k = potential j (opt_start j))
      \<and> (k < potential j (opt_start j) \<longrightarrow> (\<exists>w s'. worker_step j w s = Some s'))"
    if "schedule j (opt_start j) k s" for k s
  proof -
    have s: "shares j best s" "k + potential j s = potential j (opt_start j)"
      using shares_schedule [OF assms that] by auto
    then have crash: "os_crash s = None" by (simp add: shares_def)
    have "joined s \<longleftrightarrow> potential j s = 0"
    proof
      assume join: "joined s"
      then have "sum_list (map weight (os_workers s)) = 0" by (simp add: weightless joined_def del: sum_list_eq_0_iff)
      moreover have "length (job_grid j) \<le> os_next s"
      proof (cases "job_grid j = []")
        case False
        have "os_workers s \<noteq> []" by (rule workers_exist [OF that False])
        then have "Stopped \<in> set (os_workers s)" using join by (metis joined_def hd_in_set)
        then show ?thesis using s(1) by (simp add: shares_def)
      qed simp
      ultimately show "potential j s = 0" by (simp add: potential_def)
    next
      assume "potential j s = 0"
      then show "joined s" using crash weightless by (simp add: potential_def joined_def)
    qed
    then show ?thesis using s(2) crash worker_progress [OF crash, of j] by auto
  qed
  then show "\<forall>k s. schedule j (opt_start j) k s \<longrightarrow>
      (let n = length (job_grid j); t = min (num_threads j) n
       in os_crash s = None \<and> k \<le> 2 * n + t \<and> (joined s \<longleftrightarrow> k = 2 * n + t)
          \<and> (k < 2 * n + t \<longrightarrow> (\<exists>w s'. worker_step j w s = Some s')))"
    unfolding Let_def potential_start by blast
qed

text \<open>
  What a clone keeps: \<open>InMemoryFeed::clone\<close> copies the bars; the name and the timeframe, which the
  base class holds, are those of a fresh feed.
\<close>

definition clone_source :: "source \<Rightarrow> source" where
  "clone_source src =
     \<lparr>src_feed = \<lparr>nf_name = [], nf_tfc = default_tfc, nf_feed = empty_feed\<rparr>, src_bars = src_bars src\<rparr>"

lemma add_clones_sources:
  "add_clones (\<lambda>src. Some (clone_source src)) feeds e = Some e' \<Longrightarrow>
     en_sources e' = en_sources e @ map clone_source feeds"
  by (induction feeds arbitrary: e) (auto simp: add_data_def)

text \<open>
  So a plan of several timeframes is optimised as if every feed had the default one: a master
  that is coarser than its context is refused when it is run, and runs in the optimizer.
\<close>

lemma optimizer_forgets_timeframes:
  assumes "oj_clone j = (\<lambda>src. Some (clone_source src))" and "job_engine j params = Some e"
  shows "en_sources e = map clone_source (oj_feeds j) \<and> finer_context (map preload_source (en_sources e)) = None"
proof -
  have s: "en_sources e = map clone_source (oj_feeds j)"
    using assms by (auto simp: job_engine_def Let_def add_strategy_def engine_set_commission_def
        engine_set_cash_def new_engine_def dest!: add_clones_sources)
  have "finer_context (map preload_source (map clone_source feeds)) = None" for feeds
  proof -
    have tfc: "nf_tfc (preload_source (clone_source x)) = default_tfc" for x
      by (simp add: preload_source_def clone_source_def)
    have "nf_tfc (map preload_source (map clone_source feeds) ! i) = default_tfc" if "i < length feeds" for i
      using that by (simp add: tfc)
    moreover have "\<not> finer_than default_tfc default_tfc" by (simp add: finer_than_def)
    ultimately have "\<not> finer_than (nf_tfc (map preload_source (map clone_source feeds) ! i))
        (nf_tfc (map preload_source (map clone_source feeds) ! 0))" if "i < length feeds" for i
      using that by (metis less_nat_zero_code not_gr_zero)
    then show ?thesis unfolding finer_context_def find_None_iff by simp
  qed
  then show ?thesis using s by simp
qed

text \<open>A feed that cannot be cloned: every result is the empty one, and nothing is reported.\<close>

lemma no_clone: "f \<in> set feeds \<Longrightarrow> cl f = None \<Longrightarrow> add_clones cl feeds e = None"
  by (induction feeds arbitrary: e) (auto split: option.splits)

lemma optimizer_without_clone:
  assumes "f \<in> set (oj_feeds j)" and "oj_clone j f = None" and "optimizer_returns j R"
  shows "R = replicate (length (job_grid j)) empty_result"
proof -
  have none: "evaluate j p = Inr None" for p
    by (simp add: evaluate_def job_engine_def no_clone [where cl = "oj_clone j", OF assms(1,2)])
  have "os_results s = replicate (length (job_grid j)) empty_result" if "schedule j (opt_start j) k s" for k s
    using that
  proof (induction "opt_start j" k s rule: schedule.induct)
    case (step k s t s')
    from step.hyps(3) show ?case by (cases rule: worker_step_cases) (use step.hyps(2) none in simp_all)
  qed (simp add: opt_start_def)
  then show ?thesis using assms(3) by (auto simp: optimizer_returns_def split: if_splits)
qed

text \<open>A job for the example: two days of one feed, an idle strategy and two values of one parameter.\<close>

definition demo_job :: "(unit, unit) opt_job" where
  "demo_job =
     \<lparr>oj_config = \<lparr>og_cash = 5000, og_commission = default_commission, og_max_threads = 3\<rparr>, oj_hardware = 8,
      oj_feeds = [day_source], oj_clone = (\<lambda>src. Some (clone_source src)), oj_factory = (\<lambda>params. new_cell idle_class ()),
      oj_extract = (\<lambda>e params. empty_result\<lparr>op_total_trades := length (en_sources e)\<rparr>),
      oj_ranges = [\<lparr>pr_name = ''n'', pr_values = [PInt 1, PInt 2]\<rparr>]\<rparr>"

lemma cerebro_run_sources: "cerebro_run opts e = Inr e' \<Longrightarrow> en_sources e' = en_sources e"
  by (auto simp: cerebro_run_def finish_def bind_r_Inr Let_def split: if_splits option.splits)

lemma demo_engine_runnable:
  assumes "job_engine demo_job p = Some e"
  shows "runnable e \<and> length (en_sources e) = 1"
  using assms
  by (auto simp: runnable_def day_source_def minute_bar_def ticks_per_sec_def valid_tfc_def demo_job_def job_engine_def
      add_data_def add_strategy_def clone_source_def engine_set_commission_def engine_set_cash_def new_engine_def
      default_tfc_def finer_than_def fits_def class_total_def idle_class_def new_cell_def warmup_short_def set_params_def
      minimum_period_def new_strategy_def preload_source_def feed_size_def line_size_def feed_of_bars_def Let_def)

lemma demo_evaluate: "evaluate demo_job p = Inr (Some (empty_result\<lparr>op_params := p, op_total_trades := 1\<rparr>))"
proof -
  have "job_engine demo_job p \<noteq> None" by (simp add: job_engine_def demo_job_def)
  then obtain e where e: "job_engine demo_job p = Some e" by blast
  obtain e' where "cerebro_run default_run e = Inr e'"
    using runnable_returns [of e default_run] demo_engine_runnable [OF e] by (auto simp: default_run_def)
  then show ?thesis
    using e demo_engine_runnable [OF e] cerebro_run_sources [of default_run e e']
    by (simp add: evaluate_def demo_job_def empty_result_def)
qed

theorem optimizer_schedule_free_witness:
  "optimizer_returns demo_job
     [empty_result\<lparr>op_params := [''n'' \<mapsto> PInt 1], op_total_trades := 1\<rparr>,
      empty_result\<lparr>op_params := [''n'' \<mapsto> PInt 2], op_total_trades := 1\<rparr>]
   \<and> (\<nexists>s. schedule demo_job (opt_start demo_job) 7 s)"
proof -
  have h: "\<forall>p \<in> set (job_grid demo_job).
      evaluate demo_job p = Inr (Some (empty_result\<lparr>op_params := p, op_total_trades := 1\<rparr>))"
    using demo_evaluate by blast
  have grid: "job_grid demo_job = [[''n'' \<mapsto> PInt 1], [''n'' \<mapsto> PInt 2]]" and t: "num_threads demo_job = 3"
    by (simp_all add: job_grid_def demo_job_def first_grid_def num_threads_def)
  note free = optimizer_schedule_free [OF h]
  show ?thesis
    using free [THEN conjunct1] free [THEN conjunct2, rule_format, of 7] by (auto simp: grid t Let_def)
qed

end
