(* ===== verification/Corrective.thy ===== *)
theory Corrective
  imports Valuation "HOL-Library.Word"
begin

unbundle bit_operations_syntax

text \<open>
  \<^verbatim>\<open>corrective/corrective_contracts.hpp\<close> and \<^verbatim>\<open>pop_sizing_policy.hpp\<close>: the contract types of the
  corrective layer, the hash of the feature schema (32-bit FNV-1a) and the sizing policies. A
  \<open>float\<close> is a \<open>real\<close>, or an \<open>fpval\<close> where the code looks at its class.
\<close>

subsection \<open>Contract types\<close>

datatype candidate_side = CLong | CShort
datatype gate_verdict = VPass | VReject | VCollectOnly | VDisabled
datatype outcome_type = OActual | OShadow | OCensored
datatype completion_status = SComplete | SCensored
datatype sizing_mode = MGate | MSizing | MHybrid

definition schema_version :: "32 word" where
  "schema_version = 1"

definition feature_count :: nat where
  "feature_count = 14"

record candidate =
  ca_schema_version :: "32 word"
  ca_candidate_id :: nat
  ca_as_of_ns :: "64 word"
  ca_cutoff_ns :: "64 word"
  ca_symbol_id :: "32 word"
  ca_side :: candidate_side
  ca_proposed_size :: real
  ca_final_size :: real
  ca_features :: "real list"
  ca_schema_hash :: "32 word"
  ca_verdict :: gate_verdict
  ca_probability :: real
  ca_policy :: sizing_mode

record outcome =
  oc_schema_version :: "32 word"
  oc_candidate_id :: nat
  oc_type :: outcome_type
  oc_entry_ns :: "64 word"
  oc_exit_ns :: "64 word"
  oc_holding_bars :: "32 word"
  oc_gross_pnl :: real
  oc_commission :: real
  oc_slippage :: real
  oc_net_pnl :: real
  oc_status :: completion_status
  oc_label_policy :: "32 word"
  oc_profit_label :: int

record runtime_config =
  rc_state :: gate_verdict
  rc_mode :: sizing_mode
  rc_threshold :: real
  rc_exponent :: real
  rc_shadow_horizon :: "32 word"

datatype corrective_error =
  ArtifactLoadFailed | FeatureSchemaMismatch | GoldenVectorDiverged | ModelVersionMismatch
| NonFiniteInput | NonFiniteOutput | FeatureCountMismatch | OnnxRuntimeError

fun error_code_string :: "corrective_error \<Rightarrow> string" where
  "error_code_string ArtifactLoadFailed = ''E_PRE_001''"
| "error_code_string FeatureSchemaMismatch = ''E_PRE_002''"
| "error_code_string GoldenVectorDiverged = ''E_PRE_003''"
| "error_code_string ModelVersionMismatch = ''E_PRE_004''"
| "error_code_string NonFiniteInput = ''E_INF_001''"
| "error_code_string NonFiniteOutput = ''E_INF_002''"
| "error_code_string FeatureCountMismatch = ''E_INF_003''"
| "error_code_string OnnxRuntimeError = ''E_INF_004''"

subsection \<open>The hash of the feature schema\<close>

definition fnv_basis :: "32 word" where
  "fnv_basis = 0x811c9dc5"

definition fnv_prime :: "32 word" where
  "fnv_prime = 0x01000193"

definition fnv_step :: "32 word \<Rightarrow> char \<Rightarrow> 32 word" where
  "fnv_step hash c = (hash XOR of_char c) * fnv_prime"

definition nul :: char where
  "nul = CHR 0x00"

text \<open>A name is a C string: the inner loop stops at its first NUL.\<close>

definition hash_name :: "32 word \<Rightarrow> string \<Rightarrow> 32 word" where
  "hash_name hash name = foldl fnv_step hash (takeWhile (\<lambda>c. c \<noteq> nul) name)"

fun hash_names :: "nat \<Rightarrow> 32 word \<Rightarrow> string list \<Rightarrow> 32 word" where
  "hash_names i hash [] = hash"
| "hash_names i hash (n # ns) =
     hash_names (i + 1) (hash_name (if 0 < i then fnv_step hash nul else hash) n) ns"

definition compute_feature_schema_hash :: "string list \<Rightarrow> 32 word" where
  "compute_feature_schema_hash names = hash_names 0 fnv_basis names"

definition feature_names :: "string list" where
  "feature_names = [''proposed_size_normalized'', ''entry_price'', ''bid_ask_spread_bps'', ''atr_ratio'',
     ''volatility_z'', ''rsi_14'', ''bb_percent_b'', ''macd_histogram'', ''volume_ratio'',
     ''unrealized_pnl_normalized'', ''open_position_count'', ''bars_since_last_trade'',
     ''current_drawdown_pct'', ''side_encoded'']"

definition feature_schema_hash :: "32 word" where
  "feature_schema_hash = compute_feature_schema_hash feature_names"

text \<open>The bytes the hash sees: the names with a NUL between two of them.\<close>

fun schema_bytes :: "string list \<Rightarrow> string" where
  "schema_bytes [] = []"
| "schema_bytes [n] = n"
| "schema_bytes (n # m # ns) = n @ nul # schema_bytes (m # ns)"

lemma hash_name_plain: "nul \<notin> set n \<Longrightarrow> hash_name h n = foldl fnv_step h n"
proof -
  assume "nul \<notin> set n"
  then have "takeWhile (\<lambda>c. c \<noteq> nul) n = n" by (auto simp: takeWhile_eq_all_conv)
  then show "hash_name h n = foldl fnv_step h n" unfolding hash_name_def by (rule arg_cong)
qed

lemma hash_names_bytes:
  "\<forall>n \<in> set ns. nul \<notin> set n \<Longrightarrow> ns \<noteq> [] \<Longrightarrow>
     hash_names i h ns = foldl fnv_step h (if 0 < i then nul # schema_bytes ns else schema_bytes ns)"
proof (induction ns arbitrary: i h rule: schema_bytes.induct)
  case (3 n m ns)
  have "hash_names i h (n # m # ns) = hash_names (i + 1) (hash_name (if 0 < i then fnv_step h nul else h) n) (m # ns)"
    by (rule hash_names.simps(2))
  also have "\<dots> = foldl fnv_step (foldl fnv_step (if 0 < i then fnv_step h nul else h) n) (nul # schema_bytes (m # ns))"
  proof -
    have "hash_names (i + 1) H (m # ns) = foldl fnv_step H (nul # schema_bytes (m # ns))" for H
      using "3.IH" [of "i + 1" H] "3.prems"(1) by (simp del: hash_names.simps schema_bytes.simps foldl.simps)
    moreover have "nul \<notin> set n" using "3.prems"(1) by simp
    ultimately show ?thesis by (simp only: hash_name_plain not_False_eq_True)
  qed
  finally show ?case by (cases "0 < i") simp_all
qed (auto simp: hash_name_plain)

text \<open>One step is injective in the hash and in the byte: the prime is odd.\<close>

lemma fnv_prime_inverse: "w * fnv_prime * 0x359c449b = w"
proof -
  have "fnv_prime * 0x359c449b = 1" unfolding fnv_prime_def by simp
  then show ?thesis by (simp only: mult.assoc mult_1_right)
qed

lemma fnv_mult_inj: "v * fnv_prime = w * fnv_prime \<Longrightarrow> v = w"
  by (metis fnv_prime_inverse)

lemma xor_cancel: "v XOR x = w XOR x \<Longrightarrow> v = (w :: 32 word)"
  by (metis xor.assoc xor.right_neutral xor_self_eq)

lemma of_char_inj: "(of_char c :: 32 word) = of_char d \<Longrightarrow> c = d"
proof -
  assume eq: "(of_char c :: 32 word) = of_char d"
  have "unat (of_char c :: 32 word) = of_char c" for c :: char
  proof -
    have "(of_char c :: nat) < 2 ^ 32" by (rule less_trans [OF nat_of_char_less_256]) simp
    then have "take_bit 32 (of_char c :: nat) = of_char c" by (simp add: take_bit_nat_eq_self)
    moreover have "unat (word_of_nat (of_char c) :: 32 word) = take_bit 32 (of_char c :: nat)"
      by (simp only: unsigned_of_nat len_bit0 len_num1, simp)
    ultimately show ?thesis by (simp only: of_nat_of_char)
  qed
  then have "(of_char c :: nat) = of_char d" using arg_cong [OF eq, of unat] by metis
  then show "c = d" by (simp add: of_char_eq_iff)
qed

lemma fnv_step_inj: "fnv_step v c = fnv_step w c \<Longrightarrow> v = w"
  unfolding fnv_step_def using fnv_mult_inj xor_cancel by blast

lemma fnv_step_char: "fnv_step v c = fnv_step v d \<Longrightarrow> c = d"
proof -
  assume "fnv_step v c = fnv_step v d"
  then have "of_char c XOR v = of_char d XOR (v :: 32 word)"
    unfolding fnv_step_def using fnv_mult_inj by (metis xor.commute)
  then show "c = d" using xor_cancel of_char_inj by blast
qed

lemma fnv_fold_inj: "foldl fnv_step v s = foldl fnv_step w s \<Longrightarrow> v = w"
  by (induction s arbitrary: v w) (auto dest: fnv_step_inj)

text \<open>
  The schema hash is FNV-1a over the feature names separated by NUL, and it detects every
  change of a single character: two schemas of C strings whose bytes agree but for one
  position never have the same hash.
\<close>

theorem schema_hash_detects:
  assumes "\<forall>n \<in> set ns. nul \<notin> set n" and "\<forall>m \<in> set ms. nul \<notin> set m" and "ns \<noteq> []" and "ms \<noteq> []"
  shows "compute_feature_schema_hash ns = foldl fnv_step fnv_basis (schema_bytes ns)
    \<and> (\<forall>us c d vs. schema_bytes ns = us @ c # vs \<and> schema_bytes ms = us @ d # vs \<and> c \<noteq> d \<longrightarrow>
         compute_feature_schema_hash ns \<noteq> compute_feature_schema_hash ms)"
proof -
  have fold: "compute_feature_schema_hash ns = foldl fnv_step fnv_basis (schema_bytes ns)"
    "compute_feature_schema_hash ms = foldl fnv_step fnv_basis (schema_bytes ms)"
    using assms by (simp_all add: compute_feature_schema_hash_def hash_names_bytes)
  have "c = d" if "foldl fnv_step fnv_basis (us @ c # vs) = foldl fnv_step fnv_basis (us @ d # vs)" for us c d vs
    using that fnv_fold_inj fnv_step_char by simp blast
  then show ?thesis unfolding fold by metis
qed

theorem schema_hash_detects_witness:
  "compute_feature_schema_hash [''rsi_14'', ''atr''] \<noteq> compute_feature_schema_hash [''rsi_15'', ''atr'']
   \<and> compute_feature_schema_hash [''ab''] = foldl fnv_step fnv_basis ''ab''"
proof
  have s: "schema_bytes [''rsi_14'', ''atr''] = ''rsi_1'' @ CHR ''4'' # nul # ''atr''"
    "schema_bytes [''rsi_15'', ''atr''] = ''rsi_1'' @ CHR ''5'' # nul # ''atr''" by simp_all
  have c: "CHR ''4'' \<noteq> CHR ''5''" by simp
  show "compute_feature_schema_hash [''rsi_14'', ''atr''] \<noteq> compute_feature_schema_hash [''rsi_15'', ''atr'']"
    by (rule schema_hash_detects [THEN conjunct2, rule_format, OF _ _ _ _ conjI [OF s(1) conjI [OF s(2) c]]])
       (auto simp: nul_def)
  show "compute_feature_schema_hash [''ab''] = foldl fnv_step fnv_basis ''ab''"
    by (rule schema_hash_detects [of "[''ab'']" "[''ab'']", THEN conjunct1, unfolded schema_bytes.simps])
       (auto simp: nul_def)
qed

lemma feature_schema_hash_value: "feature_schema_hash = 3045750473"
  by code_simp

subsection \<open>Sizing policies\<close>

record sizing_policy =
  sp_mode :: sizing_mode
  sp_threshold :: real
  sp_exponent :: real

definition clamp_float :: "real \<Rightarrow> real \<Rightarrow> real \<Rightarrow> real" where
  "clamp_float x lo hi = (if x < lo then lo else if hi < x then hi else x)"

definition default_sizing_policy :: sizing_policy where
  "default_sizing_policy = \<lparr>sp_mode = MGate, sp_threshold = 1 / 2, sp_exponent = 1\<rparr>"

definition new_sizing_policy :: "sizing_mode \<Rightarrow> real \<Rightarrow> real \<Rightarrow> sizing_policy" where
  "new_sizing_policy mode thr ex = \<lparr>sp_mode = mode, sp_threshold = thr, sp_exponent = clamp_float ex (1 / 10) 5\<rparr>"

type_synonym decision = "gate_verdict \<times> real"

definition apply_gate :: "sizing_policy \<Rightarrow> real \<Rightarrow> real \<Rightarrow> decision" where
  "apply_gate p prob proposed = (if prob < sp_threshold p then (VReject, 0) else (VPass, proposed))"

definition apply_sizing :: "sizing_policy \<Rightarrow> real \<Rightarrow> real \<Rightarrow> decision" where
  "apply_sizing p prob proposed =
     (let scale = clamp_float prob 0 1 powr sp_exponent p; sized = proposed * scale
      in (VPass, min sized proposed))"

definition apply_hybrid :: "sizing_policy \<Rightarrow> real \<Rightarrow> real \<Rightarrow> decision" where
  "apply_hybrid p prob proposed =
     (if prob < sp_threshold p then (VReject, 0) else apply_sizing p prob proposed)"

definition apply_policy :: "sizing_policy \<Rightarrow> real \<Rightarrow> real \<Rightarrow> decision" where
  "apply_policy p prob proposed =
     (case sp_mode p of
        MGate \<Rightarrow> apply_gate p prob proposed
      | MSizing \<Rightarrow> apply_sizing p prob proposed
      | MHybrid \<Rightarrow> apply_hybrid p prob proposed)"

lemma clamp_float_range: "lo \<le> hi \<Longrightarrow> lo \<le> clamp_float x lo hi \<and> clamp_float x lo hi \<le> hi"
  by (simp add: clamp_float_def)

lemma clamp_float_mono: "lo \<le> hi \<Longrightarrow> x \<le> y \<Longrightarrow> clamp_float x lo hi \<le> clamp_float y lo hi"
  by (simp add: clamp_float_def)

lemma scale_range:
  assumes "0 < e"
  shows "0 \<le> clamp_float p 0 1 powr e" "clamp_float p 0 1 powr e \<le> 1"
    "p \<le> q \<Longrightarrow> clamp_float p 0 1 powr e \<le> clamp_float q 0 1 powr e" "1 \<le> p \<Longrightarrow> clamp_float p 0 1 powr e = 1"
proof -
  show "0 \<le> clamp_float p 0 1 powr e" by simp
  have c: "0 \<le> clamp_float x 0 1 \<and> clamp_float x 0 1 \<le> 1" for x by (rule clamp_float_range) simp
  show "clamp_float p 0 1 powr e \<le> 1" using c [of p] assms by (simp add: powr_le1)
  show "clamp_float p 0 1 powr e \<le> clamp_float q 0 1 powr e" if "p \<le> q"
    using c assms clamp_float_mono [OF _ that, of 0 1] by (intro powr_mono2) auto
  show "clamp_float p 0 1 powr e = 1" if "1 \<le> p" using that by (simp add: clamp_float_def)
qed

lemma apply_sizing_bounds:
  assumes "0 < sp_exponent p" and "0 \<le> proposed"
  shows "apply_sizing p prob proposed = (VPass, proposed * clamp_float prob 0 1 powr sp_exponent p)"
    "0 \<le> snd (apply_sizing p prob proposed)" "snd (apply_sizing p prob proposed) \<le> proposed"
    "prob \<le> prob' \<Longrightarrow> snd (apply_sizing p prob proposed) \<le> snd (apply_sizing p prob' proposed)"
    "1 \<le> prob \<Longrightarrow> snd (apply_sizing p prob proposed) = proposed"
proof -
  note s = scale_range [OF assms(1)]
  have le: "proposed * clamp_float x 0 1 powr sp_exponent p \<le> proposed" for x
    using s(2) [of x] assms(2) by (simp add: mult_left_le)
  show eq: "apply_sizing p x proposed = (VPass, proposed * clamp_float x 0 1 powr sp_exponent p)" for x
    using le [of x] by (simp add: apply_sizing_def)
  show "0 \<le> snd (apply_sizing p prob proposed)" "snd (apply_sizing p prob proposed) \<le> proposed"
    using s(1) le assms(2) by (simp_all add: eq)
  show "snd (apply_sizing p prob proposed) \<le> snd (apply_sizing p prob' proposed)" if "prob \<le> prob'"
    using s(3) [OF that] assms(2) by (simp add: eq mult_left_mono)
  show "snd (apply_sizing p prob proposed) = proposed" if "1 \<le> prob" using s(4) [OF that] by (simp add: eq)
qed

text \<open>
  C25. A sizing policy never enlarges an order: of a proposed size that is not negative it leaves
  between nothing and all, never less for a higher probability, all of it for certainty
  unless the threshold itself is above; it rejects exactly below the threshold in the two
  gating modes, always to size zero, and never in the sizing mode, where a probability of zero
  passes an order of size zero.
\<close>

theorem sizing_policy_safe:
  assumes "0 \<le> proposed" and "p = new_sizing_policy mode thr ex"
  shows "(\<forall>prob. let (verdict, final) = apply_policy p prob proposed in
      0 \<le> final \<and> final \<le> proposed
      \<and> (verdict = VReject \<longleftrightarrow> mode \<noteq> MSizing \<and> prob < thr) \<and> (verdict \<noteq> VReject \<longrightarrow> verdict = VPass)
      \<and> (verdict = VReject \<longrightarrow> final = 0) \<and> (1 \<le> prob \<and> verdict = VPass \<longrightarrow> final = proposed))
    \<and> (\<forall>prob prob'. prob \<le> prob' \<longrightarrow> snd (apply_policy p prob proposed) \<le> snd (apply_policy p prob' proposed))
    \<and> (mode = MSizing \<longrightarrow> apply_policy p 0 proposed = (VPass, 0))"
proof -
  have e: "0 < sp_exponent p" using clamp_float_range [of "1 / 10" 5 ex] by (simp add: assms(2) new_sizing_policy_def)
  have f: "sp_mode p = mode" "sp_threshold p = thr" by (simp_all add: assms(2) new_sizing_policy_def)
  note b = apply_sizing_bounds [OF e assms(1)]
  have zero: "apply_sizing p 0 proposed = (VPass, 0)" using e by (simp add: b(1) clamp_float_def)
  have mono: "snd (apply_policy p x proposed) \<le> snd (apply_policy p y proposed)" if "x \<le> y" for x y
    using that b(2) [of y] b(4) [OF that] assms(1)
    by (cases mode) (auto simp: apply_policy_def apply_gate_def apply_hybrid_def f)
  show ?thesis
    using mono zero assms(1) b(2,3,5) b(1)
    by (cases mode) (auto simp: apply_policy_def apply_gate_def apply_hybrid_def f split: prod.split)
qed

theorem sizing_policy_safe_witness:
  "snd (apply_policy (new_sizing_policy MHybrid (1 / 2) 2) (3 / 4) 10) \<le> 10
   \<and> apply_policy (new_sizing_policy MSizing (1 / 2) 2) 0 10 = (VPass, 0)"
  using sizing_policy_safe [of 10 "new_sizing_policy MHybrid (1 / 2) 2" MHybrid "1 / 2" 2]
    sizing_policy_safe [of 10 "new_sizing_policy MSizing (1 / 2) 2" MSizing "1 / 2" 2]
  by (auto simp: split_beta Let_def)

end
