(* ===== verification/Simd.thy ===== *)
theory Simd
  imports Prelude
begin

text \<open>
  \<^verbatim>\<open>simd/simd_ops.hpp\<close>: the reductions the indicators are computed with, in the scalar version and
  in the vectorised one. The vector library is not under \<^verbatim>\<open>src/\<close>: a record of its batch operations
  is an argument of the vectorised reductions, and the locale \<open>lane_laws\<close> says what they promise of
  the lanes of a batch. Sums are exact, so that their order does not matter; the code allows itself
  a difference in the last place.
\<close>

subsection \<open>Scalar reductions\<close>

definition scalar_reduce_sum :: "real list \<Rightarrow> nat \<Rightarrow> real" where
  "scalar_reduce_sum data count = foldl (\<lambda>sum i. sum + data ! i) 0 [0..<count]"

definition scalar_reduce_min :: "real list \<Rightarrow> nat \<Rightarrow> real" where
  "scalar_reduce_min data count =
     (if count = 0 then 0
      else foldl (\<lambda>result i. if data ! i < result then data ! i else result) (data ! 0) [1..<count])"

definition scalar_reduce_max :: "real list \<Rightarrow> nat \<Rightarrow> real" where
  "scalar_reduce_max data count =
     (if count = 0 then 0
      else foldl (\<lambda>result i. if result < data ! i then data ! i else result) (data ! 0) [1..<count])"

definition scalar_reduce_mean_variance :: "real list \<Rightarrow> nat \<Rightarrow> real \<times> real" where
  "scalar_reduce_mean_variance data count =
     (let mean = scalar_reduce_sum data count / real count;
          variance_sum = foldl (\<lambda>sum i. let delta = data ! i - mean in sum + delta * delta) 0 [0..<count]
      in (mean, variance_sum / real count))"

subsection \<open>Vectorised reductions\<close>

record 'v xsimd =
  xs_size :: nat
  xs_broadcast :: "real \<Rightarrow> 'v"
  xs_load :: "real list \<Rightarrow> 'v"
  xs_add :: "'v \<Rightarrow> 'v \<Rightarrow> 'v"
  xs_sub :: "'v \<Rightarrow> 'v \<Rightarrow> 'v"
  xs_mul :: "'v \<Rightarrow> 'v \<Rightarrow> 'v"
  xs_min :: "'v \<Rightarrow> 'v \<Rightarrow> 'v"
  xs_max :: "'v \<Rightarrow> 'v \<Rightarrow> 'v"
  xs_reduce_add :: "'v \<Rightarrow> real"
  xs_reduce_min :: "'v \<Rightarrow> real"
  xs_reduce_max :: "'v \<Rightarrow> real"

text \<open>The indices of a loop from \<open>i\<close> to \<open>stop\<close> in steps of the batch size.\<close>

function stride :: "nat \<Rightarrow> nat \<Rightarrow> nat \<Rightarrow> nat list" where
  "stride i stop bs = (if i < stop \<and> 0 < bs then i # stride (i + bs) stop bs else [])"
  by pat_completeness auto
termination by (relation "measure (\<lambda>(i, stop, bs). stop - i)") auto

declare stride.simps [simp del]

definition load_at :: "'v xsimd \<Rightarrow> real list \<Rightarrow> nat \<Rightarrow> 'v" where
  "load_at ops data i = xs_load ops (take (xs_size ops) (drop i data))"

definition vector_end :: "'v xsimd \<Rightarrow> nat \<Rightarrow> nat" where
  "vector_end ops count = count - count mod xs_size ops"

definition simd_reduce_sum :: "'v xsimd \<Rightarrow> real list \<Rightarrow> nat \<Rightarrow> real" where
  "simd_reduce_sum ops data count =
     (let vec_end = vector_end ops count;
          acc = foldl (\<lambda>acc i. xs_add ops acc (load_at ops data i)) (xs_broadcast ops 0) (stride 0 vec_end (xs_size ops))
      in foldl (\<lambda>result i. result + data ! i) (xs_reduce_add ops acc) [vec_end..<count])"

definition simd_reduce_min :: "'v xsimd \<Rightarrow> real list \<Rightarrow> nat \<Rightarrow> real" where
  "simd_reduce_min ops data count =
     (if count = 0 then 0
      else (let bs = xs_size ops; vec_end = vector_end ops count;
                (result, i) =
                  (if bs \<le> count
                   then (xs_reduce_min ops (foldl (\<lambda>v i. xs_min ops v (load_at ops data i)) (load_at ops data 0)
                           (stride bs vec_end bs)), vec_end)
                   else (data ! 0, 1))
            in foldl (\<lambda>result i. if data ! i < result then data ! i else result) result [i..<count]))"

definition simd_reduce_max :: "'v xsimd \<Rightarrow> real list \<Rightarrow> nat \<Rightarrow> real" where
  "simd_reduce_max ops data count =
     (if count = 0 then 0
      else (let bs = xs_size ops; vec_end = vector_end ops count;
                (result, i) =
                  (if bs \<le> count
                   then (xs_reduce_max ops (foldl (\<lambda>v i. xs_max ops v (load_at ops data i)) (load_at ops data 0)
                           (stride bs vec_end bs)), vec_end)
                   else (data ! 0, 1))
            in foldl (\<lambda>result i. if result < data ! i then data ! i else result) result [i..<count]))"

definition simd_reduce_mean_variance :: "'v xsimd \<Rightarrow> real list \<Rightarrow> nat \<Rightarrow> real \<times> real" where
  "simd_reduce_mean_variance ops data count =
     (let mean = simd_reduce_sum ops data count / real count; vmean = xs_broadcast ops mean;
          vec_end = vector_end ops count;
          var_acc = foldl (\<lambda>acc i. let delta = xs_sub ops (load_at ops data i) vmean
                                   in xs_add ops acc (xs_mul ops delta delta))
                      (xs_broadcast ops 0) (stride 0 vec_end (xs_size ops));
          variance_sum = foldl (\<lambda>sum i. let delta = data ! i - mean in sum + delta * delta)
                           (xs_reduce_add ops var_acc) [vec_end..<count]
      in (mean, variance_sum / real count))"

subsection \<open>What the loops compute\<close>

text \<open>A fold over indices that only looks at the elements is a fold over a slice.\<close>

lemma foldl_slice:
  "i \<le> count \<Longrightarrow> count \<le> length data \<Longrightarrow> foldl (\<lambda>r k. f r (data ! k)) r [i..<count] = foldl f r (take (count - i) (drop i data))"
proof (induction "count - i" arbitrary: i r)
  case (Suc n)
  then have i: "i < count" by simp
  have "take (count - i) (drop i data) = data ! i # take (count - Suc i) (drop (Suc i) data)"
    using i Suc.prems by (simp add: Cons_nth_drop_Suc [symmetric] Suc_diff_le take_Suc_conv_app_nth flip: take_Suc_Cons Suc_diff_Suc)
  then show ?case using Suc.hyps(1) [of "Suc i"] Suc.hyps(2) Suc.prems i by (simp add: upt_conv_Cons)
qed simp

lemma foldl_add: "foldl (\<lambda>s x. s + f x) r xs = r + sum_list (map f (xs :: real list))" for f :: "real \<Rightarrow> real"
  by (induction xs arbitrary: r) (simp_all add: ac_simps)

lemma foldl_min: "foldl (\<lambda>r x. if x < r then x else r) r xs = Min (insert r (set xs))" for r :: real
proof (induction xs arbitrary: r)
  case (Cons x xs)
  have "Min (insert (min r x) (set xs)) = Min (insert r (set (x # xs)))"
    by (cases "xs = []") (simp_all add: min.assoc insert_commute)
  then show ?case using Cons.IH [of "min r x"] by (auto simp: min_def split: if_splits)
qed simp

lemma foldl_max: "foldl (\<lambda>r x. if r < x then x else r) r xs = Max (insert r (set xs))" for r :: real
proof (induction xs arbitrary: r)
  case (Cons x xs)
  have "Max (insert (max r x) (set xs)) = Max (insert r (set (x # xs)))"
    by (cases "xs = []") (simp_all add: max.assoc insert_commute)
  then show ?case using Cons.IH [of "max r x"] by (auto simp: max_def split: if_splits)
qed simp

lemma scalar_sum: "count \<le> length data \<Longrightarrow> scalar_reduce_sum data count = sum_list (take count data)"
  using foldl_slice [of 0 count data "(+)" 0] foldl_add [of "\<lambda>x. x" 0] by (simp add: scalar_reduce_sum_def)

lemma first_slice: "0 < count \<Longrightarrow> count \<le> length data \<Longrightarrow> take count data = data ! 0 # take (count - 1) (drop 1 data)"
  by (cases data; cases count) simp_all

lemma scalar_min: "0 < count \<Longrightarrow> count \<le> length data \<Longrightarrow> scalar_reduce_min data count = Min (set (take count data))"
  using foldl_slice [of 1 count data "\<lambda>r x. if x < r then x else r"] first_slice [of count data]
  by (simp add: scalar_reduce_min_def foldl_min)

lemma scalar_max: "0 < count \<Longrightarrow> count \<le> length data \<Longrightarrow> scalar_reduce_max data count = Max (set (take count data))"
  using foldl_slice [of 1 count data "\<lambda>r x. if r < x then x else r"] first_slice [of count data]
  by (simp add: scalar_reduce_max_def foldl_max)

lemma scalar_mean_variance:
  "count \<le> length data \<Longrightarrow>
     scalar_reduce_mean_variance data count =
       (let mean = sum_list (take count data) / real count
        in (mean, sum_list (map (\<lambda>x. (x - mean) * (x - mean)) (take count data)) / real count))"
  using foldl_slice [of 0 count data "\<lambda>s x. s + (x - m) * (x - m)" 0 for m]
  by (simp add: scalar_reduce_mean_variance_def scalar_sum Let_def foldl_add)

text \<open>An invariant of a loop over blocks; the loop ends exactly at its bound.\<close>

lemma stride_invariant:
  assumes "P i acc" and "\<And>i acc. P i acc \<Longrightarrow> i + bs \<le> stop \<Longrightarrow> P (i + bs) (f acc i)"
    and "bs dvd stop - i" and "i \<le> stop" and "0 < bs"
  shows "P stop (foldl f acc (stride i stop bs))"
  using assms(1,3,4)
proof (induction "stop - i" arbitrary: i acc rule: less_induct)
  case less
  show ?case
  proof (cases "i = stop")
    case False
    then have i: "i < stop" "bs \<le> stop - i" using less.prems dvd_imp_le [of bs "stop - i"] by auto
    then have "bs dvd stop - (i + bs)" using less.prems(2) by (metis diff_diff_left dvd_minus_self)
    then show ?thesis
      using less.hyps [of "i + bs" "f acc i"] less.prems assms(2,5) i by (subst stride.simps) simp
  qed (use less.prems in \<open>simp add: stride.simps\<close>)
qed

lemma Min_absorb: "finite A \<Longrightarrow> A \<noteq> {} \<Longrightarrow> finite B \<Longrightarrow> Min (insert (Min A) B) = Min (A \<union> (B :: real set))"
  by (cases "B = {}") (simp_all add: Min_Un)

lemma Max_absorb: "finite A \<Longrightarrow> A \<noteq> {} \<Longrightarrow> finite B \<Longrightarrow> Max (insert (Max A) B) = Max (A \<union> (B :: real set))"
  by (cases "B = {}") (simp_all add: Max_Un)

subsection \<open>The contract of the batches\<close>

locale lane_laws =
  fixes ops :: "'v xsimd" and lanes :: "'v \<Rightarrow> real list"
  assumes size_positive: "0 < xs_size ops"
    and lanes_length: "length (lanes v) = xs_size ops"
    and lanes_broadcast: "lanes (xs_broadcast ops x) = replicate (xs_size ops) x"
    and lanes_load: "length xs = xs_size ops \<Longrightarrow> lanes (xs_load ops xs) = xs"
    and lanes_add: "lanes (xs_add ops v w) = map2 (+) (lanes v) (lanes w)"
    and lanes_sub: "lanes (xs_sub ops v w) = map2 (-) (lanes v) (lanes w)"
    and lanes_mul: "lanes (xs_mul ops v w) = map2 (*) (lanes v) (lanes w)"
    and lanes_min: "lanes (xs_min ops v w) = map2 min (lanes v) (lanes w)"
    and lanes_max: "lanes (xs_max ops v w) = map2 max (lanes v) (lanes w)"
    and reduce_add: "xs_reduce_add ops v = sum_list (lanes v)"
    and reduce_min: "xs_reduce_min ops v = Min (set (lanes v))"
    and reduce_max: "xs_reduce_max ops v = Max (set (lanes v))"
begin

abbreviation "bs \<equiv> xs_size ops"

lemma vector_end_block:
  "vector_end ops count \<le> count" "bs dvd vector_end ops count" "bs \<le> count \<Longrightarrow> bs \<le> vector_end ops count"
proof -
  show "vector_end ops count \<le> count" "bs dvd vector_end ops count"
    by (simp_all add: vector_end_def minus_mod_eq_mult_div)
  show "bs \<le> count \<Longrightarrow> bs \<le> vector_end ops count"
    using div_le_mono [of bs count bs] size_positive by (simp add: vector_end_def minus_mod_eq_mult_div)
qed

text \<open>Every load reads one whole block inside the data.\<close>

lemma lanes_load_at:
  "i + bs \<le> length data \<Longrightarrow> lanes (load_at ops data i) = take bs (drop i data)"
  unfolding load_at_def by (rule lanes_load) simp

lemma take_block: "take (i + bs) data = take i data @ take bs (drop i data)"
  by (simp add: take_add)

lemma sum_list_map2_add: "length xs = length ys \<Longrightarrow> sum_list (map2 (+) xs ys) = sum_list xs + sum_list (ys :: real list)"
  by (induction xs ys rule: list_induct2) simp_all

lemma Min_map2:
  "length xs = length ys \<Longrightarrow> xs \<noteq> [] \<Longrightarrow> Min (set (map2 min xs ys)) = min (Min (set xs)) (Min (set (ys :: real list)))"
proof (induction xs ys rule: list_induct2)
  case (Cons x xs y ys)
  show ?case
  proof (cases "xs = []")
    case False
    then have "ys \<noteq> []" "map2 min xs ys \<noteq> []" using Cons.hyps by auto
    then have "Min (insert (min x y) (set (map2 min xs ys))) = min (min x y) (min (Min (set xs)) (Min (set ys)))"
      using Cons.IH False by (simp del: list.set_map)
    then show ?thesis using False \<open>ys \<noteq> []\<close> by (simp add: min.assoc min.left_commute)
  qed (use Cons.hyps in simp)
qed simp

lemma Max_map2:
  "length xs = length ys \<Longrightarrow> xs \<noteq> [] \<Longrightarrow> Max (set (map2 max xs ys)) = max (Max (set xs)) (Max (set (ys :: real list)))"
proof (induction xs ys rule: list_induct2)
  case (Cons x xs y ys)
  show ?case
  proof (cases "xs = []")
    case False
    then have "ys \<noteq> []" "map2 max xs ys \<noteq> []" using Cons.hyps by auto
    then have "Max (insert (max x y) (set (map2 max xs ys))) = max (max x y) (max (Max (set xs)) (Max (set ys)))"
      using Cons.IH False by (simp del: list.set_map)
    then show ?thesis using False \<open>ys \<noteq> []\<close> by (simp add: max.assoc max.left_commute)
  qed (use Cons.hyps in simp)
qed simp

lemma block_sum:
  assumes "count \<le> length data"
  shows "xs_reduce_add ops (foldl (\<lambda>acc i. xs_add ops acc (load_at ops data i)) (xs_broadcast ops 0)
           (stride 0 (vector_end ops count) bs)) = sum_list (take (vector_end ops count) data)"
proof -
  let ?P = "\<lambda>i acc. sum_list (lanes acc) = sum_list (take i data)"
  have "?P (vector_end ops count) (foldl (\<lambda>acc i. xs_add ops acc (load_at ops data i)) (xs_broadcast ops 0)
           (stride 0 (vector_end ops count) bs))"
  proof (rule stride_invariant)
    fix i acc assume P: "?P i acc" and "i + bs \<le> vector_end ops count"
    then have "i + bs \<le> length data" using vector_end_block(1) [of count] assms by simp
    then show "?P (i + bs) (xs_add ops acc (load_at ops data i))"
      using P by (simp add: lanes_add sum_list_map2_add lanes_load_at lanes_length take_block)
  qed (use vector_end_block size_positive in \<open>simp_all add: lanes_broadcast sum_list_replicate\<close>)
  then show ?thesis by (simp add: reduce_add)
qed

lemma reduce_sum_exact:
  assumes "count \<le> length data"
  shows "simd_reduce_sum ops data count = scalar_reduce_sum data count"
proof -
  let ?e = "vector_end ops count"
  have "take count data = take ?e data @ take (count - ?e) (drop ?e data)"
    using vector_end_block(1) [of count] by (metis le_add_diff_inverse take_add)
  then show ?thesis
    using foldl_slice [of ?e count data "(+)"] vector_end_block(1) [of count] assms foldl_add [of "\<lambda>x. x"]
    by (simp add: simd_reduce_sum_def block_sum scalar_sum Let_def)
qed

lemma block_sum_squares:
  assumes "count \<le> length data"
  shows "xs_reduce_add ops (foldl (\<lambda>acc i. let delta = xs_sub ops (load_at ops data i) (xs_broadcast ops m)
             in xs_add ops acc (xs_mul ops delta delta)) (xs_broadcast ops 0) (stride 0 (vector_end ops count) bs))
         = sum_list (map (\<lambda>x. (x - m) * (x - m)) (take (vector_end ops count) data))"
proof -
  let ?f = "\<lambda>x. (x - m) * (x - m)"
  let ?P = "\<lambda>i acc. sum_list (lanes acc) = sum_list (map ?f (take i data))"
  have square: "map2 (*) (map2 (-) xs (replicate (length xs) m)) (map2 (-) xs (replicate (length xs) m)) = map ?f xs" for xs
    by (induction xs) simp_all
  have "?P (vector_end ops count) (foldl (\<lambda>acc i. let delta = xs_sub ops (load_at ops data i) (xs_broadcast ops m)
             in xs_add ops acc (xs_mul ops delta delta)) (xs_broadcast ops 0) (stride 0 (vector_end ops count) bs))"
  proof (rule stride_invariant)
    fix i acc assume P: "?P i acc" and "i + bs \<le> vector_end ops count"
    then have len: "i + bs \<le> length data" using vector_end_block(1) [of count] assms by simp
    let ?block = "take bs (drop i data)"
    have block: "length ?block = bs" using len by simp
    have "lanes (xs_mul ops (xs_sub ops (load_at ops data i) (xs_broadcast ops m))
            (xs_sub ops (load_at ops data i) (xs_broadcast ops m))) = map ?f ?block"
      using square [of ?block] unfolding block by (simp only: lanes_mul lanes_sub lanes_broadcast lanes_load_at [OF len])
    then show "?P (i + bs) (let delta = xs_sub ops (load_at ops data i) (xs_broadcast ops m)
             in xs_add ops acc (xs_mul ops delta delta))"
      using P block by (simp add: Let_def lanes_add sum_list_map2_add lanes_length take_block)
  qed (use vector_end_block size_positive in \<open>simp_all add: lanes_broadcast sum_list_replicate\<close>)
  then show ?thesis by (simp add: reduce_add)
qed

lemma reduce_mean_variance_exact:
  assumes "count \<le> length data"
  shows "simd_reduce_mean_variance ops data count = scalar_reduce_mean_variance data count"
proof -
  let ?e = "vector_end ops count"
  have "take count data = take ?e data @ take (count - ?e) (drop ?e data)"
    using vector_end_block(1) [of count] by (metis le_add_diff_inverse take_add)
  then have split: "sum_list (map f (take count data)) =
      sum_list (map f (take ?e data)) + sum_list (map f (take (count - ?e) (drop ?e data)))" for f :: "real \<Rightarrow> real"
    by (metis map_append sum_list_append)
  have tail: "foldl (\<lambda>sum i. sum + (data ! i - m) * (data ! i - m)) r [?e..<count]
      = r + sum_list (map (\<lambda>x. (x - m) * (x - m)) (take (count - ?e) (drop ?e data)))" for m r
    using foldl_slice [of ?e count data "\<lambda>s x. s + (x - m) * (x - m)" r] vector_end_block(1) [of count] assms
    by (simp add: foldl_add)
  show ?thesis
    using block_sum_squares [OF assms] by (simp add: simd_reduce_mean_variance_def scalar_mean_variance [OF assms]
        reduce_sum_exact [OF assms] scalar_sum [OF assms] Let_def tail split)
qed

lemma block_min:
  assumes "count \<le> length data" and "bs \<le> count"
  shows "xs_reduce_min ops (foldl (\<lambda>v i. xs_min ops v (load_at ops data i)) (load_at ops data 0)
           (stride bs (vector_end ops count) bs)) = Min (set (take (vector_end ops count) data))"
proof -
  let ?P = "\<lambda>i v. 0 < i \<and> Min (set (lanes v)) = Min (set (take i data))"
  have "?P (vector_end ops count) (foldl (\<lambda>v i. xs_min ops v (load_at ops data i)) (load_at ops data 0)
           (stride bs (vector_end ops count) bs))"
  proof (rule stride_invariant)
    fix i v assume P: "?P i v" and i: "i + bs \<le> vector_end ops count"
    then have len: "i + bs \<le> length data" using vector_end_block(1) [of count] assms by simp
    have ne: "lanes v \<noteq> []" "take i data \<noteq> []" "take bs (drop i data) \<noteq> []"
      using lanes_length [of v] size_positive len P by auto
    have "length (lanes v) = length (take bs (drop i data))" using lanes_length [of v] len by simp
    then have "Min (set (lanes (xs_min ops v (load_at ops data i)))) = min (Min (set (lanes v))) (Min (set (take bs (drop i data))))"
      unfolding lanes_min lanes_load_at [OF len] by (rule Min_map2 [OF _ ne(1)])
    also have "\<dots> = min (Min (set (take i data))) (Min (set (take bs (drop i data))))" using P by simp
    also have "\<dots> = Min (set (take (i + bs) data))" using ne by (simp add: take_block Min_Un)
    finally show "?P (i + bs) (xs_min ops v (load_at ops data i))" using P by simp
  next
    show "?P bs (load_at ops data 0)" using lanes_load_at [of 0 data] assms size_positive by simp
    show "bs dvd vector_end ops count - bs" using vector_end_block by (simp add: dvd_diff_nat)
  qed (use vector_end_block assms size_positive in auto)
  then show ?thesis by (simp add: reduce_min)
qed

lemma block_max:
  assumes "count \<le> length data" and "bs \<le> count"
  shows "xs_reduce_max ops (foldl (\<lambda>v i. xs_max ops v (load_at ops data i)) (load_at ops data 0)
           (stride bs (vector_end ops count) bs)) = Max (set (take (vector_end ops count) data))"
proof -
  let ?P = "\<lambda>i v. 0 < i \<and> Max (set (lanes v)) = Max (set (take i data))"
  have "?P (vector_end ops count) (foldl (\<lambda>v i. xs_max ops v (load_at ops data i)) (load_at ops data 0)
           (stride bs (vector_end ops count) bs))"
  proof (rule stride_invariant)
    fix i v assume P: "?P i v" and i: "i + bs \<le> vector_end ops count"
    then have len: "i + bs \<le> length data" using vector_end_block(1) [of count] assms by simp
    have ne: "lanes v \<noteq> []" "take i data \<noteq> []" "take bs (drop i data) \<noteq> []"
      using lanes_length [of v] size_positive len P by auto
    have "length (lanes v) = length (take bs (drop i data))" using lanes_length [of v] len by simp
    then have "Max (set (lanes (xs_max ops v (load_at ops data i)))) = max (Max (set (lanes v))) (Max (set (take bs (drop i data))))"
      unfolding lanes_max lanes_load_at [OF len] by (rule Max_map2 [OF _ ne(1)])
    also have "\<dots> = max (Max (set (take i data))) (Max (set (take bs (drop i data))))" using P by simp
    also have "\<dots> = Max (set (take (i + bs) data))" using ne by (simp add: take_block Max_Un)
    finally show "?P (i + bs) (xs_max ops v (load_at ops data i))" using P by simp
  next
    show "?P bs (load_at ops data 0)" using lanes_load_at [of 0 data] assms size_positive by simp
    show "bs dvd vector_end ops count - bs" using vector_end_block by (simp add: dvd_diff_nat)
  qed (use vector_end_block assms size_positive in auto)
  then show ?thesis by (simp add: reduce_max)
qed

lemma reduce_min_max_exact:
  assumes "count \<le> length data"
  shows "simd_reduce_min ops data count = scalar_reduce_min data count"
    "simd_reduce_max ops data count = scalar_reduce_max data count"
proof -
  let ?e = "vector_end ops count"
  have slices: "take count data = take ?e data @ take (count - ?e) (drop ?e data)"
    using vector_end_block(1) [of count] by (metis le_add_diff_inverse take_add)
  have ne: "take ?e data \<noteq> []" if "bs \<le> count" "0 < count"
    using that vector_end_block [of count] assms size_positive by auto
  have tail: "foldl (\<lambda>r k. f r (data ! k)) r [?e..<count] = foldl f r (take (count - ?e) (drop ?e data))" for f and r :: real
    using foldl_slice [of ?e count data f r] vector_end_block(1) [of count] assms by simp
  show "simd_reduce_min ops data count = scalar_reduce_min data count"
    using tail [of "\<lambda>r x. if x < r then x else r"] block_min [OF assms] scalar_min [of count data] slices ne assms
    by (auto simp: simd_reduce_min_def foldl_min Let_def scalar_reduce_min_def Min_absorb)
  show "simd_reduce_max ops data count = scalar_reduce_max data count"
    using tail [of "\<lambda>r x. if r < x then x else r"] block_max [OF assms] scalar_max [of count data] slices ne assms
    by (auto simp: simd_reduce_max_def foldl_max Let_def scalar_reduce_max_def Max_absorb)
qed

end

subsection \<open>The reductions agree\<close>

text \<open>Batches of any positive width, as functions from the lane: the contract can be met.\<close>

definition batch :: "nat \<Rightarrow> (nat \<Rightarrow> real) xsimd" where
  "batch w =
     \<lparr>xs_size = w, xs_broadcast = (\<lambda>x i. x), xs_load = (\<lambda>xs i. xs ! i),
      xs_add = (\<lambda>v u i. v i + u i), xs_sub = (\<lambda>v u i. v i - u i), xs_mul = (\<lambda>v u i. v i * u i),
      xs_min = (\<lambda>v u i. min (v i) (u i)), xs_max = (\<lambda>v u i. max (v i) (u i)),
      xs_reduce_add = (\<lambda>v. sum_list (map v [0..<w])), xs_reduce_min = (\<lambda>v. Min (v ` {0..<w})),
      xs_reduce_max = (\<lambda>v. Max (v ` {0..<w}))\<rparr>"

lemma map2_map: "map2 f (map g xs) (map h xs) = map (\<lambda>x. f (g x) (h x)) xs"
  by (induction xs) simp_all

lemma map_nth_length: "length xs = n \<Longrightarrow> map ((!) xs) [0..<n] = xs"
  using map_nth by blast

interpretation batches: lane_laws "batch (Suc w)" "\<lambda>v. map v [0..<Suc w]" for w
  by unfold_locales (simp_all only: batch_def xsimd.simps map2_map set_map set_upt length_map length_upt diff_zero
      zero_less_Suc map_replicate_const map_nth_length)



end
