(* ===== verification/Indicators.thy ===== *)
theory Indicators
  imports Lines Simd
begin

text \<open>
  The indicators the corrective layer is built on: \<^verbatim>\<open>indicators/sma.hpp\<close>, \<^verbatim>\<open>ema.hpp\<close>, \<^verbatim>\<open>smma.hpp\<close>,
  \<^verbatim>\<open>stddev.hpp\<close>, \<^verbatim>\<open>bollinger.hpp\<close>, \<^verbatim>\<open>bollingerpct.hpp\<close>, \<^verbatim>\<open>rsi.hpp\<close>, \<^verbatim>\<open>atr.hpp\<close> and \<^verbatim>\<open>macd.hpp\<close>. An
  indicator is a record of its members and output lines; \<open>next\<close> reads the source at its cursor and
  appends one value, NaN during the warm-up. Sources hold finite values. The periods of SMMA, ATR
  and MACD, which their constructors do not check, are at least 1; reserving capacity is left out.
\<close>

subsection \<open>Averages\<close>

definition fp_div :: "real \<Rightarrow> real \<Rightarrow> fpval" where
  "fp_div x y = (if y \<noteq> 0 then Fin (x / y) else if x = 0 then NaN else if 0 < x then PosInf else NegInf)"

definition last_of :: "'a line \<Rightarrow> 'a" where
  "last_of l = last (ln_data l)"

record sma =
  sma_line :: "fpval line"
  sma_period :: nat

definition new_sma :: "nat \<Rightarrow> sma" where
  "new_sma period = \<lparr>sma_line = line_empty, sma_period = (if period = 0 then 1 else period)\<rparr>"

definition sma_next :: "real line \<Rightarrow> sma \<Rightarrow> sma" where
  "sma_next src s =
     (let idx = line_index src; period = sma_period s
      in if idx + 1 < period then s\<lparr>sma_line := line_forward NaN (sma_line s)\<rparr>
         else (let sum = scalar_reduce_sum (drop (idx + 1 - period) (ln_data src)) period
               in s\<lparr>sma_line := line_forward (Fin (sum / real period)) (sma_line s)\<rparr>))"

text \<open>The sum of the last \<open>period\<close> values, from the newest, divided by their number.\<close>

definition seed_sma :: "real list \<Rightarrow> nat \<Rightarrow> nat \<Rightarrow> real" where
  "seed_sma data idx period = foldl (\<lambda>sum i. sum + data ! (idx - i)) 0 [0..<period] / real period"

record ema =
  ema_line :: "fpval line"
  ema_period :: nat
  ema_multiplier :: real
  ema_prev :: real
  ema_initialized :: bool

definition new_ema :: "nat \<Rightarrow> ema" where
  "new_ema period =
     (let p = (if period = 0 then 1 else period)
      in \<lparr>ema_line = line_empty, ema_period = p, ema_multiplier = 2 / (real p + 1), ema_prev = 0,
          ema_initialized = False\<rparr>)"

definition ema_next :: "real line \<Rightarrow> ema \<Rightarrow> ema" where
  "ema_next src e =
     (let idx = line_index src
      in if idx + 1 < ema_period e then e\<lparr>ema_line := line_forward NaN (ema_line e)\<rparr>
         else if \<not> ema_initialized e then
           (let sma = seed_sma (ln_data src) idx (ema_period e)
            in e\<lparr>ema_line := line_forward (Fin sma) (ema_line e), ema_prev := sma, ema_initialized := True\<rparr>)
         else
           (let ema = (ln_data src ! idx - ema_prev e) * ema_multiplier e + ema_prev e
            in e\<lparr>ema_line := line_forward (Fin ema) (ema_line e), ema_prev := ema\<rparr>))"

record smma =
  smma_line :: "fpval line"
  smma_period :: nat
  smma_prev :: real
  smma_initialized :: bool

definition new_smma :: "nat \<Rightarrow> smma" where
  "new_smma period = \<lparr>smma_line = line_empty, smma_period = period, smma_prev = 0, smma_initialized = False\<rparr>"

definition smma_next :: "real line \<Rightarrow> smma \<Rightarrow> smma" where
  "smma_next src s =
     (let idx = line_index src; period = smma_period s
      in if idx + 1 < period then s\<lparr>smma_line := line_forward NaN (smma_line s)\<rparr>
         else
           (let prev = (if \<not> smma_initialized s then seed_sma (ln_data src) idx period
                        else (smma_prev s * (real period - 1) + ln_data src ! idx) / real period)
            in s\<lparr>smma_prev := prev, smma_initialized := True, smma_line := line_forward (Fin prev) (smma_line s)\<rparr>))"

subsection \<open>Dispersion\<close>

record stddev =
  sd_line :: "fpval line"
  sd_period :: nat

definition new_stddev :: "nat \<Rightarrow> stddev" where
  "new_stddev period = \<lparr>sd_line = line_empty, sd_period = (if period = 0 then 1 else period)\<rparr>"

definition stddev_next :: "real line \<Rightarrow> stddev \<Rightarrow> stddev" where
  "stddev_next src s =
     (let idx = line_index src; period = sd_period s
      in if idx + 1 < period then s\<lparr>sd_line := line_forward NaN (sd_line s)\<rparr>
         else (let (mean, variance) = scalar_reduce_mean_variance (drop (idx + 1 - period) (ln_data src)) period
               in s\<lparr>sd_line := line_forward (Fin (sqrt variance)) (sd_line s)\<rparr>))"

record bollinger =
  bb_line :: "fpval line"
  bb_period :: nat
  bb_devfactor :: real
  bb_top :: "fpval line"
  bb_bottom :: "fpval line"

definition new_bollinger :: "nat \<Rightarrow> real \<Rightarrow> bollinger" where
  "new_bollinger period devfactor =
     \<lparr>bb_line = line_empty, bb_period = (if period = 0 then 1 else period), bb_devfactor = devfactor,
      bb_top = line_empty, bb_bottom = line_empty\<rparr>"

definition bollinger_next :: "real line \<Rightarrow> bollinger \<Rightarrow> bollinger" where
  "bollinger_next src b =
     (let idx = line_index src; period = bb_period b
      in if idx + 1 < period then
           b\<lparr>bb_line := line_forward NaN (bb_line b), bb_top := line_forward NaN (bb_top b),
             bb_bottom := line_forward NaN (bb_bottom b)\<rparr>
         else (let (mean, variance) = scalar_reduce_mean_variance (drop (idx + 1 - period) (ln_data src)) period;
                   stddev = sqrt variance
               in b\<lparr>bb_line := line_forward (Fin mean) (bb_line b),
                    bb_top := line_forward (Fin (mean + bb_devfactor b * stddev)) (bb_top b),
                    bb_bottom := line_forward (Fin (mean - bb_devfactor b * stddev)) (bb_bottom b)\<rparr>))"

record bollinger_pct =
  bq_line :: "fpval line"
  bq_bands :: bollinger
  bq_top :: "fpval line"
  bq_bottom :: "fpval line"
  bq_pctb :: "fpval line"

definition new_bollinger_pct :: "nat \<Rightarrow> real \<Rightarrow> bollinger_pct" where
  "new_bollinger_pct period devfactor =
     \<lparr>bq_line = line_empty, bq_bands = new_bollinger period devfactor, bq_top = line_empty, bq_bottom = line_empty,
      bq_pctb = line_empty\<rparr>"

text \<open>The bands are all finite or all NaN.\<close>

definition percent_b :: "real \<Rightarrow> fpval \<Rightarrow> fpval \<Rightarrow> fpval \<Rightarrow> fpval" where
  "percent_b x mid hi lo =
     (case (mid, hi, lo) of
        (Fin m, Fin t, Fin b) \<Rightarrow> fp_div (x - b) (t - b)
      | _ \<Rightarrow> NaN)"

definition bollinger_pct_next :: "real line \<Rightarrow> bollinger_pct \<Rightarrow> bollinger_pct" where
  "bollinger_pct_next src q =
     (let bands = bollinger_next src (bq_bands q);
          mid = last_of (bb_line bands); hi = last_of (bb_top bands); lo = last_of (bb_bottom bands)
      in q\<lparr>bq_bands := bands, bq_line := line_forward mid (bq_line q), bq_top := line_forward hi (bq_top q),
           bq_bottom := line_forward lo (bq_bottom q),
           bq_pctb := line_forward (percent_b (ln_data src ! line_index src) mid hi lo) (bq_pctb q)\<rparr>)"

subsection \<open>Oscillators\<close>

datatype rsi_movav = Smoothed | Simple | Exponential

record rsi =
  ri_line :: "fpval line"
  ri_period :: nat
  ri_movav :: rsi_movav
  ri_safediv :: bool
  ri_safehigh :: real
  ri_safelow :: real
  ri_lookback :: nat
  ri_alpha :: real
  ri_gains :: "real line"
  ri_losses :: "real line"
  ri_avg_gain :: real
  ri_avg_loss :: real
  ri_initialized :: bool

definition new_rsi :: "nat \<Rightarrow> rsi_movav \<Rightarrow> bool \<Rightarrow> real \<Rightarrow> real \<Rightarrow> nat \<Rightarrow> rsi" where
  "new_rsi period movav safediv safehigh safelow lookback =
     (let p = (if period = 0 then 1 else period)
      in \<lparr>ri_line = line_empty, ri_period = p, ri_movav = movav, ri_safediv = safediv, ri_safehigh = safehigh,
          ri_safelow = safelow, ri_lookback = (if lookback = 0 then 1 else lookback), ri_alpha = 2 / (1 + real p),
          ri_gains = line_empty, ri_losses = line_empty, ri_avg_gain = 0, ri_avg_loss = 0, ri_initialized = False\<rparr>)"

definition new_rsi_safe :: "nat \<Rightarrow> rsi_movav \<Rightarrow> real \<Rightarrow> real \<Rightarrow> nat \<Rightarrow> rsi" where
  "new_rsi_safe period movav safehigh safelow lookback = new_rsi period movav True safehigh safelow lookback"

definition new_rsi_sma :: "nat \<Rightarrow> bool \<Rightarrow> real \<Rightarrow> real \<Rightarrow> nat \<Rightarrow> rsi" where
  "new_rsi_sma period safediv safehigh safelow lookback = new_rsi period Simple safediv safehigh safelow lookback"

definition new_rsi_ema :: "nat \<Rightarrow> bool \<Rightarrow> real \<Rightarrow> real \<Rightarrow> nat \<Rightarrow> rsi" where
  "new_rsi_ema period safediv safehigh safelow lookback = new_rsi period Exponential safediv safehigh safelow lookback"

definition new_rmi :: "nat \<Rightarrow> nat \<Rightarrow> rsi" where
  "new_rmi period lookback = new_rsi period Smoothed False 100 50 lookback"

definition seed_average :: "nat \<Rightarrow> real line \<Rightarrow> real" where
  "seed_average period l =
     (let p = drop (line_size l - period) (ln_data l)
      in foldl (\<lambda>sum i. sum + p ! i) 0 [0..<period] / real period)"

definition rs_from_rsi :: "real \<Rightarrow> fpval" where
  "rs_from_rsi rsi = (if rsi = 100 then PosInf else Fin (- 100 / (rsi - 100) - 1))"

definition rsi_averages :: "real \<Rightarrow> real \<Rightarrow> rsi \<Rightarrow> rsi" where
  "rsi_averages gain loss r =
     (let p = real (ri_period r); a = ri_alpha r;
          simple = r\<lparr>ri_avg_gain := seed_average (ri_period r) (ri_gains r),
                     ri_avg_loss := seed_average (ri_period r) (ri_losses r)\<rparr>
      in if \<not> ri_initialized r then simple\<lparr>ri_initialized := True\<rparr>
         else case ri_movav r of
                Smoothed \<Rightarrow> r\<lparr>ri_avg_gain := (ri_avg_gain r * (p - 1) + gain) / p,
                               ri_avg_loss := (ri_avg_loss r * (p - 1) + loss) / p\<rparr>
              | Exponential \<Rightarrow> r\<lparr>ri_avg_gain := ri_avg_gain r * (1 - a) + gain * a,
                                  ri_avg_loss := ri_avg_loss r * (1 - a) + loss * a\<rparr>
              | Simple \<Rightarrow> simple)"

definition rsi_of_rs :: "real \<Rightarrow> real" where
  "rsi_of_rs rs = 100 - 100 / (1 + rs)"

definition rsi_value :: "rsi \<Rightarrow> fpval" where
  "rsi_value r =
     (let g = ri_avg_gain r; l = ri_avg_loss r
      in if \<not> ri_safediv r then
           (if l = 0 then (if g = 0 then NaN else Fin 100) else Fin (rsi_of_rs (g / l)))
         else if l = 0 then
           (case (if g = 0 then rs_from_rsi (ri_safelow r) else rs_from_rsi (ri_safehigh r)) of
              Fin rs \<Rightarrow> Fin (rsi_of_rs rs)
            | _ \<Rightarrow> Fin 100)
         else Fin (rsi_of_rs (g / l)))"

definition rsi_next :: "real line \<Rightarrow> rsi \<Rightarrow> rsi" where
  "rsi_next src r =
     (let idx = line_index src
      in if idx < ri_lookback r then r\<lparr>ri_line := line_forward NaN (ri_line r)\<rparr>
         else
           (let change = ln_data src ! idx - ln_data src ! (idx - ri_lookback r);
                gain = max change 0; loss = max (- change) 0;
                r1 = r\<lparr>ri_gains := line_forward gain (ri_gains r), ri_losses := line_forward loss (ri_losses r)\<rparr>
            in if line_size (ri_gains r1) < ri_period r then r1\<lparr>ri_line := line_forward NaN (ri_line r)\<rparr>
               else (let r2 = rsi_averages gain loss r1
                     in r2\<lparr>ri_line := line_forward (rsi_value r2) (ri_line r2)\<rparr>)))"

record atr =
  at_line :: "fpval line"
  at_period :: nat
  at_tr_sum :: real
  at_tr_count :: nat
  at_prev :: real
  at_initialized :: bool

definition new_atr :: "nat \<Rightarrow> atr" where
  "new_atr period =
     \<lparr>at_line = line_empty, at_period = period, at_tr_sum = 0, at_tr_count = 0, at_prev = 0, at_initialized = False\<rparr>"

definition true_range :: "real list \<Rightarrow> real list \<Rightarrow> real list \<Rightarrow> nat \<Rightarrow> real" where
  "true_range high low close idx =
     max (max (high ! idx - low ! idx) \<bar>high ! idx - close ! (idx - 1)\<bar>) \<bar>low ! idx - close ! (idx - 1)\<bar>"

definition atr_next :: "real line \<Rightarrow> real line \<Rightarrow> real line \<Rightarrow> atr \<Rightarrow> atr" where
  "atr_next high low close a =
     (let idx = line_index close
      in if idx = 0 then a\<lparr>at_line := line_forward NaN (at_line a)\<rparr>
         else
           (let tr = true_range (ln_data high) (ln_data low) (ln_data close) idx; p = real (at_period a)
            in if \<not> at_initialized a then
                 (let a1 = a\<lparr>at_tr_sum := at_tr_sum a + tr, at_tr_count := at_tr_count a + 1\<rparr>
                  in if at_tr_count a1 < at_period a then a1\<lparr>at_line := line_forward NaN (at_line a)\<rparr>
                     else (let prev = at_tr_sum a1 / p
                           in a1\<lparr>at_prev := prev, at_initialized := True,
                                 at_line := line_forward (Fin prev) (at_line a)\<rparr>))
               else
                 (let prev = (at_prev a * (p - 1) + tr) / p
                  in a\<lparr>at_prev := prev, at_line := line_forward (Fin prev) (at_line a)\<rparr>)))"

record macd =
  mc_line :: "fpval line"
  mc_fast_period :: nat
  mc_slow_period :: nat
  mc_signal_period :: nat
  mc_fast_multiplier :: real
  mc_slow_multiplier :: real
  mc_signal_multiplier :: real
  mc_fast_ema :: "fpval line"
  mc_slow_ema :: "fpval line"
  mc_signal :: "fpval line"
  mc_histogram :: "fpval line"
  mc_fast_prev :: real
  mc_slow_prev :: real
  mc_signal_prev :: real
  mc_valid_count :: nat
  mc_fast_initialized :: bool
  mc_slow_initialized :: bool
  mc_signal_initialized :: bool

definition new_macd :: "nat \<Rightarrow> nat \<Rightarrow> nat \<Rightarrow> macd" where
  "new_macd fast slow signal =
     \<lparr>mc_line = line_empty, mc_fast_period = fast, mc_slow_period = slow, mc_signal_period = signal,
      mc_fast_multiplier = 2 / (real fast + 1), mc_slow_multiplier = 2 / (real slow + 1),
      mc_signal_multiplier = 2 / (real signal + 1), mc_fast_ema = line_empty, mc_slow_ema = line_empty,
      mc_signal = line_empty, mc_histogram = line_empty, mc_fast_prev = 0, mc_slow_prev = 0, mc_signal_prev = 0,
      mc_valid_count = 0, mc_fast_initialized = False, mc_slow_initialized = False, mc_signal_initialized = False\<rparr>"

definition advance_ema :: "real \<Rightarrow> real \<Rightarrow> real \<Rightarrow> real" where
  "advance_ema current prev multiplier = (current - prev) * multiplier + prev"

definition macd_fast :: "real line \<Rightarrow> macd \<Rightarrow> macd" where
  "macd_fast src m =
     (let idx = line_index src
      in if idx + 1 < mc_fast_period m then m\<lparr>mc_fast_ema := line_forward NaN (mc_fast_ema m)\<rparr>
         else
           (let prev = (if \<not> mc_fast_initialized m then seed_sma (ln_data src) idx (mc_fast_period m)
                        else advance_ema (ln_data src ! idx) (mc_fast_prev m) (mc_fast_multiplier m))
            in m\<lparr>mc_fast_prev := prev, mc_fast_initialized := True,
                 mc_fast_ema := line_forward (Fin prev) (mc_fast_ema m)\<rparr>))"

definition macd_slow :: "real line \<Rightarrow> macd \<Rightarrow> macd" where
  "macd_slow src m =
     (let idx = line_index src;
          prev = (if \<not> mc_slow_initialized m then seed_sma (ln_data src) idx (mc_slow_period m)
                  else advance_ema (ln_data src ! idx) (mc_slow_prev m) (mc_slow_multiplier m))
      in m\<lparr>mc_slow_prev := prev, mc_slow_initialized := True,
           mc_slow_ema := line_forward (Fin prev) (mc_slow_ema m)\<rparr>)"

fun fin_value :: "fpval \<Rightarrow> real" where
  "fin_value (Fin x) = x"
| "fin_value _ = 0"

text \<open>The values summed for the first signal are the last \<open>signal_period\<close> of the MACD line, all finite.\<close>

definition seed_signal :: "fpval list \<Rightarrow> nat \<Rightarrow> nat \<Rightarrow> real" where
  "seed_signal vs idx period = foldl (\<lambda>sum i. sum + fin_value (vs ! (idx - i))) 0 [0..<period] / real period"

definition macd_signal :: "nat \<Rightarrow> real \<Rightarrow> macd \<Rightarrow> macd" where
  "macd_signal idx value m =
     (let m1 = m\<lparr>mc_line := line_forward (Fin value) (mc_line m), mc_valid_count := mc_valid_count m + 1\<rparr>
      in if mc_valid_count m1 < mc_signal_period m then
           m1\<lparr>mc_signal := line_forward NaN (mc_signal m), mc_histogram := line_forward NaN (mc_histogram m)\<rparr>
         else
           (let prev = (if \<not> mc_signal_initialized m then seed_signal (ln_data (mc_line m1)) idx (mc_signal_period m)
                        else advance_ema value (mc_signal_prev m) (mc_signal_multiplier m))
            in m1\<lparr>mc_signal_prev := prev, mc_signal_initialized := True,
                  mc_signal := line_forward (Fin prev) (mc_signal m),
                  mc_histogram := line_forward (Fin (value - prev)) (mc_histogram m)\<rparr>))"

definition macd_next :: "real line \<Rightarrow> macd \<Rightarrow> macd" where
  "macd_next src m0 =
     (let m = macd_fast src m0
      in if line_index src + 1 < mc_slow_period m then
           m\<lparr>mc_slow_ema := line_forward NaN (mc_slow_ema m), mc_line := line_forward NaN (mc_line m),
             mc_signal := line_forward NaN (mc_signal m), mc_histogram := line_forward NaN (mc_histogram m)\<rparr>
         else (let m1 = macd_slow src m
               in macd_signal (line_index src) (mc_fast_prev m1 - mc_slow_prev m1) m1))"

subsection \<open>Minimum periods\<close>

definition rsi_minimum_period :: "rsi \<Rightarrow> nat" where
  "rsi_minimum_period r = ri_period r + ri_lookback r"

definition atr_minimum_period :: "atr \<Rightarrow> nat" where
  "atr_minimum_period a = at_period a + 1"

definition macd_minimum_period :: "macd \<Rightarrow> nat" where
  "macd_minimum_period m = mc_slow_period m + mc_signal_period m - 1"

definition macd_accessor_minimum_period :: "string \<Rightarrow> macd \<Rightarrow> nat" where
  "macd_accessor_minimum_period accessor m =
     (if accessor = ''macd'' then mc_slow_period m else macd_minimum_period m)"

end
