(* ===== verification/Indicator_Laws.thy ===== *)
theory Indicator_Laws
  imports Indicators
begin

text \<open>
  What the indicators compute when they are driven bar by bar over a source: a warm-up of NaN,
  then averages whose weights are written out, dispersion around the moving mean, and the
  oscillators made of them.
\<close>

subsection \<open>Driving an indicator\<close>

definition at_cursor :: "'a list \<Rightarrow> nat \<Rightarrow> 'a line" where
  "at_cursor data k = \<lparr>ln_data = data, ln_idx = k\<rparr>"

definition drive :: "(nat \<Rightarrow> 's \<Rightarrow> 's) \<Rightarrow> nat \<Rightarrow> 's \<Rightarrow> 's" where
  "drive step n s = foldl (\<lambda>s k. step k s) s [0..<n]"

definition warmup :: "nat \<Rightarrow> (nat \<Rightarrow> real) \<Rightarrow> nat \<Rightarrow> fpval" where
  "warmup p f k = (if k + 1 < p then NaN else Fin (f k))"

lemma drive_simps [simp]:
  "drive step 0 s = s" "drive step (Suc n) s = step n (drive step n s)"
  by (simp_all add: drive_def)

lemma at_cursor_simps [simp]: "ln_data (at_cursor data k) = data" "line_index (at_cursor data k) = k"
  by (simp_all add: at_cursor_def line_index_def)

lemma forward_data [simp]: "ln_data (line_forward v l) = ln_data l @ [v]"
  by (simp add: line_forward_def)

lemma empty_data [simp]: "ln_data line_empty = []"
  by (simp add: line_empty_def)

lemma last_of_forward [simp]: "last_of (line_forward v l) = v"
  by (simp add: last_of_def)

subsection \<open>Averages\<close>

definition moving_mean :: "nat \<Rightarrow> real list \<Rightarrow> nat \<Rightarrow> real" where
  "moving_mean p data k = sum_list (take p (drop (k + 1 - p) data)) / real p"

text \<open>Exponential smoothing, as the code iterates it.\<close>

definition smooth :: "real \<Rightarrow> real \<Rightarrow> real list \<Rightarrow> real" where
  "smooth a seed xs = foldl (\<lambda>prev x. (x - prev) * a + prev) seed xs"

definition exp_average :: "real \<Rightarrow> nat \<Rightarrow> real list \<Rightarrow> nat \<Rightarrow> real" where
  "exp_average a p data k = smooth a (moving_mean p data (p - 1)) (drop p (take (k + 1) data))"

text \<open>The weights of exponential smoothing written out.\<close>

definition weighted_mean :: "real \<Rightarrow> nat \<Rightarrow> real list \<Rightarrow> nat \<Rightarrow> real" where
  "weighted_mean a p data k =
     (let m = k + 1 - p
      in (1 - a) ^ m * moving_mean p data (p - 1) + (\<Sum>i < m. a * (1 - a) ^ (m - 1 - i) * data ! (p + i)))"

lemma smooth_snoc [simp]: "smooth a seed (xs @ [x]) = (x - smooth a seed xs) * a + smooth a seed xs"
  by (simp add: smooth_def)

lemma smooth_weights:
  "smooth a seed xs = (1 - a) ^ length xs * seed + (\<Sum>i < length xs. a * (1 - a) ^ (length xs - 1 - i) * xs ! i)"
proof (induction xs rule: rev_induct)
  case (snoc x xs)
  let ?n = "length xs"
  have "(\<Sum>i < ?n. a * (1 - a) ^ (?n - i) * (xs @ [x]) ! i) = (1 - a) * (\<Sum>i < ?n. a * (1 - a) ^ (?n - 1 - i) * xs ! i)"
    unfolding sum_distrib_left
  proof (rule sum.cong [OF refl])
    fix i assume "i \<in> {..<?n}"
    then have "?n - i = Suc (?n - 1 - i)" "(xs @ [x]) ! i = xs ! i" by (auto simp: nth_append)
    then show "a * (1 - a) ^ (?n - i) * (xs @ [x]) ! i = (1 - a) * (a * (1 - a) ^ (?n - 1 - i) * xs ! i)" by simp
  qed
  then show ?case by (simp add: snoc.IH algebra_simps)
qed (simp add: smooth_def)

lemma smooth_bounds:
  assumes "0 \<le> a" and "a \<le> 1" and "lo \<le> seed" and "seed \<le> hi" and "\<forall>x \<in> set xs. lo \<le> x \<and> x \<le> hi"
  shows "lo \<le> smooth a seed xs \<and> smooth a seed xs \<le> hi"
  using assms(5)
proof (induction xs rule: rev_induct)
  case (snoc x xs)
  let ?s = "smooth a seed xs"
  have IH: "lo \<le> ?s" "?s \<le> hi" and x: "lo \<le> x" "x \<le> hi" using snoc by auto
  have "(x - ?s) * a + ?s = a * x + (1 - a) * ?s" by (simp add: algebra_simps)
  moreover have "a * lo + (1 - a) * lo \<le> a * x + (1 - a) * ?s" "a * x + (1 - a) * ?s \<le> a * hi + (1 - a) * hi"
    using IH x assms(1,2) by (intro add_mono mult_left_mono; simp)+
  ultimately show ?case by (simp add: algebra_simps)
qed (use assms in \<open>simp add: smooth_def\<close>)

lemma exp_average_seed [simp]: "0 < p \<Longrightarrow> exp_average a p data (p - 1) = moving_mean p data (p - 1)"
  by (simp add: exp_average_def smooth_def)

lemma exp_average_step:
  assumes "0 < p" and "p \<le> k" and "k < length data"
  shows "exp_average a p data k = (data ! k - exp_average a p data (k - 1)) * a + exp_average a p data (k - 1)"
proof -
  have "drop p (take (k + 1) data) = drop p (take k data) @ [data ! k]"
    using assms by (simp add: take_Suc_conv_app_nth)
  then show ?thesis
    using assms by (cases k) (simp_all add: exp_average_def smooth_def moving_mean_def)
qed

lemma exp_average_weights:
  assumes "p \<le> k + 1" and "k < length data"
  shows "exp_average a p data k = weighted_mean a p data k"
proof -
  have "(\<Sum>i < k + 1 - p. a * (1 - a) ^ (k + 1 - p - 1 - i) * drop p (take (k + 1) data) ! i)
      = (\<Sum>i < k + 1 - p. a * (1 - a) ^ (k + 1 - p - 1 - i) * data ! (p + i))"
    using assms by (intro sum.cong refl) simp
  moreover have "length (drop p (take (k + 1) data)) = k + 1 - p" using assms by simp
  ultimately show ?thesis unfolding exp_average_def weighted_mean_def smooth_weights Let_def by (simp only:)
qed

lemma seed_sma_mean:
  assumes "p \<le> idx + 1" and "idx < length data"
  shows "seed_sma data idx p = moving_mean p data idx"
proof -
  have "map (\<lambda>i. data ! (idx - i)) [0..<p] = rev (take p (drop (idx + 1 - p) data))"
  proof (rule nth_equalityI)
    fix i assume "i < length (map (\<lambda>i. data ! (idx - i)) [0..<p])"
    then have i: "i < p" by simp
    have len: "length (take p (drop (idx + 1 - p) data)) = p" using assms by simp
    have "rev (take p (drop (idx + 1 - p) data)) ! i = data ! (idx + 1 - p + (p - 1 - i))"
      using i assms len by (subst rev_nth) (simp_all add: nth_take)
    also have "idx + 1 - p + (p - 1 - i) = idx - i" using i assms by simp
    finally show "map (\<lambda>i. data ! (idx - i)) [0..<p] ! i = rev (take p (drop (idx + 1 - p) data)) ! i" using i by simp
  qed (use assms in simp)
  then have "sum_list (map (\<lambda>i. data ! (idx - i)) [0..<p]) = sum_list (take p (drop (idx + 1 - p) data))"
    by (simp only: sum_list_rev)
  moreover have "foldl (\<lambda>sum i. sum + data ! (idx - i)) r xs = r + sum_list (map (\<lambda>i. data ! (idx - i)) xs)" for r xs
    by (induction xs arbitrary: r) simp_all
  ultimately show ?thesis by (simp add: seed_sma_def moving_mean_def)
qed

lemma moving_mean_bounds:
  assumes "0 < p" and "p \<le> k + 1" and "k < length data" and "\<forall>x \<in> set (take (k + 1) data). lo \<le> x \<and> x \<le> hi"
  shows "lo \<le> moving_mean p data k \<and> moving_mean p data k \<le> hi"
proof -
  let ?xs = "take p (drop (k + 1 - p) data)"
  have len: "length ?xs = p" using assms by simp
  have "take (k + 1) data = take (k + 1 - p) data @ ?xs" using assms(2) by (metis add_diff_inverse_nat le_add_diff_inverse2 not_less take_add)
  then have "set ?xs \<subseteq> set (take (k + 1) data)" by (metis Un_upper2 set_append)
  then have x: "\<forall>x \<in> set ?xs. lo \<le> x \<and> x \<le> hi" using assms(4) by blast
  have "sum_list (map (\<lambda>x. lo) ?xs) \<le> sum_list (map (\<lambda>x. x) ?xs)" "sum_list (map (\<lambda>x. x) ?xs) \<le> sum_list (map (\<lambda>x. hi) ?xs)"
    using x by (intro sum_list_mono; simp)+
  then have "real p * lo \<le> sum_list ?xs" "sum_list ?xs \<le> real p * hi"
    unfolding sum_list_triv len by simp_all
  then show ?thesis using assms(1) by (simp add: moving_mean_def field_simps)
qed

lemma exp_average_bounds:
  assumes "0 < p" and "0 \<le> a" and "a \<le> 1" and "p \<le> k + 1" and "k < length data"
    and "\<forall>x \<in> set (take (k + 1) data). lo \<le> x \<and> x \<le> hi"
  shows "lo \<le> exp_average a p data k \<and> exp_average a p data k \<le> hi"
proof -
  have "\<forall>x \<in> set (take p data). lo \<le> x \<and> x \<le> hi" using assms(4,6) set_take_subset_set_take [of p "k + 1" data] by blast
  then have "lo \<le> moving_mean p data (p - 1) \<and> moving_mean p data (p - 1) \<le> hi"
    using moving_mean_bounds [of p "p - 1" data lo hi] assms(1,4,5) by simp
  moreover have "\<forall>x \<in> set (drop p (take (k + 1) data)). lo \<le> x \<and> x \<le> hi" using assms(6) by (meson in_set_dropD)
  ultimately show ?thesis unfolding exp_average_def using smooth_bounds assms(2,3) by blast
qed

lemma scalar_sum_mean:
  assumes "p \<le> k + 1" and "k < length data"
  shows "scalar_reduce_sum (drop (k + 1 - p) data) p / real p = moving_mean p data k"
proof -
  have "p \<le> length (drop (k + 1 - p) data)" using assms by simp
  then show ?thesis by (simp only: scalar_sum moving_mean_def)
qed

lemma sma_drive:
  assumes "0 < p" and "n \<le> length data"
  shows "let s = drive (\<lambda>k. sma_next (at_cursor data k)) n (new_sma p) in
     ln_data (sma_line s) = map (warmup p (moving_mean p data)) [0..<n] \<and> sma_period s = p"
  using assms(2)
proof (induction n)
  case (Suc n)
  define s where "s = drive (\<lambda>k. sma_next (at_cursor data k)) n (new_sma p)"
  have step: "drive (\<lambda>k. sma_next (at_cursor data k)) (Suc n) (new_sma p) = sma_next (at_cursor data n) s"
    by (simp add: s_def)
  have IH: "ln_data (sma_line s) = map (warmup p (moving_mean p data)) [0..<n]" "sma_period s = p"
    using Suc by (simp_all add: s_def Let_def)
  show ?case
  proof (cases "n + 1 < p")
    case False
    then have "scalar_reduce_sum (drop (n + 1 - p) data) p / real p = moving_mean p data n"
      using Suc.prems by (intro scalar_sum_mean) simp_all
    then show ?thesis using IH False unfolding step by (simp add: sma_next_def Let_def warmup_def)
  qed (unfold step, use IH in \<open>simp add: sma_next_def Let_def warmup_def\<close>)
qed (use assms(1) in \<open>simp add: new_sma_def Let_def\<close>)

text \<open>An average that is seeded when its first window is full and smoothed from then on.\<close>

definition seeded :: "real \<Rightarrow> nat \<Rightarrow> real list \<Rightarrow> nat \<Rightarrow> bool \<Rightarrow> real \<Rightarrow> bool" where
  "seeded a p data n initialized prev \<longleftrightarrow>
     initialized = (p \<le> n) \<and> (p \<le> n \<longrightarrow> prev = exp_average a p data (n - 1))"

lemma seeded_start: "0 < p \<Longrightarrow> seeded a p data 0 False prev"
  by (simp add: seeded_def)

lemma seeded_step:
  assumes "seeded a p data n initialized prev" and "0 < p" and "p \<le> n + 1" and "n < length data"
  shows "(if \<not> initialized then seed_sma data n p else (data ! n - prev) * a + prev) = exp_average a p data n"
    "seeded a p data (Suc n) True (exp_average a p data n)"
proof -
  show "(if \<not> initialized then seed_sma data n p else (data ! n - prev) * a + prev) = exp_average a p data n"
  proof (cases "p \<le> n")
    case True
    then show ?thesis using assms exp_average_step [of p n data a] by (simp add: seeded_def)
  next
    case False
    then have "n = p - 1" using assms(3) by simp
    then show ?thesis using assms exp_average_seed [of p a data] seed_sma_mean [of p n data] False by (simp add: seeded_def)
  qed
  show "seeded a p data (Suc n) True (exp_average a p data n)" using assms(3) by (simp add: seeded_def)
qed

lemma seeded_warm: "seeded a p data n initialized prev \<Longrightarrow> n + 1 < p \<Longrightarrow> seeded a p data (Suc n) initialized prev"
  by (simp add: seeded_def)

lemma ema_drive:
  assumes "0 < p" and "n \<le> length data"
  shows "let e = drive (\<lambda>k. ema_next (at_cursor data k)) n (new_ema p) in
     ln_data (ema_line e) = map (warmup p (exp_average (2 / (real p + 1)) p data)) [0..<n]
     \<and> ema_period e = p \<and> ema_multiplier e = 2 / (real p + 1)
     \<and> seeded (2 / (real p + 1)) p data n (ema_initialized e) (ema_prev e)"
  using assms(2)
proof (induction n)
  case (Suc n)
  let ?a = "2 / (real p + 1)"
  define e where "e = drive (\<lambda>k. ema_next (at_cursor data k)) n (new_ema p)"
  have step: "drive (\<lambda>k. ema_next (at_cursor data k)) (Suc n) (new_ema p) = ema_next (at_cursor data n) e"
    by (simp add: e_def)
  have IH: "ln_data (ema_line e) = map (warmup p (exp_average ?a p data)) [0..<n]" "ema_period e = p"
    "ema_multiplier e = ?a" "seeded ?a p data n (ema_initialized e) (ema_prev e)"
    using Suc by (simp_all add: e_def Let_def)
  show ?case
  proof (cases "n + 1 < p")
    case True
    then show ?thesis using IH seeded_warm [OF IH(4)] unfolding step by (simp add: ema_next_def Let_def warmup_def)
  next
    case False
    have v: "(if \<not> ema_initialized e then seed_sma data n p else (data ! n - ema_prev e) * ?a + ema_prev e) = exp_average ?a p data n"
      "seeded ?a p data (Suc n) True (exp_average ?a p data n)"
      using seeded_step [OF IH(4) assms(1)] False Suc.prems by simp_all
    then show ?thesis
      using IH False unfolding step by (cases "ema_initialized e") (simp_all add: ema_next_def Let_def warmup_def)
  qed
qed (use assms(1) in \<open>simp add: new_ema_def seeded_start Let_def\<close>)

lemma wilder_step: "0 < p \<Longrightarrow> (prev * (real p - 1) + x) / real p = (x - prev) * (1 / real p) + prev"
  by (simp add: field_simps)

lemma smma_drive:
  assumes "0 < p" and "n \<le> length data"
  shows "let s = drive (\<lambda>k. smma_next (at_cursor data k)) n (new_smma p) in
     ln_data (smma_line s) = map (warmup p (exp_average (1 / real p) p data)) [0..<n]
     \<and> smma_period s = p \<and> seeded (1 / real p) p data n (smma_initialized s) (smma_prev s)"
  using assms(2)
proof (induction n)
  case (Suc n)
  let ?a = "1 / real p"
  define s where "s = drive (\<lambda>k. smma_next (at_cursor data k)) n (new_smma p)"
  have step: "drive (\<lambda>k. smma_next (at_cursor data k)) (Suc n) (new_smma p) = smma_next (at_cursor data n) s"
    by (simp add: s_def)
  have IH: "ln_data (smma_line s) = map (warmup p (exp_average ?a p data)) [0..<n]" "smma_period s = p"
    "seeded ?a p data n (smma_initialized s) (smma_prev s)"
    using Suc by (simp_all add: s_def Let_def)
  show ?case
  proof (cases "n + 1 < p")
    case True
    then show ?thesis using IH seeded_warm [OF IH(3)] unfolding step by (simp add: smma_next_def Let_def warmup_def)
  next
    case False
    have v: "(if \<not> smma_initialized s then seed_sma data n p else (data ! n - smma_prev s) * ?a + smma_prev s) = exp_average ?a p data n"
      "seeded ?a p data (Suc n) True (exp_average ?a p data n)"
      using seeded_step [OF IH(3) assms(1)] False Suc.prems by simp_all
    have "(if \<not> smma_initialized s then seed_sma data n p else (smma_prev s * (real p - 1) + data ! n) / real p) = exp_average ?a p data n"
      using v(1) wilder_step [OF assms(1)] by metis
    then show ?thesis
      using IH v(2) False unfolding step by (cases "smma_initialized s") (simp_all add: smma_next_def Let_def warmup_def)
  qed
qed (use assms(1) in \<open>simp add: new_smma_def seeded_start Let_def\<close>)

text \<open>
  C29. The averages and their weights: driven over a source, each average gives NaN until its first
  window is full; from then on the simple one is the mean of the window, and the exponential
  and the Wilder one are the weighted sum of the first mean and of all later values, with the
  weights a (1 - a)^j for a = 2 / (p + 1) and a = 1 / p. None leaves the range of the values
  seen so far.
\<close>

theorem moving_averages_weighted:
  assumes "0 < p" and "n \<le> length data"
  shows "ln_data (sma_line (drive (\<lambda>k. sma_next (at_cursor data k)) n (new_sma p))) = map (warmup p (moving_mean p data)) [0..<n]
   \<and> ln_data (ema_line (drive (\<lambda>k. ema_next (at_cursor data k)) n (new_ema p))) =
       map (warmup p (weighted_mean (2 / (real p + 1)) p data)) [0..<n]
   \<and> ln_data (smma_line (drive (\<lambda>k. smma_next (at_cursor data k)) n (new_smma p))) =
       map (warmup p (weighted_mean (1 / real p) p data)) [0..<n]
   \<and> (\<forall>k lo hi. p \<le> k + 1 \<and> k < n \<and> (\<forall>x \<in> set (take (k + 1) data). lo \<le> x \<and> x \<le> hi) \<longrightarrow>
        moving_mean p data k \<in> {lo..hi} \<and> weighted_mean (2 / (real p + 1)) p data k \<in> {lo..hi}
        \<and> weighted_mean (1 / real p) p data k \<in> {lo..hi})"
proof -
  have same: "map (warmup p (exp_average a p data)) [0..<n] = map (warmup p (weighted_mean a p data)) [0..<n]" for a
    using assms(2) by (auto simp: warmup_def exp_average_weights)
  have bounds: "moving_mean p data k \<in> {lo..hi} \<and> weighted_mean (2 / (real p + 1)) p data k \<in> {lo..hi}
      \<and> weighted_mean (1 / real p) p data k \<in> {lo..hi}"
    if "p \<le> k + 1" "k < n" "\<forall>x \<in> set (take (k + 1) data). lo \<le> x \<and> x \<le> hi" for k lo hi
  proof -
    have k: "k < length data" using that(2) assms(2) by simp
    have "2 / (real p + 1) \<le> 1" "1 / real p \<le> 1" using assms(1) by (simp_all add: field_simps)
    then show ?thesis
      using moving_mean_bounds [OF assms(1) that(1) k that(3)] exp_average_bounds [OF assms(1) _ _ that(1) k that(3)]
        exp_average_weights [OF that(1) k] by simp
  qed
  have "ln_data (sma_line (drive (\<lambda>k. sma_next (at_cursor data k)) n (new_sma p))) = map (warmup p (moving_mean p data)) [0..<n]"
    "ln_data (ema_line (drive (\<lambda>k. ema_next (at_cursor data k)) n (new_ema p))) =
       map (warmup p (weighted_mean (2 / (real p + 1)) p data)) [0..<n]"
    "ln_data (smma_line (drive (\<lambda>k. smma_next (at_cursor data k)) n (new_smma p))) =
       map (warmup p (weighted_mean (1 / real p) p data)) [0..<n]"
    using sma_drive [OF assms] ema_drive [OF assms] smma_drive [OF assms] unfolding Let_def same by blast+
  then show ?thesis using bounds by blast
qed

theorem moving_averages_weighted_witness:
  "ln_data (sma_line (drive (\<lambda>k. sma_next (at_cursor [1, 3, 5, 9] k)) 4 (new_sma 2))) = [NaN, Fin 2, Fin 4, Fin 7]
   \<and> ln_data (ema_line (drive (\<lambda>k. ema_next (at_cursor [1, 3, 5, 9] k)) 3 (new_ema 2))) = [NaN, Fin 2, Fin 4]
   \<and> ln_data (smma_line (drive (\<lambda>k. smma_next (at_cursor [1, 3, 5, 9] k)) 3 (new_smma 2))) = [NaN, Fin 2, Fin (7 / 2)]"
proof -
  have h: "0 < (2 :: nat)" "4 \<le> length [1, 3, 5, 9 :: real]" "3 \<le> length [1, 3, 5, 9 :: real]" by simp_all
  show ?thesis
    using moving_averages_weighted [OF h(1,2)] moving_averages_weighted [OF h(1,3)]
    by (simp add: warmup_def moving_mean_def weighted_mean_def upt_rec [of _ "4"] upt_rec [of _ "3"] Let_def)
qed

subsection \<open>Dispersion\<close>

definition moving_variance :: "nat \<Rightarrow> real list \<Rightarrow> nat \<Rightarrow> real" where
  "moving_variance p data k =
     sum_list (map (\<lambda>x. (x - moving_mean p data k) * (x - moving_mean p data k)) (take p (drop (k + 1 - p) data))) / real p"

lemma window_moments:
  assumes "p \<le> k + 1" and "k < length data"
  shows "scalar_reduce_mean_variance (drop (k + 1 - p) data) p = (moving_mean p data k, moving_variance p data k)"
proof -
  have "p \<le> length (drop (k + 1 - p) data)" using assms by simp
  then show ?thesis by (simp only: scalar_mean_variance moving_mean_def moving_variance_def Let_def)
qed

lemma variance_nonneg: "0 \<le> moving_variance p data k"
  unfolding moving_variance_def by (intro divide_nonneg_nonneg sum_list_nonneg) auto

lemma stddev_drive:
  assumes "0 < p" and "n \<le> length data"
  shows "let s = drive (\<lambda>k. stddev_next (at_cursor data k)) n (new_stddev p) in
     ln_data (sd_line s) = map (warmup p (\<lambda>k. sqrt (moving_variance p data k))) [0..<n] \<and> sd_period s = p"
  using assms(2)
proof (induction n)
  case (Suc n)
  define s where "s = drive (\<lambda>k. stddev_next (at_cursor data k)) n (new_stddev p)"
  have step: "drive (\<lambda>k. stddev_next (at_cursor data k)) (Suc n) (new_stddev p) = stddev_next (at_cursor data n) s"
    by (simp add: s_def)
  have IH: "ln_data (sd_line s) = map (warmup p (\<lambda>k. sqrt (moving_variance p data k))) [0..<n]" "sd_period s = p"
    using Suc by (simp_all add: s_def Let_def)
  show ?case
  proof (cases "n + 1 < p")
    case False
    then have "scalar_reduce_mean_variance (drop (n + 1 - p) data) p = (moving_mean p data n, moving_variance p data n)"
      using Suc.prems by (intro window_moments) simp_all
    then show ?thesis using IH False unfolding step by (simp add: stddev_next_def Let_def warmup_def)
  qed (unfold step, use IH in \<open>simp add: stddev_next_def Let_def warmup_def\<close>)
qed (use assms(1) in \<open>simp add: new_stddev_def Let_def\<close>)

lemma bollinger_step:
  assumes "bb_period b = p" and "n < length data"
  shows "bollinger_next (at_cursor data n) b =
    (let m = moving_mean p data n; d = bb_devfactor b * sqrt (moving_variance p data n)
     in b\<lparr>bb_line := line_forward (warmup p (\<lambda>_. m) n) (bb_line b),
          bb_top := line_forward (warmup p (\<lambda>_. m + d) n) (bb_top b),
          bb_bottom := line_forward (warmup p (\<lambda>_. m - d) n) (bb_bottom b)\<rparr>)"
proof (cases "n + 1 < p")
  case False
  then have "scalar_reduce_mean_variance (drop (n + 1 - p) data) p = (moving_mean p data n, moving_variance p data n)"
    using assms(2) by (intro window_moments) simp_all
  then show ?thesis using False assms(1) by (simp add: bollinger_next_def Let_def warmup_def)
qed (use assms in \<open>simp add: bollinger_next_def Let_def warmup_def\<close>)

text \<open>The bands around the moving mean, and the position of the price between them.\<close>

definition band_width :: "nat \<Rightarrow> real \<Rightarrow> real list \<Rightarrow> nat \<Rightarrow> real" where
  "band_width p dev data k = dev * sqrt (moving_variance p data k)"

definition band_position :: "nat \<Rightarrow> real \<Rightarrow> real list \<Rightarrow> nat \<Rightarrow> fpval" where
  "band_position p dev data k =
     (if k + 1 < p then NaN
      else fp_div (data ! k - (moving_mean p data k - band_width p dev data k)) (2 * band_width p dev data k))"

lemma bollinger_pct_drive:
  assumes "0 < p" and "n \<le> length data"
  shows "let q = drive (\<lambda>k. bollinger_pct_next (at_cursor data k)) n (new_bollinger_pct p dev) in
     ln_data (bq_line q) = map (warmup p (moving_mean p data)) [0..<n]
     \<and> ln_data (bq_top q) = map (warmup p (\<lambda>k. moving_mean p data k + band_width p dev data k)) [0..<n]
     \<and> ln_data (bq_bottom q) = map (warmup p (\<lambda>k. moving_mean p data k - band_width p dev data k)) [0..<n]
     \<and> ln_data (bq_pctb q) = map (band_position p dev data) [0..<n]
     \<and> bb_period (bq_bands q) = p \<and> bb_devfactor (bq_bands q) = dev"
  using assms(2)
proof (induction n)
  case (Suc n)
  define q where "q = drive (\<lambda>k. bollinger_pct_next (at_cursor data k)) n (new_bollinger_pct p dev)"
  have step: "drive (\<lambda>k. bollinger_pct_next (at_cursor data k)) (Suc n) (new_bollinger_pct p dev) = bollinger_pct_next (at_cursor data n) q"
    by (simp add: q_def)
  have IH: "ln_data (bq_line q) = map (warmup p (moving_mean p data)) [0..<n]"
    "ln_data (bq_top q) = map (warmup p (\<lambda>k. moving_mean p data k + band_width p dev data k)) [0..<n]"
    "ln_data (bq_bottom q) = map (warmup p (\<lambda>k. moving_mean p data k - band_width p dev data k)) [0..<n]"
    "ln_data (bq_pctb q) = map (band_position p dev data) [0..<n]" "bb_period (bq_bands q) = p" "bb_devfactor (bq_bands q) = dev"
    using Suc by (simp_all add: q_def Let_def)
  have bands: "bollinger_next (at_cursor data n) (bq_bands q) =
      (let m = moving_mean p data n; d = band_width p dev data n
       in (bq_bands q)\<lparr>bb_line := line_forward (warmup p (\<lambda>_. m) n) (bb_line (bq_bands q)),
          bb_top := line_forward (warmup p (\<lambda>_. m + d) n) (bb_top (bq_bands q)),
          bb_bottom := line_forward (warmup p (\<lambda>_. m - d) n) (bb_bottom (bq_bands q))\<rparr>)"
    using bollinger_step [of "bq_bands q" p n data] IH(5,6) Suc.prems by (simp add: band_width_def)
  show ?case
    unfolding step unfolding bollinger_pct_next_def at_cursor_simps bands Let_def
    using IH by (simp add: warmup_def percent_b_def band_position_def)
qed (use assms(1) in \<open>simp add: new_bollinger_pct_def new_bollinger_def Let_def\<close>)

subsection \<open>Oscillators\<close>

definition true_ranges :: "real list \<Rightarrow> real list \<Rightarrow> real list \<Rightarrow> real list" where
  "true_ranges high low close = map (true_range high low close) [1..<length close]"

lemma atr_drive:
  assumes "0 < p" and "n \<le> length close"
  shows "let a = drive (\<lambda>k. atr_next (at_cursor high k) (at_cursor low k) (at_cursor close k)) n (new_atr p);
             trs = true_ranges high low close in
     ln_data (at_line a) = map (warmup (p + 1) (\<lambda>k. exp_average (1 / real p) p trs (k - 1))) [0..<n]
     \<and> at_period a = p \<and> seeded (1 / real p) p trs (n - 1) (at_initialized a) (at_prev a)
     \<and> (\<not> at_initialized a \<longrightarrow> at_tr_count a = n - 1 \<and> at_tr_sum a = sum_list (take (n - 1) trs))"
  using assms(2)
proof (induction n)
  case (Suc n)
  let ?w = "1 / real p" and ?trs = "true_ranges high low close"
  define a where "a = drive (\<lambda>k. atr_next (at_cursor high k) (at_cursor low k) (at_cursor close k)) n (new_atr p)"
  have step: "drive (\<lambda>k. atr_next (at_cursor high k) (at_cursor low k) (at_cursor close k)) (Suc n) (new_atr p)
      = atr_next (at_cursor high n) (at_cursor low n) (at_cursor close n) a"
    by (simp add: a_def)
  have IH: "ln_data (at_line a) = map (warmup (p + 1) (\<lambda>k. exp_average ?w p ?trs (k - 1))) [0..<n]" "at_period a = p"
    "seeded ?w p ?trs (n - 1) (at_initialized a) (at_prev a)"
    "\<not> at_initialized a \<Longrightarrow> at_tr_count a = n - 1 \<and> at_tr_sum a = sum_list (take (n - 1) ?trs)"
    using Suc by (simp_all add: a_def Let_def)
  show ?case
  proof (cases n)
    case 0
    then show ?thesis
      using IH assms(1) unfolding step unfolding atr_next_def Let_def at_cursor_simps by (simp add: warmup_def)
  next
    case (Suc m)
    have m: "m < length ?trs" "?trs ! m = true_range high low close n"
      using Suc Suc.prems by (simp_all add: true_ranges_def)
    have more: "sum_list (take n ?trs) = sum_list (take m ?trs) + true_range high low close n"
      using m Suc by (simp add: take_Suc_conv_app_nth)
    show ?thesis
    proof (cases "at_initialized a")
      case True
      then have pm: "p \<le> m" using IH(3) Suc by (simp add: seeded_def)
      have "(at_prev a * (real p - 1) + true_range high low close n) / real p = exp_average ?w p ?trs m"
        using seeded_step(1) [OF IH(3) assms(1)] pm m Suc True by (simp add: wilder_step [OF assms(1)])
      moreover have "seeded ?w p ?trs n True (exp_average ?w p ?trs m)"
        using seeded_step(2) [OF IH(3) assms(1)] pm m Suc by simp
      ultimately show ?thesis
        using IH True Suc pm unfolding step unfolding atr_next_def Let_def at_cursor_simps by (simp add: warmup_def)
    next
      case False
      then have mp: "m < p" using IH(3) Suc by (simp add: seeded_def)
      show ?thesis
      proof (cases "n < p")
        case True
        then show ?thesis
          using IH False Suc more seeded_warm [OF IH(3)] unfolding step unfolding atr_next_def Let_def at_cursor_simps
          by (simp add: warmup_def)
      next
        case False
        then have n: "n = p" using mp Suc by simp
        have "sum_list (take n ?trs) / real p = exp_average ?w p ?trs m"
          using exp_average_seed [OF assms(1), of ?w ?trs] Suc n by (simp add: moving_mean_def)
        moreover have "seeded ?w p ?trs n True (exp_average ?w p ?trs m)"
          using Suc n by (auto simp: seeded_def)
        ultimately show ?thesis
          using IH \<open>\<not> at_initialized a\<close> Suc n more unfolding step unfolding atr_next_def Let_def at_cursor_simps
          by (simp add: warmup_def)
      qed
    qed
  qed
qed (use assms(1) in \<open>simp add: new_atr_def seeded_start Let_def\<close>)

definition gains :: "nat \<Rightarrow> real list \<Rightarrow> real list" where
  "gains lb data = map (\<lambda>k. max (data ! k - data ! (k - lb)) 0) [lb..<length data]"

definition losses :: "nat \<Rightarrow> real list \<Rightarrow> real list" where
  "losses lb data = map (\<lambda>k. max (data ! (k - lb) - data ! k) 0) [lb..<length data]"

lemma seed_average_mean:
  assumes "0 < p" and "ln_data l = take p xs" and "p \<le> length xs"
  shows "seed_average p l = moving_mean p xs (p - 1)"
proof -
  have "foldl (\<lambda>sum i. sum + ys ! i) 0 [0..<p] = sum_list (take p ys)" if "p \<le> length ys" for ys :: "real list"
    using scalar_sum [OF that] by (simp add: scalar_reduce_sum_def)
  then show ?thesis using assms by (simp add: seed_average_def moving_mean_def line_size_def Let_def)
qed

text \<open>The index of Wilder's averages of the gains and the losses; flat prices have none.\<close>

definition strength :: "real \<Rightarrow> real \<Rightarrow> fpval" where
  "strength g l = (if g + l = 0 then NaN else Fin (100 * g / (g + l)))"

lemma rsi_value_strength:
  assumes "\<not> ri_safediv r" and "0 \<le> ri_avg_gain r" and "0 \<le> ri_avg_loss r"
  shows "rsi_value r = strength (ri_avg_gain r) (ri_avg_loss r)"
proof (cases "ri_avg_loss r = 0")
  case False
  then have pos: "0 < ri_avg_loss r" "0 < ri_avg_gain r + ri_avg_loss r" using assms by simp_all
  have "1 + g / l = (g + l) / l" if "l \<noteq> 0" for g l :: real using that by (simp add: field_simps)
  then have "rsi_of_rs (ri_avg_gain r / ri_avg_loss r) = 100 - 100 * ri_avg_loss r / (ri_avg_gain r + ri_avg_loss r)"
    using pos by (simp add: rsi_of_rs_def)
  also have "\<dots> = 100 * ri_avg_gain r / (ri_avg_gain r + ri_avg_loss r)" using pos by (simp add: field_simps)
  finally show ?thesis using pos assms(1) by (simp add: rsi_value_def strength_def Let_def)
qed (use assms in \<open>auto simp: rsi_value_def strength_def Let_def\<close>)

lemma exp_average_nonneg:
  assumes "0 < p" and "p \<le> k + 1" and "k < length data" and "\<forall>x \<in> set data. 0 \<le> x"
  shows "0 \<le> exp_average (1 / real p) p data k"
proof -
  have "\<forall>x \<in> set (take (k + 1) data). 0 \<le> x \<and> x \<le> sum_list data"
    using assms(4) by (auto dest!: in_set_takeD intro: member_le_sum_list)
  then show ?thesis using exp_average_bounds [of p "1 / real p" k data 0 "sum_list data"] assms by simp
qed

lemma moves:
  "length (gains lb data) = length data - lb" "length (losses lb data) = length data - lb"
  "\<forall>x \<in> set (gains lb data). 0 \<le> x" "\<forall>x \<in> set (losses lb data). 0 \<le> x"
  "k < length data - lb \<Longrightarrow> gains lb data ! k = max (data ! (lb + k) - data ! k) 0"
  "k < length data - lb \<Longrightarrow> losses lb data ! k = max (- (data ! (lb + k) - data ! k)) 0"
  by (auto simp: gains_def losses_def)

text \<open>The state of the index after \<open>n\<close> bars.\<close>

definition rsi_state :: "nat \<Rightarrow> nat \<Rightarrow> real list \<Rightarrow> nat \<Rightarrow> rsi \<Rightarrow> bool" where
  "rsi_state p lb data n r \<longleftrightarrow>
     ri_period r = p \<and> ri_lookback r = lb \<and> ri_movav r = Smoothed \<and> \<not> ri_safediv r
     \<and> ln_data (ri_gains r) = take (n - lb) (gains lb data) \<and> ln_data (ri_losses r) = take (n - lb) (losses lb data)
     \<and> seeded (1 / real p) p (gains lb data) (n - lb) (ri_initialized r) (ri_avg_gain r)
     \<and> seeded (1 / real p) p (losses lb data) (n - lb) (ri_initialized r) (ri_avg_loss r)"

lemma rsi_averages_step:
  assumes "rsi_state p lb data n r" and "0 < p" and "lb \<le> n" and "n < length data" and "p \<le> n + 1 - lb"
    and "r1 = r\<lparr>ri_gains := line_forward (gains lb data ! (n - lb)) (ri_gains r),
                ri_losses := line_forward (losses lb data ! (n - lb)) (ri_losses r)\<rparr>"
  shows "rsi_averages (gains lb data ! (n - lb)) (losses lb data ! (n - lb)) r1 =
     r1\<lparr>ri_avg_gain := exp_average (1 / real p) p (gains lb data) (n - lb),
        ri_avg_loss := exp_average (1 / real p) p (losses lb data) (n - lb), ri_initialized := True\<rparr>"
proof -
  note S = assms(1) [unfolded rsi_state_def]
  have k: "n - lb < length (gains lb data)" "n - lb < length (losses lb data)" "p \<le> n - lb + 1"
    using assms(3-5) by (simp_all add: moves)
  show ?thesis
  proof (cases "ri_initialized r")
    case True
    then show ?thesis
      using seeded_step(1) [OF _ assms(2) k(3), of "1 / real p" "gains lb data" True "ri_avg_gain r"]
        seeded_step(1) [OF _ assms(2) k(3), of "1 / real p" "losses lb data" True "ri_avg_loss r"] S k
      by (simp add: rsi_averages_def assms(6) wilder_step [OF assms(2)] Let_def)
  next
    case False
    then have "\<not> p \<le> n - lb" using S by (simp add: seeded_def)
    then have n: "n - lb = p - 1" using k(3) by linarith
    have data: "ln_data (ri_gains r1) = take p (gains lb data)" "ln_data (ri_losses r1) = take p (losses lb data)"
      using S k n assms(2) take_Suc_conv_app_nth [OF k(1)] take_Suc_conv_app_nth [OF k(2)] by (simp_all add: assms(6))
    have len: "p \<le> length (gains lb data)" "p \<le> length (losses lb data)" using k n assms(2) by linarith+
    show ?thesis
      using seed_average_mean [OF assms(2) data(1) len(1)] seed_average_mean [OF assms(2) data(2) len(2)]
        exp_average_seed [OF assms(2)] S False n
      by (simp add: rsi_averages_def assms(6) Let_def)
  qed
qed

lemma rsi_drive:
  assumes "0 < p" and "0 < lb" and "n \<le> length data"
  shows "let r = drive (\<lambda>k. rsi_next (at_cursor data k)) n (new_rsi p Smoothed False hi lo lb);
             g = exp_average (1 / real p) p (gains lb data); l = exp_average (1 / real p) p (losses lb data) in
     ln_data (ri_line r) = map (\<lambda>k. if k + 1 < p + lb then NaN else strength (g (k - lb)) (l (k - lb))) [0..<n]
     \<and> rsi_state p lb data n r"
  using assms(3)
proof (induction n)
  case (Suc n)
  let ?g = "exp_average (1 / real p) p (gains lb data)" and ?l = "exp_average (1 / real p) p (losses lb data)"
  let ?v = "\<lambda>k. if k + 1 < p + lb then NaN else strength (?g (k - lb)) (?l (k - lb))"
  define r where "r = drive (\<lambda>k. rsi_next (at_cursor data k)) n (new_rsi p Smoothed False hi lo lb)"
  have step: "drive (\<lambda>k. rsi_next (at_cursor data k)) (Suc n) (new_rsi p Smoothed False hi lo lb) = rsi_next (at_cursor data n) r"
    by (simp add: r_def)
  define V where "V = ?v"
  have IH: "ln_data (ri_line r) = map V [0..<n]" "rsi_state p lb data n r"
    using Suc by (simp_all add: r_def V_def Let_def)
  note S = IH(2) [unfolded rsi_state_def]
  have "ln_data (ri_line (rsi_next (at_cursor data n) r)) = map V [0..<Suc n] \<and> rsi_state p lb data (Suc n) (rsi_next (at_cursor data n) r)"
  proof (cases "n < lb")
    case True
    then have "V n = NaN" using assms(1) by (simp add: V_def)
    then show ?thesis
      using IH(1) S True assms(1) unfolding rsi_next_def Let_def at_cursor_simps
      by (simp add: rsi_state_def seeded_def)
  next
    case False
    let ?k = "n - lb"
    define r1 where "r1 = r\<lparr>ri_gains := line_forward (gains lb data ! ?k) (ri_gains r),
                ri_losses := line_forward (losses lb data ! ?k) (ri_losses r)\<rparr>"
    have k: "?k < length data - lb" "lb + ?k = n" "Suc n - lb = Suc ?k" using False Suc.prems by simp_all
    have change: "max (data ! n - data ! (n - lb)) 0 = gains lb data ! ?k" "max (- (data ! n - data ! (n - lb))) 0 = losses lb data ! ?k"
      using moves(5,6) [OF k(1)] k(2) by simp_all
    have data: "ln_data (ri_gains r1) = take (Suc ?k) (gains lb data)" "ln_data (ri_losses r1) = take (Suc ?k) (losses lb data)"
      using S k(1) by (simp_all add: r1_def take_Suc_conv_app_nth moves)
    have size: "line_size (ri_gains r1) = Suc ?k" using data(1) k(1) by (simp add: line_size_def moves)
    have body: "rsi_next (at_cursor data n) r =
        (if Suc ?k < p then r1\<lparr>ri_line := line_forward NaN (ri_line r)\<rparr>
         else let r2 = rsi_averages (gains lb data ! ?k) (losses lb data ! ?k) r1
              in r2\<lparr>ri_line := line_forward (rsi_value r2) (ri_line r2)\<rparr>)"
      unfolding rsi_next_def Let_def at_cursor_simps using S False size change by (simp add: r1_def)
    show ?thesis
    proof (cases "Suc ?k < p")
      case True
      then have "n + 1 < p + lb" using False by linarith
      then have "V n = NaN" by (simp only: V_def if_True)
      then show ?thesis
        using IH(1) S data k seeded_warm True unfolding body
        by (auto simp: rsi_state_def r1_def Let_def)
    next
      case full: False
      have avg: "rsi_averages (gains lb data ! ?k) (losses lb data ! ?k) r1 =
          r1\<lparr>ri_avg_gain := ?g ?k, ri_avg_loss := ?l ?k, ri_initialized := True\<rparr>"
        by (rule rsi_averages_step [OF IH(2) assms(1) _ _ _ r1_def]) (use False full Suc.prems in simp_all)
      have nonneg: "0 \<le> ?g ?k" "0 \<le> ?l ?k"
        using exp_average_nonneg [OF assms(1), of ?k] full k(1) moves by auto
      have seeded: "seeded (1 / real p) p (gains lb data) (Suc ?k) True (?g ?k)"
        "seeded (1 / real p) p (losses lb data) (Suc ?k) True (?l ?k)"
        using full by (simp_all add: seeded_def)
      have "\<not> n + 1 < p + lb" using full False by linarith
      then have "V n = strength (?g ?k) (?l ?k)" by (simp only: V_def if_False)
      then show ?thesis
        using IH(1) S data k full nonneg seeded unfolding body avg Let_def
        by (simp add: rsi_state_def rsi_value_strength r1_def)
    qed
  qed
  then show ?case by (simp add: step V_def Let_def del: drive_simps)
qed (use assms(1,2) in \<open>simp add: new_rsi_def rsi_state_def seeded_start Let_def\<close>)

text \<open>The index lies between 0 and 100, and is their middle for equal gains and losses.\<close>

lemma strength_range:
  assumes "0 \<le> g" and "0 \<le> l"
  shows "strength g l = NaN \<longleftrightarrow> g = 0 \<and> l = 0" "strength g l = Fin x \<Longrightarrow> 0 \<le> x \<and> x \<le> 100"
proof -
  show "strength g l = NaN \<longleftrightarrow> g = 0 \<and> l = 0" using assms by (auto simp: strength_def)
  show "0 \<le> x \<and> x \<le> 100" if "strength g l = Fin x"
  proof -
    have pos: "0 < g + l" and x: "x = 100 * g / (g + l)" using that assms by (auto simp: strength_def split: if_splits)
    have "100 * g \<le> 100 * (g + l)" using assms by simp
    then show ?thesis using pos assms unfolding x by (simp add: divide_le_eq)
  qed
qed

text \<open>The lines of the convergence indicator.\<close>

definition convergence :: "nat \<Rightarrow> nat \<Rightarrow> real list \<Rightarrow> nat \<Rightarrow> real" where
  "convergence fast slow data k =
     exp_average (2 / (real fast + 1)) fast data k - exp_average (2 / (real slow + 1)) slow data k"

definition convergences :: "nat \<Rightarrow> nat \<Rightarrow> real list \<Rightarrow> real list" where
  "convergences fast slow data = map (convergence fast slow data) [slow - 1..<length data]"

definition signal_of :: "nat \<Rightarrow> nat \<Rightarrow> nat \<Rightarrow> real list \<Rightarrow> nat \<Rightarrow> real" where
  "signal_of fast slow sig data k = exp_average (2 / (real sig + 1)) sig (convergences fast slow data) (k + 1 - slow)"

definition macd_state :: "nat \<Rightarrow> nat \<Rightarrow> nat \<Rightarrow> real list \<Rightarrow> nat \<Rightarrow> macd \<Rightarrow> bool" where
  "macd_state fast slow sig data n m \<longleftrightarrow>
     mc_fast_period m = fast \<and> mc_slow_period m = slow \<and> mc_signal_period m = sig
     \<and> mc_fast_multiplier m = 2 / (real fast + 1) \<and> mc_slow_multiplier m = 2 / (real slow + 1)
     \<and> mc_signal_multiplier m = 2 / (real sig + 1)
     \<and> seeded (2 / (real fast + 1)) fast data n (mc_fast_initialized m) (mc_fast_prev m)
     \<and> seeded (2 / (real slow + 1)) slow data n (mc_slow_initialized m) (mc_slow_prev m)
     \<and> seeded (2 / (real sig + 1)) sig (convergences fast slow data) (n + 1 - slow) (mc_signal_initialized m) (mc_signal_prev m)
     \<and> mc_valid_count m = n + 1 - slow"

lemma convergences_nth:
  "0 < slow \<Longrightarrow> slow \<le> k + 1 \<Longrightarrow> k < length data \<Longrightarrow>
     k + 1 - slow < length (convergences fast slow data) \<and> convergences fast slow data ! (k + 1 - slow) = convergence fast slow data k"
  by (auto simp: convergences_def nth_append)

lemma seed_signal_mean:
  assumes "vs = map (warmup slow (convergence fast slow data)) [0..<Suc n]" and "0 < sig" and "0 < slow"
    and "n < length data" and "n + 1 = slow + sig - 1"
  shows "seed_signal vs n sig = moving_mean sig (convergences fast slow data) (sig - 1)"
proof -
  have "seed_signal vs n sig = seed_sma (convergences fast slow data) (sig - 1) sig"
  proof -
    have "fin_value (vs ! (n - i)) = convergences fast slow data ! (sig - 1 - i)" if "i < sig" for i
    proof -
      have k: "slow \<le> n - i + 1" "n - i < length data" "n - i + 1 - slow = sig - 1 - i" "n - i < Suc n"
        using that assms(2,3,4,5) by linarith+
      have "vs ! (n - i) = Fin (convergence fast slow data (n - i))"
        using k(1,4) unfolding assms(1) by (simp add: warmup_def del: upt_Suc)
      then show ?thesis using convergences_nth [OF assms(3) k(1,2), of fast] k(3) by simp
    qed
    then have "foldl (\<lambda>sum i. sum + fin_value (vs ! (n - i))) r xs = foldl (\<lambda>sum i. sum + convergences fast slow data ! (sig - 1 - i)) r xs"
      if "set xs \<subseteq> {0..<sig}" for r xs using that by (induction xs arbitrary: r) auto
    then show ?thesis by (simp add: seed_signal_def seed_sma_def)
  qed
  also have "\<dots> = moving_mean sig (convergences fast slow data) (sig - 1)"
    using convergences_nth [OF assms(3), of n data fast] assms(2,4,5) by (intro seed_sma_mean) simp_all
  finally show ?thesis .
qed

lemma macd_drive:
  assumes "0 < fast" and "fast \<le> slow" and "0 < sig" and "n \<le> length data"
  shows "let m = drive (\<lambda>k. macd_next (at_cursor data k)) n (new_macd fast slow sig);
             s = signal_of fast slow sig data; c = convergence fast slow data in
     ln_data (mc_line m) = map (warmup slow c) [0..<n]
     \<and> ln_data (mc_signal m) = map (warmup (slow + sig - 1) s) [0..<n]
     \<and> ln_data (mc_histogram m) = map (warmup (slow + sig - 1) (\<lambda>k. c k - s k)) [0..<n]
     \<and> macd_state fast slow sig data n m"
  using assms(4)
proof (induction n)
  case (Suc n)
  let ?af = "2 / (real fast + 1)" and ?as = "2 / (real slow + 1)" and ?ag = "2 / (real sig + 1)"
  let ?cs = "convergences fast slow data" and ?k = "n + 1 - slow"
  define c where "c = convergence fast slow data"
  define s where "s = signal_of fast slow sig data"
  define m where "m = drive (\<lambda>k. macd_next (at_cursor data k)) n (new_macd fast slow sig)"
  have IH: "ln_data (mc_line m) = map (warmup slow c) [0..<n]" "ln_data (mc_signal m) = map (warmup (slow + sig - 1) s) [0..<n]"
    "ln_data (mc_histogram m) = map (warmup (slow + sig - 1) (\<lambda>k. c k - s k)) [0..<n]" "macd_state fast slow sig data n m"
    using Suc by (simp_all add: m_def c_def s_def Let_def)
  note S = IH(4) [unfolded macd_state_def]
  have n: "n < length data" using Suc.prems by simp
  define m1 where "m1 = macd_fast (at_cursor data n) m"
  have fast: "mc_fast_prev m1 = (if n + 1 < fast then mc_fast_prev m else exp_average ?af fast data n)"
    "seeded ?af fast data (Suc n) (mc_fast_initialized m1) (mc_fast_prev m1)"
    "mc_line m1 = mc_line m" "mc_signal m1 = mc_signal m" "mc_histogram m1 = mc_histogram m"
    "mc_fast_period m1 = fast" "mc_slow_period m1 = slow" "mc_signal_period m1 = sig"
    "mc_fast_multiplier m1 = ?af" "mc_slow_multiplier m1 = ?as" "mc_signal_multiplier m1 = ?ag"
    "mc_slow_initialized m1 = mc_slow_initialized m" "mc_slow_prev m1 = mc_slow_prev m"
    "mc_signal_initialized m1 = mc_signal_initialized m" "mc_signal_prev m1 = mc_signal_prev m"
    "mc_valid_count m1 = ?k"
    using S seeded_step [of ?af fast data n "mc_fast_initialized m" "mc_fast_prev m"] seeded_warm n assms(1)
    by (auto simp: m1_def macd_fast_def advance_ema_def Let_def)
  have "ln_data (mc_line (macd_next (at_cursor data n) m)) = map (warmup slow c) [0..<Suc n]
      \<and> ln_data (mc_signal (macd_next (at_cursor data n) m)) = map (warmup (slow + sig - 1) s) [0..<Suc n]
      \<and> ln_data (mc_histogram (macd_next (at_cursor data n) m)) = map (warmup (slow + sig - 1) (\<lambda>k. c k - s k)) [0..<Suc n]
      \<and> macd_state fast slow sig data (Suc n) (macd_next (at_cursor data n) m)"
  proof (cases "n + 1 < slow")
    case True
    then have body: "macd_next (at_cursor data n) m =
        m1\<lparr>mc_slow_ema := line_forward NaN (mc_slow_ema m1), mc_line := line_forward NaN (mc_line m1),
           mc_signal := line_forward NaN (mc_signal m1), mc_histogram := line_forward NaN (mc_histogram m1)\<rparr>"
      using fast by (simp add: macd_next_def m1_def [symmetric] Let_def)
    have "warmup slow c n = NaN" "warmup (slow + sig - 1) s n = NaN" "warmup (slow + sig - 1) (\<lambda>k. c k - s k) n = NaN"
      using True assms(3) by (simp_all add: warmup_def)
    then show ?thesis
      using IH(1-3) S fast seeded_warm [of ?as slow data n] True unfolding body by (simp add: macd_state_def)
  next
    case False
    have slow: "(if \<not> mc_slow_initialized m1 then seed_sma data n slow
        else advance_ema (data ! n) (mc_slow_prev m1) (mc_slow_multiplier m1)) = exp_average ?as slow data n"
      "seeded ?as slow data (Suc n) True (exp_average ?as slow data n)"
    proof -
      have pre: "seeded ?as slow data n (mc_slow_initialized m) (mc_slow_prev m)" "0 < slow" "slow \<le> n + 1"
        using S assms(1,2) False by simp_all
      show "(if \<not> mc_slow_initialized m1 then seed_sma data n slow
        else advance_ema (data ! n) (mc_slow_prev m1) (mc_slow_multiplier m1)) = exp_average ?as slow data n"
        unfolding advance_ema_def fast by (rule seeded_step(1) [OF pre n])
      show "seeded ?as slow data (Suc n) True (exp_average ?as slow data n)" by (rule seeded_step(2) [OF pre n])
    qed
    define m2 where "m2 = macd_slow (at_cursor data n) m1"
    have m2: "mc_fast_prev m2 = exp_average ?af fast data n" "mc_slow_prev m2 = exp_average ?as slow data n"
      "mc_line m2 = mc_line m" "mc_signal m2 = mc_signal m" "mc_histogram m2 = mc_histogram m"
      "mc_fast_period m2 = fast" "mc_slow_period m2 = slow" "mc_signal_period m2 = sig"
      "mc_fast_multiplier m2 = ?af" "mc_slow_multiplier m2 = ?as" "mc_signal_multiplier m2 = ?ag"
      "seeded ?af fast data (Suc n) (mc_fast_initialized m2) (mc_fast_prev m2)"
      "seeded ?as slow data (Suc n) (mc_slow_initialized m2) (mc_slow_prev m2)"
      "mc_signal_initialized m2 = mc_signal_initialized m" "mc_signal_prev m2 = mc_signal_prev m"
      "mc_valid_count m2 = ?k"
      unfolding m2_def macd_slow_def Let_def at_cursor_simps fast(7) slow(1)
      using slow(2) fast False assms(2) by simp_all
    have body: "macd_next (at_cursor data n) m = macd_signal n (c n) m2"
      using False m2(1,2) fast by (simp add: macd_next_def m1_def [symmetric] m2_def [symmetric] c_def convergence_def Let_def)
    have k: "?k < length ?cs" "?cs ! ?k = c n" "Suc n + 1 - slow = Suc ?k"
      using convergences_nth [of slow n data fast] n assms(1,2) False by (simp_all add: c_def)
    have line: "warmup slow c n = Fin (c n)" using False by (simp add: warmup_def)
    show ?thesis
    proof (cases "Suc ?k < sig")
      case True
      then have "n + 1 < slow + sig - 1" using False by linarith
      then have "warmup (slow + sig - 1) s n = NaN" "warmup (slow + sig - 1) (\<lambda>k. c k - s k) n = NaN" by (simp_all add: warmup_def)
      moreover have "seeded ?ag sig ?cs (Suc ?k) (mc_signal_initialized m) (mc_signal_prev m)"
        using S True seeded_warm by auto
      ultimately show ?thesis
        using IH(1-3) m2 line k(3) True unfolding body by (simp add: macd_signal_def macd_state_def Let_def)
    next
      case full: False
      then have "\<not> n + 1 < slow + sig - 1" using False by linarith
      then have out: "warmup (slow + sig - 1) s n = Fin (s n)" "warmup (slow + sig - 1) (\<lambda>k. c k - s k) n = Fin (c n - s n)"
        by (simp_all only: warmup_def if_False)
      have sn: "s n = exp_average ?ag sig ?cs ?k" by (simp add: s_def signal_of_def)
      have "(if \<not> mc_signal_initialized m then seed_signal (ln_data (mc_line m) @ [Fin (c n)]) n sig
             else advance_ema (c n) (mc_signal_prev m) ?ag) = s n"
      proof (cases "mc_signal_initialized m")
        case True
        have "seeded ?ag sig ?cs ?k (mc_signal_initialized m) (mc_signal_prev m)" "sig \<le> ?k + 1" using S full by simp_all
        from seeded_step(1) [OF this(1) assms(3) this(2) k(1)] show ?thesis
          using True unfolding sn advance_ema_def k(2) by (simp only: if_False not_True_eq_False)
      next
        case uninit: False
        then have "\<not> sig \<le> ?k" using S by (simp add: seeded_def)
        then have e: "?k = sig - 1" "n + 1 = slow + sig - 1" using full False by linarith+
        have "ln_data (mc_line m) @ [Fin (c n)] = map (warmup slow (convergence fast slow data)) [0..<Suc n]"
          using IH(1) line by (simp add: c_def)
        then show ?thesis
          using seed_signal_mean [OF _ assms(3) _ n e(2)] exp_average_seed [OF assms(3)] uninit assms(1,2) e(1)
          by (simp add: sn)
      qed
      moreover have "seeded ?ag sig ?cs (Suc ?k) True (s n)" using full by (simp add: seeded_def sn)
      ultimately show ?thesis
        using IH(1-3) m2 line k(3) full out unfolding body
        by (cases "mc_signal_initialized m") (simp_all add: macd_signal_def macd_state_def Let_def)
    qed
  qed
  then show ?case by (simp add: m_def c_def s_def Let_def)
qed (use assms(1-3) in \<open>simp add: new_macd_def macd_state_def seeded_start Let_def\<close>)

lemma true_range_nonneg: "0 \<le> true_range high low close k"
  by (simp add: true_range_def)

lemma weighted_nonneg:
  assumes "0 < p" and "p \<le> k + 1" and "k < length data" and "\<forall>x \<in> set data. 0 \<le> x"
  shows "0 \<le> weighted_mean (1 / real p) p data k"
  using exp_average_nonneg [OF assms] exp_average_weights [OF assms(2,3)] by simp

text \<open>
  C30. The oscillators: the relative strength index is 100 G / (G + L) for the Wilder averages G and L
  of the gains and losses, between 0 and 100, and NaN when there were neither; the average true
  range is the Wilder average of the true ranges and never negative; the convergence line is the
  difference of two exponential averages, its signal their exponential average in turn, and the
  histogram the difference of the two. Each is NaN exactly for the bars before its declared
  minimum period (the index also on flat prices).
\<close>

theorem oscillators_contract:
  assumes "0 < p" and "0 < fast" and "fast \<le> slow" and "0 < sig" and "n \<le> length close"
  shows "let w = weighted_mean (1 / real p) p; r0 = new_rsi p Smoothed False 100 50 1; m0 = new_macd fast slow sig;
             r = ri_line (drive (\<lambda>k. rsi_next (at_cursor close k)) n r0);
             a = at_line (drive (\<lambda>k. atr_next (at_cursor high k) (at_cursor low k) (at_cursor close k)) n (new_atr p));
             m = drive (\<lambda>k. macd_next (at_cursor close k)) n m0;
             c = convergence fast slow close; s = signal_of fast slow sig close
   in ln_data r = map (\<lambda>k. if k + 1 < rsi_minimum_period r0 then NaN
                           else strength (w (gains 1 close) (k - 1)) (w (losses 1 close) (k - 1))) [0..<n]
      \<and> (\<forall>x. Fin x \<in> set (ln_data r) \<longrightarrow> 0 \<le> x \<and> x \<le> 100)
      \<and> ln_data a = map (warmup (atr_minimum_period (new_atr p)) (\<lambda>k. w (true_ranges high low close) (k - 1))) [0..<n]
      \<and> (\<forall>x. Fin x \<in> set (ln_data a) \<longrightarrow> 0 \<le> x)
      \<and> ln_data (mc_line m) = map (warmup (macd_accessor_minimum_period ''macd'' m0) c) [0..<n]
      \<and> ln_data (mc_signal m) = map (warmup (macd_minimum_period m0) s) [0..<n]
      \<and> ln_data (mc_histogram m) = map (warmup (macd_minimum_period m0) (\<lambda>k. c k - s k)) [0..<n]"
proof -
  let ?w = "weighted_mean (1 / real p) p" and ?g = "gains 1 close" and ?l = "losses 1 close" and ?t = "true_ranges high low close"
  have W: "exp_average (1 / real p) p xs k = ?w xs k" if "p \<le> k + 1" "k < length xs" for xs k
    using exp_average_weights [OF that] .
  have min: "rsi_minimum_period (new_rsi p Smoothed False 100 50 1) = p + 1" "atr_minimum_period (new_atr p) = p + 1"
    "macd_minimum_period (new_macd fast slow sig) = slow + sig - 1"
    "macd_accessor_minimum_period ''macd'' (new_macd fast slow sig) = slow"
    using assms(1) by (simp_all add: rsi_minimum_period_def new_rsi_def atr_minimum_period_def new_atr_def
        macd_minimum_period_def macd_accessor_minimum_period_def new_macd_def Let_def)
  have rsi: "ln_data (ri_line (drive (\<lambda>k. rsi_next (at_cursor close k)) n (new_rsi p Smoothed False 100 50 1))) =
      map (\<lambda>k. if k + 1 < p + 1 then NaN else strength (?w ?g (k - 1)) (?w ?l (k - 1))) [0..<n]"
    using rsi_drive [OF assms(1) zero_less_one assms(5), of 100 50] assms(1,5)
    by (auto simp: Let_def W moves)
  have atr: "ln_data (at_line (drive (\<lambda>k. atr_next (at_cursor high k) (at_cursor low k) (at_cursor close k)) n (new_atr p))) =
      map (warmup (p + 1) (\<lambda>k. ?w ?t (k - 1))) [0..<n]"
    using atr_drive [OF assms(1,5), of high low] assms(1,5) by (auto simp: Let_def W warmup_def true_ranges_def)
  have "0 \<le> x \<and> x \<le> 100"
    if x: "Fin x \<in> set (map (\<lambda>k. if k + 1 < p + 1 then NaN else strength (?w ?g (k - 1)) (?w ?l (k - 1))) [0..<n])" for x
  proof -
    obtain k where "k < n" and v: "Fin x = (if k + 1 < p + 1 then NaN else strength (?w ?g (k - 1)) (?w ?l (k - 1)))"
      using x by auto
    then have k: "k < n" "\<not> k < p" "strength (?w ?g (k - 1)) (?w ?l (k - 1)) = Fin x" by (auto split: if_splits)
    have "0 \<le> ?w ?g (k - 1)" "0 \<le> ?w ?l (k - 1)"
      using weighted_nonneg [OF assms(1), of "k - 1"] k(1,2) assms(1,5) moves [of 1 close] by auto
    then show ?thesis using strength_range(2) k(3) by blast
  qed
  moreover have "0 \<le> x" if x: "Fin x \<in> set (map (warmup (p + 1) (\<lambda>k. ?w ?t (k - 1))) [0..<n])" for x
  proof -
    obtain k where k: "k < n" "\<not> k < p" "x = ?w ?t (k - 1)" using x by (auto simp: warmup_def split: if_splits)
    have "\<forall>y \<in> set ?t. 0 \<le> y" "length ?t = length close - 1" by (auto simp: true_ranges_def true_range_nonneg)
    then show ?thesis using weighted_nonneg [OF assms(1), of "k - 1" ?t] k assms(1,5) by simp
  qed
  ultimately show ?thesis
    using macd_drive [OF assms(2-5)] unfolding Let_def rsi atr min by blast
qed

theorem oscillators_contract_witness:
  "ln_data (ri_line (drive (\<lambda>k. rsi_next (at_cursor [10, 12, 11, 14] k)) 4 (new_rsi 2 Smoothed False 100 50 1)))
     = [NaN, NaN, Fin (200 / 3), Fin (800 / 9)]
   \<and> ln_data (at_line (drive (\<lambda>k. atr_next (at_cursor [11, 13, 12, 15] k) (at_cursor [9, 10, 10, 11] k)
          (at_cursor [10, 12, 11, 14] k)) 4 (new_atr 2))) = [NaN, NaN, Fin (5 / 2), Fin (13 / 4)]"
proof -
  have h: "0 < (2 :: nat)" "0 < (1 :: nat)" "1 \<le> (2 :: nat)" "4 \<le> length [10, 12, 11, 14 :: real]" by simp_all
  have four: "[0..<4] = [0, 1, 2, 3 :: nat]" "[1..<4] = [1, 2, 3 :: nat]" by (simp_all add: upt_rec)
  show ?thesis
    using oscillators_contract [OF h(1,2,3,2,4), of "[11, 13, 12, 15]" "[9, 10, 10, 11]"]
    by (simp add: Let_def four warmup_def strength_def weighted_mean_def moving_mean_def gains_def losses_def
        rsi_minimum_period_def new_rsi_def atr_minimum_period_def new_atr_def true_ranges_def true_range_def)
qed

end
