(* ===== verification/Features.thy ===== *)
theory Features
  imports Strategy Corrective Indicator_Laws
begin

text \<open>
  \<^verbatim>\<open>corrective/pop_feature_builder.hpp\<close>: the vector of fourteen features of a candidate order. Its
  indicators are bound to the lines of the feeds, which are an argument of every step here. A
  \<open>float\<close> is a \<open>real\<close>; the value of an indicator is the last element of its line when that is
  finite and 0 otherwise.
\<close>

subsection \<open>The builder\<close>

record feed_indicators =
  fi_rsi :: rsi
  fi_atr :: atr
  fi_bb_pct :: bollinger_pct
  fi_macd :: macd
  fi_vol_sma :: sma
  fi_close_sma :: sma
  fi_close_stddev :: stddev

definition new_indicators :: feed_indicators where
  "new_indicators =
     \<lparr>fi_rsi = new_rsi 14 Smoothed False 100 50 1, fi_atr = new_atr 14, fi_bb_pct = new_bollinger_pct 20 2,
      fi_macd = new_macd 12 26 9, fi_vol_sma = new_sma 20, fi_close_sma = new_sma 20,
      fi_close_stddev = new_stddev 20\<rparr>"

definition advance_indicators :: "real feed \<Rightarrow> feed_indicators \<Rightarrow> feed_indicators" where
  "advance_indicators f fi =
     \<lparr>fi_rsi = rsi_next (fd_close f) (fi_rsi fi), fi_atr = atr_next (fd_high f) (fd_low f) (fd_close f) (fi_atr fi),
      fi_bb_pct = bollinger_pct_next (fd_close f) (fi_bb_pct fi), fi_macd = macd_next (fd_close f) (fi_macd fi),
      fi_vol_sma = sma_next (fd_volume f) (fi_vol_sma fi), fi_close_sma = sma_next (fd_close f) (fi_close_sma fi),
      fi_close_stddev = stddev_next (fd_close f) (fi_close_stddev fi)\<rparr>"

record feature_builder =
  fb_indicators :: "feed_indicators list"
  fb_initialized :: bool
  fb_bars_since_last_trade :: nat
  fb_equity_peak :: real

definition new_feature_builder :: feature_builder where
  "new_feature_builder =
     \<lparr>fb_indicators = [], fb_initialized = False, fb_bars_since_last_trade = 0, fb_equity_peak = 0\<rparr>"

definition builder_init :: "nfeed list \<Rightarrow> feature_builder \<Rightarrow> feature_builder" where
  "builder_init feeds fb =
     fb\<lparr>fb_indicators := map (\<lambda>f. new_indicators) feeds, fb_initialized := True, fb_bars_since_last_trade := 0,
        fb_equity_peak := 0\<rparr>"

definition builder_advance :: "nfeed list \<Rightarrow> feature_builder \<Rightarrow> feature_builder" where
  "builder_advance feeds fb =
     fb\<lparr>fb_indicators := map2 (\<lambda>f fi. advance_indicators (nf_feed f) fi) feeds (fb_indicators fb),
        fb_bars_since_last_trade := fb_bars_since_last_trade fb + 1\<rparr>"

definition record_trade :: "feature_builder \<Rightarrow> feature_builder" where
  "record_trade fb = fb\<lparr>fb_bars_since_last_trade := 0\<rparr>"

definition update_equity_peak :: "real \<Rightarrow> feature_builder \<Rightarrow> feature_builder" where
  "update_equity_peak value fb = (if fb_equity_peak fb < value then fb\<lparr>fb_equity_peak := value\<rparr> else fb)"

subsection \<open>The features\<close>

definition last_val :: "fpval line \<Rightarrow> real" where
  "last_val l = (if ln_data l = [] then 0 else case last_of l of Fin v \<Rightarrow> v | _ \<Rightarrow> 0)"

text \<open>The last value that was loaded, wherever the cursor is.\<close>

definition back_or_zero :: "real line \<Rightarrow> real" where
  "back_or_zero l = (if ln_data l = [] then 0 else last_of l)"

definition volume_ratio :: "real feed \<Rightarrow> feed_indicators \<Rightarrow> real" where
  "volume_ratio f fi =
     (let vol = back_or_zero (fd_volume f); avg = last_val (sma_line (fi_vol_sma fi))
      in if 0 < avg then vol / avg else 0)"

definition volatility_z :: "real feed \<Rightarrow> feed_indicators \<Rightarrow> real" where
  "volatility_z f fi =
     (let c = back_or_zero (fd_close f); sma = last_val (sma_line (fi_close_sma fi));
          sd = last_val (sd_line (fi_close_stddev fi))
      in if sd < 1 / 10 ^ 15 then 0 else (c - sma) / sd)"

definition drawdown_pct :: "real \<Rightarrow> feature_builder \<Rightarrow> real" where
  "drawdown_pct pv fb =
     (if fb_equity_peak fb \<le> 0 then 0 else (fb_equity_peak fb - pv) / fb_equity_peak fb * 100)"

definition open_trade_count :: "broker \<Rightarrow> nat" where
  "open_trade_count b = length (filter (\<lambda>(t, orig). trade_is_open t) (b_open_trades b))"

definition build_features ::
  "order_side \<Rightarrow> real \<Rightarrow> nat \<Rightarrow> nfeed list \<Rightarrow> broker \<Rightarrow> feature_builder \<Rightarrow> exn + real list" where
  "build_features side proposed_size data_index feeds b fb =
     (if \<not> fb_initialized fb \<or> length feeds \<le> data_index \<or> length (fb_indicators fb) \<le> data_index
      then Inr (replicate feature_count 0)
      else
        (let fi = fb_indicators fb ! data_index; f = nf_feed (feeds ! data_index); initial = b_initial_cash b
         in bind_r (line_at (fd_close f) 0) (\<lambda>close.
            bind_r (portfolio_value (views_of feeds) b) (\<lambda>pv.
              Inr [if 0 < initial then proposed_size / initial else 0,
                   close,
                   0,
                   if 0 < close then last_val (at_line (fi_atr fi)) / close else 0,
                   volatility_z f fi,
                   last_val (ri_line (fi_rsi fi)),
                   last_val (bq_pctb (fi_bb_pct fi)),
                   last_val (mc_histogram (fi_macd fi)),
                   volume_ratio f fi,
                   if 0 < initial then (pv - cash b) / initial else 0,
                   real (open_trade_count b),
                   real (fb_bars_since_last_trade fb),
                   drawdown_pct pv fb,
                   if side = Buy then 1 else - 1]))))"

subsection \<open>What a step may look at\<close>

text \<open>Two lines with the same cursor and the same values up to it.\<close>

definition same_past :: "'a line \<Rightarrow> 'a line \<Rightarrow> bool" where
  "same_past l m \<longleftrightarrow>
     ln_idx l = ln_idx m \<and> ln_idx l < length (ln_data l) \<and> ln_idx m < length (ln_data m)
     \<and> take (ln_idx l + 1) (ln_data l) = take (ln_idx l + 1) (ln_data m)"

lemma same_past_index: "same_past l m \<Longrightarrow> line_index l = line_index m"
  by (simp add: same_past_def line_index_def)

lemma same_past_nth:
  assumes "same_past l m" and "i \<le> line_index m"
  shows "ln_data l ! i = ln_data m ! i"
proof -
  have i: "i < ln_idx l + 1" using assms by (simp add: same_past_def line_index_def)
  have "ln_data l ! i = take (ln_idx l + 1) (ln_data l) ! i" using i by (simp only: nth_take)
  also have "take (ln_idx l + 1) (ln_data l) = take (ln_idx l + 1) (ln_data m)"
    using assms(1) unfolding same_past_def by (elim conjE)
  also have "take (ln_idx l + 1) (ln_data m) ! i = ln_data m ! i" using i by (simp only: nth_take)
  finally show ?thesis .
qed

lemma seed_sma_past:
  assumes "same_past l m"
  shows "seed_sma (ln_data l) (line_index m) p = seed_sma (ln_data m) (line_index m) p"
proof -
  have "ln_data l ! (line_index m - i) = ln_data m ! (line_index m - i)" for i
    using same_past_nth [OF assms] by simp
  then show ?thesis by (simp add: seed_sma_def)
qed

lemma foldl_nth_cong:
  "(\<And>i. i < count \<Longrightarrow> xs ! i = ys ! i) \<Longrightarrow> foldl (\<lambda>s i. f s (xs ! i)) r [0..<count] = foldl (\<lambda>s i. f s (ys ! i)) r [0..<count]"
  by (induction count) simp_all

lemma window_past:
  assumes "same_past l m" and "p \<le> line_index m + 1"
  shows "scalar_reduce_sum (drop (line_index m + 1 - p) (ln_data l)) p = scalar_reduce_sum (drop (line_index m + 1 - p) (ln_data m)) p"
    "scalar_reduce_mean_variance (drop (line_index m + 1 - p) (ln_data l)) p = scalar_reduce_mean_variance (drop (line_index m + 1 - p) (ln_data m)) p"
proof -
  have nth: "drop (line_index m + 1 - p) (ln_data l) ! i = drop (line_index m + 1 - p) (ln_data m) ! i" if "i < p" for i
  proof -
    have "line_index m < length (ln_data l)" "line_index m < length (ln_data m)"
      using assms(1) by (simp_all add: same_past_def line_index_def)
    then have len: "line_index m + 1 - p \<le> length (ln_data l)" "line_index m + 1 - p \<le> length (ln_data m)" by linarith+
    have "line_index m + 1 - p + i \<le> line_index m" using that assms(2) by linarith
    then show ?thesis unfolding nth_drop [OF len(1)] nth_drop [OF len(2)] by (rule same_past_nth [OF assms(1)])
  qed
  show sum: "scalar_reduce_sum (drop (line_index m + 1 - p) (ln_data l)) p = scalar_reduce_sum (drop (line_index m + 1 - p) (ln_data m)) p"
    unfolding scalar_reduce_sum_def by (rule foldl_nth_cong [OF nth])
  show "scalar_reduce_mean_variance (drop (line_index m + 1 - p) (ln_data l)) p = scalar_reduce_mean_variance (drop (line_index m + 1 - p) (ln_data m)) p"
    unfolding scalar_reduce_mean_variance_def Let_def sum
    by (intro arg_cong2 [where f = Pair] refl arg_cong2 [where f = divide])
       (rule foldl_nth_cong [where f = "\<lambda>s x. s + (x - c) * (x - c)" for c, OF nth])
qed

lemma next_past:
  assumes "same_past l m"
  shows "sma_next l s = sma_next m s" "stddev_next l d = stddev_next m d" "bollinger_pct_next l q = bollinger_pct_next m q"
    "rsi_next l r = rsi_next m r" "macd_next l c = macd_next m c"
  using window_past [OF assms] same_past_nth [OF assms] same_past_index [OF assms] seed_sma_past [OF assms]
  by (simp_all add: sma_next_def stddev_next_def bollinger_pct_next_def bollinger_next_def rsi_next_def
      macd_next_def macd_fast_def macd_slow_def Let_def)

lemma atr_next_past:
  assumes "same_past h h'" and "same_past l l'" and "same_past c c'" and "line_index h' = line_index c'"
    and "line_index l' = line_index c'"
  shows "atr_next h l c a = atr_next h' l' c' a"
  using same_past_nth [OF assms(1)] same_past_nth [OF assms(2)] same_past_nth [OF assms(3)] same_past_index [OF assms(3)] assms(4,5)
  by (simp add: atr_next_def true_range_def Let_def)

definition same_past_feed :: "real feed \<Rightarrow> real feed \<Rightarrow> bool" where
  "same_past_feed f g \<longleftrightarrow>
     same_past (fd_datetime f) (fd_datetime g) \<and> same_past (fd_open f) (fd_open g) \<and> same_past (fd_high f) (fd_high g)
     \<and> same_past (fd_low f) (fd_low g) \<and> same_past (fd_close f) (fd_close g) \<and> same_past (fd_volume f) (fd_volume g)
     \<and> line_index (fd_high g) = line_index (fd_close g) \<and> line_index (fd_low g) = line_index (fd_close g)"

definition same_past_feeds :: "nfeed list \<Rightarrow> nfeed list \<Rightarrow> bool" where
  "same_past_feeds fs gs \<longleftrightarrow> list_all2 (\<lambda>f g. same_past_feed (nf_feed f) (nf_feed g)) fs gs"

lemma line_at_past:
  assumes "same_past l m"
  shows "line_at l 0 = line_at m 0"
  using assms same_past_nth [OF assms, of "line_index m"] by (simp add: line_at_def same_past_def line_index_def Let_def)

lemma feed_view_past:
  assumes "same_past_feed f g"
  shows "feed_view f = feed_view g"
proof -
  have live: "feed_size x \<noteq> 0 \<and> feed_buflen x \<noteq> 0" if "ln_idx (fd_close x) < length (ln_data (fd_close x))" for x :: "real feed"
    using that by (auto simp: feed_size_def feed_buflen_def line_size_def line_buflen_def)
  have "ln_idx (fd_close f) < length (ln_data (fd_close f))" "ln_idx (fd_close g) < length (ln_data (fd_close g))"
    using assms by (simp_all add: same_past_feed_def same_past_def)
  moreover have "read_quote f = read_quote g"
    using assms line_at_past [of "fd_open f" "fd_open g"] line_at_past [of "fd_high f" "fd_high g"]
      line_at_past [of "fd_low f" "fd_low g"] line_at_past [of "fd_close f" "fd_close g"]
      line_at_past [of "fd_datetime f" "fd_datetime g"]
    by (simp add: same_past_feed_def read_quote_def)
  ultimately show ?thesis using live [of f] live [of g] by (simp add: feed_view_def)
qed

lemma advance_past:
  assumes "same_past_feed f g"
  shows "advance_indicators f fi = advance_indicators g fi"
  using assms atr_next_past [of "fd_high f" "fd_high g" "fd_low f" "fd_low g" "fd_close f" "fd_close g"]
  by (simp add: same_past_feed_def advance_indicators_def next_past)

lemma builder_advance_past:
  assumes "same_past_feeds fs gs"
  shows "builder_advance fs fb = builder_advance gs fb"
proof -
  have "map2 (\<lambda>f fi. advance_indicators (nf_feed f) fi) fs fis = map2 (\<lambda>f fi. advance_indicators (nf_feed f) fi) gs fis" for fis
    using assms unfolding same_past_feeds_def
  proof (induction fs gs arbitrary: fis rule: list_all2_induct)
    case (Cons f fs g gs)
    then show ?case by (cases fis) (simp_all add: advance_past)
  qed simp
  then show ?thesis by (simp add: builder_advance_def)
qed

lemma bind_r_cases: "bind_r r f = (case r of Inl e \<Rightarrow> Inl e | Inr x \<Rightarrow> f x)"
  by (cases r) simp_all

lemma two_differ:
  "i < 14 \<Longrightarrow> i \<noteq> 4 \<Longrightarrow> i \<noteq> 8 \<Longrightarrow>
     [x0, x1, x2, x3, x4, x5, x6, x7, x8, x9, x10, x11, x12, x13] ! i = [x0, x1, x2, x3, y4, x5, x6, x7, y8, x9, x10, x11, x12, x13] ! i"
  (is "_ \<Longrightarrow> _ \<Longrightarrow> _ \<Longrightarrow> ?xs ! i = ?ys ! i")
proof -
  assume "i < 14" and i: "i \<noteq> 4" "i \<noteq> 8"
  have "?ys = ?xs[4 := y4, 8 := y8]" by (simp add: eval_nat_numeral)
  also have "\<dots> ! i = ?xs[4 := y4] ! i" using i(2) by (intro nth_list_update_neq) simp
  also have "\<dots> = ?xs ! i" using i(1) by (intro nth_list_update_neq) simp
  finally show "?xs ! i = ?ys ! i" by (rule sym)
qed

text \<open>
  C31. What the features of a candidate know: an advance of the builder depends only on the bars up to the
  cursors of the feeds, and so do all features of an order but two. The volatility score and the
  volume ratio do not: they take the last value that was loaded.
\<close>

theorem features_know_the_past:
  assumes "same_past_feeds feeds feeds'"
  shows "builder_advance feeds fb = builder_advance feeds' fb
   \<and> (case (build_features side sz di feeds b fb, build_features side sz di feeds' b fb) of
        (Inl e, Inl e') \<Rightarrow> e = e'
      | (Inr fv, Inr fv') \<Rightarrow>
          length fv = feature_count \<and> length fv' = feature_count
          \<and> (\<forall>i < feature_count. i \<noteq> 4 \<and> i \<noteq> 8 \<longrightarrow> fv ! i = fv' ! i)
          \<and> (fb_initialized fb \<and> di < length feeds \<and> di < length (fb_indicators fb) \<longrightarrow>
               fv ! 4 = volatility_z (nf_feed (feeds ! di)) (fb_indicators fb ! di)
               \<and> fv ! 8 = volume_ratio (nf_feed (feeds ! di)) (fb_indicators fb ! di))
      | _ \<Rightarrow> False)"
proof
  show "builder_advance feeds fb = builder_advance feeds' fb" by (rule builder_advance_past [OF assms])
  have len: "length feeds' = length feeds" using assms by (auto simp: same_past_feeds_def dest: list_all2_lengthD)
  have nth: "same_past_feed (nf_feed (feeds ! i)) (nf_feed (feeds' ! i))" if "i < length feeds" for i
    using assms that by (auto simp: same_past_feeds_def list_all2_conv_all_nth)
  have "views_of feeds = views_of feeds'"
    unfolding views_of_def using len nth feed_view_past by (intro nth_equalityI) auto
  moreover have "line_at (fd_close (nf_feed (feeds ! di))) 0 = line_at (fd_close (nf_feed (feeds' ! di))) 0" if "di < length feeds"
    using nth [OF that] by (intro line_at_past) (simp add: same_past_feed_def)
  ultimately show "case (build_features side sz di feeds b fb, build_features side sz di feeds' b fb) of
        (Inl e, Inl e') \<Rightarrow> e = e'
      | (Inr fv, Inr fv') \<Rightarrow>
          length fv = feature_count \<and> length fv' = feature_count
          \<and> (\<forall>i < feature_count. i \<noteq> 4 \<and> i \<noteq> 8 \<longrightarrow> fv ! i = fv' ! i)
          \<and> (fb_initialized fb \<and> di < length feeds \<and> di < length (fb_indicators fb) \<longrightarrow>
               fv ! 4 = volatility_z (nf_feed (feeds ! di)) (fb_indicators fb ! di)
               \<and> fv ! 8 = volume_ratio (nf_feed (feeds ! di)) (fb_indicators fb ! di))
      | _ \<Rightarrow> False"
    using len by (auto simp: build_features_def Let_def feature_count_def bind_r_cases intro!: two_differ split: sum.splits)
qed

text \<open>A feed of two bars that stands at the first, and a builder with one full volume window.\<close>

definition two_bars :: "real \<Rightarrow> real \<Rightarrow> nfeed" where
  "two_bars c v =
     \<lparr>nf_name = [], nf_tfc = default_tfc,
      nf_feed = feed_of_bars [\<lparr>bar_timestamp = 0, bar_open = 10, bar_high = 12, bar_low = 9, bar_close = 10, bar_volume = 5\<rparr>,
                              \<lparr>bar_timestamp = 60, bar_open = 10, bar_high = 20, bar_low = 9, bar_close = c, bar_volume = v\<rparr>]\<rparr>"

definition warm_builder :: feature_builder where
  "warm_builder =
     \<lparr>fb_indicators = [new_indicators\<lparr>fi_vol_sma := (new_sma 20)\<lparr>sma_line := line_forward (Fin 5) line_empty\<rparr>,
                                     fi_close_sma := (new_sma 20)\<lparr>sma_line := line_forward (Fin 10) line_empty\<rparr>,
                                     fi_close_stddev := (new_stddev 20)\<lparr>sd_line := line_forward (Fin 2) line_empty\<rparr>\<rparr>],
      fb_initialized = True, fb_bars_since_last_trade = 7, fb_equity_peak = 0\<rparr>"

lemma two_bars_past: "same_past_feeds [two_bars c v] [two_bars c' v']"
  by (simp add: same_past_feeds_def same_past_feed_def same_past_def two_bars_def feed_of_bars_def line_index_def Let_def)

text \<open>The features of an order at the first bar see the price and the volume of the second.\<close>

lemma features_see_the_future:
  "case build_features Buy 100 0 [two_bars 12 5] (new_broker USD 10000 None) warm_builder of
     Inl e \<Rightarrow> False
   | Inr fv \<Rightarrow> fv ! 1 = 10 \<and> fv ! 4 = 1 \<and> fv ! 8 = 1"
  "case build_features Buy 100 0 [two_bars 16 20] (new_broker USD 10000 None) warm_builder of
     Inl e \<Rightarrow> False
   | Inr fv \<Rightarrow> fv ! 1 = 10 \<and> fv ! 4 = 3 \<and> fv ! 8 = 4"
  by (simp_all add: build_features_def warm_builder_def two_bars_def feed_of_bars_def line_at_def new_broker_def
      portfolio_value_def volatility_z_def volume_ratio_def back_or_zero_def last_val_def last_of_def
      new_indicators_def new_sma_def new_stddev_def Let_def)

theorem features_know_the_past_witness:
  "builder_advance [two_bars 12 5] warm_builder = builder_advance [two_bars 16 20] warm_builder
   \<and> (case (build_features Buy 100 0 [two_bars 12 5] (new_broker USD 10000 None) warm_builder,
            build_features Buy 100 0 [two_bars 16 20] (new_broker USD 10000 None) warm_builder) of
        (Inr fv, Inr fv') \<Rightarrow> fv ! 3 = fv' ! 3 \<and> fv ! 8 \<noteq> fv' ! 8
      | _ \<Rightarrow> False)"
proof -
  obtain fv where fv: "build_features Buy 100 0 [two_bars 12 5] (new_broker USD 10000 None) warm_builder = Inr fv" "fv ! 8 = 1"
    using features_see_the_future(1) by (auto split: sum.splits)
  obtain fv' where fv': "build_features Buy 100 0 [two_bars 16 20] (new_broker USD 10000 None) warm_builder = Inr fv'" "fv' ! 8 = 4"
    using features_see_the_future(2) by (auto split: sum.splits)
  show ?thesis
    using features_know_the_past [OF two_bars_past [of 12 5 16 20], where fb = warm_builder and side = Buy
        and sz = 100 and di = 0 and b = "new_broker USD 10000 None"]
    by (simp add: fv fv' feature_count_def)
qed

text \<open>
  The engine advances the indicators of every feed at every bar of the master. A context feed
  that stands still is counted again: the averages of the index move, and with them its value.
\<close>

lemma context_bars_count_twice:
  "last_val (ri_line (fold (\<lambda>k. rsi_next (at_cursor [10, 12, 11, 14] k)) [0, 1, 2, 3] (new_rsi 2 Smoothed False 100 50 1)))
     = 800 / 9"
  "last_val (ri_line (fold (\<lambda>k. rsi_next (at_cursor [10, 12, 11, 14] k)) [0, 1, 2, 2, 3] (new_rsi 2 Smoothed False 100 50 1)))
     = 1400 / 17"
  by (simp_all add: rsi_next_def new_rsi_def rsi_averages_def rsi_value_def rsi_of_rs_def seed_average_def line_size_def
      last_val_def upt_rec [of _ 2] Let_def)

end
