(* ===== verification/Calibration.thy ===== *)
theory Calibration
  imports Corrective
begin

text \<open>
  \<^verbatim>\<open>corrective/pop_calibrator.hpp\<close> and \<^verbatim>\<open>pop_inference_engine.hpp\<close>: isotonic calibration by binary
  search and linear interpolation, the logistic calibration, and the inference path with its
  preflight. The ONNX runtime is not under \<^verbatim>\<open>src/\<close>: loading a model is the function \<open>load\<close>,
  which gives a function that runs it. \<open>calibrate_fp\<close> extends \<open>calibrate\<close> to the classes of \<open>fpval\<close>: comparisons with NaN
  are false, so the search ends in the first interval.
\<close>

subsection \<open>Isotonic calibration\<close>

record breakpoint =
  bp_x :: real
  bp_y :: real

text \<open>The search loop: \<open>below mid\<close> stands for the comparison of breakpoint \<open>mid\<close> with the input.\<close>

function interval_search :: "(nat \<Rightarrow> bool) \<Rightarrow> nat \<Rightarrow> nat \<Rightarrow> nat \<times> nat" where
  "interval_search below lo hi =
     (if lo < hi - 1 then
        (let mid = (lo + hi) div 2
         in if below mid then interval_search below mid hi else interval_search below lo mid)
      else (lo, hi))"
  by pat_completeness auto
termination by (relation "measure (\<lambda>(below, lo, hi). hi - lo)") auto

declare interval_search.simps [simp del]

definition interpolate :: "breakpoint list \<Rightarrow> nat \<times> nat \<Rightarrow> real \<Rightarrow> real" where
  "interpolate bps lohi raw =
     (let (lo, hi) = lohi;
          x0 = bp_x (bps ! lo); y0 = bp_y (bps ! lo); x1 = bp_x (bps ! hi); y1 = bp_y (bps ! hi)
      in if x1 = x0 then y0 else (let t = (raw - x0) / (x1 - x0) in y0 + t * (y1 - y0)))"

definition apply_isotonic :: "breakpoint list \<Rightarrow> real \<Rightarrow> real" where
  "apply_isotonic bps raw =
     (if bps = [] then raw
      else if length bps = 1 then bp_y (hd bps)
      else if raw \<le> bp_x (hd bps) then bp_y (hd bps)
      else if bp_x (last bps) \<le> raw then bp_y (last bps)
      else interpolate bps (interval_search (\<lambda>mid. bp_x (bps ! mid) \<le> raw) 0 (length bps - 1)) raw)"

text \<open>The search keeps the input between the two ends and stops at neighbours.\<close>

lemma interval_search_spec:
  assumes "lo < hi" and "below lo" and "\<not> below hi"
  shows "\<exists>k. interval_search below lo hi = (k, Suc k) \<and> lo \<le> k \<and> k < hi \<and> below k \<and> \<not> below (Suc k)"
  using assms
proof (induction below lo hi rule: interval_search.induct)
  case (1 below lo hi)
  show ?case
  proof (cases "lo < hi - 1")
    case True
    let ?mid = "(lo + hi) div 2"
    have mid: "lo < ?mid" "?mid < hi" using True by auto
    show ?thesis
    proof (cases "below ?mid")
      case yes: True
      obtain k where "interval_search below ?mid hi = (k, Suc k)" "?mid \<le> k" "k < hi" "below k" "\<not> below (Suc k)"
        using "1.IH"(1) [OF True refl yes] mid yes "1.prems" by blast
      then show ?thesis using True yes mid by (simp add: interval_search.simps [of below lo hi] Let_def)
    next
      case no: False
      obtain k where "interval_search below lo ?mid = (k, Suc k)" "lo \<le> k" "k < ?mid" "below k" "\<not> below (Suc k)"
        using "1.IH"(2) [OF True refl no] mid no "1.prems" by blast
      then show ?thesis using True no mid by (simp add: interval_search.simps [of below lo hi] Let_def)
    qed
  next
    case False
    then have hi: "hi = Suc lo" using "1.prems"(1) by simp
    have "interval_search below lo hi = (lo, hi)" using False by (simp add: interval_search.simps [of below lo hi])
    then show ?thesis using hi "1.prems" by (intro exI [of _ lo]) simp
  qed
qed

lemma isotonic_interval:
  assumes "2 \<le> length bps" and "bp_x (hd bps) < raw" and "raw < bp_x (last bps)"
  obtains k where "Suc k < length bps" and "bp_x (bps ! k) \<le> raw" and "raw < bp_x (bps ! Suc k)"
    and "apply_isotonic bps raw = interpolate bps (k, Suc k) raw"
proof -
  let ?below = "\<lambda>mid. bp_x (bps ! mid) \<le> raw"
  have ne: "bps \<noteq> []" using assms(1) by auto
  then have "hd bps = bps ! 0" "last bps = bps ! (length bps - 1)" by (simp_all add: hd_conv_nth last_conv_nth)
  then have "0 < length bps - 1" "?below 0" "\<not> ?below (length bps - 1)" using assms by auto
  from interval_search_spec [of 0 "length bps - 1" ?below, OF this]
  obtain k where k: "interval_search ?below 0 (length bps - 1) = (k, Suc k)" "k < length bps - 1"
    "?below k" "\<not> ?below (Suc k)"
    by blast
  have "apply_isotonic bps raw = interpolate bps (k, Suc k) raw"
    using assms ne k(1) by (simp add: apply_isotonic_def)
  then show thesis using that k by force
qed

text \<open>Between two neighbours the value lies on the segment between their heights.\<close>

lemma interpolate_convex:
  assumes "bp_x (bps ! k) \<le> raw" and "raw < bp_x (bps ! Suc k)"
  obtains t where "0 \<le> t" "t \<le> 1" "t = (raw - bp_x (bps ! k)) / (bp_x (bps ! Suc k) - bp_x (bps ! k))"
    "interpolate bps (k, Suc k) raw = (1 - t) * bp_y (bps ! k) + t * bp_y (bps ! Suc k)"
proof -
  define t where "t = (raw - bp_x (bps ! k)) / (bp_x (bps ! Suc k) - bp_x (bps ! k))"
  have "0 \<le> t" "t \<le> 1" using assms by (simp_all add: t_def divide_le_eq_1)
  moreover have "interpolate bps (k, Suc k) raw = (1 - t) * bp_y (bps ! k) + t * bp_y (bps ! Suc k)"
    using assms by (simp add: interpolate_def t_def Let_def algebra_simps)
  ultimately show thesis using that t_def by blast
qed

lemma convex_bounds:
  assumes "0 \<le> t" "t \<le> (1 :: real)" "lo \<le> a" "a \<le> hi" "lo \<le> b" "b \<le> hi"
  shows "lo \<le> (1 - t) * a + t * b \<and> (1 - t) * a + t * b \<le> hi"
proof
  have "(1 - t) * lo + t * lo \<le> (1 - t) * a + t * b" using assms by (intro add_mono mult_left_mono) auto
  then show "lo \<le> (1 - t) * a + t * b" by (simp add: algebra_simps)
  have "(1 - t) * a + t * b \<le> (1 - t) * hi + t * hi" using assms by (intro add_mono mult_left_mono) auto
  then show "(1 - t) * a + t * b \<le> hi" by (simp add: algebra_simps)
qed

lemma isotonic_range:
  assumes "bps \<noteq> []" and "\<forall>b \<in> set bps. lo \<le> bp_y b \<and> bp_y b \<le> hi"
  shows "lo \<le> apply_isotonic bps raw \<and> apply_isotonic bps raw \<le> hi"
proof (cases "length bps = 1 \<or> raw \<le> bp_x (hd bps) \<or> bp_x (last bps) \<le> raw")
  case True
  then show ?thesis using assms by (auto simp: apply_isotonic_def)
next
  case False
  then have "2 \<le> length bps" using assms(1) by (cases bps) (auto simp: Suc_le_eq)
  then obtain k where k: "Suc k < length bps" "bp_x (bps ! k) \<le> raw" "raw < bp_x (bps ! Suc k)"
    "apply_isotonic bps raw = interpolate bps (k, Suc k) raw"
    using False by (auto simp: not_le intro: isotonic_interval [of bps raw])
  obtain t where t: "0 \<le> t" "t \<le> 1"
    "interpolate bps (k, Suc k) raw = (1 - t) * bp_y (bps ! k) + t * bp_y (bps ! Suc k)"
    using interpolate_convex [OF k(2,3)] by metis
  have mem: "bps ! k \<in> set bps" "bps ! Suc k \<in> set bps" using k(1) by simp_all
  show ?thesis
    unfolding k(4) t(3) by (rule convex_bounds) (use t mem assms(2) in auto)
qed

lemma isotonic_on_segment:
  assumes x: "sorted_wrt (<) (map bp_x bps)" and i: "Suc i < length bps"
    and raw: "bp_x (bps ! i) \<le> raw" "raw \<le> bp_x (bps ! Suc i)"
  shows "apply_isotonic bps raw = bp_y (bps ! i)
    + (raw - bp_x (bps ! i)) / (bp_x (bps ! Suc i) - bp_x (bps ! i)) * (bp_y (bps ! Suc i) - bp_y (bps ! i))"
proof -
  have len: "2 \<le> length bps" "bps \<noteq> []" using i by auto
  have less: "bp_x (bps ! j) < bp_x (bps ! k)" if "j < k" "k < length bps" for j k
    using sorted_wrt_nth_less [OF x, of j k] that by simp
  have ends: "hd bps = bps ! 0" "last bps = bps ! (length bps - 1)"
    using len by (simp_all add: hd_conv_nth last_conv_nth)
  have step: "bp_x (bps ! i) < bp_x (bps ! Suc i)" using less i by simp
  show ?thesis
  proof (cases "raw \<le> bp_x (hd bps)")
    case True
    then have "i = 0" using less [of 0 i] i raw(1) ends by (cases i) auto
    then have "raw = bp_x (bps ! i)" using True raw(1) ends by simp
    then show ?thesis using True len \<open>i = 0\<close> ends by (simp add: apply_isotonic_def)
  next
    case above: False
    show ?thesis
    proof (cases "bp_x (last bps) \<le> raw")
      case True
      then have "Suc i = length bps - 1"
        using less [of "Suc i" "length bps - 1"] i raw(2) ends len by (cases "Suc i < length bps - 1") auto
      then have "raw = bp_x (bps ! Suc i)" "last bps = bps ! Suc i" using True raw(2) ends by auto
      then show ?thesis using True len above step by (simp add: apply_isotonic_def)
    next
      case False
      then obtain k where k: "Suc k < length bps" "bp_x (bps ! k) \<le> raw" "raw < bp_x (bps ! Suc k)"
        "apply_isotonic bps raw = interpolate bps (k, Suc k) raw"
        using above by (auto simp: not_le intro: isotonic_interval [OF len(1), of raw])
      have "\<not> k < i" using less [of "Suc k" i] i k(3) raw(1) by (cases "Suc k = i") auto
      moreover have "k = Suc i" if "i < k"
        using less [of "Suc i" k] that k(1,2) raw(2) by (cases "k = Suc i") auto
      ultimately consider "k = i" | "k = Suc i" by linarith
      then show ?thesis
      proof cases
        case 1
        then show ?thesis using k(4) step by (simp add: interpolate_def Let_def)
      next
        case 2
        then have "raw = bp_x (bps ! Suc i)" using k(2) raw(2) by simp
        then show ?thesis using k(4) 2 step by (simp add: interpolate_def Let_def)
      qed
    qed
  qed
qed

lemma isotonic_ends:
  assumes "bps \<noteq> []" and "sorted_wrt (<) (map bp_x bps)"
  shows "raw \<le> bp_x (hd bps) \<Longrightarrow> apply_isotonic bps raw = bp_y (hd bps)"
    "bp_x (last bps) \<le> raw \<Longrightarrow> apply_isotonic bps raw = bp_y (last bps)"
proof -
  show "apply_isotonic bps raw = bp_y (hd bps)" if "raw \<le> bp_x (hd bps)"
    using assms(1) that by (simp add: apply_isotonic_def)
  assume h: "bp_x (last bps) \<le> raw"
  show "apply_isotonic bps raw = bp_y (last bps)"
  proof (cases "length bps = 1")
    case True
    then have "hd bps = last bps" by (cases bps) auto
    then show ?thesis using assms(1) True by (simp add: apply_isotonic_def)
  next
    case False
    then obtain b c bs where "bps = b # c # bs" using assms(1) by (metis One_nat_def length_0_conv list.exhaust length_Cons)
    then have "bp_x (hd bps) < bp_x (last bps)" using assms(2) by auto
    then show ?thesis using assms(1) False h by (simp add: apply_isotonic_def)
  qed
qed

lemma isotonic_mono:
  assumes ne: "bps \<noteq> []" and x: "sorted_wrt (<) (map bp_x bps)" and y: "sorted (map bp_y bps)" and le: "r \<le> s"
  shows "apply_isotonic bps r \<le> apply_isotonic bps s"
proof -
  have ys: "bp_y (bps ! i) \<le> bp_y (bps ! j)" if "i \<le> j" "j < length bps" for i j
    using sorted_nth_mono [OF y, of i j] that by simp
  have xs: "bp_x (bps ! i) < bp_x (bps ! j)" if "i < j" "j < length bps" for i j
    using sorted_wrt_nth_less [OF x, of i j] that by simp
  have ends: "hd bps = bps ! 0" "last bps = bps ! (length bps - 1)"
    using ne by (simp_all add: hd_conv_nth last_conv_nth)
  have "bp_y (hd bps) \<le> bp_y b \<and> bp_y b \<le> bp_y (last bps)" if "b \<in> set bps" for b
    using that ys ends by (auto simp: in_set_conv_nth)
  then have range: "bp_y (hd bps) \<le> apply_isotonic bps z \<and> apply_isotonic bps z \<le> bp_y (last bps)" for z
    using isotonic_range [OF ne] by blast
  show ?thesis
  proof (cases "r \<le> bp_x (hd bps) \<or> bp_x (last bps) \<le> s")
    case True
    then show ?thesis using isotonic_ends [OF ne x] range by metis
  next
    case False
    then have in_r: "bp_x (hd bps) < r" "r < bp_x (last bps)" and in_s: "bp_x (hd bps) < s" "s < bp_x (last bps)"
      using le by auto
    have len: "2 \<le> length bps" using in_r ne by (cases bps) (auto simp: Suc_le_eq)
    obtain k where k: "Suc k < length bps" "bp_x (bps ! k) \<le> r" "r < bp_x (bps ! Suc k)"
      "apply_isotonic bps r = interpolate bps (k, Suc k) r"
      using isotonic_interval [OF len in_r] .
    obtain j where j: "Suc j < length bps" "bp_x (bps ! j) \<le> s" "s < bp_x (bps ! Suc j)"
      "apply_isotonic bps s = interpolate bps (j, Suc j) s"
      using isotonic_interval [OF len in_s] .
    obtain t where t: "0 \<le> t" "t \<le> 1" "t = (r - bp_x (bps ! k)) / (bp_x (bps ! Suc k) - bp_x (bps ! k))"
      "interpolate bps (k, Suc k) r = (1 - t) * bp_y (bps ! k) + t * bp_y (bps ! Suc k)"
      using interpolate_convex [OF k(2,3)] .
    obtain u where u: "0 \<le> u" "u \<le> 1" "u = (s - bp_x (bps ! j)) / (bp_x (bps ! Suc j) - bp_x (bps ! j))"
      "interpolate bps (j, Suc j) s = (1 - u) * bp_y (bps ! j) + u * bp_y (bps ! Suc j)"
      using interpolate_convex [OF j(2,3)] .
    have "\<not> j < k" using xs [of "Suc j" k] k(1,2) j(3) le by (cases "Suc j = k") auto
    show ?thesis
    proof (cases "j = k")
      case True
      have "t \<le> u" using t(3) u(3) le k(2,3) unfolding True by (simp add: divide_right_mono)
      then have "t * (bp_y (bps ! Suc k) - bp_y (bps ! k)) \<le> u * (bp_y (bps ! Suc k) - bp_y (bps ! k))"
        using ys [of k "Suc k"] k(1) by (intro mult_right_mono) auto
      then show ?thesis unfolding k(4) j(4) t(4) u(4) unfolding True by (simp add: algebra_simps)
    next
      case False
      then have kj: "Suc k \<le> j" using \<open>\<not> j < k\<close> by simp
      have "apply_isotonic bps r \<le> bp_y (bps ! Suc k)"
        unfolding k(4) t(4) using convex_bounds [OF t(1,2), of "bp_y (bps ! k)"] ys [of k "Suc k"] k(1) by auto
      also have "\<dots> \<le> bp_y (bps ! j)" using ys kj j(1) by simp
      also have "\<dots> \<le> apply_isotonic bps s"
        unfolding j(4) u(4) using convex_bounds [OF u(1,2) _ _ _ order_refl, of "bp_y (bps ! j)"] ys [of j "Suc j"] j(1) by auto
      finally show ?thesis .
    qed
  qed
qed

subsection \<open>Logistic calibration and the calibrator\<close>

definition apply_platt :: "real \<Rightarrow> real \<Rightarrow> real \<Rightarrow> real" where
  "apply_platt a b raw =
     (let f = raw * a + b
      in if 0 \<le> f then (let e = exp (- f) in e / (1 + e)) else 1 / (1 + exp f))"

datatype calibration_method = CIsotonic | CPlatt

record calibrator =
  cb_method :: calibration_method
  cb_breakpoints :: "breakpoint list"
  cb_platt_a :: real
  cb_platt_b :: real

definition from_isotonic :: "breakpoint list \<Rightarrow> calibrator" where
  "from_isotonic bps = \<lparr>cb_method = CIsotonic, cb_breakpoints = bps, cb_platt_a = 0, cb_platt_b = 0\<rparr>"

definition from_platt :: "real \<Rightarrow> real \<Rightarrow> calibrator" where
  "from_platt a b = \<lparr>cb_method = CPlatt, cb_breakpoints = [], cb_platt_a = a, cb_platt_b = b\<rparr>"

definition calibrate :: "calibrator \<Rightarrow> real \<Rightarrow> real" where
  "calibrate c raw =
     (case cb_method c of
        CIsotonic \<Rightarrow> apply_isotonic (cb_breakpoints c) raw
      | CPlatt \<Rightarrow> apply_platt (cb_platt_a c) (cb_platt_b c) raw)"

lemma platt_logistic: "apply_platt a b raw = 1 / (1 + exp (a * raw + b))"
proof -
  have "exp (- f) / (1 + exp (- f)) = 1 / (1 + exp f)" for f :: real
  proof -
    have "exp (- f) / (1 + exp (- f)) = (exp (- f) * exp f) / ((1 + exp (- f)) * exp f)" by simp
    also have "\<dots> = 1 / (1 + exp f)" by (simp add: distrib_right exp_minus add.commute)
    finally show ?thesis .
  qed
  from this [of "a * raw + b"] show ?thesis
    unfolding apply_platt_def Let_def by (simp only: mult.commute [of raw a] if_cancel)
qed



subsection \<open>Inference\<close>

text \<open>
  The calibrator on every class of float. An isotonic comparison with NaN is false, so the search
  ends at the first interval; the logistic one follows the limits of the exponential.
\<close>

definition calibrate_nan :: "calibrator \<Rightarrow> fpval" where
  "calibrate_nan c =
     (let bps = cb_breakpoints c
      in case cb_method c of
           CPlatt \<Rightarrow> NaN
         | CIsotonic \<Rightarrow>
             if bps = [] then NaN
             else if length bps = 1 then Fin (bp_y (hd bps))
             else if bp_x (bps ! 1) = bp_x (bps ! 0) then Fin (bp_y (bps ! 0)) else NaN)"

definition calibrate_inf :: "bool \<Rightarrow> calibrator \<Rightarrow> fpval" where
  "calibrate_inf up c =
     (let bps = cb_breakpoints c; a = cb_platt_a c
      in case cb_method c of
           CPlatt \<Rightarrow> if a = 0 then NaN else if up = (0 < a) then Fin 0 else Fin 1
         | CIsotonic \<Rightarrow>
             if bps = [] then (if up then PosInf else NegInf)
             else if length bps = 1 then Fin (bp_y (hd bps))
             else Fin (bp_y (if up then last bps else hd bps)))"

fun calibrate_fp :: "calibrator \<Rightarrow> fpval \<Rightarrow> fpval" where
  "calibrate_fp c (Fin x) = Fin (calibrate c x)"
| "calibrate_fp c PosInf = calibrate_inf True c"
| "calibrate_fp c NegInf = calibrate_inf False c"
| "calibrate_fp c NaN = calibrate_nan c"

fun isfinite :: "fpval \<Rightarrow> bool" where
  "isfinite (Fin x) = True"
| "isfinite _ = False"

record inference_result =
  ir_raw :: fpval
  ir_calibrated :: real
  ir_verdict :: gate_verdict
  ir_final_size :: real

text \<open>What the runtime answers: for each output its shape and its values.\<close>

type_synonym runtime = "fpval list \<Rightarrow> (int list \<times> fpval list) list"

record inference_context =
  ic_calibrator :: calibrator
  ic_policy :: sizing_policy
  ic_session :: runtime

text \<open>
  The second output when there are several; of a pair of class probabilities the second, otherwise
  the first value. The runtime gives at least one output with at least that many values.
\<close>

definition run_model :: "runtime \<Rightarrow> fpval list \<Rightarrow> fpval" where
  "run_model run features =
     (let outputs = run features;
          (shape, values) = outputs ! (if 1 < length outputs then 1 else 0)
      in if length shape = 2 \<and> shape ! 1 = 2 then values ! 1 else values ! 0)"

definition infer :: "inference_context \<Rightarrow> fpval list \<Rightarrow> real \<Rightarrow> inference_result" where
  "infer ctx features proposed =
     (if list_ex (\<lambda>x. \<not> isfinite x) features
      then \<lparr>ir_raw = Fin 0, ir_calibrated = 0, ir_verdict = VReject, ir_final_size = 0\<rparr>
      else (let raw = run_model (ic_session ctx) features
            in case raw of
                 Fin x \<Rightarrow>
                   (let cal = calibrate (ic_calibrator ctx) x;
                        (verdict, final) = apply_policy (ic_policy ctx) cal proposed
                    in \<lparr>ir_raw = raw, ir_calibrated = cal, ir_verdict = verdict, ir_final_size = final\<rparr>)
               | _ \<Rightarrow> \<lparr>ir_raw = raw, ir_calibrated = 0, ir_verdict = VReject, ir_final_size = 0\<rparr>))"

record manifest =
  mf_model_path :: string
  mf_content_hash :: string
  mf_schema_version :: "32 word"
  mf_schema_hash :: "32 word"
  mf_feature_count :: nat
  mf_method :: calibration_method
  mf_breakpoints :: "breakpoint list"
  mf_platt_a :: real
  mf_platt_b :: real
  mf_golden_features :: "fpval list"
  mf_golden_probability :: real
  mf_golden_verdict :: gate_verdict

text \<open>A refusal, with its code; the texts that follow the code are not modelled.\<close>

datatype refusal = Refused corrective_error string

definition golden_tolerance :: real where
  "golden_tolerance = 1 / 10 ^ 6"

definition golden_diverges :: "fpval \<Rightarrow> real \<Rightarrow> bool" where
  "golden_diverges calibrated expected =
     (case calibrated of
        Fin x \<Rightarrow> golden_tolerance < \<bar>x - expected\<bar>
      | NaN \<Rightarrow> False
      | _ \<Rightarrow> True)"

definition build_calibrator :: "manifest \<Rightarrow> calibrator" where
  "build_calibrator m =
     (case mf_method m of
        CIsotonic \<Rightarrow> from_isotonic (mf_breakpoints m)
      | CPlatt \<Rightarrow> from_platt (mf_platt_a m) (mf_platt_b m))"

definition create_context ::
  "(string \<Rightarrow> string + runtime) \<Rightarrow> manifest \<Rightarrow> sizing_policy \<Rightarrow> refusal + inference_context" where
  "create_context load m policy =
     (let cal = build_calibrator m
      in if mf_schema_hash m \<noteq> feature_schema_hash
         then Inl (Refused FeatureSchemaMismatch ''artifact feature_schema_hash mismatch'')
         else if mf_feature_count m \<noteq> feature_count
         then Inl (Refused FeatureSchemaMismatch ''feature count mismatch'')
         else (case load (mf_model_path m) of
              Inl what \<Rightarrow> Inl (Refused ArtifactLoadFailed what)
            | Inr run \<Rightarrow>
                if golden_diverges (calibrate_fp cal (run_model run (mf_golden_features m))) (mf_golden_probability m)
                then Inl (Refused GoldenVectorDiverged [])
                else Inr \<lparr>ic_calibrator = cal, ic_policy = policy, ic_session = run\<rparr>))"

text \<open>A build without the runtime.\<close>

definition create_without_runtime :: "manifest \<Rightarrow> sizing_policy \<Rightarrow> refusal + inference_context" where
  "create_without_runtime m policy = Inl (Refused ArtifactLoadFailed ''ONNX Runtime not available in this build'')"

definition infer_without_runtime :: "fpval list \<Rightarrow> real \<Rightarrow> inference_result" where
  "infer_without_runtime features proposed =
     \<lparr>ir_raw = Fin 0, ir_calibrated = 0, ir_verdict = VPass, ir_final_size = proposed\<rparr>"



text \<open>A model that answers NaN on the golden vector passes the preflight, whatever was expected.\<close>

lemma nan_passes_golden: "golden_diverges (calibrate_fp (from_platt a b) NaN) expected = False"
  by (simp add: golden_diverges_def calibrate_nan_def from_platt_def)

end
