(* ===== verification/Collector.thy ===== *)
theory Collector
  imports Features Calibration "HOL-Library.Multiset"
begin

text \<open>
  \<^verbatim>\<open>corrective/shadow_ledger.hpp\<close> and \<^verbatim>\<open>candidate_collector.hpp\<close>: every order that would open or
  enlarge a position becomes a numbered candidate with its features; the inference context may
  reject it or cut its size, and what was rejected is followed on paper until its horizon. A step
  that reads the current bar of a feed throws when there is none. Feeds are never null here.
\<close>

subsection \<open>The shadow ledger\<close>

record shadow_entry =
  sw_candidate_id :: nat
  sw_data_index :: nat
  sw_entry_price :: real
  sw_size :: real
  sw_entry_bar :: nat
  sw_entry_ns :: "64 word"
  sw_commission_per_side :: real
  sw_horizon_bars :: "32 word"
  sw_bars_held :: nat

definition to_ns :: "datetime \<Rightarrow> 64 word" where
  "to_ns dt = word_of_int dt"

definition exit_price_at :: "shadow_entry \<Rightarrow> nfeed list \<Rightarrow> exn + real" where
  "exit_price_at s feeds =
     (if sw_data_index s < length feeds then line_at (fd_close (nf_feed (feeds ! sw_data_index s))) 0
      else Inr (sw_entry_price s))"

definition bar_timestamp_ns :: "shadow_entry \<Rightarrow> nfeed list \<Rightarrow> exn + 64 word" where
  "bar_timestamp_ns s feeds =
     (if sw_data_index s < length feeds
      then bind_r (line_at (fd_datetime (nf_feed (feeds ! sw_data_index s))) 0) (\<lambda>tp. Inr (to_ns tp))
      else Inr 0)"

definition close_shadow :: "nfeed list \<Rightarrow> shadow_entry \<Rightarrow> exn + outcome" where
  "close_shadow feeds s =
     bind_r (exit_price_at s feeds) (\<lambda>exit. bind_r (bar_timestamp_ns s feeds) (\<lambda>ts.
       let gross = (exit - sw_entry_price s) * sw_size s; comm = sw_commission_per_side s * 2; net = gross - comm
       in Inr \<lparr>oc_schema_version = schema_version, oc_candidate_id = sw_candidate_id s, oc_type = OShadow,
               oc_entry_ns = sw_entry_ns s, oc_exit_ns = ts, oc_holding_bars = of_nat (sw_bars_held s),
               oc_gross_pnl = gross, oc_commission = comm, oc_slippage = 0, oc_net_pnl = net,
               oc_status = SComplete, oc_label_policy = 1, oc_profit_label = (if 0 < net then 1 else 0)\<rparr>))"

definition censor_shadow :: "nfeed list \<Rightarrow> shadow_entry \<Rightarrow> exn + outcome" where
  "censor_shadow feeds s =
     bind_r (exit_price_at s feeds) (\<lambda>exit. bind_r (bar_timestamp_ns s feeds) (\<lambda>ts.
       let gross = (exit - sw_entry_price s) * sw_size s; comm = sw_commission_per_side s * 2
       in Inr \<lparr>oc_schema_version = schema_version, oc_candidate_id = sw_candidate_id s, oc_type = OCensored,
               oc_entry_ns = sw_entry_ns s, oc_exit_ns = ts, oc_holding_bars = of_nat (sw_bars_held s),
               oc_gross_pnl = gross, oc_commission = comm, oc_slippage = 0, oc_net_pnl = gross - comm,
               oc_status = SCensored, oc_label_policy = 1, oc_profit_label = - 1\<rparr>))"

definition hold :: "shadow_entry \<Rightarrow> shadow_entry" where
  "hold s = s\<lparr>sw_bars_held := sw_bars_held s + 1\<rparr>"

definition horizon_reached :: "shadow_entry \<Rightarrow> bool" where
  "horizon_reached s \<longleftrightarrow> 0 < sw_horizon_bars s \<and> unat (sw_horizon_bars s) \<le> sw_bars_held s"

text \<open>One pass over the open entries: the outcomes and the entries that stay open, in order.\<close>

fun shadow_tick :: "nfeed list \<Rightarrow> shadow_entry list \<Rightarrow> exn + (outcome list \<times> shadow_entry list)" where
  "shadow_tick feeds [] = Inr ([], [])"
| "shadow_tick feeds (s # ss) =
     (if horizon_reached (hold s) then
        bind_r (close_shadow feeds (hold s)) (\<lambda>r. bind_r (shadow_tick feeds ss) (\<lambda>(rs, still). Inr (r # rs, still)))
      else bind_r (shadow_tick feeds ss) (\<lambda>(rs, still). Inr (rs, hold s # still)))"

definition flush_censored :: "nfeed list \<Rightarrow> shadow_entry list \<Rightarrow> exn + outcome list" where
  "flush_censored feeds ss = map_r (censor_shadow feeds) ss"

subsection \<open>The collector\<close>

record collector_config =
  cc_corrective :: runtime_config
  cc_shadow_horizon_bars :: "32 word"

record collector =
  co_config :: collector_config
  co_next_candidate_id :: nat
  co_builder :: feature_builder
  co_shadows :: "shadow_entry list"
  co_context :: "inference_context option"
  co_candidates :: "candidate list"
  co_outcomes :: "outcome list"
  co_registry :: "nat \<rightharpoonup> candidate"

definition new_collector :: "collector_config \<Rightarrow> collector" where
  "new_collector config =
     \<lparr>co_config = config, co_next_candidate_id = 1, co_builder = new_feature_builder, co_shadows = [],
      co_context = None, co_candidates = [], co_outcomes = [], co_registry = Map.empty\<rparr>"

definition collector_init :: "nfeed list \<Rightarrow> collector \<Rightarrow> collector" where
  "collector_init feeds c = c\<lparr>co_builder := builder_init feeds (co_builder c)\<rparr>"

definition set_inference_context :: "inference_context option \<Rightarrow> collector \<Rightarrow> collector" where
  "set_inference_context ctx c = c\<lparr>co_context := ctx\<rparr>"

definition is_enabled :: "collector \<Rightarrow> bool" where
  "is_enabled c = (rc_state (cc_corrective (co_config c)) \<noteq> VDisabled)"

definition candidate_count :: "collector \<Rightarrow> nat" where
  "candidate_count c = co_next_candidate_id c - 1"

text \<open>The probability, the verdict and the final size.\<close>

definition run_inference_policy :: "collector \<Rightarrow> real list \<Rightarrow> real \<Rightarrow> real \<times> gate_verdict \<times> real" where
  "run_inference_policy c features proposed =
     (case co_context c of
        None \<Rightarrow> (- 1, VCollectOnly, proposed)
      | Some ctx \<Rightarrow>
          (let r = infer ctx (map Fin features) proposed in (ir_calibrated r, ir_verdict r, ir_final_size r)))"

definition reducing :: "order_side \<Rightarrow> position \<Rightarrow> bool" where
  "reducing side pos \<longleftrightarrow> (side = Sell \<and> is_long pos) \<or> (side = Buy \<and> is_short pos)"

definition snapshot_of ::
  "order_side \<Rightarrow> real \<Rightarrow> nat \<Rightarrow> nfeed list \<Rightarrow> broker \<Rightarrow> collector \<Rightarrow> exn + candidate" where
  "snapshot_of side proposed_size data_index feeds b c =
     bind_r (if data_index < length feeds
             then bind_r (line_at (fd_datetime (nf_feed (feeds ! data_index))) 0) (\<lambda>dt. Inr (to_ns dt)) else Inr 0) (\<lambda>ts.
     bind_r (build_features side proposed_size data_index feeds b (co_builder c)) (\<lambda>features.
       Inr \<lparr>ca_schema_version = schema_version, ca_candidate_id = co_next_candidate_id c, ca_as_of_ns = ts,
            ca_cutoff_ns = ts, ca_symbol_id = of_nat data_index, ca_side = (if side = Buy then CLong else CShort),
            ca_proposed_size = proposed_size, ca_final_size = 0, ca_features = features,
            ca_schema_hash = feature_schema_hash, ca_verdict = VDisabled, ca_probability = - 1,
            ca_policy = MGate\<rparr>))"

text \<open>The verdict completes the snapshot, which is queued and registered.\<close>

definition decided :: "real \<times> gate_verdict \<times> real \<Rightarrow> collector \<Rightarrow> candidate \<Rightarrow> candidate" where
  "decided d c snap =
     (let (probability, verdict, final_size) = d
      in snap\<lparr>ca_probability := probability, ca_verdict := verdict, ca_final_size := final_size,
              ca_policy := rc_mode (cc_corrective (co_config c))\<rparr>)"

definition remember :: "candidate \<Rightarrow> collector \<Rightarrow> collector" where
  "remember snap c =
     c\<lparr>co_next_candidate_id := co_next_candidate_id c + 1, co_candidates := co_candidates c @ [snap],
       co_registry := (co_registry c)(ca_candidate_id snap \<mapsto> snap)\<rparr>"

definition add_shadow :: "shadow_entry \<Rightarrow> collector \<Rightarrow> collector" where
  "add_shadow s c = c\<lparr>co_shadows := co_shadows c @ [s]\<rparr>"

definition shadow_of :: "order_side \<Rightarrow> real \<Rightarrow> nat \<Rightarrow> real \<Rightarrow> candidate \<Rightarrow> collector \<Rightarrow> shadow_entry" where
  "shadow_of side proposed_size data_index price snap c =
     \<lparr>sw_candidate_id = ca_candidate_id snap, sw_data_index = data_index, sw_entry_price = price,
      sw_size = (if side = Buy then proposed_size else - proposed_size), sw_entry_bar = 0,
      sw_entry_ns = ca_as_of_ns snap, sw_commission_per_side = 0,
      sw_horizon_bars = cc_shadow_horizon_bars (co_config c), sw_bars_held = 0\<rparr>"

definition on_pre_order ::
  "order_side \<Rightarrow> real \<Rightarrow> nat \<Rightarrow> nfeed list \<Rightarrow> broker \<Rightarrow> collector \<Rightarrow> exn + (pre_order_result \<times> collector)" where
  "on_pre_order side proposed_size data_index feeds b c =
     (if \<not> is_enabled c \<or> reducing side (position_of data_index b)
      then Inr (\<lparr>por_candidate_id = 0, por_final_size = proposed_size, por_rejected = False\<rparr>, c)
      else
        bind_r (snapshot_of side proposed_size data_index feeds b c) (\<lambda>snap0.
          let collect = (rc_state (cc_corrective (co_config c)) = VCollectOnly \<or> Option.is_none (co_context c));
              d = (if collect then (- 1, VCollectOnly, proposed_size)
                   else run_inference_policy c (ca_features snap0) proposed_size);
              snap = decided d c snap0;
              c1 = remember snap c;
              cand_id = ca_candidate_id snap
          in if \<not> collect \<and> ca_verdict snap = VReject then
               (let rejected = \<lparr>por_candidate_id = cand_id, por_final_size = 0, por_rejected = True\<rparr>
                in if data_index < length feeds
                   then bind_r (line_at (fd_close (nf_feed (feeds ! data_index))) 0) (\<lambda>price.
                          Inr (rejected, add_shadow (shadow_of side proposed_size data_index price snap c) c1))
                   else Inr (rejected, c1))
             else Inr (\<lparr>por_candidate_id = cand_id, por_final_size = ca_final_size snap, por_rejected = False\<rparr>, c1)))"

definition on_trade_closed :: "trade \<Rightarrow> collector \<Rightarrow> collector" where
  "on_trade_closed t c =
     (if \<not> is_enabled c \<or> t_candidate_id t = 0 then c
      else
        (let r = \<lparr>oc_schema_version = schema_version, oc_candidate_id = t_candidate_id t, oc_type = OActual,
                  oc_entry_ns = to_ns (t_entry_time t), oc_exit_ns = to_ns (t_exit_time t),
                  oc_holding_bars = of_nat (if t_entry_bar t \<le> t_exit_bar t then t_exit_bar t - t_entry_bar t else 0),
                  oc_gross_pnl = t_pnl t, oc_commission = t_commission t, oc_slippage = 0, oc_net_pnl = t_pnlcomm t,
                  oc_status = SComplete, oc_label_policy = 1, oc_profit_label = (if 0 < t_pnlcomm t then 1 else 0)\<rparr>
         in c\<lparr>co_outcomes := co_outcomes c @ [r], co_builder := record_trade (co_builder c)\<rparr>))"

definition on_bar :: "nfeed list \<Rightarrow> broker \<Rightarrow> collector \<Rightarrow> exn + collector" where
  "on_bar feeds b c =
     (if \<not> is_enabled c then Inr c
      else bind_r (portfolio_value (views_of feeds) b) (\<lambda>value.
           bind_r (shadow_tick feeds (co_shadows c)) (\<lambda>(rs, still).
             Inr (c\<lparr>co_builder := update_equity_peak value (builder_advance feeds (co_builder c)),
                    co_shadows := still, co_outcomes := co_outcomes c @ rs\<rparr>))))"

text \<open>An open trade of a candidate is censored at the current close, or at price 0 without its feed.\<close>

definition censor_trade :: "nfeed list \<Rightarrow> trade \<Rightarrow> exn + outcome" where
  "censor_trade feeds t =
     bind_r (if t_data_index t < length feeds
             then bind_r (line_at (fd_close (nf_feed (feeds ! t_data_index t))) 0) (\<lambda>price.
                  bind_r (line_at (fd_datetime (nf_feed (feeds ! t_data_index t))) 0) (\<lambda>dt. Inr (price, to_ns dt)))
             else Inr (0, 0)) (\<lambda>(price, ts).
       let gross = (price - t_entry_price t) * t_size t
       in Inr \<lparr>oc_schema_version = schema_version, oc_candidate_id = t_candidate_id t, oc_type = OCensored,
               oc_entry_ns = to_ns (t_entry_time t), oc_exit_ns = ts, oc_holding_bars = of_nat (t_barlen t),
               oc_gross_pnl = gross, oc_commission = t_commission t, oc_slippage = 0,
               oc_net_pnl = gross - t_commission t, oc_status = SCensored, oc_label_policy = 1,
               oc_profit_label = - 1\<rparr>)"

definition tracked_trades :: "broker \<Rightarrow> trade list" where
  "tracked_trades b = filter (\<lambda>t. trade_is_open t \<and> t_candidate_id t \<noteq> 0) (map fst (b_open_trades b))"

definition on_stop :: "nfeed list \<Rightarrow> broker \<Rightarrow> collector \<Rightarrow> exn + collector" where
  "on_stop feeds b c =
     (if \<not> is_enabled c then Inr c
      else bind_r (map_r (censor_trade feeds) (tracked_trades b)) (\<lambda>actual.
           bind_r (flush_censored feeds (co_shadows c)) (\<lambda>shadow.
             Inr (c\<lparr>co_shadows := [], co_outcomes := co_outcomes c @ actual @ shadow\<rparr>))))"

definition drain_candidates :: "collector \<Rightarrow> candidate list \<times> collector" where
  "drain_candidates c = (co_candidates c, c\<lparr>co_candidates := []\<rparr>)"

definition drain_outcomes :: "collector \<Rightarrow> outcome list \<times> collector" where
  "drain_outcomes c = (co_outcomes c, c\<lparr>co_outcomes := []\<rparr>)"

subsection \<open>The ledger keeps its accounts\<close>

text \<open>A history of the ledger: entries with no bars held are added, bars pass, the rest is flushed.\<close>

datatype shadow_op = Add shadow_entry | Tick "nfeed list" | Flush "nfeed list"

fun shadow_run :: "shadow_op list \<Rightarrow> shadow_entry list \<Rightarrow> exn + (shadow_entry list \<times> outcome list)" where
  "shadow_run [] ss = Inr (ss, [])"
| "shadow_run (Add s # ops) ss = shadow_run ops (ss @ [s\<lparr>sw_bars_held := 0\<rparr>])"
| "shadow_run (Tick feeds # ops) ss =
     bind_r (shadow_tick feeds ss) (\<lambda>(rs, still).
     bind_r (shadow_run ops still) (\<lambda>(ss', rs'). Inr (ss', rs @ rs')))"
| "shadow_run (Flush feeds # ops) ss =
     bind_r (flush_censored feeds ss) (\<lambda>rs.
     bind_r (shadow_run ops []) (\<lambda>(ss', rs'). Inr (ss', rs @ rs')))"

fun added :: "shadow_op list \<Rightarrow> nat list" where
  "added [] = []"
| "added (Add s # ops) = sw_candidate_id s # added ops"
| "added (_ # ops) = added ops"

text \<open>The outcome of an entry after it was held for some bars.\<close>

definition settles :: "shadow_entry \<Rightarrow> outcome \<Rightarrow> bool" where
  "settles s r \<longleftrightarrow>
     oc_candidate_id r = sw_candidate_id s \<and> oc_entry_ns r = sw_entry_ns s \<and> oc_holding_bars r = of_nat (sw_bars_held s)
     \<and> oc_commission r = 2 * sw_commission_per_side s \<and> oc_net_pnl r = oc_gross_pnl r - oc_commission r
     \<and> (oc_type r = OShadow \<longrightarrow> horizon_reached s \<and> oc_status r = SComplete \<and> oc_profit_label r = (if 0 < oc_net_pnl r then 1 else 0))
     \<and> (oc_type r \<noteq> OShadow \<longrightarrow> oc_type r = OCensored \<and> oc_status r = SCensored \<and> oc_profit_label r = - 1)"

lemma close_shadow_settles: "close_shadow feeds s = Inr r \<Longrightarrow> horizon_reached s \<Longrightarrow> settles s r \<and> oc_type r = OShadow"
  by (auto simp: close_shadow_def settles_def bind_r_Inr Let_def)

lemma censor_shadow_settles: "censor_shadow feeds s = Inr r \<Longrightarrow> settles s r \<and> oc_type r = OCensored"
  by (auto simp: censor_shadow_def settles_def bind_r_Inr Let_def)

lemma shadow_tick_filter:
  "shadow_tick feeds ss = Inr (rs, still) \<Longrightarrow>
     still = filter (\<lambda>s. \<not> horizon_reached s) (map hold ss)
     \<and> list_all2 (\<lambda>s r. settles s r \<and> oc_type r = OShadow) (filter horizon_reached (map hold ss)) rs"
proof (induction ss arbitrary: rs still)
  case (Cons s ss)
  then show ?case
    by (auto simp: bind_r_Inr close_shadow_settles split: if_splits)
qed simp

lemma flush_settles:
  "flush_censored feeds ss = Inr rs \<Longrightarrow> list_all2 (\<lambda>s r. settles s r \<and> oc_type r = OCensored) ss rs"
  by (auto simp: flush_censored_def map_r_Inr list_all2_conv_all_nth censor_shadow_settles)

lemma hold_simps [simp]:
  "sw_candidate_id (hold s) = sw_candidate_id s" "sw_horizon_bars (hold s) = sw_horizon_bars s"
  "sw_bars_held (hold s) = Suc (sw_bars_held s)"
  by (simp_all add: hold_def)

lemma expires_at_horizon: "\<not> horizon_reached s \<Longrightarrow> horizon_reached (hold s) \<Longrightarrow> sw_bars_held (hold s) = unat (sw_horizon_bars (hold s))"
  by (auto simp: horizon_reached_def)

lemma settles_ids:
  assumes "list_all2 (\<lambda>s r. settles s r \<and> P s r) ss rs"
  shows "map oc_candidate_id rs = map sw_candidate_id ss"
  using assms by (induction rule: list_all2_induct) (auto simp: settles_def)

lemma mset_split: "mset (map f (filter (\<lambda>x. \<not> P x) xs)) + mset (map f (filter P xs)) = mset (map f xs)"
  by (induction xs) simp_all

lemma shadow_tick_accounts:
  assumes "shadow_tick feeds ss = Inr (rs, still)"
  shows "mset (map sw_candidate_id still) + mset (map oc_candidate_id rs) = mset (map sw_candidate_id ss)"
proof -
  have "still = filter (\<lambda>s. \<not> horizon_reached s) (map hold ss)"
    "map oc_candidate_id rs = map sw_candidate_id (filter horizon_reached (map hold ss))"
    using shadow_tick_filter [OF assms] settles_ids by auto
  moreover have "map sw_candidate_id (map hold ss) = map sw_candidate_id ss" by simp
  ultimately show ?thesis using mset_split [of sw_candidate_id horizon_reached "map hold ss"] by metis
qed

lemma shadow_run_accounts:
  "shadow_run ops ss = Inr (still, outs) \<Longrightarrow>
     mset (map sw_candidate_id still) + mset (map oc_candidate_id outs) = mset (map sw_candidate_id ss) + mset (added ops)"
proof (induction ops ss arbitrary: still outs rule: shadow_run.induct)
  case (3 feeds ops ss)
  then obtain rs mid outs' where r: "shadow_tick feeds ss = Inr (rs, mid)" "shadow_run ops mid = Inr (still, outs')" "outs = rs @ outs'"
    by (auto simp: bind_r_Inr)
  have "mset (map sw_candidate_id still) + mset (map oc_candidate_id outs)
      = mset (map oc_candidate_id rs) + (mset (map sw_candidate_id still) + mset (map oc_candidate_id outs'))"
    unfolding r(3) map_append mset_append by (simp only: ac_simps)
  also have "\<dots> = (mset (map sw_candidate_id mid) + mset (map oc_candidate_id rs)) + mset (added ops)"
    unfolding "3.IH" [OF r(2)] by (simp only: ac_simps)
  also have "\<dots> = mset (map sw_candidate_id ss) + mset (added ops)" unfolding shadow_tick_accounts [OF r(1)] ..
  finally show ?case by simp
next
  case (4 feeds ops ss)
  then obtain rs outs' where r: "flush_censored feeds ss = Inr rs" "shadow_run ops [] = Inr (still, outs')" "outs = rs @ outs'"
    by (auto simp: bind_r_Inr)
  then show ?case using "4.IH" [OF r(2)] settles_ids [OF flush_settles [OF r(1)]] by (simp add: ac_simps)
qed (auto simp: ac_simps)

lemma shadow_run_outcomes:
  "shadow_run ops ss = Inr (still, outs) \<Longrightarrow> \<forall>s \<in> set ss. \<not> horizon_reached s \<Longrightarrow>
     (\<forall>s \<in> set still. \<not> horizon_reached s)
     \<and> (\<forall>r \<in> set outs. \<exists>s. settles s r \<and> (oc_type r = OShadow \<longrightarrow> sw_bars_held s = unat (sw_horizon_bars s)))"
proof (induction ops ss arbitrary: still outs rule: shadow_run.induct)
  case (2 s ops ss)
  have "\<not> horizon_reached (s\<lparr>sw_bars_held := 0\<rparr>)" by (auto simp: horizon_reached_def unat_gt_0)
  then show ?case using 2 by simp
next
  case (3 feeds ops ss)
  then obtain rs mid outs' where r: "shadow_tick feeds ss = Inr (rs, mid)" "shadow_run ops mid = Inr (still, outs')" "outs = rs @ outs'"
    by (auto simp: bind_r_Inr)
  note t = shadow_tick_filter [OF r(1)]
  have "\<exists>s. settles s x \<and> (oc_type x = OShadow \<longrightarrow> sw_bars_held s = unat (sw_horizon_bars s))" if x: "x \<in> set rs" for x
  proof -
    obtain i where i: "i < length rs" "x = rs ! i" using x by (auto simp: in_set_conv_nth)
    let ?h = "filter horizon_reached (map hold ss) ! i"
    have "i < length (filter horizon_reached (map hold ss))" "settles ?h x"
      using t i by (auto simp: list_all2_conv_all_nth)
    then have "?h \<in> set (filter horizon_reached (map hold ss))" using nth_mem by blast
    then obtain s where "s \<in> set ss" "horizon_reached (hold s)" "settles (hold s) x" using \<open>settles ?h x\<close> by auto
    then show ?thesis using expires_at_horizon "3.prems"(2) by blast
  qed
  moreover have "\<forall>s \<in> set mid. \<not> horizon_reached s" using t by simp
  ultimately show ?case using "3.IH" [OF r(2)] r(3) by auto
next
  case (4 feeds ops ss)
  then obtain rs outs' where r: "flush_censored feeds ss = Inr rs" "shadow_run ops [] = Inr (still, outs')" "outs = rs @ outs'"
    by (auto simp: bind_r_Inr)
  have "\<exists>s. settles s x \<and> (oc_type x = OShadow \<longrightarrow> sw_bars_held s = unat (sw_horizon_bars s))" if "x \<in> set rs" for x
    using flush_settles [OF r(1)] that by (fastforce simp: list_all2_conv_all_nth in_set_conv_nth)
  then show ?case using "4.IH" [OF r(2)] r(3) by auto
qed simp

lemma shadow_run_flush_last: "shadow_run (ops @ [Flush feeds]) ss = Inr (still, outs) \<Longrightarrow> still = []"
  by (induction ops ss arbitrary: still outs rule: shadow_run.induct) (auto simp: bind_r_Inr)

lemma single_fate:
  "shadow_run (map Tick fss) [s] = Inr (still, outs) \<Longrightarrow> \<not> horizon_reached s \<Longrightarrow>
     (still = [] \<longleftrightarrow> 0 < sw_horizon_bars s \<and> unat (sw_horizon_bars s) \<le> sw_bars_held s + length fss)"
proof (induction fss arbitrary: s still outs)
  case Nil
  then show ?case by (auto simp: horizon_reached_def)
next
  case (Cons feeds fss)
  have none: "shadow_run (map Tick fss) [] = Inr (ss, os) \<Longrightarrow> ss = []" for ss os
    by (induction fss arbitrary: ss os) (auto simp: bind_r_Inr)
  show ?case
  proof (cases "horizon_reached (hold s)")
    case True
    then show ?thesis using Cons.prems none by (auto simp: bind_r_Inr horizon_reached_def)
  next
    case False
    then show ?thesis using Cons.prems Cons.IH [of "hold s"] by (auto simp: bind_r_Inr)
  qed
qed



subsection \<open>The collector keeps its accounts\<close>

datatype collector_event =
  PreOrder order_side real nat "nfeed list" broker
| TradeClosed trade
| BarDone "nfeed list" broker
| RunStopped "nfeed list" broker
| DrainCandidates
| DrainOutcomes

text \<open>One event: the collector after it and what was drained.\<close>

fun collector_step :: "collector_event \<Rightarrow> collector \<Rightarrow> exn + (collector \<times> candidate list \<times> outcome list)" where
  "collector_step (PreOrder side sz di feeds b) c =
     bind_r (on_pre_order side sz di feeds b c) (\<lambda>(por, c'). Inr (c', [], []))"
| "collector_step (TradeClosed t) c = Inr (on_trade_closed t c, [], [])"
| "collector_step (BarDone feeds b) c = bind_r (on_bar feeds b c) (\<lambda>c'. Inr (c', [], []))"
| "collector_step (RunStopped feeds b) c = bind_r (on_stop feeds b c) (\<lambda>c'. Inr (c', [], []))"
| "collector_step DrainCandidates c = (let (cs, c') = drain_candidates c in Inr (c', cs, []))"
| "collector_step DrainOutcomes c = (let (rs, c') = drain_outcomes c in Inr (c', [], rs))"

fun collector_run :: "collector_event list \<Rightarrow> collector \<Rightarrow> exn + (collector \<times> candidate list \<times> outcome list)" where
  "collector_run [] c = Inr (c, [], [])"
| "collector_run (e # es) c =
     bind_r (collector_step e c) (\<lambda>(c1, cs, rs).
     bind_r (collector_run es c1) (\<lambda>(c2, cs', rs'). Inr (c2, cs @ cs', rs @ rs')))"

text \<open>The candidates an event reports trades of; an order is for a feed that exists.\<close>

fun traded_ids :: "collector_event \<Rightarrow> nat set" where
  "traded_ids (TradeClosed t) = {t_candidate_id t}"
| "traded_ids (RunStopped feeds b) = t_candidate_id ` set (tracked_trades b)"
| "traded_ids _ = {}"

fun has_feed :: "collector_event \<Rightarrow> bool" where
  "has_feed (PreOrder side sz di feeds b) \<longleftrightarrow> di < length feeds"
| "has_feed _ \<longleftrightarrow> True"

definition paper :: "collector \<Rightarrow> outcome list \<Rightarrow> nat multiset" where
  "paper c rs = mset (map sw_candidate_id (co_shadows c)) + mset (map oc_candidate_id rs)"

definition accounts :: "nat set \<Rightarrow> collector \<Rightarrow> candidate list \<Rightarrow> outcome list \<Rightarrow> bool" where
  "accounts T c cs rs \<longleftrightarrow>
     map ca_candidate_id cs = [1..<co_next_candidate_id c] \<and> 1 \<le> co_next_candidate_id c
     \<and> co_registry c = map_of (map (\<lambda>x. (ca_candidate_id x, x)) cs)
     \<and> (\<forall>x \<in> set cs. ca_candidate_id x \<notin> T \<longrightarrow>
          count (paper c rs) (ca_candidate_id x) = (if ca_verdict x = VReject then 1 else 0))
     \<and> (\<forall>i \<in># paper c rs. i < co_next_candidate_id c \<or> i \<in> T)"

lemma snapshot_id: "snapshot_of side sz di feeds b c = Inr x \<Longrightarrow> ca_candidate_id x = co_next_candidate_id c"
  by (auto simp: snapshot_of_def bind_r_Inr)

lemma decided_simps [simp]:
  "ca_candidate_id (decided d c x) = ca_candidate_id x" "ca_verdict (decided d c x) = fst (snd d)"
  by (simp_all add: decided_def split_beta)

lemma on_pre_order_cases:
  assumes "on_pre_order side sz di feeds b c = Inr (por, c')"
  obtains (skip) "c' = c"
  | (keep) snap where "ca_candidate_id snap = co_next_candidate_id c" "c' = remember snap c"
      "ca_verdict snap = VReject \<longrightarrow> length feeds \<le> di"
  | (shadow) snap s where "ca_candidate_id snap = co_next_candidate_id c" "c' = add_shadow s (remember snap c)"
      "ca_verdict snap = VReject" "sw_candidate_id s = co_next_candidate_id c"
proof (cases "\<not> is_enabled c \<or> reducing side (position_of di b)")
  case False
  define collect where "collect = (rc_state (cc_corrective (co_config c)) = VCollectOnly \<or> Option.is_none (co_context c))"
  obtain x where x: "snapshot_of side sz di feeds b c = Inr x"
    using assms False by (cases "snapshot_of side sz di feeds b c") (simp_all add: on_pre_order_def)
  define d where "d = (if collect then (- 1, VCollectOnly, sz) else run_inference_policy c (ca_features x) sz)"
  define snap where "snap = decided d c x"
  have id: "ca_candidate_id snap = co_next_candidate_id c" using snapshot_id [OF x] by (simp add: snap_def)
  have body: "on_pre_order side sz di feeds b c =
      (if \<not> collect \<and> ca_verdict snap = VReject then
         (let rejected = \<lparr>por_candidate_id = ca_candidate_id snap, por_final_size = 0, por_rejected = True\<rparr>
          in if di < length feeds
             then bind_r (line_at (fd_close (nf_feed (feeds ! di))) 0) (\<lambda>price.
                    Inr (rejected, add_shadow (shadow_of side sz di price snap c) (remember snap c)))
             else Inr (rejected, remember snap c))
       else Inr (\<lparr>por_candidate_id = ca_candidate_id snap, por_final_size = ca_final_size snap, por_rejected = False\<rparr>,
                 remember snap c))"
    using False by (simp only: on_pre_order_def x bind_r.simps if_False Let_def collect_def [symmetric]
        d_def [symmetric] snap_def [symmetric])
  have verdict: "collect \<Longrightarrow> ca_verdict snap \<noteq> VReject" by (simp add: snap_def d_def)
  show ?thesis
  proof (cases "\<not> collect \<and> ca_verdict snap = VReject")
    case True
    show ?thesis
    proof (cases "di < length feeds")
      case in_range: True
      obtain price where "c' = add_shadow (shadow_of side sz di price snap c) (remember snap c)"
        using assms True in_range unfolding body by (auto simp: bind_r_Inr Let_def)
      then show ?thesis using shadow [OF id] True id by (simp add: shadow_of_def)
    next
      case False
      then have "c' = remember snap c" using assms True unfolding body by (simp add: Let_def)
      then show ?thesis using keep [OF id] False by simp
    qed
  next
    case False
    then have "c' = remember snap c" "ca_verdict snap \<noteq> VReject" using assms verdict unfolding body by auto
    then show ?thesis using keep [OF id] by simp
  qed
next
  case True
  then have "on_pre_order side sz di feeds b c =
      Inr (\<lparr>por_candidate_id = 0, por_final_size = sz, por_rejected = False\<rparr>, c)"
    by (simp only: on_pre_order_def if_True)
  then have "c' = c" using assms by simp
  then show ?thesis by (rule skip)
qed

lemma map_of_snoc: "n \<notin> fst ` set xs \<Longrightarrow> map_of (xs @ [(n, v)]) = (map_of xs)(n \<mapsto> v)"
  by (auto simp: map_add_def fun_eq_iff split: option.split dest: map_of_SomeD) (metis fst_conv image_eqI map_of_SomeD)

lemma paper_simps [simp]:
  "paper (remember x c) rs = paper c rs" "paper (add_shadow s c) rs = add_mset (sw_candidate_id s) (paper c rs)"
  by (simp_all add: paper_def remember_def add_shadow_def)

lemma remember_simps [simp]:
  "co_next_candidate_id (remember x c) = Suc (co_next_candidate_id c)" "co_candidates (remember x c) = co_candidates c @ [x]"
  "co_outcomes (remember x c) = co_outcomes c" "co_registry (remember x c) = (co_registry c)(ca_candidate_id x \<mapsto> x)"
  "co_next_candidate_id (add_shadow s c) = co_next_candidate_id c" "co_candidates (add_shadow s c) = co_candidates c"
  "co_outcomes (add_shadow s c) = co_outcomes c" "co_registry (add_shadow s c) = co_registry c"
  by (simp_all add: remember_def add_shadow_def)

lemma accounts_remember:
  assumes "accounts T c cs rs" and "ca_candidate_id x = co_next_candidate_id c"
    and "c' = (if ca_verdict x = VReject then add_shadow s (remember x c) else remember x c)"
    and "ca_verdict x = VReject \<Longrightarrow> sw_candidate_id s = co_next_candidate_id c"
  shows "accounts T c' (cs @ [x]) rs"
proof -
  let ?n = "co_next_candidate_id c"
  note A = assms(1) [unfolded accounts_def]
  have ids: "ca_candidate_id ` set cs = {1..<?n}" using arg_cong [OF conjunct1 [OF A], of set] by simp
  then have fresh: "?n \<notin> ca_candidate_id ` set cs" by simp
  have none: "count (paper c rs) ?n = 0" if "?n \<notin> T"
    using A that by (metis count_inI less_irrefl)
  have "\<forall>y \<in> set cs. ca_candidate_id y < ?n" using ids by auto
  moreover have "map_of (map (\<lambda>x. (ca_candidate_id x, x)) (cs @ [x])) = (map_of (map (\<lambda>x. (ca_candidate_id x, x)) cs))(?n \<mapsto> x)"
    using map_of_snoc [of ?n "map (\<lambda>x. (ca_candidate_id x, x)) cs" x] fresh assms(2) by (simp add: image_comp comp_def)
  ultimately show ?thesis
    using A none assms(2,4) unfolding accounts_def assms(3) by (auto simp: less_SucI)
qed

lemma accounts_paper:
  assumes "accounts T c cs rs" and "co_next_candidate_id c' = co_next_candidate_id c" and "co_registry c' = co_registry c"
    and "paper c' rs' = paper c rs + M" and "set_mset M \<subseteq> T"
  shows "accounts T c' cs rs'"
proof -
  have "count M i = 0" if "i \<notin> T" for i using assms(5) that by (metis count_inI subsetD)
  then show ?thesis using assms unfolding accounts_def by auto
qed

lemma censor_trade_id: "censor_trade feeds t = Inr r \<Longrightarrow> oc_candidate_id r = t_candidate_id t"
  by (auto simp: censor_trade_def bind_r_Inr Let_def)

lemma censor_trade_ids: "map_r (censor_trade feeds) ts = Inr rs \<Longrightarrow> map oc_candidate_id rs = map t_candidate_id ts"
  unfolding map_r_Inr by (intro nth_equalityI) (auto intro: censor_trade_id)

lemma on_bar_paper:
  assumes "on_bar feeds b c = Inr c'"
  shows "paper c' (rs @ co_outcomes c') = paper c (rs @ co_outcomes c) \<and> co_next_candidate_id c' = co_next_candidate_id c
    \<and> co_registry c' = co_registry c \<and> co_candidates c' = co_candidates c"
proof (cases "is_enabled c")
  case True
  then obtain v outs still where t: "shadow_tick feeds (co_shadows c) = Inr (outs, still)"
    "c' = c\<lparr>co_builder := update_equity_peak v (builder_advance feeds (co_builder c)), co_shadows := still,
            co_outcomes := co_outcomes c @ outs\<rparr>"
    using assms by (auto simp: on_bar_def bind_r_Inr)
  have "mset (map sw_candidate_id still) + mset (map oc_candidate_id (rs @ co_outcomes c @ outs))
      = (mset (map sw_candidate_id still) + mset (map oc_candidate_id outs)) + mset (map oc_candidate_id (rs @ co_outcomes c))"
    by (simp only: map_append mset_append ac_simps)
  also have "\<dots> = mset (map sw_candidate_id (co_shadows c)) + mset (map oc_candidate_id (rs @ co_outcomes c))"
    unfolding shadow_tick_accounts [OF t(1)] ..
  finally show ?thesis by (simp add: paper_def t(2) ac_simps)
qed (use assms in \<open>simp add: on_bar_def\<close>)

lemma on_stop_paper:
  assumes "on_stop feeds b c = Inr c'"
  shows "\<exists>M. paper c' (rs @ co_outcomes c') = paper c (rs @ co_outcomes c) + M \<and> set_mset M \<subseteq> t_candidate_id ` set (tracked_trades b)
    \<and> co_next_candidate_id c' = co_next_candidate_id c \<and> co_registry c' = co_registry c \<and> co_candidates c' = co_candidates c
    \<and> (is_enabled c \<longrightarrow> co_shadows c' = [])"
proof (cases "is_enabled c")
  case True
  then obtain actual shadow where t: "map_r (censor_trade feeds) (tracked_trades b) = Inr actual"
    "flush_censored feeds (co_shadows c) = Inr shadow"
    "c' = c\<lparr>co_shadows := [], co_outcomes := co_outcomes c @ actual @ shadow\<rparr>"
    using assms by (auto simp: on_stop_def bind_r_Inr)
  let ?M = "mset (map t_candidate_id (tracked_trades b))"
  have "map oc_candidate_id shadow = map sw_candidate_id (co_shadows c)" using settles_ids [OF flush_settles [OF t(2)]] .
  then have "paper c' (rs @ co_outcomes c') = paper c (rs @ co_outcomes c) + ?M"
    using censor_trade_ids [OF t(1)] by (simp add: paper_def t(3) mset_map [symmetric] ac_simps del: mset_map)
  then show ?thesis using t(3) by (intro exI [of _ ?M]) simp
next
  case False
  then show ?thesis using assms by (intro exI [of _ "{#}"]) (simp add: on_stop_def)
qed

lemma accounts_step:
  assumes "collector_step e c = Inr (c', cs, rs)" and "traded_ids e \<subseteq> T" and "has_feed e"
    and "accounts T c (cs0 @ co_candidates c) (rs0 @ co_outcomes c)"
  shows "accounts T c' ((cs0 @ cs) @ co_candidates c') ((rs0 @ rs) @ co_outcomes c')"
proof (cases e)
  case (PreOrder side sz di feeds b)
  then obtain por where "on_pre_order side sz di feeds b c = Inr (por, c')" and drained: "cs = []" "rs = []"
    using assms(1) by (auto simp: bind_r_Inr)
  then show ?thesis
  proof (cases rule: on_pre_order_cases)
    case (keep snap)
    then have "ca_verdict snap \<noteq> VReject" using assms(3) PreOrder by simp
    then show ?thesis
      using accounts_remember [OF assms(4) keep(1), of c'] keep(2) drained by simp
  next
    case (shadow snap s)
    then show ?thesis using accounts_remember [OF assms(4) shadow(1), of c' s] drained by simp
  qed (use assms(4) drained in simp)
next
  case (TradeClosed t)
  then show ?thesis
    using assms accounts_paper [OF assms(4), of c' "(rs0 @ rs) @ co_outcomes c'" "{#t_candidate_id t#}"]
    by (auto simp: on_trade_closed_def paper_def Let_def split: if_splits)
next
  case (BarDone feeds b)
  then have "on_bar feeds b c = Inr c'" and drained: "cs = []" "rs = []" using assms(1) by (auto simp: bind_r_Inr)
  from on_bar_paper [OF this(1), of rs0] show ?thesis
    using accounts_paper [OF assms(4), of c' "rs0 @ co_outcomes c'" "{#}"] drained by simp
next
  case (RunStopped feeds b)
  then have "on_stop feeds b c = Inr c'" and drained: "cs = []" "rs = []" using assms(1) by (auto simp: bind_r_Inr)
  then obtain M where "paper c' (rs0 @ co_outcomes c') = paper c (rs0 @ co_outcomes c) + M"
    "set_mset M \<subseteq> T" "co_next_candidate_id c' = co_next_candidate_id c" "co_registry c' = co_registry c"
    "co_candidates c' = co_candidates c"
    using on_stop_paper [of feeds b c c' rs0] assms(2) RunStopped by auto
  then show ?thesis using accounts_paper [OF assms(4), of c' "rs0 @ co_outcomes c'" M] drained by simp
next
  case DrainCandidates
  then show ?thesis
    using assms by (auto simp: drain_candidates_def accounts_def paper_def)
next
  case DrainOutcomes
  then show ?thesis
    using assms by (auto simp: drain_outcomes_def accounts_def paper_def)
qed

lemma accounts_run:
  "collector_run es c = Inr (c', cs, rs) \<Longrightarrow> \<forall>e \<in> set es. traded_ids e \<subseteq> T \<and> has_feed e \<Longrightarrow>
     accounts T c (cs0 @ co_candidates c) (rs0 @ co_outcomes c) \<Longrightarrow>
     accounts T c' ((cs0 @ cs) @ co_candidates c') ((rs0 @ rs) @ co_outcomes c')"
proof (induction es arbitrary: c cs rs cs0 rs0)
  case (Cons e es)
  then obtain c1 cs1 rs1 cs2 rs2 where r: "collector_step e c = Inr (c1, cs1, rs1)" "collector_run es c1 = Inr (c', cs2, rs2)"
    "cs = cs1 @ cs2" "rs = rs1 @ rs2"
    by (auto simp: bind_r_Inr)
  have "accounts T c1 ((cs0 @ cs1) @ co_candidates c1) ((rs0 @ rs1) @ co_outcomes c1)"
    using Cons.prems by (intro accounts_step [OF r(1)]) auto
  from Cons.IH [OF r(2) _ this] show ?case using Cons.prems(2) r(3,4) by simp
qed simp

lemma accounts_new: "accounts T (set_inference_context ctx (collector_init feeds (new_collector config))) ([] @ []) ([] @ [])"
  by (simp add: accounts_def paper_def set_inference_context_def collector_init_def new_collector_def)

lemma stopped_has_no_shadows:
  assumes "collector_run (es @ [RunStopped feeds b]) c = Inr (c', cs, rs)" and "is_enabled c'"
  shows "co_shadows c' = []"
  using assms(1)
proof (induction es arbitrary: c cs rs)
  case Nil
  then obtain c1 where "on_stop feeds b c = Inr c1" "c' = c1" by (auto simp: bind_r_Inr)
  then show ?case using assms(2) by (auto simp: on_stop_def is_enabled_def bind_r_Inr split: if_splits)
qed (auto simp: bind_r_Inr)

text \<open>
  C33. The collector keeps its accounts: over any history of orders, closed trades, bars, stops and drains
  the candidates, drained or pending, are numbered 1, 2, 3 and so on in their order and are
  exactly what the registry holds. Every rejected candidate is followed on paper exactly once:
  it has either one open shadow or one outcome; a candidate that was let through has neither,
  until a trade of it is reported. After the stop of a run nothing is open, so that every
  rejected candidate has its one outcome.
\<close>

theorem collector_accounts:
  assumes "collector_run es (set_inference_context ctx (collector_init feeds (new_collector config))) = Inr (c, cs, rs)"
    and "\<forall>e \<in> set es. has_feed e"
  shows "let all = cs @ co_candidates c; outs = rs @ co_outcomes c; ids = (\<Union>e \<in> set es. traded_ids e) in
     map ca_candidate_id all = [1..<candidate_count c + 1]
     \<and> co_registry c = map_of (map (\<lambda>x. (ca_candidate_id x, x)) all)
     \<and> (\<forall>x \<in> set all. ca_candidate_id x \<notin> ids \<longrightarrow>
          count_list (map sw_candidate_id (co_shadows c)) (ca_candidate_id x)
            + count_list (map oc_candidate_id outs) (ca_candidate_id x) = (if ca_verdict x = VReject then 1 else 0))
     \<and> (\<forall>es' fs b. es = es' @ [RunStopped fs b] \<and> is_enabled c \<longrightarrow> co_shadows c = [])"
proof -
  let ?ids = "\<Union>e \<in> set es. traded_ids e"
  have "\<forall>e \<in> set es. traded_ids e \<subseteq> ?ids \<and> has_feed e" using assms(2) by blast
  from accounts_run [OF assms(1) this, of "[]" "[]"] have A: "accounts ?ids c (cs @ co_candidates c) (rs @ co_outcomes c)"
    using accounts_new by (simp add: set_inference_context_def collector_init_def new_collector_def)
  have "co_shadows c = []" if "es = es' @ [RunStopped fs b]" "is_enabled c" for es' fs b
    using stopped_has_no_shadows assms(1) that by metis
  then show ?thesis
    using A by (auto simp: accounts_def paper_def candidate_count_def Let_def count_mset simp flip: mset_map)
qed

text \<open>A history for the example: one order is rejected, one bar passes, the run stops.\<close>

definition demo_collector :: collector where
  "demo_collector =
     set_inference_context
       (Some \<lparr>ic_calibrator = from_isotonic [\<lparr>bp_x = 0, bp_y = 1 / 4\<rparr>], ic_policy = new_sizing_policy MGate (1 / 2) 1,
              ic_session = (\<lambda>fs. [([1], [Fin 0])])\<rparr>)
       (collector_init [two_bars 12 5]
          (new_collector \<lparr>cc_corrective = \<lparr>rc_state = VPass, rc_mode = MGate, rc_threshold = 1 / 2, rc_exponent = 1,
                                           rc_shadow_horizon = 50\<rparr>, cc_shadow_horizon_bars = 50\<rparr>))"

definition demo_events :: "collector_event list" where
  "demo_events =
     [PreOrder Buy 100 0 [two_bars 12 5] (new_broker USD 10000 None), BarDone [two_bars 12 5] (new_broker USD 10000 None),
      RunStopped [two_bars 12 5] (new_broker USD 10000 None)]"

lemma demo_views: "views_of [two_bars c v] = [Some \<lparr>q_open = 10, q_high = 12, q_low = 9, q_close = 10, q_dt = 0\<rparr>]"
  by (simp add: views_of_def two_bars_def feed_view_def feed_of_bars_def read_quote_def line_at_def feed_size_def
      feed_buflen_def line_size_def line_buflen_def Let_def)

lemma demo_lines:
  "line_at (fd_close (nf_feed (two_bars c v))) 0 = Inr 10" "line_at (fd_datetime (nf_feed (two_bars c v))) 0 = Inr 0"
  by (simp_all add: two_bars_def feed_of_bars_def line_at_def Let_def)

lemma demo_builds:
  "\<exists>fs. build_features Buy 100 0 [two_bars c v] (new_broker USD 10000 None) fb = Inr fs"
  by (simp add: build_features_def demo_lines demo_views new_broker_def portfolio_value_def Let_def)

lemma demo_policy:
  "run_inference_policy demo_collector fs 100 = (1 / 4, VReject, 0)"
proof -
  have "\<not> list_ex (\<lambda>x. \<not> isfinite x) (map Fin fs)" by (induction fs) simp_all
  then show ?thesis
    by (simp add: run_inference_policy_def demo_collector_def set_inference_context_def infer_def run_model_def
        calibrate_def from_isotonic_def apply_isotonic_def apply_policy_def apply_gate_def new_sizing_policy_def)
qed

lemma demo_pre_order:
  "\<exists>s c. on_pre_order Buy 100 0 [two_bars 12 5] (new_broker USD 10000 None) demo_collector
     = Inr (\<lparr>por_candidate_id = 1, por_final_size = 0, por_rejected = True\<rparr>, c) \<and> is_enabled c
     \<and> map ca_verdict (co_candidates c) = [VReject] \<and> co_outcomes c = [] \<and> candidate_count c = 1
     \<and> co_shadows c = [s] \<and> sw_horizon_bars s = 50 \<and> sw_bars_held s = 0 \<and> sw_data_index s = 0"
proof -
  obtain fs where fs: "build_features Buy 100 0 [two_bars 12 5] (new_broker USD 10000 None) (co_builder demo_collector) = Inr fs"
    using demo_builds by blast
  have d: "is_enabled demo_collector" "\<not> reducing Buy (position_of 0 (new_broker USD 10000 None))"
    "rc_state (cc_corrective (co_config demo_collector)) = VPass" "Option.is_none (co_context demo_collector) = False"
    by (simp_all add: demo_collector_def is_enabled_def set_inference_context_def collector_init_def new_collector_def
        reducing_def is_short_def eps_def empty_position_def position_of_def new_broker_def)
  show ?thesis
    by (simp add: on_pre_order_def snapshot_of_def d fs demo_lines demo_policy decided_def remember_def add_shadow_def
        shadow_of_def Let_def)
       (simp add: demo_collector_def is_enabled_def set_inference_context_def collector_init_def new_collector_def
        candidate_count_def)
qed

lemma demo_bar:
  assumes "is_enabled c" and "co_shadows c = [s]" and "sw_horizon_bars s = 50" and "sw_bars_held s = 0"
  shows "\<exists>c'. on_bar [two_bars 12 5] (new_broker USD 10000 None) c = Inr c' \<and> is_enabled c' \<and> co_shadows c' = [hold s]
    \<and> co_candidates c' = co_candidates c \<and> co_outcomes c' = co_outcomes c \<and> co_next_candidate_id c' = co_next_candidate_id c"
proof -
  have "\<not> horizon_reached (hold s)" using assms(3,4) by (simp add: horizon_reached_def)
  then show ?thesis
    using assms(1,2) by (simp add: on_bar_def demo_views portfolio_value_def new_broker_def is_enabled_def)
qed

lemma demo_stop:
  assumes "is_enabled c" and "co_shadows c = [s]" and "sw_data_index s = 0"
  shows "\<exists>c' r. on_stop [two_bars 12 5] (new_broker USD 10000 None) c = Inr c' \<and> is_enabled c' \<and> co_shadows c' = []
    \<and> co_candidates c' = co_candidates c \<and> co_outcomes c' = co_outcomes c @ [r] \<and> co_next_candidate_id c' = co_next_candidate_id c"
  using assms
  by (simp add: on_stop_def flush_censored_def censor_shadow_def exit_price_at_def bar_timestamp_ns_def demo_lines
      tracked_trades_def new_broker_def is_enabled_def Let_def)

lemma demo_run:
  "\<exists>c. collector_run demo_events demo_collector = Inr (c, [], []) \<and> is_enabled c
     \<and> map ca_verdict (co_candidates c) = [VReject] \<and> candidate_count c = 1"
proof -
  let ?fs = "[two_bars 12 5]" and ?b = "new_broker USD 10000 None"
  obtain s c1 where 1: "on_pre_order Buy 100 0 ?fs ?b demo_collector
      = Inr (\<lparr>por_candidate_id = 1, por_final_size = 0, por_rejected = True\<rparr>, c1)" "is_enabled c1"
    "map ca_verdict (co_candidates c1) = [VReject]" "co_outcomes c1 = []" "candidate_count c1 = 1"
    "co_shadows c1 = [s]" "sw_horizon_bars s = 50" "sw_bars_held s = 0" "sw_data_index s = 0"
    using demo_pre_order by (elim exE conjE)
  obtain c2 where 2: "on_bar ?fs ?b c1 = Inr c2" "is_enabled c2" "co_shadows c2 = [hold s]"
    "co_candidates c2 = co_candidates c1" "co_next_candidate_id c2 = co_next_candidate_id c1"
    using demo_bar [OF 1(2) 1(6-8)] by blast
  have "sw_data_index (hold s) = 0" using 1(9) by (simp add: hold_def)
  with demo_stop [OF 2(2,3)] obtain c3 where 3: "on_stop ?fs ?b c2 = Inr c3" "is_enabled c3"
    "co_candidates c3 = co_candidates c2" "co_next_candidate_id c3 = co_next_candidate_id c2"
    by blast
  have "collector_run demo_events demo_collector = Inr (c3, [], [])"
    unfolding demo_events_def by (simp only: collector_run.simps collector_step.simps 1(1) 2(1) 3(1) bind_r.simps prod.case append_Nil)
  moreover have "map ca_verdict (co_candidates c3) = [VReject]" "candidate_count c3 = 1"
    using 1(3,5) 2(4,5) 3(3,4) by (simp_all add: candidate_count_def)
  ultimately show ?thesis using 3(2) by (intro exI [of _ c3] conjI)
qed

theorem collector_accounts_witness:
  "\<exists>c. collector_run demo_events demo_collector = Inr (c, [], [])
     \<and> map (\<lambda>x. (ca_candidate_id x, ca_verdict x)) (co_candidates c) = [(1, VReject)]
     \<and> count_list (map oc_candidate_id (co_outcomes c)) 1 = 1 \<and> co_shadows c = []"
proof -
  obtain c where c: "collector_run demo_events demo_collector = Inr (c, [], [])" "is_enabled c"
    "map ca_verdict (co_candidates c) = [VReject]" "candidate_count c = 1"
    using demo_run by (elim exE conjE)
  then obtain x where x: "co_candidates c = [x]" "ca_verdict x = VReject" by auto
  have feeds: "\<forall>e \<in> set demo_events. has_feed e" by (simp add: demo_events_def)
  have ids: "(\<Union>e \<in> set demo_events. traded_ids e) = {}"
    by (simp add: demo_events_def tracked_trades_def new_broker_def)
  have "demo_events = take 2 demo_events @ [RunStopped [two_bars 12 5] (new_broker USD 10000 None)]" by (simp add: demo_events_def)
  then have stop: "\<exists>es' fs b. demo_events = es' @ [RunStopped fs b]" by blast
  note accounts = collector_accounts [OF c(1) [unfolded demo_collector_def] feeds, unfolded Let_def ids]
  have "ca_candidate_id x = 1" using accounts c(4) x by simp
  moreover have "co_shadows c = []" using accounts c(2) stop by blast
  ultimately show ?thesis using accounts c(1) x by simp
qed

end
