(* ===== verification/Streaming.thy ===== *)
theory Streaming
  imports Collector Analyzers "HOL-Library.Sublist"
begin

text \<open>
  \<^verbatim>\<open>observers/\<close>: the observers that record a line per bar, and the increment batcher, which cuts the
  stream of bars, equity points and trades of a run into snapshots. The steady clock is an
  argument of the steps that read it. The callback is the list of what it is called with; it
  is taken not to throw and not to call back. The pointer to the feeds of the last bar is
  their value, the pointer to the collector a component of the state.
\<close>

subsection \<open>Observers of one line\<close>

record cash_value =
  cv_cash :: "real line"
  cv_value :: "real line"

definition cash_value_next :: "broker \<Rightarrow> nfeed list \<Rightarrow> cash_value \<Rightarrow> exn + cash_value" where
  "cash_value_next b feeds o1 =
     bind_r (portfolio_value (views_of feeds) b) (\<lambda>v.
       Inr (o1\<lparr>cv_cash := line_forward (cash b) (cv_cash o1), cv_value := line_forward v (cv_value o1)\<rparr>))"

definition value_observer_next :: "broker \<Rightarrow> nfeed list \<Rightarrow> real line \<Rightarrow> exn + real line" where
  "value_observer_next b feeds l = bind_r (portfolio_value (views_of feeds) b) (\<lambda>v. Inr (line_forward v l))"

record buy_sell =
  by_barplot :: bool
  by_bardist :: real
  by_data_index :: nat
  by_pending_buys :: "real list"
  by_pending_sells :: "real list"
  by_buy :: "fpval line"
  by_sell :: "fpval line"

definition new_buy_sell :: "bool \<Rightarrow> real \<Rightarrow> nat \<Rightarrow> buy_sell" where
  "new_buy_sell barplot bardist di =
     \<lparr>by_barplot = barplot, by_bardist = bardist, by_data_index = di, by_pending_buys = [], by_pending_sells = [],
      by_buy = line_empty, by_sell = line_empty\<rparr>"

definition buy_sell_start :: "buy_sell \<Rightarrow> buy_sell" where
  "buy_sell_start s = s\<lparr>by_pending_buys := [], by_pending_sells := []\<rparr>"

definition buy_sell_notify :: "order \<Rightarrow> buy_sell \<Rightarrow> buy_sell" where
  "buy_sell_notify ord s =
     (if o_status ord \<noteq> Completed \<or> o_executed_size ord = 0 \<or> o_data_index ord \<noteq> by_data_index s then s
      else if o_side ord = Buy then s\<lparr>by_pending_buys := by_pending_buys s @ [o_executed_price ord]\<rparr>
      else s\<lparr>by_pending_sells := by_pending_sells s @ [o_executed_price ord]\<rparr>)"

definition average_price :: "real list \<Rightarrow> real" where
  "average_price xs = foldl (+) 0 xs / real (length xs)"

text \<open>What one side of the bar shows: nothing, the average fill, or a mark beside the bar.\<close>

definition shown :: "real list \<Rightarrow> real line \<Rightarrow> real \<Rightarrow> bool \<Rightarrow> exn + fpval" where
  "shown pending extreme factor on_bar_plot =
     (if pending = [] then Inr NaN
      else if on_bar_plot then bind_r (line_at extreme 0) (\<lambda>x. Inr (Fin (x * factor)))
      else Inr (Fin (average_price pending)))"

definition buy_sell_next :: "nfeed list \<Rightarrow> buy_sell \<Rightarrow> exn + buy_sell" where
  "buy_sell_next feeds s =
     (let plot = (by_barplot s \<and> by_data_index s < length feeds); f = nf_feed (feeds ! by_data_index s)
      in bind_r (shown (by_pending_buys s) (fd_low f) (1 - by_bardist s) plot) (\<lambda>buy_value.
         bind_r (shown (by_pending_sells s) (fd_high f) (1 + by_bardist s) plot) (\<lambda>sell_value.
           Inr (s\<lparr>by_buy := line_forward buy_value (by_buy s), by_sell := line_forward sell_value (by_sell s),
                  by_pending_buys := [], by_pending_sells := []\<rparr>))))"

subsection \<open>Snapshots\<close>

datatype termination_reason = EndNormal | EndConnectorLost | EndRiskBreach | EndExternalStop | EndFatalError

record trade_record =
  tr_trade_id :: nat
  tr_data_index :: nat
  tr_size :: real
  tr_entry_price :: real
  tr_exit_price :: real
  tr_commission :: real
  tr_pnl :: real
  tr_pnl_net :: real
  tr_entry_bar :: nat
  tr_exit_bar :: nat
  tr_status :: "8 word"
  tr_entry_time :: datetime
  tr_exit_time :: datetime

record equity_point =
  ep_timestamp :: datetime
  ep_portfolio_value :: real
  ep_cash :: real
  ep_drawdown_pct :: real

record metrics =
  mt_realized_pnl :: real
  mt_unrealized_pnl :: real
  mt_total_return_pct :: real
  mt_current_dd_pct :: real
  mt_max_dd_pct :: real
  mt_trade_count :: nat
  mt_winning_count :: nat
  mt_losing_count :: nat
  mt_win_rate_pct :: real

record increment =
  in_seq :: nat
  in_bars :: "real bar list"
  in_trades :: "trade_record list"
  in_equity :: "equity_point list"
  in_metrics :: metrics
  in_processed :: nat
  in_total_bars :: "nat option"
  in_is_final :: bool
  in_termination :: "termination_reason option"
  in_dropped :: "32 word"
  in_candidates :: "candidate list"
  in_outcomes :: "outcome list"

subsection \<open>The batcher\<close>

record batcher_config =
  bc_max_bars :: nat
  bc_max_interval_ms :: int
  bc_emit_first :: bool

record batcher =
  bt_config :: batcher_config
  bt_seq :: nat
  bt_processed :: nat
  bt_total_bars :: "nat option"
  bt_bars :: "real bar list"
  bt_trades :: "trade_record list"
  bt_equity :: "equity_point list"
  bt_last_flush :: datetime
  bt_first_seen :: bool
  bt_feeds :: "nfeed list option"
  bt_initial_cash :: real
  bt_portfolio_value :: real
  bt_cash :: real
  bt_peak :: real
  bt_dd :: real
  bt_max_dd :: real
  bt_realized :: real
  bt_closed :: nat
  bt_winning :: nat
  bt_losing :: nat
  bt_collector :: "collector option"

definition default_batcher_config :: batcher_config where
  "default_batcher_config = \<lparr>bc_max_bars = 500, bc_max_interval_ms = 100, bc_emit_first = True\<rparr>"

definition new_batcher :: "batcher_config \<Rightarrow> batcher" where
  "new_batcher config =
     \<lparr>bt_config = config, bt_seq = 0, bt_processed = 0, bt_total_bars = None, bt_bars = [], bt_trades = [], bt_equity = [],
      bt_last_flush = 0, bt_first_seen = False, bt_feeds = None, bt_initial_cash = 0, bt_portfolio_value = 0,
      bt_cash = 0, bt_peak = 0, bt_dd = 0, bt_max_dd = 0, bt_realized = 0, bt_closed = 0, bt_winning = 0,
      bt_losing = 0, bt_collector = None\<rparr>"

definition set_candidate_collector :: "collector option \<Rightarrow> batcher \<Rightarrow> batcher" where
  "set_candidate_collector c bt = bt\<lparr>bt_collector := c\<rparr>"

definition batcher_start :: "datetime \<Rightarrow> batcher \<Rightarrow> batcher" where
  "batcher_start now bt = bt\<lparr>bt_last_flush := now\<rparr>"

definition snapshot_current_bar :: "real feed \<Rightarrow> exn + real bar" where
  "snapshot_current_bar f =
     bind_r (line_at (fd_datetime f) 0) (\<lambda>t. bind_r (line_at (fd_open f) 0) (\<lambda>op. bind_r (line_at (fd_high f) 0) (\<lambda>hi.
     bind_r (line_at (fd_low f) 0) (\<lambda>lo. bind_r (line_at (fd_close f) 0) (\<lambda>cl. bind_r (line_at (fd_volume f) 0) (\<lambda>vol.
       Inr \<lparr>bar_timestamp = t, bar_open = op, bar_high = hi, bar_low = lo, bar_close = cl, bar_volume = vol\<rparr>))))))"

definition project_trade :: "trade \<Rightarrow> trade_record" where
  "project_trade t =
     \<lparr>tr_trade_id = t_id t, tr_data_index = t_data_index t, tr_size = t_size t, tr_entry_price = t_entry_price t,
      tr_exit_price = t_exit_price t, tr_commission = t_commission t, tr_pnl = t_pnl t, tr_pnl_net = t_pnlcomm t,
      tr_entry_bar = t_entry_bar t, tr_exit_bar = t_exit_bar t,
      tr_status = (case t_status t of TOpen \<Rightarrow> 0 | TClosed \<Rightarrow> 1),
      tr_entry_time = t_entry_time t, tr_exit_time = t_exit_time t\<rparr>"

definition current_metrics :: "batcher \<Rightarrow> metrics" where
  "current_metrics bt =
     (let decided = bt_winning bt + bt_losing bt
      in \<lparr>mt_realized_pnl = bt_realized bt, mt_unrealized_pnl = bt_portfolio_value bt - bt_cash bt,
          mt_total_return_pct =
            (if 0 < bt_initial_cash bt then (bt_portfolio_value bt / bt_initial_cash bt - 1) * 100 else 0),
          mt_current_dd_pct = bt_dd bt, mt_max_dd_pct = bt_max_dd bt, mt_trade_count = bt_closed bt,
          mt_winning_count = bt_winning bt, mt_losing_count = bt_losing bt,
          mt_win_rate_pct = (if decided = 0 then 0 else real (bt_winning bt) / real decided * 100)\<rparr>)"

text \<open>What the callback gets: the snapshot and the feeds of the last bar.\<close>

definition emit_snapshot :: "bool \<Rightarrow> batcher \<Rightarrow> (increment \<times> nfeed list) \<times> batcher" where
  "emit_snapshot is_final bt =
     (let (cs, coll1) = (case bt_collector bt of None \<Rightarrow> ([], None)
                         | Some c \<Rightarrow> (let (xs, c') = drain_candidates c in (xs, Some c')));
          (rs, coll2) = (case coll1 of None \<Rightarrow> ([], None)
                         | Some c \<Rightarrow> (let (xs, c') = drain_outcomes c in (xs, Some c')));
          snap = \<lparr>in_seq = bt_seq bt + 1, in_bars = bt_bars bt, in_trades = bt_trades bt, in_equity = bt_equity bt,
                  in_metrics = current_metrics bt, in_processed = bt_processed bt,
                  in_total_bars = bt_total_bars bt, in_is_final = is_final,
                  in_termination = (if is_final then Some EndNormal else None), in_dropped = 0,
                  in_candidates = cs, in_outcomes = rs\<rparr>
      in ((snap, case bt_feeds bt of Some fs \<Rightarrow> fs | None \<Rightarrow> []),
          bt\<lparr>bt_seq := bt_seq bt + 1, bt_bars := [], bt_trades := [], bt_equity := [], bt_collector := coll2\<rparr>))"

definition maybe_flush :: "bool \<Rightarrow> datetime \<Rightarrow> batcher \<Rightarrow> (increment \<times> nfeed list) list \<times> batcher" where
  "maybe_flush force now bt =
     (let first_force = (bc_emit_first (bt_config bt) \<and> bt_seq bt = 0 \<and> bt_bars bt \<noteq> []);
          by_count = (bc_max_bars (bt_config bt) \<le> length (bt_bars bt));
          by_time = (bc_max_interval_ms (bt_config bt) * 1000000 \<le> now - bt_last_flush bt)
      in if force \<or> first_force \<or> by_count \<or> by_time
         then (let (out, bt') = emit_snapshot False bt in ([out], bt'\<lparr>bt_last_flush := now\<rparr>))
         else ([], bt))"

definition first_bar :: "broker \<Rightarrow> nfeed list \<Rightarrow> batcher \<Rightarrow> batcher" where
  "first_bar b feeds bt =
     (if bt_first_seen bt then bt
      else bt\<lparr>bt_first_seen := True,
              bt_total_bars := (case feeds of [] \<Rightarrow> bt_total_bars bt | f # fs \<Rightarrow> Some (feed_size (nf_feed f))),
              bt_initial_cash := b_initial_cash b\<rparr>)"

definition push_bar :: "nfeed list \<Rightarrow> batcher \<Rightarrow> exn + batcher" where
  "push_bar feeds bt =
     (case feeds of
        [] \<Rightarrow> Inr bt
      | f # fs \<Rightarrow> bind_r (snapshot_current_bar (nf_feed f)) (\<lambda>x. Inr (bt\<lparr>bt_bars := bt_bars bt @ [x]\<rparr>)))"

definition equity_time :: "nfeed list \<Rightarrow> exn + datetime" where
  "equity_time feeds = (case feeds of [] \<Rightarrow> Inr 0 | f # fs \<Rightarrow> line_at (fd_datetime (nf_feed f)) 0)"

definition sample_equity :: "datetime \<Rightarrow> real \<Rightarrow> real \<Rightarrow> batcher \<Rightarrow> batcher" where
  "sample_equity ts pv csh bt =
     (let peak = (if bt_peak bt < pv then pv else bt_peak bt);
          dd = (if 0 < peak then (peak - pv) / peak * 100 else 0)
      in bt\<lparr>bt_peak := peak, bt_max_dd := (if bt_max_dd bt < dd then dd else bt_max_dd bt), bt_dd := dd,
            bt_portfolio_value := pv, bt_cash := csh,
            bt_equity := bt_equity bt @ [\<lparr>ep_timestamp = ts, ep_portfolio_value = pv, ep_cash = csh, ep_drawdown_pct = dd\<rparr>],
            bt_processed := bt_processed bt + 1\<rparr>)"

definition batcher_next ::
  "datetime \<Rightarrow> broker \<Rightarrow> nfeed list \<Rightarrow> batcher \<Rightarrow> exn + ((increment \<times> nfeed list) list \<times> batcher)" where
  "batcher_next now b feeds bt =
     bind_r (push_bar feeds (first_bar b feeds (bt\<lparr>bt_feeds := Some feeds\<rparr>))) (\<lambda>bt1.
     bind_r (portfolio_value (views_of feeds) b) (\<lambda>pv.
     bind_r (equity_time feeds) (\<lambda>ts.
       Inr (maybe_flush False now (sample_equity ts pv (cash b) bt1)))))"

definition batcher_notify_trade :: "trade \<Rightarrow> batcher \<Rightarrow> batcher" where
  "batcher_notify_trade t bt =
     (let bt1 = bt\<lparr>bt_trades := bt_trades bt @ [project_trade t]\<rparr>
      in if trade_is_closed t then
           bt1\<lparr>bt_realized := bt_realized bt + t_pnlcomm t, bt_closed := bt_closed bt + 1,
               bt_winning := (if 0 < t_pnlcomm t then bt_winning bt + 1 else bt_winning bt),
               bt_losing := (if \<not> 0 < t_pnlcomm t \<and> t_pnlcomm t < 0 then bt_losing bt + 1 else bt_losing bt)\<rparr>
         else bt1)"

definition batcher_stop :: "batcher \<Rightarrow> (increment \<times> nfeed list) list \<times> batcher" where
  "batcher_stop bt = (let (out, bt') = emit_snapshot True bt in ([out], bt'))"

subsection \<open>A stream of events\<close>

datatype stream_event =
  StreamStart datetime
| StreamBar datetime broker "nfeed list"
| StreamTrade trade
| StreamCollect collector_event
| StreamStop

text \<open>A step of the collector that the batcher points to.\<close>

definition collect :: "collector_event \<Rightarrow> batcher \<Rightarrow> exn + batcher" where
  "collect e bt =
     (case bt_collector bt of
        None \<Rightarrow> Inr bt
      | Some c \<Rightarrow> bind_r (collector_step e c) (\<lambda>(c', cs, rs). Inr (bt\<lparr>bt_collector := Some c'\<rparr>)))"

fun stream_step :: "stream_event \<Rightarrow> batcher \<Rightarrow> exn + ((increment \<times> nfeed list) list \<times> batcher)" where
  "stream_step (StreamStart now) bt = Inr ([], batcher_start now bt)"
| "stream_step (StreamBar now b feeds) bt = batcher_next now b feeds bt"
| "stream_step (StreamTrade t) bt = Inr ([], batcher_notify_trade t bt)"
| "stream_step (StreamCollect e) bt = bind_r (collect e bt) (\<lambda>bt'. Inr ([], bt'))"
| "stream_step StreamStop bt = Inr (batcher_stop bt)"

definition stream_run ::
  "stream_event list \<Rightarrow> batcher \<Rightarrow> exn + ((increment \<times> nfeed list) list \<times> batcher)" where
  "stream_run es bt =
     fold_r (\<lambda>e (out, bt). bind_r (stream_step e bt) (\<lambda>(new, bt'). Inr (out @ new, bt'))) es ([], bt)"

lemma stream_run_nil: "stream_run [] bt = Inr ([], bt)"
  by (simp add: stream_run_def)

lemma stream_run_snoc:
  "stream_run (es @ [e]) bt = Inr (out, bt') \<longleftrightarrow>
     (\<exists>out0 bt0 new. stream_run es bt = Inr (out0, bt0) \<and> stream_step e bt0 = Inr (new, bt') \<and> out = out0 @ new)"
  by (auto simp: stream_run_def fold_r_append bind_r_Inr)

text \<open>What the events of a history say, without any batch.\<close>

fun bar_of :: "stream_event \<Rightarrow> real bar list" where
  "bar_of (StreamBar now b (f # fs)) = (case snapshot_current_bar (nf_feed f) of Inr x \<Rightarrow> [x] | Inl e \<Rightarrow> [])"
| "bar_of _ = []"

fun sample_of :: "stream_event \<Rightarrow> (datetime \<times> real \<times> real) list" where
  "sample_of (StreamBar now b feeds) =
     (case (equity_time feeds, portfolio_value (views_of feeds) b) of
        (Inr ts, Inr pv) \<Rightarrow> [(ts, pv, cash b)]
      | _ \<Rightarrow> [])"
| "sample_of _ = []"

fun trade_of :: "stream_event \<Rightarrow> trade list" where
  "trade_of (StreamTrade t) = [t]"
| "trade_of _ = []"

fun broker_of :: "stream_event \<Rightarrow> broker list" where
  "broker_of (StreamBar now b feeds) = [b]"
| "broker_of _ = []"

definition bars_seen :: "stream_event list \<Rightarrow> real bar list" where
  "bars_seen es = concat (map bar_of es)"

definition trades_seen :: "stream_event list \<Rightarrow> trade list" where
  "trades_seen es = concat (map trade_of es)"

definition closed_seen :: "stream_event list \<Rightarrow> trade list" where
  "closed_seen es = filter trade_is_closed (trades_seen es)"

definition samples :: "stream_event list \<Rightarrow> (datetime \<times> real \<times> real) list" where
  "samples es = concat (map sample_of es)"

definition brokers_seen :: "stream_event list \<Rightarrow> broker list" where
  "brokers_seen es = concat (map broker_of es)"

definition equity_values :: "stream_event list \<Rightarrow> real list" where
  "equity_values es = map (fst \<circ> snd) (samples es)"

text \<open>The equity curve, with the drawdown of the analyzer at each point.\<close>

definition equity_seen :: "stream_event list \<Rightarrow> equity_point list" where
  "equity_seen es =
     map (\<lambda>i. let (ts, pv, csh) = samples es ! i
              in \<lparr>ep_timestamp = ts, ep_portfolio_value = pv, ep_cash = csh,
                  ep_drawdown_pct = percent_at (equity_values es) i\<rparr>) [0..<length (samples es)]"

definition last_sample :: "stream_event list \<Rightarrow> real \<times> real" where
  "last_sample es = (if samples es = [] then (0, 0) else snd (last (samples es)))"

definition metrics_of :: "stream_event list \<Rightarrow> metrics" where
  "metrics_of es =
     (let (pv, csh) = last_sample es; d = drawdown_run (equity_values es); pnls = map t_pnlcomm (closed_seen es);
          won = length (filter (\<lambda>x. 0 < x) pnls); lost = length (filter (\<lambda>x. x < 0) pnls);
          initial = (case brokers_seen es of [] \<Rightarrow> 0 | b # bs \<Rightarrow> b_initial_cash b)
      in \<lparr>mt_realized_pnl = sum_list pnls, mt_unrealized_pnl = pv - csh,
          mt_total_return_pct = (if 0 < initial then (pv / initial - 1) * 100 else 0),
          mt_current_dd_pct = dd_drawdown d, mt_max_dd_pct = dd_max_drawdown d, mt_trade_count = length pnls,
          mt_winning_count = won, mt_losing_count = lost,
          mt_win_rate_pct = (if won + lost = 0 then 0 else real won / real (won + lost) * 100)\<rparr>)"

lemma watched_snoc [simp]:
  "bars_seen (es @ [e]) = bars_seen es @ bar_of e" "trades_seen (es @ [e]) = trades_seen es @ trade_of e"
  "samples (es @ [e]) = samples es @ sample_of e" "brokers_seen (es @ [e]) = brokers_seen es @ broker_of e"
  "closed_seen (es @ [e]) = closed_seen es @ filter trade_is_closed (trade_of e)"
  "equity_values (es @ [e]) = equity_values es @ map (fst \<circ> snd) (sample_of e)"
  by (simp_all add: bars_seen_def trades_seen_def samples_def brokers_seen_def closed_seen_def equity_values_def)

lemma seen_nil [simp]:
  "bars_seen [] = []" "trades_seen [] = []" "samples [] = []" "brokers_seen [] = []" "closed_seen [] = []"
  "equity_values [] = []" "equity_seen [] = []"
  by (simp_all add: bars_seen_def trades_seen_def samples_def brokers_seen_def closed_seen_def equity_values_def equity_seen_def)

lemma length_equity_values [simp]: "length (equity_values es) = length (samples es)"
  by (simp add: equity_values_def)

lemma equity_seen_same: "sample_of e = [] \<Longrightarrow> equity_seen (es @ [e]) = equity_seen es"
  by (simp add: equity_seen_def)

lemma equity_seen_snoc:
  assumes "sample_of e = [(ts, pv, csh)]"
  shows "equity_seen (es @ [e]) =
     equity_seen es @ [\<lparr>ep_timestamp = ts, ep_portfolio_value = pv, ep_cash = csh,
       ep_drawdown_pct = dd_drawdown (drawdown_run (equity_values es @ [pv]))\<rparr>]"
proof -
  have dd: "dd_drawdown (drawdown_run (vs @ [v])) = percent_at (vs @ [v]) (length vs)" for vs v
    by (simp add: drawdown_run_snoc drawdown_value_def drawdown_fields(1) percent_at_def max_def Let_def)
  have "length (equity_values es) = length (samples es)" by simp
  then show ?thesis
    using dd [of "equity_values es" pv] by (simp add: equity_seen_def assms nth_append)
qed

text \<open>The batcher agrees with its history.\<close>

definition tracks :: "batcher_config \<Rightarrow> stream_event list \<Rightarrow> (increment \<times> nfeed list) list \<Rightarrow> batcher \<Rightarrow> bool" where
  "tracks cfg es out bt \<longleftrightarrow>
     bt_config bt = cfg \<and> bt_seq bt = length out
     \<and> concat (map (in_bars \<circ> fst) out) @ bt_bars bt = bars_seen es
     \<and> concat (map (in_trades \<circ> fst) out) @ bt_trades bt = map project_trade (trades_seen es)
     \<and> concat (map (in_equity \<circ> fst) out) @ bt_equity bt = equity_seen es
     \<and> bt_processed bt = length (samples es) \<and> bt_peak bt = dd_peak (drawdown_run (equity_values es))
     \<and> bt_dd bt = dd_drawdown (drawdown_run (equity_values es))
     \<and> bt_max_dd bt = dd_max_drawdown (drawdown_run (equity_values es))
     \<and> (bt_portfolio_value bt, bt_cash bt) = last_sample es
     \<and> bt_first_seen bt = (brokers_seen es \<noteq> [])
     \<and> bt_initial_cash bt = (case brokers_seen es of [] \<Rightarrow> 0 | b # bs \<Rightarrow> b_initial_cash b)
     \<and> bt_realized bt = sum_list (map t_pnlcomm (closed_seen es)) \<and> bt_closed bt = length (closed_seen es)
     \<and> bt_winning bt = length (filter (\<lambda>x. 0 < x) (map t_pnlcomm (closed_seen es)))
     \<and> bt_losing bt = length (filter (\<lambda>x. x < 0) (map t_pnlcomm (closed_seen es)))"

lemma tracks_metrics: "tracks cfg es out bt \<Longrightarrow> current_metrics bt = metrics_of es"
  by (simp add: tracks_def current_metrics_def metrics_of_def Let_def split_beta flip: prod.inject split: prod.split)
     (auto simp: prod_eq_iff)

lemma tracks_new: "tracks cfg [] [] (set_candidate_collector c (new_batcher cfg))"
  by (simp add: tracks_def set_candidate_collector_def new_batcher_def drawdown_run_nil drawdown_start_def last_sample_def)

lemma tracks_start: "tracks cfg es out bt \<Longrightarrow> tracks cfg (es @ [StreamStart now]) out (batcher_start now bt)"
  by (simp add: tracks_def batcher_start_def equity_seen_same last_sample_def)

lemma tracks_trade: "tracks cfg es out bt \<Longrightarrow> tracks cfg (es @ [StreamTrade t]) out (batcher_notify_trade t bt)"
  by (auto simp: tracks_def batcher_notify_trade_def equity_seen_same last_sample_def Let_def)

lemma tracks_collect: "tracks cfg es out bt \<Longrightarrow> collect e bt = Inr bt' \<Longrightarrow> tracks cfg (es @ [StreamCollect e]) out bt'"
  by (auto simp: tracks_def collect_def bind_r_Inr equity_seen_same last_sample_def split: option.splits)

lemma emit_fields:
  assumes "emit_snapshot fin bt = (x, bt')"
  shows "\<exists>c. bt' = bt\<lparr>bt_seq := bt_seq bt + 1, bt_bars := [], bt_trades := [], bt_equity := [], bt_collector := c\<rparr>"
    "in_seq (fst x) = bt_seq bt + 1" "in_bars (fst x) = bt_bars bt" "in_trades (fst x) = bt_trades bt"
    "in_equity (fst x) = bt_equity bt" "in_metrics (fst x) = current_metrics bt" "in_processed (fst x) = bt_processed bt"
    "in_is_final (fst x) = fin" "in_termination (fst x) = (if fin then Some EndNormal else None)"
  using assms by (auto simp: emit_snapshot_def split_beta)

lemma tracks_emit:
  assumes "tracks cfg es out bt" and "emit_snapshot fin bt = (x, bt')"
  shows "tracks cfg es (out @ [x]) bt'" "tracks cfg es (out @ [x]) (bt'\<lparr>bt_last_flush := now\<rparr>)" "bt_bars bt' = []"
proof -
  note x = emit_fields [OF assms(2)]
  obtain c where bt': "bt' = bt\<lparr>bt_seq := bt_seq bt + 1, bt_bars := [], bt_trades := [], bt_equity := [], bt_collector := c\<rparr>"
    using x(1) by blast
  show "tracks cfg es (out @ [x]) bt'" "tracks cfg es (out @ [x]) (bt'\<lparr>bt_last_flush := now\<rparr>)" "bt_bars bt' = []"
    using assms(1) unfolding bt' tracks_def by (simp_all add: x)
qed

lemma snapshot_bar_of:
  assumes "push_bar feeds bt = Inr bt'"
  shows "bt' = bt\<lparr>bt_bars := bt_bars bt @ bar_of (StreamBar now b feeds)\<rparr>" "length (bar_of (StreamBar now b feeds)) \<le> 1"
  using assms by (cases feeds; auto simp: push_bar_def bind_r_Inr)+

lemma tracks_bar:
  assumes "tracks cfg es out bt"
    and "push_bar feeds (first_bar b feeds (bt\<lparr>bt_feeds := Some feeds\<rparr>)) = Inr bt1"
    and "portfolio_value (views_of feeds) b = Inr pv" and "equity_time feeds = Inr ts"
  shows "tracks cfg (es @ [StreamBar now b feeds]) out (sample_equity ts pv (cash b) bt1)"
    "length (bt_bars (sample_equity ts pv (cash b) bt1)) \<le> length (bt_bars bt) + 1"
proof -
  let ?e = "StreamBar now b feeds"
  have bt1: "bt1 = (first_bar b feeds (bt\<lparr>bt_feeds := Some feeds\<rparr>))\<lparr>bt_bars := bt_bars bt @ bar_of ?e\<rparr>"
    and one: "length (bar_of ?e) \<le> 1"
    using snapshot_bar_of [OF assms(2), of now b] by (simp_all add: first_bar_def)
  have s: "sample_of ?e = [(ts, pv, cash b)]" using assms(3,4) by simp
  let ?vs = "equity_values es"
  have d: "drawdown_run (equity_values (es @ [?e])) = drawdown_value pv (drawdown_run ?vs)"
    using s by (simp add: drawdown_run_snoc del: sample_of.simps)
  have last: "last_sample (es @ [?e]) = (pv, cash b)" using s by (simp add: last_sample_def del: sample_of.simps)
  have up: "(if x < y then y else x) = max x y" for x y :: real by (simp add: max_def)
  have trades: "trade_of ?e = []" and brokers: "broker_of ?e = [b]" by simp_all
  show "length (bt_bars (sample_equity ts pv (cash b) bt1)) \<le> length (bt_bars bt) + 1"
    using one by (simp add: sample_equity_def bt1 Let_def del: bar_of.simps)
  show "tracks cfg (es @ [?e]) out (sample_equity ts pv (cash b) bt1)"
    using assms(1) unfolding tracks_def bt1 sample_equity_def d last watched_snoc equity_seen_snoc [OF s] trades brokers s
    by (simp add: first_bar_def drawdown_value_def drawdown_run_snoc Let_def up del: bar_of.simps split: list.splits)
qed

lemma maybe_flush_cases:
  assumes "maybe_flush False now bt = (new, bt')"
  obtains "new = []" and "bt' = bt" and "length (bt_bars bt) < bc_max_bars (bt_config bt)"
  | x bt1 where "emit_snapshot False bt = (x, bt1)" and "new = [x]" and "bt' = bt1\<lparr>bt_last_flush := now\<rparr>"
proof (cases "emit_snapshot False bt")
  case (Pair x bt1)
  then show ?thesis using that assms unfolding maybe_flush_def Let_def by (simp split: if_splits)
qed

text \<open>Every snapshot closes the books of a prefix of the history.\<close>

definition accounts_for ::
  "batcher_config \<Rightarrow> stream_event list \<Rightarrow> (increment \<times> nfeed list) list \<Rightarrow> nat \<Rightarrow> bool" where
  "accounts_for cfg es out i \<longleftrightarrow>
     (let s = fst (out ! i); sent = map fst (take (Suc i) out)
      in in_seq s = Suc i \<and> length (in_bars s) \<le> max 1 (bc_max_bars cfg)
         \<and> in_termination s = (if in_is_final s then Some EndNormal else None)
         \<and> (\<exists>h. prefix h es \<and> concat (map in_bars sent) = bars_seen h
              \<and> concat (map in_trades sent) = map project_trade (trades_seen h)
              \<and> concat (map in_equity sent) = equity_seen h \<and> in_processed s = length (samples h)
              \<and> in_metrics s = metrics_of h))"

lemma accounts_for_mono:
  assumes "accounts_for cfg es out i" and "i < length out"
  shows "accounts_for cfg (es @ fs) (out @ new) i"
proof -
  have "prefix h (es @ fs)" if "prefix h es" for h using that by simp
  moreover have "(out @ new) ! i = out ! i" "take (Suc i) (out @ new) = take (Suc i) out"
    using assms(2) by (simp_all add: nth_append)
  ultimately show ?thesis using assms(1) unfolding accounts_for_def Let_def by metis
qed

definition stream_ok ::
  "batcher_config \<Rightarrow> stream_event list \<Rightarrow> (increment \<times> nfeed list) list \<Rightarrow> batcher \<Rightarrow> bool" where
  "stream_ok cfg es out bt \<longleftrightarrow>
     tracks cfg es out bt \<and> length (bt_bars bt) < max 1 (bc_max_bars cfg) \<and> (\<forall>i < length out. accounts_for cfg es out i)"

lemma stream_ok_emit:
  assumes "tracks cfg es out bt" and "length (bt_bars bt) \<le> max 1 (bc_max_bars cfg)"
    and "\<forall>i < length out. accounts_for cfg es out i" and "emit_snapshot fin bt = (x, bt')"
  shows "stream_ok cfg es (out @ [x]) bt'" "stream_ok cfg es (out @ [x]) (bt'\<lparr>bt_last_flush := now\<rparr>)"
proof -
  note t = tracks_emit [OF assms(1,4)] and x = emit_fields(2-) [OF assms(4)]
  have track: "concat (map (in_bars \<circ> fst) out) @ bt_bars bt = bars_seen es"
    "concat (map (in_trades \<circ> fst) out) @ bt_trades bt = map project_trade (trades_seen es)"
    "concat (map (in_equity \<circ> fst) out) @ bt_equity bt = equity_seen es"
    "bt_processed bt = length (samples es)" "bt_seq bt = length out"
    using assms(1) by (simp_all add: tracks_def)
  have "accounts_for cfg es (out @ [x]) (length out)"
    using track assms(2) tracks_metrics [OF assms(1)]
    by (auto simp: accounts_for_def x Let_def comp_def intro!: exI [of _ es])
  moreover have "accounts_for cfg es (out @ [x]) i" if "i < length out" for i
    using accounts_for_mono [of cfg es out i "[]" "[x]"] assms(3) that by simp
  ultimately have "\<forall>i < length (out @ [x]). accounts_for cfg es (out @ [x]) i" by (auto simp: less_Suc_eq)
  then show "stream_ok cfg es (out @ [x]) bt'" "stream_ok cfg es (out @ [x]) (bt'\<lparr>bt_last_flush := now\<rparr>)"
    using t by (simp_all add: stream_ok_def)
qed

lemma stream_ok_step:
  assumes "stream_ok cfg es out bt" and "stream_step e bt = Inr (new, bt')"
  shows "stream_ok cfg (es @ [e]) (out @ new) bt'"
proof -
  have t: "tracks cfg es out bt" and few: "length (bt_bars bt) < max 1 (bc_max_bars cfg)"
    using assms(1) by (simp_all add: stream_ok_def)
  have old: "\<forall>i < length out. accounts_for cfg (es @ [e]) out i"
    using assms(1) accounts_for_mono [of cfg es out _ "[e]" "[]"] by (simp add: stream_ok_def)
  show ?thesis
  proof (cases e)
    case (StreamStart now)
    then show ?thesis
      using tracks_start [OF t, of now] few old assms(2) by (auto simp: stream_ok_def batcher_start_def)
  next
    case (StreamTrade x)
    then show ?thesis
      using tracks_trade [OF t, of x] few old assms(2)
      by (auto simp: stream_ok_def batcher_notify_trade_def Let_def)
  next
    case (StreamCollect x)
    then have "collect x bt = Inr bt'" "new = []" using assms(2) by (auto simp: bind_r_Inr)
    moreover from this have "bt_bars bt' = bt_bars bt" by (auto simp: collect_def bind_r_Inr split: option.splits)
    ultimately show ?thesis using tracks_collect [OF t] few old StreamCollect by (simp add: stream_ok_def)
  next
    case StreamStop
    obtain x bt1 where x: "emit_snapshot True bt = (x, bt1)" by fastforce
    have t': "tracks cfg (es @ [e]) out bt" using t StreamStop by (simp add: tracks_def equity_seen_same last_sample_def)
    have "stream_ok cfg (es @ [e]) (out @ [x]) bt1" by (rule stream_ok_emit(1) [OF t' less_imp_le [OF few] old x])
    then show ?thesis using assms(2) StreamStop x by (simp add: batcher_stop_def)
  next
    case (StreamBar now b feeds)
    then obtain bt1 pv ts where n: "push_bar feeds (first_bar b feeds (bt\<lparr>bt_feeds := Some feeds\<rparr>)) = Inr bt1"
      "portfolio_value (views_of feeds) b = Inr pv" "equity_time feeds = Inr ts"
      "maybe_flush False now (sample_equity ts pv (cash b) bt1) = (new, bt')"
      using assms(2) by (auto simp: batcher_next_def bind_r_Inr)
    let ?bt2 = "sample_equity ts pv (cash b) bt1"
    note t2 = tracks_bar(1) [OF t n(1-3), of now, folded StreamBar] tracks_bar(2) [OF t n(1-3)]
    have cfg: "bt_config ?bt2 = cfg" using t2(1) by (simp add: tracks_def)
    from few t2(2) have le: "length (bt_bars ?bt2) \<le> max 1 (bc_max_bars cfg)" by linarith
    from n(4) show ?thesis
    proof (cases rule: maybe_flush_cases)
      case 1
      then have "length (bt_bars ?bt2) < max 1 (bc_max_bars cfg)" unfolding cfg by linarith
      then show ?thesis unfolding 1(1,2) stream_ok_def using t2(1) old by simp
    next
      case (2 x bt3)
      show ?thesis unfolding 2(2,3) by (rule stream_ok_emit(2) [OF t2(1) le old 2(1)])
    qed
  qed
qed

lemma stream_run_ok:
  "stream_run es (set_candidate_collector c (new_batcher cfg)) = Inr (out, bt) \<Longrightarrow> stream_ok cfg es out bt"
proof (induction es arbitrary: out bt rule: rev_induct)
  case Nil
  then show ?case using tracks_new [of cfg c] by (auto simp: stream_run_nil stream_ok_def set_candidate_collector_def new_batcher_def)
next
  case (snoc e es)
  then show ?case using stream_ok_step by (auto simp: stream_run_snoc)
qed

lemma finals_step:
  assumes "stream_step e bt = Inr (new, bt')"
  shows "map (in_is_final \<circ> fst) new = (if e = StreamStop then [True] else replicate (length new) False)"
proof (cases e)
  case (StreamBar now b feeds)
  then obtain bt1 where "maybe_flush False now bt1 = (new, bt')" using assms by (auto simp: batcher_next_def bind_r_Inr)
  then show ?thesis using StreamBar by (cases rule: maybe_flush_cases) (auto simp: emit_fields)
qed (use assms in \<open>auto simp: batcher_stop_def bind_r_Inr dest: emit_fields(8) split: prod.splits\<close>)

lemma length_filter_count: "length (filter P xs) = count_list (map P xs) True"
  by (induction xs) auto

lemma no_true: "count_list (replicate n False) True = 0"
  by (induction n) auto

lemma finals_run:
  "stream_run es bt0 = Inr (out, bt) \<Longrightarrow> length (filter (in_is_final \<circ> fst) out) = count_list es StreamStop"
proof (induction es arbitrary: out bt rule: rev_induct)
  case (snoc e es)
  then obtain out0 bt1 new where r: "stream_run es bt0 = Inr (out0, bt1)" "stream_step e bt1 = Inr (new, bt)" "out = out0 @ new"
    by (auto simp: stream_run_snoc)
  have "length (filter (in_is_final \<circ> fst) new) = count_list [e] StreamStop"
    unfolding length_filter_count finals_step [OF r(2)] by (simp add: no_true)
  then show ?case using snoc.IH [OF r(1)] r(3) by (simp add: comp_def split: if_splits)
qed (simp add: stream_run_nil)


text \<open>A run of one bar, with the first snapshot sent at once and the final one at the end.\<close>

definition demo_stream :: "stream_event list" where
  "demo_stream = [StreamStart 0, StreamBar 5 (new_broker USD 10000 None) [two_bars 12 5], StreamStop]"

lemma demo_current_bar:
  "snapshot_current_bar (nf_feed (two_bars c v)) =
     Inr \<lparr>bar_timestamp = 0, bar_open = 10, bar_high = 12, bar_low = 9, bar_close = 10, bar_volume = 5\<rparr>"
  by (simp add: snapshot_current_bar_def two_bars_def feed_of_bars_def line_at_def Let_def)

lemma demo_value: "portfolio_value [Some q] (new_broker USD 10000 None) = Inr 10000"
  by (simp add: portfolio_value_def new_broker_def cash_def cash_of_def)

lemma demo_stream_runs:
  "\<exists>out bt. stream_run demo_stream (set_candidate_collector None (new_batcher default_batcher_config)) = Inr (out, bt)"
  by (simp add: stream_run_def demo_stream_def batcher_next_def push_bar_def equity_time_def demo_current_bar demo_lines
      demo_views demo_value first_bar_def split_beta)


text \<open>
  The unrealized profit of a snapshot is the value of the positions, not their profit: ten shares
  bought at 10 that still stand at 10 count 100.
\<close>

lemma unrealized_counts_cost:
  "mt_unrealized_pnl (current_metrics (sample_equity t (9900 + 10 * 10) 9900 (new_batcher cfg))) = 100"
  by (simp add: current_metrics_def sample_equity_def Let_def)

subsection \<open>Candidates on the stream\<close>

text \<open>Only the batcher drains the collector, and orders are for feeds that exist.\<close>

fun collects_soundly :: "stream_event \<Rightarrow> bool" where
  "collects_soundly (StreamCollect x) \<longleftrightarrow> has_feed x \<and> x \<noteq> DrainCandidates \<and> x \<noteq> DrainOutcomes"
| "collects_soundly _ \<longleftrightarrow> True"

fun reported_ids :: "stream_event \<Rightarrow> nat set" where
  "reported_ids (StreamCollect x) = traded_ids x"
| "reported_ids _ = {}"

definition streams ::
  "nat set \<Rightarrow> (increment \<times> nfeed list) list \<Rightarrow> batcher \<Rightarrow> bool" where
  "streams T out bt \<longleftrightarrow>
     (\<exists>c. bt_collector bt = Some c
        \<and> accounts T c (concat (map (in_candidates \<circ> fst) out) @ co_candidates c)
            (concat (map (in_outcomes \<circ> fst) out) @ co_outcomes c))"

lemma streams_emit:
  assumes "streams T out bt" and "emit_snapshot fin bt = (x, bt')"
  shows "streams T (out @ [x]) bt'" "streams T (out @ [x]) (bt'\<lparr>bt_last_flush := now\<rparr>)"
    "\<exists>c. bt_collector bt' = Some c \<and> co_candidates c = [] \<and> co_outcomes c = []"
proof -
  obtain c where c: "bt_collector bt = Some c"
    "accounts T c (concat (map (in_candidates \<circ> fst) out) @ co_candidates c) (concat (map (in_outcomes \<circ> fst) out) @ co_outcomes c)"
    using assms(1) by (auto simp: streams_def)
  let ?c = "c\<lparr>co_candidates := [], co_outcomes := []\<rparr>"
  have e: "bt_collector bt' = Some ?c" "in_candidates (fst x) = co_candidates c" "in_outcomes (fst x) = co_outcomes c"
    using assms(2) by (auto simp: emit_snapshot_def c(1) drain_candidates_def drain_outcomes_def Let_def)
  have "accounts T ?c cs rs = accounts T c cs rs" for cs rs by (simp add: accounts_def paper_def)
  then have "accounts T ?c (concat (map (in_candidates \<circ> fst) (out @ [x])) @ co_candidates ?c)
      (concat (map (in_outcomes \<circ> fst) (out @ [x])) @ co_outcomes ?c)"
    using c(2) e(2,3) by simp
  then show "streams T (out @ [x]) bt'" "streams T (out @ [x]) (bt'\<lparr>bt_last_flush := now\<rparr>)"
    using e(1) unfolding streams_def by auto
  show "\<exists>c. bt_collector bt' = Some c \<and> co_candidates c = [] \<and> co_outcomes c = []" using e(1) by simp
qed

lemma streams_frame: "streams T out bt \<Longrightarrow> bt_collector bt' = bt_collector bt \<Longrightarrow> streams T out bt'"
  by (simp add: streams_def)

lemma streams_collect:
  assumes "streams T out bt" and "collect x bt = Inr bt'" and "traded_ids x \<subseteq> T" and "collects_soundly (StreamCollect x)"
  shows "streams T out bt'"
proof -
  obtain c where c: "bt_collector bt = Some c"
    "accounts T c (concat (map (in_candidates \<circ> fst) out) @ co_candidates c) (concat (map (in_outcomes \<circ> fst) out) @ co_outcomes c)"
    using assms(1) by (auto simp: streams_def)
  then obtain c' cs rs where c': "collector_step x c = Inr (c', cs, rs)" "bt_collector bt' = Some c'"
    using assms(2) by (auto simp: collect_def bind_r_Inr)
  have "cs = []" "rs = []" using c'(1) assms(4) by (cases x; auto simp: bind_r_Inr)+
  then show ?thesis
    using accounts_step [OF c'(1) assms(3) _ c(2)] assms(4) c'(2) by (auto simp: streams_def)
qed

lemma streams_step:
  assumes "streams T out bt" and "stream_step e bt = Inr (new, bt')" and "reported_ids e \<subseteq> T" and "collects_soundly e"
  shows "streams T (out @ new) bt'"
proof (cases e)
  case (StreamBar now b feeds)
  then obtain bt1 pv ts where n: "push_bar feeds (first_bar b feeds (bt\<lparr>bt_feeds := Some feeds\<rparr>)) = Inr bt1"
    "maybe_flush False now (sample_equity ts pv (cash b) bt1) = (new, bt')"
    using assms(2) by (auto simp: batcher_next_def bind_r_Inr)
  have "bt_collector (sample_equity ts pv (cash b) bt1) = bt_collector bt"
    using arg_cong [OF snapshot_bar_of(1) [OF n(1), of now b], of bt_collector]
    by (simp add: sample_equity_def first_bar_def Let_def del: bar_of.simps)
  from streams_frame [OF assms(1) this] have S: "streams T out (sample_equity ts pv (cash b) bt1)" .
  from n(2) show ?thesis
    by (cases rule: maybe_flush_cases) (use S streams_emit(2) [OF S] in simp_all)
next
  case (StreamCollect x)
  then show ?thesis using assms streams_collect [OF assms(1)] by (auto simp: bind_r_Inr)
next
  case StreamStop
  then show ?thesis using assms(2) streams_emit(1) [OF assms(1)] by (auto simp: batcher_stop_def split: prod.splits)
qed (use assms in \<open>auto simp: streams_def batcher_start_def batcher_notify_trade_def Let_def\<close>)

lemma streams_run:
  "stream_run es bt0 = Inr (out, bt) \<Longrightarrow> streams T [] bt0 \<Longrightarrow>
     \<forall>e \<in> set es. reported_ids e \<subseteq> T \<and> collects_soundly e \<Longrightarrow> streams T out bt"
proof (induction es arbitrary: out bt rule: rev_induct)
  case (snoc e es)
  then obtain out0 bt1 new where r: "stream_run es bt0 = Inr (out0, bt1)" "stream_step e bt1 = Inr (new, bt)" "out = out0 @ new"
    by (auto simp: stream_run_snoc)
  have "streams T out0 bt1" using snoc by (intro snoc.IH [OF r(1)]) auto
  then show ?case unfolding r(3) using r(2) snoc.prems(3) by (intro streams_step) auto
qed (simp add: stream_run_nil)

text \<open>
  C35. The stream delivers the candidates: with a collector attached that only the batcher drains, the
  candidates of the snapshots and those still pending are numbered 1, 2, 3 and so on in their
  order. Each candidate that was rejected, and of which no trade is reported, has exactly one
  outcome in the snapshots or pending, or is still followed on paper; one that was let through has
  none. After the final snapshot nothing is pending.
\<close>

theorem stream_delivers_candidates:
  assumes "stream_run es (set_candidate_collector (Some (set_inference_context ctx (collector_init feeds (new_collector config))))
             (new_batcher cfg)) = Inr (out, bt)"
    and "\<forall>e \<in> set es. collects_soundly e"
  shows "\<exists>c. bt_collector bt = Some c
   \<and> (let all = concat (map (in_candidates \<circ> fst) out) @ co_candidates c;
          outs = concat (map (in_outcomes \<circ> fst) out) @ co_outcomes c; ids = (\<Union>e \<in> set es. reported_ids e)
      in map ca_candidate_id all = [1..<candidate_count c + 1]
         \<and> (\<forall>x \<in> set all. ca_candidate_id x \<notin> ids \<longrightarrow>
              count_list (map sw_candidate_id (co_shadows c)) (ca_candidate_id x)
                + count_list (map oc_candidate_id outs) (ca_candidate_id x) = (if ca_verdict x = VReject then 1 else 0))
         \<and> (\<forall>es'. es = es' @ [StreamStop] \<longrightarrow> co_candidates c = [] \<and> co_outcomes c = []))"
proof -
  let ?ids = "\<Union>e \<in> set es. reported_ids e"
  let ?c0 = "set_inference_context ctx (collector_init feeds (new_collector config))"
  have "accounts ?ids ?c0 (co_candidates ?c0) (co_outcomes ?c0)"
    using accounts_new [of ?ids] by (simp add: set_inference_context_def collector_init_def new_collector_def)
  then have start: "streams ?ids [] (set_candidate_collector (Some ?c0) (new_batcher cfg))"
    by (simp add: streams_def set_candidate_collector_def)
  have sound: "\<forall>e \<in> set es. reported_ids e \<subseteq> ?ids \<and> collects_soundly e" using assms(2) by blast
  have "streams ?ids out bt" by (rule streams_run [OF assms(1) start sound])
  then obtain c where c: "bt_collector bt = Some c"
    "accounts ?ids c (concat (map (in_candidates \<circ> fst) out) @ co_candidates c) (concat (map (in_outcomes \<circ> fst) out) @ co_outcomes c)"
    by (auto simp: streams_def)
  have stopped: "co_candidates c = [] \<and> co_outcomes c = []" if stop: "es = es' @ [StreamStop]" for es'
  proof -
    obtain out0 bt1 new where r: "stream_run es' (set_candidate_collector (Some ?c0) (new_batcher cfg)) = Inr (out0, bt1)"
      "stream_step StreamStop bt1 = Inr (new, bt)"
      using assms(1) unfolding stop stream_run_snoc by blast
    obtain x where "emit_snapshot True bt1 = (x, bt)" using r(2) by (auto simp: batcher_stop_def split: prod.splits)
    moreover have "streams ?ids out0 bt1"
      using sound stop by (intro streams_run [OF r(1) start]) auto
    ultimately show ?thesis using streams_emit(3) c(1) by fastforce
  qed
  show ?thesis
    using c stopped by (intro exI [of _ c]) (auto simp: accounts_def paper_def candidate_count_def Let_def count_mset simp flip: mset_map)
qed

text \<open>The history of the collector above, streamed.\<close>

definition demo_candidates :: "stream_event list" where
  "demo_candidates = map StreamCollect (butlast demo_events) @ [StreamStop]"

lemma demo_candidates_run:
  "\<exists>out bt. stream_run demo_candidates (set_candidate_collector (Some demo_collector) (new_batcher default_batcher_config)) = Inr (out, bt)
     \<and> (\<exists>c. bt_collector bt = Some c \<and> candidate_count c = 1)"
proof -
  let ?fs = "[two_bars 12 5]" and ?b = "new_broker USD 10000 None"
  obtain s c1 where 1: "on_pre_order Buy 100 0 ?fs ?b demo_collector
      = Inr (\<lparr>por_candidate_id = 1, por_final_size = 0, por_rejected = True\<rparr>, c1)" "is_enabled c1"
    "map ca_verdict (co_candidates c1) = [VReject]" "co_outcomes c1 = []" "candidate_count c1 = 1"
    "co_shadows c1 = [s]" "sw_horizon_bars s = 50" "sw_bars_held s = 0" "sw_data_index s = 0"
    using demo_pre_order by (elim exE conjE)
  obtain c2 where 2: "on_bar ?fs ?b c1 = Inr c2" "co_next_candidate_id c2 = co_next_candidate_id c1"
    using demo_bar [OF 1(2) 1(6-8)] by blast
  have events: "demo_candidates = [StreamCollect (PreOrder Buy 100 0 ?fs ?b), StreamCollect (BarDone ?fs ?b), StreamStop]"
    by (simp add: demo_candidates_def demo_events_def)
  have "candidate_count c2 = 1" using 1(5) 2(2) by (simp add: candidate_count_def)
  then show ?thesis
    unfolding events
    by (simp add: stream_run_def collect_def set_candidate_collector_def 1(1) 2(1) batcher_stop_def emit_snapshot_def
        drain_candidates_def drain_outcomes_def candidate_count_def)
qed

theorem stream_delivers_candidates_witness:
  "\<exists>out bt. stream_run demo_candidates (set_candidate_collector (Some demo_collector) (new_batcher default_batcher_config)) = Inr (out, bt)
     \<and> map ca_candidate_id (concat (map (in_candidates \<circ> fst) out)) = [1]"
proof -
  obtain out bt c where r: "stream_run demo_candidates (set_candidate_collector (Some demo_collector) (new_batcher default_batcher_config)) = Inr (out, bt)"
    and c: "bt_collector bt = Some c" "candidate_count c = 1"
    using demo_candidates_run by (elim exE conjE)
  have sound: "\<forall>e \<in> set demo_candidates. collects_soundly e" by (simp add: demo_candidates_def demo_events_def)
  obtain c' where c': "bt_collector bt = Some c'"
    "map ca_candidate_id (concat (map (in_candidates \<circ> fst) out) @ co_candidates c') = [1..<candidate_count c' + 1]"
    "\<forall>es'. demo_candidates = es' @ [StreamStop] \<longrightarrow> co_candidates c' = [] \<and> co_outcomes c' = []"
    using stream_delivers_candidates [OF r [unfolded demo_collector_def] sound] unfolding Let_def by blast
  have "co_candidates c' = []" using c'(3) unfolding demo_candidates_def by simp
  then show ?thesis using r c c'(1,2) by simp
qed

end
