(* ===== verification/Json.thy ===== *)
theory Json
  imports Strategy
begin

text \<open>
  The text format of the increment wire: the escaping of strings in
  \<^verbatim>\<open>observers/increment_wire.hpp\<close>, and, as the reference it is measured against, the abstract
  syntax of JSON with a serializer and a reader. The reader works with a fuel that bounds the
  nesting; the length of the text is always enough.
\<close>

subsection \<open>Strings\<close>

abbreviation dquote :: char where "dquote \<equiv> CHR 0x22"
abbreviation backslash :: char where "backslash \<equiv> CHR 0x5C"

definition hex_char :: "nat \<Rightarrow> char" where
  "hex_char d = (if d < 10 then digit_char d else char_of (87 + d))"

definition json_escape_char :: "char \<Rightarrow> string" where
  "json_escape_char ch =
     (if ch = dquote then [backslash, dquote]
      else if ch = backslash then [backslash, backslash]
      else if ch = CHR 0x0A then [backslash, CHR ''n'']
      else if ch = CHR 0x0D then [backslash, CHR ''r'']
      else if ch = CHR 0x09 then [backslash, CHR ''t'']
      else if of_char ch < (32 :: nat) then
        backslash # ''u00'' @ [hex_char (of_char ch div 16), hex_char (of_char ch mod 16)]
      else [ch])"

definition json_escape :: "string \<Rightarrow> string" where
  "json_escape s = concat (map json_escape_char s)"

text \<open>The reader of a string, after its opening quote: the string and what follows the closing quote.\<close>

definition hex_value :: "char \<Rightarrow> nat" where
  "hex_value c = (let n = of_char c in if n < 58 then n - 48 else n - 87)"

fun read_string :: "string \<Rightarrow> (string \<times> string) option" where
  "read_string [] = None"
| "read_string (c # cs) =
     (if c = dquote then Some ([], cs)
      else if c = backslash then
        (case cs of
           [] \<Rightarrow> None
         | d # ds \<Rightarrow>
             if d = CHR ''u'' then
               (case ds of
                  h1 # h2 # h3 # h4 # es \<Rightarrow>
                    map_option (\<lambda>(s, rest). (char_of (hex_value h3 * 16 + hex_value h4) # s, rest)) (read_string es)
                | _ \<Rightarrow> None)
             else
               map_option (\<lambda>(s, rest). ((if d = CHR ''n'' then CHR 0x0A else if d = CHR ''r'' then CHR 0x0D
                                          else if d = CHR ''t'' then CHR 0x09 else d) # s, rest)) (read_string ds))
      else map_option (\<lambda>(s, rest). (c # s, rest)) (read_string cs))"

lemma hex_value_char: "d < 16 \<Longrightarrow> hex_value (hex_char d) = d"
  by (simp add: hex_value_def hex_char_def digit_char_def of_char_of Let_def)

lemma read_escaped_char: "read_string (json_escape_char c @ rest) = map_option (\<lambda>(s, r). (c # s, r)) (read_string rest)"
proof -
  have hex: "of_char c div 16 < (16 :: nat)" "of_char c mod 16 < (16 :: nat)" if "of_char c < (32 :: nat)" using that by auto
  have char: "char_of (of_char c div 16 * 16 + of_char c mod 16 :: nat) = c" by (simp add: div_mult_mod_eq)
  have ne: "CHR ''u'' \<noteq> dquote" "CHR ''u'' \<noteq> backslash" by simp_all
  show ?thesis
    by (cases "read_string rest")
       (auto simp: json_escape_char_def hex hex_value_char char)
qed

lemma read_escaped: "read_string (json_escape s @ dquote # rest) = Some (s, rest)"
proof (induction s)
  case (Cons c s)
  then show ?case by (simp add: json_escape_def read_escaped_char)
qed (simp add: json_escape_def)

subsection \<open>Values\<close>

datatype json =
  JNull
| JBool bool
| JNumber string
| JString string
| JArray "json list"
| JObject "(string \<times> json) list"

definition quoted :: "string \<Rightarrow> string" where
  "quoted s = dquote # json_escape s @ [dquote]"

fun render :: "json \<Rightarrow> string"
  and render_items :: "json list \<Rightarrow> string"
  and render_members :: "(string \<times> json) list \<Rightarrow> string" where
  "render JNull = ''null''"
| "render (JBool b) = (if b then ''true'' else ''false'')"
| "render (JNumber t) = t"
| "render (JString s) = quoted s"
| "render (JArray xs) = ''['' @ render_items xs @ '']''"
| "render (JObject ms) = ''{'' @ render_members ms @ ''}''"
| "render_items [] = []"
| "render_items [x] = render x"
| "render_items (x # y # xs) = render x @ '','' @ render_items (y # xs)"
| "render_members [] = []"
| "render_members [(k, v)] = quoted k @ '':'' @ render v"
| "render_members ((k, v) # m # ms) = quoted k @ '':'' @ render v @ '','' @ render_members (m # ms)"

definition number_char :: "char \<Rightarrow> bool" where
  "number_char c \<longleftrightarrow> c \<in> set ''0123456789+-.e''"

definition number_token :: "string \<Rightarrow> bool" where
  "number_token t \<longleftrightarrow> t \<noteq> [] \<and> list_all number_char t"

fun wf_json :: "json \<Rightarrow> bool" where
  "wf_json (JNumber t) \<longleftrightarrow> number_token t"
| "wf_json (JArray xs) \<longleftrightarrow> (\<forall>x \<in> set xs. wf_json x)"
| "wf_json (JObject ms) \<longleftrightarrow> (\<forall>m \<in> set ms. wf_json (snd m))"
| "wf_json _ \<longleftrightarrow> True"

fun parse :: "nat \<Rightarrow> string \<Rightarrow> (json \<times> string) option"
  and parse_items :: "nat \<Rightarrow> string \<Rightarrow> (json list \<times> string) option"
  and parse_members :: "nat \<Rightarrow> string \<Rightarrow> ((string \<times> json) list \<times> string) option" where
  "parse 0 cs = None"
| "parse (Suc n) cs =
     (if take 4 cs = ''null'' then Some (JNull, drop 4 cs)
      else if take 4 cs = ''true'' then Some (JBool True, drop 4 cs)
      else if take 5 cs = ''false'' then Some (JBool False, drop 5 cs)
      else (case cs of
          [] \<Rightarrow> None
        | c # ds \<Rightarrow>
            if c = dquote then map_option (\<lambda>(s, rest). (JString s, rest)) (read_string ds)
            else if c = CHR ''['' then
              (if take 1 ds = '']'' then Some (JArray [], drop 1 ds)
               else map_option (\<lambda>(xs, rest). (JArray xs, rest)) (parse_items n ds))
            else if c = CHR ''{'' then
              (if take 1 ds = ''}'' then Some (JObject [], drop 1 ds)
               else map_option (\<lambda>(ms, rest). (JObject ms, rest)) (parse_members n ds))
            else if number_char c then Some (JNumber (takeWhile number_char cs), dropWhile number_char cs)
            else None))"
| "parse_items 0 cs = None"
| "parse_items (Suc n) cs =
     (case parse n cs of
        Some (x, d # ds) \<Rightarrow>
          if d = CHR '','' then map_option (\<lambda>(xs, rest). (x # xs, rest)) (parse_items n ds)
          else if d = CHR '']'' then Some ([x], ds) else None
      | _ \<Rightarrow> None)"
| "parse_members 0 cs = None"
| "parse_members (Suc n) cs =
     (if take 1 cs = [dquote] then
        (case read_string (drop 1 cs) of
           Some (k, CHR '':'' # es) \<Rightarrow>
             (case parse n es of
                Some (v, d # ds) \<Rightarrow>
                  if d = CHR '','' then map_option (\<lambda>(ms, rest). ((k, v) # ms, rest)) (parse_members n ds)
                  else if d = CHR ''}'' then Some ([(k, v)], ds) else None
              | _ \<Rightarrow> None)
         | _ \<Rightarrow> None)
      else None)"

definition parse_json :: "string \<Rightarrow> json option" where
  "parse_json text = (case parse (length text) text of Some (j, []) \<Rightarrow> Some j | _ \<Rightarrow> None)"

subsection \<open>Reading back\<close>

text \<open>The fuel a value needs, and that its text is at least as long.\<close>

fun need :: "json \<Rightarrow> nat" and need_items :: "json list \<Rightarrow> nat" and need_members :: "(string \<times> json) list \<Rightarrow> nat" where
  "need (JArray xs) = Suc (need_items xs)"
| "need (JObject ms) = Suc (need_members ms)"
| "need _ = 1"
| "need_items [] = 0"
| "need_items (x # xs) = Suc (max (need x) (need_items xs))"
| "need_members [] = 0"
| "need_members ((k, v) # ms) = Suc (max (need v) (need_members ms))"

lemma need_bound:
  "wf_json j \<Longrightarrow> need j \<le> length (render j)"
  "(\<forall>x \<in> set xs. wf_json x) \<Longrightarrow> need_items xs \<le> Suc (length (render_items xs))"
  "(\<forall>m \<in> set ms. wf_json (snd m)) \<Longrightarrow> need_members ms \<le> Suc (length (render_members ms))"
  by (induction j and xs and ms rule: render_render_items_render_members.induct)
     (auto simp: number_token_def quoted_def Suc_le_eq)

definition ends :: "string \<Rightarrow> bool" where
  "ends rest \<longleftrightarrow> (case rest of [] \<Rightarrow> True | c # cs \<Rightarrow> \<not> number_char c)"

lemma token_split:
  assumes "number_token t" and "ends rest"
  shows "takeWhile number_char (t @ rest) = t" "dropWhile number_char (t @ rest) = rest"
proof -
  have "takeWhile number_char rest = []" "dropWhile number_char rest = rest"
    using assms(2) by (auto simp: ends_def split: list.splits)
  then show "takeWhile number_char (t @ rest) = t" "dropWhile number_char (t @ rest) = rest"
    using assms(1) by (auto simp: number_token_def list_all_iff takeWhile_append dropWhile_append)
qed

lemma token_head:
  assumes "number_token t"
  obtains c cs where "t = c # cs" and "number_char c"
  using assms by (cases t) (auto simp: number_token_def)

lemma read_quoted: "read_string (json_escape s @ dquote # rest) = Some (s, rest)"
  by (rule read_escaped)

lemma parse_token:
  assumes "number_token t" and "ends rest"
  shows "parse (Suc n) (t @ rest) = Some (JNumber t, rest)"
proof -
  obtain c cs where c: "t = c # cs" "number_char c" by (rule token_head [OF assms(1)])
  then have "c \<noteq> CHR ''n'' \<and> c \<noteq> CHR ''t'' \<and> c \<noteq> CHR ''f'' \<and> c \<noteq> dquote \<and> c \<noteq> CHR ''['' \<and> c \<noteq> CHR ''{''"
    by (auto simp: number_char_def)
  then show ?thesis using token_split [OF assms] c by auto
qed

lemma not_number [simp]:
  "\<not> number_char CHR '',''" "\<not> number_char CHR '']''" "\<not> number_char CHR ''}''"
  by (simp_all add: number_char_def)

lemma head_value:
  assumes "wf_json j"
  shows "\<exists>c cs. render j = c # cs \<and> c \<noteq> CHR '']'' \<and> c \<noteq> CHR ''}''"
  using assms by (cases j) (auto simp: quoted_def elim!: token_head)

lemma parse_render:
  "wf_json j \<Longrightarrow> need j \<le> n \<Longrightarrow> ends rest \<Longrightarrow> parse n (render j @ rest) = Some (j, rest)"
  "xs \<noteq> [] \<Longrightarrow> (\<forall>x \<in> set xs. wf_json x) \<Longrightarrow> need_items xs \<le> n \<Longrightarrow>
     parse_items n (render_items xs @ CHR '']'' # rest) = Some (xs, rest)"
  "ms \<noteq> [] \<Longrightarrow> (\<forall>m \<in> set ms. wf_json (snd m)) \<Longrightarrow> need_members ms \<le> n \<Longrightarrow>
     parse_members n (render_members ms @ CHR ''}'' # rest) = Some (ms, rest)"
proof (induction j and xs and ms arbitrary: n rest and n rest and n rest rule: render_render_items_render_members.induct)
  case 1
  then show ?case by (cases n) auto
next
  case (2 b)
  then show ?case by (cases n) auto
next
  case (3 t)
  then show ?case using parse_token by (cases n) auto
next
  case (4 s)
  then show ?case by (cases n) (auto simp: quoted_def read_quoted)
next
  case (5 xs)
  then obtain m where m: "n = Suc m" "need_items xs \<le> m" by (cases n) auto
  show ?case
  proof (cases xs)
    case Nil
    then show ?thesis by (simp add: m(1))
  next
    case (Cons x ys)
    have "\<exists>c cs. render_items xs = c # cs \<and> c \<noteq> CHR '']''"
      using Cons head_value [of x] 5(2) by (cases ys) auto
    moreover have "parse_items m (render_items xs @ CHR '']'' # rest) = Some (xs, rest)"
      using 5 m(2) Cons by simp
    ultimately show ?thesis by (auto simp: m(1))
  qed
next
  case (6 ms)
  then obtain m where m: "n = Suc m" "need_members ms \<le> m" by (cases n) auto
  show ?case
  proof (cases ms)
    case Nil
    then show ?thesis by (simp add: m(1))
  next
    case (Cons x ys)
    have "\<exists>cs. render_members ms = dquote # cs"
      using Cons by (cases x; cases ys) (auto simp: quoted_def)
    moreover have "parse_members m (render_members ms @ CHR ''}'' # rest) = Some (ms, rest)"
      using 6 m(2) Cons by simp
    ultimately show ?thesis by (auto simp: m(1))
  qed
next
  case (8 x)
  then obtain m where "n = Suc m" "need x \<le> m" by (cases n) auto
  then show ?case using 8 by (simp add: ends_def)
next
  case (9 x y xs)
  then obtain m where m: "n = Suc m" "need x \<le> m" "need_items (y # xs) \<le> m" by (cases n) auto
  have "parse m (render x @ CHR '','' # render_items (y # xs) @ CHR '']'' # rest)
      = Some (x, CHR '','' # render_items (y # xs) @ CHR '']'' # rest)"
    using 9 m(2) by (simp add: ends_def)
  moreover have "parse_items m (render_items (y # xs) @ CHR '']'' # rest) = Some (y # xs, rest)"
    using 9 m(3) by simp
  ultimately show ?case by (simp add: m(1))
next
  case (11 k v)
  then obtain m where "n = Suc m" "need v \<le> m" by (cases n) auto
  then show ?case using 11 by (simp add: ends_def quoted_def read_quoted)
next
  case (12 k v x ms)
  then obtain m where m: "n = Suc m" "need v \<le> m" "need_members (x # ms) \<le> m" by (cases n) auto
  have "parse m (render v @ CHR '','' # render_members (x # ms) @ CHR ''}'' # rest)
      = Some (v, CHR '','' # render_members (x # ms) @ CHR ''}'' # rest)"
    using 12 m(2) by (simp add: ends_def)
  moreover have "parse_members m (render_members (x # ms) @ CHR ''}'' # rest) = Some (x # ms, rest)"
    using 12 m(3) by simp
  ultimately show ?case by (simp add: m(1) quoted_def read_quoted)
qed simp_all

theorem json_reads_back:
  assumes "wf_json j"
  shows "parse_json (render j) = Some j"
  using parse_render(1) [OF assms need_bound(1) [OF assms], of "[]"] assms
  by (simp add: parse_json_def ends_def)

end
