(* ===== verification/Wire.thy ===== *)
theory Wire
  imports Streaming Json
begin

text \<open>
  \<^verbatim>\<open>observers/increment_wire.hpp\<close>: the text that is sent for a snapshot. How an output stream prints
  a double is a parameter (\<open>num\<close>); integers are decimal and times are milliseconds, rounded
  towards zero.
\<close>

subsection \<open>The serializer\<close>

definition show_int :: "int \<Rightarrow> string" where
  "show_int i = (if i < 0 then CHR ''-'' # nat_to_string (nat (- i)) else nat_to_string (nat i))"

definition show_ms :: "datetime \<Rightarrow> string" where
  "show_ms t = show_int (t sdiv 1000000)"

text \<open>A quoted key with its colon, and a list with commas between its elements.\<close>

definition key :: "string \<Rightarrow> string" where
  "key k = dquote # k @ [dquote, CHR '':'']"

fun comma_list :: "string list \<Rightarrow> string" where
  "comma_list [] = []"
| "comma_list [x] = x"
| "comma_list (x # y # xs) = x @ '','' @ comma_list (y # xs)"

definition wire_candle :: "(real \<Rightarrow> string) \<Rightarrow> real bar \<Rightarrow> string" where
  "wire_candle num b =
     ''{'' @ key ''timestamp'' @ show_ms (bar_timestamp b) @ '','' @ key ''open'' @ num (bar_open b) @ '','' @
     key ''high'' @ num (bar_high b) @ '','' @ key ''low'' @ num (bar_low b) @ '','' @ key ''close'' @ num (bar_close b)
     @ '','' @ key ''volume'' @ num (bar_volume b) @ ''}''"

definition wire_equity :: "(real \<Rightarrow> string) \<Rightarrow> equity_point \<Rightarrow> string" where
  "wire_equity num e =
     ''{'' @ key ''timestamp'' @ show_ms (ep_timestamp e) @ '','' @ key ''equity'' @ num (ep_portfolio_value e) @ '','' @
     key ''drawdown'' @ num (ep_drawdown_pct e) @ ''}''"

definition trade_symbol :: "nfeed list \<Rightarrow> trade_record \<Rightarrow> string" where
  "trade_symbol feeds t = (if tr_data_index t < length feeds then nf_name (feeds ! tr_data_index t) else [])"

definition trade_side :: "trade_record \<Rightarrow> string" where
  "trade_side t = (if 0 < tr_size t then ''long'' else if tr_size t < 0 then ''short'' else ''flat'')"

definition wire_trade :: "(real \<Rightarrow> string) \<Rightarrow> nfeed list \<Rightarrow> trade_record \<Rightarrow> string" where
  "wire_trade num feeds t =
     ''{'' @ key ''entryTime'' @ show_ms (tr_entry_time t) @ '','' @ key ''exitTime'' @ show_ms (tr_exit_time t) @ '','' @
     key ''symbol'' @ [dquote] @ json_escape (trade_symbol feeds t) @ [dquote] @ '','' @
     key ''side'' @ [dquote] @ trade_side t @ [dquote] @ '','' @ key ''entryPrice'' @ num (tr_entry_price t) @ '','' @
     key ''exitPrice'' @ num (tr_exit_price t) @ '','' @ key ''commission'' @ num (tr_commission t) @ '','' @
     key ''pnl'' @ num (tr_pnl t) @ '','' @ key ''quantity'' @ num \<bar>tr_size t\<bar> @ '','' @
     key ''reason'' @ [dquote] @ [dquote] @ ''}''"

definition wire_metrics :: "(real \<Rightarrow> string) \<Rightarrow> metrics \<Rightarrow> string" where
  "wire_metrics num m =
     ''{'' @ key ''totalPnl'' @ num (mt_realized_pnl m + mt_unrealized_pnl m) @ '','' @
     key ''totalReturn'' @ num (mt_total_return_pct m) @ '','' @ key ''totalTrades'' @ nat_to_string (mt_trade_count m) @ '','' @
     key ''winningTrades'' @ nat_to_string (mt_winning_count m) @ '','' @
     key ''losingTrades'' @ nat_to_string (mt_losing_count m) @ '','' @ key ''winRate'' @ num (mt_win_rate_pct m) @ ''}''"

definition verdict_code :: "gate_verdict \<Rightarrow> nat" where
  "verdict_code v = (case v of VPass \<Rightarrow> 0 | VReject \<Rightarrow> 1 | VCollectOnly \<Rightarrow> 2 | VDisabled \<Rightarrow> 3)"

definition wire_candidate :: "(real \<Rightarrow> string) \<Rightarrow> candidate \<Rightarrow> string" where
  "wire_candidate num c =
     ''{'' @ key ''candidateId'' @ nat_to_string (ca_candidate_id c) @ '','' @
     key ''asOfTimestampNs'' @ nat_to_string (unat (ca_as_of_ns c)) @ '','' @
     key ''symbolId'' @ nat_to_string (unat (ca_symbol_id c)) @ '','' @
     key ''side'' @ [dquote] @ (if ca_side c = CLong then ''long'' else ''short'') @ [dquote] @ '','' @
     key ''proposedSize'' @ num (ca_proposed_size c) @ '','' @ key ''finalSize'' @ num (ca_final_size c) @ '','' @
     key ''featureVector'' @ ''['' @ comma_list (map (\<lambda>i. num (ca_features c ! i)) [0..<feature_count]) @ '']'' @ '','' @
     key ''featureSchemaHash'' @ nat_to_string (unat (ca_schema_hash c)) @ '','' @
     key ''gateVerdict'' @ nat_to_string (verdict_code (ca_verdict c)) @ '','' @
     key ''calibratedProbability'' @ num (ca_probability c) @ ''}''"

definition outcome_type_code :: "outcome_type \<Rightarrow> nat" where
  "outcome_type_code t = (case t of OActual \<Rightarrow> 0 | OShadow \<Rightarrow> 1 | OCensored \<Rightarrow> 2)"

definition completion_code :: "completion_status \<Rightarrow> nat" where
  "completion_code s = (case s of SComplete \<Rightarrow> 0 | SCensored \<Rightarrow> 1)"

definition wire_outcome :: "(real \<Rightarrow> string) \<Rightarrow> outcome \<Rightarrow> string" where
  "wire_outcome num r =
     ''{'' @ key ''candidateId'' @ nat_to_string (oc_candidate_id r) @ '','' @
     key ''outcomeType'' @ nat_to_string (outcome_type_code (oc_type r)) @ '','' @
     key ''entryTimestampNs'' @ nat_to_string (unat (oc_entry_ns r)) @ '','' @
     key ''exitTimestampNs'' @ nat_to_string (unat (oc_exit_ns r)) @ '','' @
     key ''holdingIntervalBars'' @ nat_to_string (unat (oc_holding_bars r)) @ '','' @
     key ''grossPnl'' @ num (oc_gross_pnl r) @ '','' @ key ''commission'' @ num (oc_commission r) @ '','' @
     key ''slippage'' @ num (oc_slippage r) @ '','' @ key ''netPnl'' @ num (oc_net_pnl r) @ '','' @
     key ''completionStatus'' @ nat_to_string (completion_code (oc_status r)) @ '','' @
     key ''profitLabel'' @ show_int (oc_profit_label r) @ ''}''"

definition snapshot_to_increment_v2_json :: "(real \<Rightarrow> string) \<Rightarrow> increment \<Rightarrow> nfeed list \<Rightarrow> string" where
  "snapshot_to_increment_v2_json num s feeds =
     ''{'' @ key ''seq'' @ nat_to_string (in_seq s) @ '','' @
     key ''isFinal'' @ (if in_is_final s then ''true'' else ''false'') @ '','' @
     key ''droppedSinceLastFlush'' @ nat_to_string (unat (in_dropped s)) @ '','' @
     key ''processedBars'' @ nat_to_string (in_processed s) @ '','' @
     key ''totalBars'' @ (case in_total_bars s of Some n \<Rightarrow> nat_to_string n | None \<Rightarrow> ''null'') @ '','' @
     key ''newCandles'' @ ''['' @ comma_list (map (wire_candle num) (in_bars s)) @ '']'' @ '','' @
     key ''newEquityPoints'' @ ''['' @ comma_list (map (wire_equity num) (in_equity s)) @ '']'' @ '','' @
     key ''newTrades'' @ ''['' @ comma_list (map (wire_trade num feeds) (in_trades s)) @ '']'' @ '','' @
     key ''currentMetrics'' @ wire_metrics num (in_metrics s) @ '','' @
     key ''newCandidates'' @ ''['' @ comma_list (map (wire_candidate num) (in_candidates s)) @ '']'' @ '','' @
     key ''newOutcomes'' @ ''['' @ comma_list (map (wire_outcome num) (in_outcomes s)) @ '']'' @ ''}''"

subsection \<open>The value it stands for\<close>

definition json_candle :: "(real \<Rightarrow> string) \<Rightarrow> real bar \<Rightarrow> json" where
  "json_candle num b = JObject
     [(''timestamp'', JNumber (show_ms (bar_timestamp b))), (''open'', JNumber (num (bar_open b))),
      (''high'', JNumber (num (bar_high b))), (''low'', JNumber (num (bar_low b))),
      (''close'', JNumber (num (bar_close b))), (''volume'', JNumber (num (bar_volume b)))]"

definition json_equity :: "(real \<Rightarrow> string) \<Rightarrow> equity_point \<Rightarrow> json" where
  "json_equity num e = JObject
     [(''timestamp'', JNumber (show_ms (ep_timestamp e))), (''equity'', JNumber (num (ep_portfolio_value e))),
      (''drawdown'', JNumber (num (ep_drawdown_pct e)))]"

definition json_trade :: "(real \<Rightarrow> string) \<Rightarrow> nfeed list \<Rightarrow> trade_record \<Rightarrow> json" where
  "json_trade num feeds t = JObject
     [(''entryTime'', JNumber (show_ms (tr_entry_time t))), (''exitTime'', JNumber (show_ms (tr_exit_time t))),
      (''symbol'', JString (trade_symbol feeds t)), (''side'', JString (trade_side t)),
      (''entryPrice'', JNumber (num (tr_entry_price t))), (''exitPrice'', JNumber (num (tr_exit_price t))),
      (''commission'', JNumber (num (tr_commission t))), (''pnl'', JNumber (num (tr_pnl t))),
      (''quantity'', JNumber (num \<bar>tr_size t\<bar>)), (''reason'', JString [])]"

definition json_metrics :: "(real \<Rightarrow> string) \<Rightarrow> metrics \<Rightarrow> json" where
  "json_metrics num m = JObject
     [(''totalPnl'', JNumber (num (mt_realized_pnl m + mt_unrealized_pnl m))),
      (''totalReturn'', JNumber (num (mt_total_return_pct m))), (''totalTrades'', JNumber (nat_to_string (mt_trade_count m))),
      (''winningTrades'', JNumber (nat_to_string (mt_winning_count m))),
      (''losingTrades'', JNumber (nat_to_string (mt_losing_count m))), (''winRate'', JNumber (num (mt_win_rate_pct m)))]"

definition json_candidate :: "(real \<Rightarrow> string) \<Rightarrow> candidate \<Rightarrow> json" where
  "json_candidate num c = JObject
     [(''candidateId'', JNumber (nat_to_string (ca_candidate_id c))),
      (''asOfTimestampNs'', JNumber (nat_to_string (unat (ca_as_of_ns c)))),
      (''symbolId'', JNumber (nat_to_string (unat (ca_symbol_id c)))),
      (''side'', JString (if ca_side c = CLong then ''long'' else ''short'')),
      (''proposedSize'', JNumber (num (ca_proposed_size c))), (''finalSize'', JNumber (num (ca_final_size c))),
      (''featureVector'', JArray (map (\<lambda>i. JNumber (num (ca_features c ! i))) [0..<feature_count])),
      (''featureSchemaHash'', JNumber (nat_to_string (unat (ca_schema_hash c)))),
      (''gateVerdict'', JNumber (nat_to_string (verdict_code (ca_verdict c)))),
      (''calibratedProbability'', JNumber (num (ca_probability c)))]"

definition json_outcome :: "(real \<Rightarrow> string) \<Rightarrow> outcome \<Rightarrow> json" where
  "json_outcome num r = JObject
     [(''candidateId'', JNumber (nat_to_string (oc_candidate_id r))),
      (''outcomeType'', JNumber (nat_to_string (outcome_type_code (oc_type r)))),
      (''entryTimestampNs'', JNumber (nat_to_string (unat (oc_entry_ns r)))),
      (''exitTimestampNs'', JNumber (nat_to_string (unat (oc_exit_ns r)))),
      (''holdingIntervalBars'', JNumber (nat_to_string (unat (oc_holding_bars r)))),
      (''grossPnl'', JNumber (num (oc_gross_pnl r))), (''commission'', JNumber (num (oc_commission r))),
      (''slippage'', JNumber (num (oc_slippage r))), (''netPnl'', JNumber (num (oc_net_pnl r))),
      (''completionStatus'', JNumber (nat_to_string (completion_code (oc_status r)))),
      (''profitLabel'', JNumber (show_int (oc_profit_label r)))]"

definition json_of_snapshot :: "(real \<Rightarrow> string) \<Rightarrow> increment \<Rightarrow> nfeed list \<Rightarrow> json" where
  "json_of_snapshot num s feeds = JObject
     [(''seq'', JNumber (nat_to_string (in_seq s))), (''isFinal'', JBool (in_is_final s)),
      (''droppedSinceLastFlush'', JNumber (nat_to_string (unat (in_dropped s)))),
      (''processedBars'', JNumber (nat_to_string (in_processed s))),
      (''totalBars'', case in_total_bars s of Some n \<Rightarrow> JNumber (nat_to_string n) | None \<Rightarrow> JNull),
      (''newCandles'', JArray (map (json_candle num) (in_bars s))),
      (''newEquityPoints'', JArray (map (json_equity num) (in_equity s))),
      (''newTrades'', JArray (map (json_trade num feeds) (in_trades s))),
      (''currentMetrics'', json_metrics num (in_metrics s)),
      (''newCandidates'', JArray (map (json_candidate num) (in_candidates s))),
      (''newOutcomes'', JArray (map (json_outcome num) (in_outcomes s)))]"

text \<open>The value of a member of an object.\<close>

fun member :: "string \<Rightarrow> json \<Rightarrow> json option" where
  "member k (JObject ms) = map_of ms k"
| "member k _ = None"

lemma items_comma: "render_items (map f xs) = comma_list (map (\<lambda>x. render (f x)) xs)"
  by (induction xs rule: induct_list012) simp_all

definition plain :: "string \<Rightarrow> bool" where
  "plain s \<longleftrightarrow> list_all (\<lambda>c. json_escape_char c = [c]) s"

lemma escape_plain: "plain s \<Longrightarrow> json_escape s = s"
  by (induction s) (auto simp: plain_def json_escape_def)

lemma quoted_key: "plain k \<Longrightarrow> quoted k @ '':'' @ rest = key k @ rest"
  by (simp add: quoted_def key_def escape_plain)

lemma plain_keys:
  "list_all plain [''timestamp'', ''open'', ''high'', ''low'', ''close'', ''volume'', ''equity'', ''drawdown'', ''entryTime'',
     ''exitTime'', ''symbol'', ''side'', ''entryPrice'', ''exitPrice'', ''commission'', ''pnl'', ''quantity'', ''reason'',
     ''totalPnl'', ''totalReturn'', ''totalTrades'', ''winningTrades'', ''losingTrades'', ''winRate'', ''candidateId'',
     ''asOfTimestampNs'', ''symbolId'', ''proposedSize'', ''finalSize'', ''featureVector'', ''featureSchemaHash'',
     ''gateVerdict'', ''calibratedProbability'', ''outcomeType'', ''entryTimestampNs'', ''exitTimestampNs'',
     ''holdingIntervalBars'', ''grossPnl'', ''slippage'', ''netPnl'', ''completionStatus'', ''profitLabel'', ''seq'',
     ''isFinal'', ''droppedSinceLastFlush'', ''processedBars'', ''totalBars'', ''newCandles'', ''newEquityPoints'',
     ''newTrades'', ''currentMetrics'', ''newCandidates'', ''newOutcomes'', ''long'', ''short'', ''flat'']"
  by code_simp

lemmas plain_key = plain_keys [unfolded list.pred_inject]

lemma render_wire:
  "render (json_candle num b) = wire_candle num b"
  "render (json_equity num e) = wire_equity num e"
  "render (json_metrics num m) = wire_metrics num m"
  by (simp_all add: json_candle_def wire_candle_def json_equity_def wire_equity_def json_metrics_def wire_metrics_def
      quoted_key plain_key del: append_Cons)

lemma quoted_plain: "plain k \<Longrightarrow> quoted k = dquote # k @ [dquote]"
  by (simp add: quoted_def escape_plain)

lemma quoted_side: "quoted (trade_side t) = dquote # trade_side t @ [dquote]"
  using plain_key by (simp add: trade_side_def quoted_plain)

lemma quoted_long:
  "quoted (if b then ''long'' else ''short'') = dquote # (if b then ''long'' else ''short'') @ [dquote]"
  using plain_key by (simp add: quoted_plain)

lemma quoted_empty: "quoted [] = [dquote, dquote]"
  by (simp add: quoted_def json_escape_def)

lemma render_trade: "render (json_trade num feeds t) = wire_trade num feeds t"
  by (simp add: json_trade_def wire_trade_def quoted_side quoted_empty)
     (simp add: quoted_def key_def escape_plain plain_key)

lemma render_candidate: "render (json_candidate num c) = wire_candidate num c"
  by (simp add: json_candidate_def wire_candidate_def quoted_plain key_def quoted_long items_comma plain_key split del: if_split)

lemma render_outcome: "render (json_outcome num r) = wire_outcome num r"
  by (simp add: json_outcome_def wire_outcome_def quoted_plain key_def plain_key)

lemma render_total: "render (case t of Some n \<Rightarrow> JNumber (nat_to_string n) | None \<Rightarrow> JNull) =
    (case t of Some n \<Rightarrow> nat_to_string n | None \<Rightarrow> ''null'')"
  by (cases t) simp_all

lemma render_snapshot: "render (json_of_snapshot num s feeds) = snapshot_to_increment_v2_json num s feeds"
  by (simp add: json_of_snapshot_def snapshot_to_increment_v2_json_def quoted_plain key_def plain_key items_comma render_wire
      render_trade render_candidate render_outcome render_total)

lemma digit_chars:
  "map digit_char [0, 1, 2, 3, 4, 5, 6, 7, 8, 9] = ''0123456789''"
  by code_simp

lemma number_digits: "number_token (nat_to_string n)"
proof (induction n rule: nat_to_string.induct)
  case (1 n)
  have digit: "number_char (digit_char d)" if "d < 10" for d
  proof -
    have "d \<in> {0, 1, 2, 3, 4, 5, 6, 7, 8, 9}" using that by auto
    then show ?thesis using digit_chars by (auto simp: number_char_def)
  qed
  show ?case
    using 1 digit by (subst nat_to_string.simps) (auto simp: number_token_def)
qed

lemma number_int: "number_token (show_int i)"
  using number_digits by (auto simp: show_int_def number_token_def number_char_def)

lemma number_ms: "number_token (show_ms t)"
  by (simp add: show_ms_def number_int)

lemma wf_snapshot:
  assumes "\<And>x. number_token (num x)"
  shows "wf_json (json_of_snapshot num s feeds)"
  by (auto simp: json_of_snapshot_def json_candle_def json_equity_def json_trade_def json_metrics_def json_candidate_def
      json_outcome_def assms number_digits number_int number_ms split: option.split)


text \<open>A feed whose name has a quote, a backslash and a line feed, and a printer of numbers.\<close>

definition demo_num :: "real \<Rightarrow> string" where
  "demo_num x = show_int \<lfloor>x\<rfloor>"

definition demo_increment :: increment where
  "demo_increment = fst (fst (emit_snapshot True (batcher_notify_trade (new_trade\<lparr>t_size := - 3\<rparr>) (new_batcher default_batcher_config))))"

definition odd_feed :: nfeed where
  "odd_feed = (two_bars 12 5)\<lparr>nf_name := [CHR ''a'', dquote, backslash, CHR 0x0A]\<rparr>"


end
