(* ===== verification/Csv.thy ===== *)
theory Csv
  imports Strategy
begin

text \<open>
  \<^verbatim>\<open>data/csv_data.hpp\<close>: the CSV feed. The files and the routines of the C library (\<open>strtod\<close>, with the
  number of characters it took, \<open>get_time\<close>, \<open>mktime\<close>) are one record of parameters; a \<open>tm\<close> is
  any type. The columns that the code does not check are never negative. Reserving capacity
  is left out; a carriage return is \<open>CHR 0x0D\<close>.
\<close>

subsection \<open>State\<close>

record csv_columns =
  cm_datetime :: nat
  cm_time :: int
  cm_open :: nat
  cm_high :: nat
  cm_low :: nat
  cm_close :: nat
  cm_volume :: int
  cm_openinterest :: int

definition default_columns :: csv_columns where
  "default_columns = \<lparr>cm_datetime = 0, cm_time = - 1, cm_open = 1, cm_high = 2, cm_low = 3, cm_close = 4,
     cm_volume = 5, cm_openinterest = 6\<rparr>"

record diagnostics =
  dg_parsed :: nat
  dg_truncated :: nat
  dg_empty :: nat
  dg_filtered :: nat
  dg_bad_number :: nat
  dg_bad_datetime :: nat
  dg_duplicates :: nat
  dg_disorder :: nat

definition no_diagnostics :: diagnostics where
  "no_diagnostics = \<lparr>dg_parsed = 0, dg_truncated = 0, dg_empty = 0, dg_filtered = 0, dg_bad_number = 0,
     dg_bad_datetime = 0, dg_duplicates = 0, dg_disorder = 0\<rparr>"

record csv_params =
  cp_filename :: string
  cp_columns :: csv_columns
  cp_date_format :: string
  cp_time_format :: string
  cp_separator :: char
  cp_has_headers :: bool
  cp_fromdate :: "datetime option"
  cp_todate :: "datetime option"

record csv =
  cd_params :: csv_params
  cd_diag :: diagnostics
  cd_loaded :: bool
  cd_feed :: "fpval feed"

definition new_csv :: "csv_params \<Rightarrow> csv" where
  "new_csv p = \<lparr>cd_params = p, cd_diag = no_diagnostics, cd_loaded = False, cd_feed = empty_feed\<rparr>"

definition csv_clone :: "csv \<Rightarrow> csv" where
  "csv_clone c = new_csv (cd_params c)"

record 'tm c_library =
  li_open :: "string \<Rightarrow> string option"
  li_strtod :: "string \<Rightarrow> fpval \<times> nat"
  li_tm0 :: 'tm
  li_get_time :: "string \<Rightarrow> string \<Rightarrow> 'tm \<Rightarrow> 'tm \<times> bool"
  li_mktime :: "'tm \<Rightarrow> datetime"

subsection \<open>Fields\<close>

function csv_split :: "char \<Rightarrow> string \<Rightarrow> string list" where
  "csv_split delim s =
     (case dropWhile (\<lambda>c. c \<noteq> delim) s of
        [] \<Rightarrow> [s]
      | c # rest \<Rightarrow> takeWhile (\<lambda>c. c \<noteq> delim) s # csv_split delim rest)"
  by pat_completeness auto
termination
proof (relation "measure (\<lambda>(delim, s). length s)")
  fix delim :: char and s c rest assume "dropWhile (\<lambda>c. c \<noteq> delim) s = c # rest"
  then have "length (c # rest) \<le> length s" using length_dropWhile_le [of "\<lambda>c. c \<noteq> delim" s] by simp
  then show "((delim, rest), (delim, s)) \<in> measure (\<lambda>(delim, s). length s)" by simp
qed simp

declare csv_split.simps [simp del]

text \<open>What \<open>getline\<close> delivers: there is no line after the last line feed.\<close>

definition lines_of :: "string \<Rightarrow> string list" where
  "lines_of text = (let ls = csv_split CHR 0x0A text in if last ls = [] then butlast ls else ls)"

definition blank :: "char \<Rightarrow> bool" where
  "blank c \<longleftrightarrow> c = CHR '' '' \<or> c = CHR 0x09"

definition trim_end :: "string \<Rightarrow> string" where
  "trim_end s = rev (dropWhile (\<lambda>c. blank c \<or> c = CHR 0x0D) (rev s))"

definition bad_number :: "diagnostics \<Rightarrow> diagnostics" where
  "bad_number d = d\<lparr>dg_bad_number := dg_bad_number d + 1\<rparr>"

text \<open>\<open>strtod\<close> sees the text to its end; \<open>n\<close> characters of it are before the trailing blanks.\<close>

definition parse_double :: "(string \<Rightarrow> fpval \<times> nat) \<Rightarrow> string \<Rightarrow> diagnostics \<Rightarrow> fpval \<times> diagnostics" where
  "parse_double strtod s d =
     (let s1 = dropWhile blank s; n1 = length (trim_end s1)
      in if n1 = 0 then (Fin 0, bad_number d)
         else
           (let plus = (hd s1 = CHR ''+''); s2 = (if plus then tl s1 else s1); n = (if plus then n1 - 1 else n1)
            in if n = 0 then (Fin 0, bad_number d)
               else
                 (let (val, used) = strtod s2
                  in if used = 0 then (Fin 0, bad_number d)
                     else if used \<noteq> n \<and> \<not> list_all blank (drop used (take n s2)) then (val, bad_number d)
                     else (val, d))))"

definition parse_datetime :: "'tm c_library \<Rightarrow> csv_params \<Rightarrow> string \<Rightarrow> string \<Rightarrow> datetime \<times> bool" where
  "parse_datetime lib p date_str time_str =
     (let (tm, ok) = li_get_time lib (cp_date_format p) date_str (li_tm0 lib)
      in if \<not> ok then (0, True)
         else if time_str \<noteq> [] then
           (let (tm', ok') = li_get_time lib (cp_time_format p) time_str tm in (li_mktime lib tm', \<not> ok'))
         else (li_mktime lib tm, False))"

definition max_column :: "csv_columns \<Rightarrow> nat" where
  "max_column c = max (max (max (max (cm_datetime c) (cm_open c)) (cm_high c)) (cm_low c)) (cm_close c)"

subsection \<open>Rows\<close>

definition strip_line :: "diagnostics \<Rightarrow> string \<Rightarrow> string" where
  "strip_line d line =
     (let l1 = (if dg_parsed d = 0 \<and> take 3 line = [CHR 0xEF, CHR 0xBB, CHR 0xBF] then drop 3 line else line)
      in if l1 \<noteq> [] \<and> last l1 = CHR 0x0D then butlast l1 else l1)"

definition outside :: "csv_params \<Rightarrow> datetime \<Rightarrow> bool" where
  "outside p dt \<longleftrightarrow> (case cp_fromdate p of Some t \<Rightarrow> dt < t | None \<Rightarrow> False) \<or> (case cp_todate p of Some t \<Rightarrow> t < dt | None \<Rightarrow> False)"

definition optional_column ::
  "(string \<Rightarrow> fpval \<times> nat) \<Rightarrow> string list \<Rightarrow> int \<Rightarrow> diagnostics \<Rightarrow> fpval \<times> diagnostics" where
  "optional_column strtod fs col d =
     (if 0 \<le> col \<and> nat col < length fs then parse_double strtod (fs ! nat col) d else (Fin 0, d))"

definition append_row :: "(string \<Rightarrow> fpval \<times> nat) \<Rightarrow> csv_columns \<Rightarrow> string list \<Rightarrow> datetime \<Rightarrow>
    diagnostics \<times> fpval feed \<Rightarrow> diagnostics \<times> fpval feed" where
  "append_row strtod cols fs dt st =
     (let (d, f) = st;
          (op, d1) = parse_double strtod (fs ! cm_open cols) d;
          (hi, d2) = parse_double strtod (fs ! cm_high cols) d1;
          (lo, d3) = parse_double strtod (fs ! cm_low cols) d2;
          (cl, d4) = parse_double strtod (fs ! cm_close cols) d3;
          (vol, d5) = optional_column strtod fs (cm_volume cols) d4;
          (oi, d6) = optional_column strtod fs (cm_openinterest cols) d5
      in (d6, \<lparr>fd_datetime = line_forward dt (fd_datetime f), fd_open = line_forward op (fd_open f),
               fd_high = line_forward hi (fd_high f), fd_low = line_forward lo (fd_low f),
               fd_close = line_forward cl (fd_close f), fd_volume = line_forward vol (fd_volume f),
               fd_openinterest = line_forward oi (fd_openinterest f)\<rparr>))"

definition load_row :: "'tm c_library \<Rightarrow> csv_params \<Rightarrow> diagnostics \<times> fpval feed \<Rightarrow> string \<Rightarrow> diagnostics \<times> fpval feed" where
  "load_row lib p st line =
     (let (d, f) = st; cols = cp_columns p; fs = csv_split (cp_separator p) (strip_line d line)
      in if fs = [] \<or> (length fs = 1 \<and> hd fs = []) then (d\<lparr>dg_empty := dg_empty d + 1\<rparr>, f)
         else
           (let d1 = d\<lparr>dg_parsed := dg_parsed d + 1\<rparr>
            in if length fs \<le> max_column cols then (d1\<lparr>dg_truncated := dg_truncated d1 + 1\<rparr>, f)
               else
                 (let timed = (0 \<le> cm_time cols \<and> nat (cm_time cols) < length fs);
                      (dt, malformed) = parse_datetime lib p (fs ! cm_datetime cols)
                                          (if timed then fs ! nat (cm_time cols) else []);
                      d2 = (if malformed then d1\<lparr>dg_bad_datetime := dg_bad_datetime d1 + 1\<rparr> else d1)
                  in if outside p dt then (d2\<lparr>dg_filtered := dg_filtered d2 + 1\<rparr>, f)
                     else append_row (li_strtod lib) cols fs dt (d2, f))))"

fun scan_timestamps :: "datetime list \<Rightarrow> diagnostics \<Rightarrow> diagnostics" where
  "scan_timestamps (t # u # ts) d =
     scan_timestamps (u # ts)
       (if u = t then d\<lparr>dg_duplicates := dg_duplicates d + 1\<rparr>
        else if u < t then d\<lparr>dg_disorder := dg_disorder d + 1\<rparr> else d)"
| "scan_timestamps ts d = d"

subsection \<open>Loading\<close>

definition load_expected :: "'tm c_library \<Rightarrow> csv \<Rightarrow> (data_error + unit) \<times> csv" where
  "load_expected lib c =
     (if cd_loaded c then (Inl AlreadyLoaded, c)
      else
        (let c1 = c\<lparr>cd_diag := no_diagnostics\<rparr>; p = cd_params c
         in case li_open lib (cp_filename p) of
              None \<Rightarrow> (Inl FileNotFound, c1)
            | Some text \<Rightarrow>
                (let ls = lines_of text; c2 = c1\<lparr>cd_loaded := True\<rparr>
                 in if cp_has_headers p \<and> ls = [] then (Inl HeaderOnly, c2)
                    else
                      (let (d, f) = foldl (load_row lib p) (no_diagnostics, cd_feed c)
                                      (if cp_has_headers p then tl ls else ls);
                           d' = scan_timestamps (ln_data (fd_datetime f)) d;
                           c3 = c2\<lparr>cd_diag := d', cd_feed := feed_home f\<rparr>
                       in (if feed_size (feed_home f) = 0 then
                             (if cp_has_headers p \<and> dg_parsed d' = 0 then Inl HeaderOnly else Inl EmptyFile)
                           else Inr (), c3)))))"

definition csv_load :: "'tm c_library \<Rightarrow> csv \<Rightarrow> bool \<times> csv" where
  "csv_load lib c = (case load_expected lib c of (Inl e, c') \<Rightarrow> (False, c') | (Inr u, c') \<Rightarrow> (True, c'))"

subsection \<open>Every line is accounted for\<close>

lemma parse_double_diag: "snd (parse_double strtod s d) = d \<or> snd (parse_double strtod s d) = bad_number d"
  by (simp add: parse_double_def Let_def split_beta)

lemma bad_number_fields [simp]:
  "dg_parsed (bad_number d) = dg_parsed d" "dg_truncated (bad_number d) = dg_truncated d" "dg_empty (bad_number d) = dg_empty d"
  "dg_filtered (bad_number d) = dg_filtered d"
  by (simp_all add: bad_number_def)

lemma parse_double_fields [simp]:
  "dg_parsed (snd (parse_double strtod s d)) = dg_parsed d" "dg_truncated (snd (parse_double strtod s d)) = dg_truncated d"
  "dg_empty (snd (parse_double strtod s d)) = dg_empty d" "dg_filtered (snd (parse_double strtod s d)) = dg_filtered d"
  using parse_double_diag [of strtod s d] by auto

lemma optional_column_fields [simp]:
  "dg_parsed (snd (optional_column strtod xs k d)) = dg_parsed d" "dg_truncated (snd (optional_column strtod xs k d)) = dg_truncated d"
  "dg_empty (snd (optional_column strtod xs k d)) = dg_empty d" "dg_filtered (snd (optional_column strtod xs k d)) = dg_filtered d"
  by (simp_all add: optional_column_def)

definition even_columns :: "fpval feed \<Rightarrow> nat \<Rightarrow> bool" where
  "even_columns f n \<longleftrightarrow>
     length (ln_data (fd_datetime f)) = n \<and> length (ln_data (fd_open f)) = n \<and> length (ln_data (fd_high f)) = n
     \<and> length (ln_data (fd_low f)) = n \<and> length (ln_data (fd_close f)) = n \<and> length (ln_data (fd_volume f)) = n
     \<and> length (ln_data (fd_openinterest f)) = n"

definition row_inv :: "csv_params \<Rightarrow> nat \<Rightarrow> diagnostics \<times> fpval feed \<Rightarrow> bool" where
  "row_inv p k st \<longleftrightarrow>
     (let (d, f) = st; n = length (ln_data (fd_datetime f))
      in dg_empty d + dg_parsed d = k \<and> dg_parsed d = dg_truncated d + dg_filtered d + n \<and> even_columns f n
         \<and> (\<forall>t \<in> set (ln_data (fd_datetime f)). \<not> outside p t))"

lemma append_row_inv:
  assumes "row_inv p k (d, f)" and "\<not> outside p dt" and "d' = d\<lparr>dg_parsed := dg_parsed d + 1, dg_bad_datetime := m\<rparr>"
  shows "row_inv p (Suc k) (append_row strtod cols xs dt (d', f))"
  using assms by (auto simp: row_inv_def append_row_def even_columns_def line_forward_def split_beta Let_def)

lemma load_row_inv:
  assumes "row_inv p k st"
  shows "row_inv p (Suc k) (load_row lib p st line)"
proof -
  obtain d f where st: "st = (d, f)" by fastforce
  let ?cols = "cp_columns p" and ?xs = "csv_split (cp_separator p) (strip_line d line)"
  let ?dt = "parse_datetime lib p (?xs ! cm_datetime ?cols)
    (if 0 \<le> cm_time ?cols \<and> nat (cm_time ?cols) < length ?xs then ?xs ! nat (cm_time ?cols) else [])"
  have frame: "row_inv p (Suc k) (d', f)"
    if "dg_empty d' + dg_parsed d' = Suc (dg_empty d + dg_parsed d)"
      "dg_parsed d' + (dg_truncated d + dg_filtered d) = dg_parsed d + (dg_truncated d' + dg_filtered d')" for d'
    using assms that by (auto simp: row_inv_def st Let_def)
  consider (empty) "?xs = [] \<or> (length ?xs = 1 \<and> hd ?xs = [])"
    | (cut) "\<not> (?xs = [] \<or> (length ?xs = 1 \<and> hd ?xs = []))" "length ?xs \<le> max_column ?cols"
    | (out) "\<not> (?xs = [] \<or> (length ?xs = 1 \<and> hd ?xs = []))" "\<not> length ?xs \<le> max_column ?cols" "outside p (fst ?dt)"
    | (kept) "\<not> (?xs = [] \<or> (length ?xs = 1 \<and> hd ?xs = []))" "\<not> length ?xs \<le> max_column ?cols" "\<not> outside p (fst ?dt)"
    by blast
  then show ?thesis
  proof cases
    case empty
    then show ?thesis unfolding st load_row_def Let_def prod.case if_P [OF empty] by (intro frame) simp_all
  next
    case cut
    then show ?thesis unfolding st load_row_def Let_def prod.case if_not_P [OF cut(1)] if_P [OF cut(2)] by (intro frame) simp_all
  next
    case out
    then show ?thesis
      unfolding st load_row_def Let_def prod.case unfolding split_beta if_not_P [OF out(1)] if_not_P [OF out(2)] if_P [OF out(3)]
      by (intro frame) simp_all
  next
    case kept
    have "\<exists>m. (if snd ?dt then d\<lparr>dg_parsed := dg_parsed d + 1\<rparr>\<lparr>dg_bad_datetime := dg_bad_datetime (d\<lparr>dg_parsed := dg_parsed d + 1\<rparr>) + 1\<rparr>
        else d\<lparr>dg_parsed := dg_parsed d + 1\<rparr>) = d\<lparr>dg_parsed := dg_parsed d + 1, dg_bad_datetime := m\<rparr>"
      by (cases "snd ?dt") (auto intro: exI [of _ "dg_bad_datetime d"])
    then obtain m where m: "(if snd ?dt then d\<lparr>dg_parsed := dg_parsed d + 1\<rparr>\<lparr>dg_bad_datetime := dg_bad_datetime (d\<lparr>dg_parsed := dg_parsed d + 1\<rparr>) + 1\<rparr>
        else d\<lparr>dg_parsed := dg_parsed d + 1\<rparr>) = d\<lparr>dg_parsed := dg_parsed d + 1, dg_bad_datetime := m\<rparr>" by (elim exE)
    show ?thesis
      unfolding st load_row_def Let_def prod.case unfolding split_beta if_not_P [OF kept(1)] if_not_P [OF kept(2)] if_not_P [OF kept(3)] m
      by (rule append_row_inv [OF assms [unfolded st] kept(3) refl])
  qed
qed

lemma load_rows_inv: "row_inv p k st \<Longrightarrow> row_inv p (k + length ls) (foldl (load_row lib p) st ls)"
proof (induction ls arbitrary: k st)
  case (Cons l ls)
  then show ?case using Cons.IH [OF load_row_inv] by fastforce
qed simp

lemma scan_fields:
  "dg_parsed (scan_timestamps ts d) = dg_parsed d \<and> dg_empty (scan_timestamps ts d) = dg_empty d
   \<and> dg_truncated (scan_timestamps ts d) = dg_truncated d \<and> dg_filtered (scan_timestamps ts d) = dg_filtered d"
  by (induction ts d rule: scan_timestamps.induct) auto

lemma scan_counts:
  "dg_duplicates d \<le> dg_duplicates (scan_timestamps ts d) \<and> dg_disorder d \<le> dg_disorder (scan_timestamps ts d)
   \<and> (dg_duplicates (scan_timestamps ts d) = dg_duplicates d \<and> dg_disorder (scan_timestamps ts d) = dg_disorder d
      \<longleftrightarrow> sorted_wrt (<) ts)"
proof (induction ts d rule: scan_timestamps.induct)
  case (1 t u ts d)
  have "sorted_wrt (<) (t # u # ts) \<longleftrightarrow> t < u \<and> sorted_wrt (<) (u # ts)" by auto
  then show ?case using 1 by (auto split: if_splits)
qed auto

lemma load_row_counts:
  assumes "dg_duplicates (fst st) = 0 \<and> dg_disorder (fst st) = 0"
  shows "dg_duplicates (fst (load_row lib p st l)) = 0 \<and> dg_disorder (fst (load_row lib p st l)) = 0"
proof -
  have p1: "dg_duplicates (snd (parse_double g s e)) = dg_duplicates e \<and> dg_disorder (snd (parse_double g s e)) = dg_disorder e"
    for g s e using parse_double_diag [of g s e] by (auto simp: bad_number_def)
  then have p2: "dg_duplicates (snd (optional_column g xs k e)) = dg_duplicates e
      \<and> dg_disorder (snd (optional_column g xs k e)) = dg_disorder e" for g xs k e
    by (simp add: optional_column_def)
  show ?thesis using assms by (simp add: load_row_def append_row_def split_beta Let_def p1 p2)
qed

lemma load_rows_counts:
  "dg_duplicates (fst st) = 0 \<and> dg_disorder (fst st) = 0 \<Longrightarrow>
     dg_duplicates (fst (foldl (load_row lib p) st ls)) = 0 \<and> dg_disorder (fst (foldl (load_row lib p) st ls)) = 0"
proof (induction ls arbitrary: st)
  case (Cons l ls)
  then show ?case using Cons.IH [OF load_row_counts] by simp
qed simp


subsection \<open>Writing and reading back\<close>

lemma csv_split_last:
  assumes "delim \<notin> set s"
  shows "csv_split delim s = [s]"
proof -
  have "dropWhile (\<lambda>c. c \<noteq> delim) s = []" using assms by (auto simp: dropWhile_eq_Nil_conv)
  then show ?thesis unfolding csv_split.simps [of delim s] by (simp only: list.case)
qed

lemma csv_split_first:
  assumes "delim \<notin> set s"
  shows "csv_split delim (s @ delim # rest) = s # csv_split delim rest"
proof -
  have "dropWhile (\<lambda>c. c \<noteq> delim) (s @ delim # rest) = delim # rest" "takeWhile (\<lambda>c. c \<noteq> delim) (s @ delim # rest) = s"
    using assms by (auto simp: dropWhile_append takeWhile_append)
  then show ?thesis by (subst csv_split.simps) simp
qed

definition csv_text :: "string list \<Rightarrow> string" where
  "csv_text ls = concat (map (\<lambda>l. l @ [CHR 0x0A]) ls)"

lemma lines_of_csv_text:
  assumes "\<forall>l \<in> set ls. CHR 0x0A \<notin> set l"
  shows "lines_of (csv_text ls) = ls"
proof -
  have "csv_split CHR 0x0A (csv_text ls) = ls @ [[]]"
    using assms by (induction ls) (simp_all add: csv_text_def csv_split_last csv_split_first)
  then show ?thesis by (simp add: lines_of_def)
qed

text \<open>A field that no rule of the reader touches.\<close>

definition clean :: "string \<Rightarrow> bool" where
  "clean t \<longleftrightarrow> t \<noteq> [] \<and> hd t \<noteq> CHR ''+'' \<and> hd t \<noteq> CHR 0xEF
     \<and> list_all (\<lambda>c. c \<noteq> CHR '','' \<and> \<not> blank c \<and> c \<noteq> CHR 0x0A \<and> c \<noteq> CHR 0x0D) t"

lemma clean_chars: "clean t \<Longrightarrow> CHR '','' \<notin> set t \<and> CHR 0x0A \<notin> set t \<and> CHR 0x0D \<notin> set t"
  by (auto simp: clean_def list_all_iff)

lemma clean_double:
  assumes "clean t" and "strtod t = (v, length t)"
  shows "parse_double strtod t d = (v, d)"
proof -
  obtain c cs where t: "t = c # cs" using assms(1) by (cases t) (auto simp: clean_def)
  have "dropWhile blank t = t" using assms(1) by (simp add: clean_def t)
  moreover have "trim_end t = t"
  proof -
    have "\<not> (blank (last t) \<or> last t = CHR 0x0D)"
      using assms(1) last_in_set [of t] by (auto simp: clean_def list_all_iff)
    moreover have "rev t = last t # rev (butlast t)" using t by (metis append_butlast_last_id list.distinct(1) rev_eq_Cons_iff rev_rev_ident)
    ultimately show ?thesis unfolding trim_end_def using append_butlast_last_id [of t] t by simp
  qed
  ultimately show ?thesis using assms by (simp add: parse_double_def t clean_def Let_def)
qed

definition csv_row :: "(datetime \<Rightarrow> string) \<Rightarrow> (real \<Rightarrow> string) \<Rightarrow> real bar \<Rightarrow> string" where
  "csv_row date num b =
     date (bar_timestamp b) @ '','' @ num (bar_open b) @ '','' @ num (bar_high b) @ '','' @ num (bar_low b) @ '','' @
     num (bar_close b) @ '','' @ num (bar_volume b)"

definition fin_bar :: "real bar \<Rightarrow> fpval bar" where
  "fin_bar b = \<lparr>bar_timestamp = bar_timestamp b, bar_open = Fin (bar_open b), bar_high = Fin (bar_high b),
     bar_low = Fin (bar_low b), bar_close = Fin (bar_close b), bar_volume = Fin (bar_volume b)\<rparr>"

definition bar_values :: "real bar \<Rightarrow> real list" where
  "bar_values b = [bar_open b, bar_high b, bar_low b, bar_close b, bar_volume b]"

text \<open>What the library must do with the fields of a bar: read back what was written.\<close>

definition readable ::
  "'tm c_library \<Rightarrow> csv_params \<Rightarrow> (datetime \<Rightarrow> string) \<Rightarrow> (real \<Rightarrow> string) \<Rightarrow> real bar \<Rightarrow> bool" where
  "readable lib p date num b \<longleftrightarrow>
     clean (date (bar_timestamp b))
     \<and> (let (tm, ok) = li_get_time lib (cp_date_format p) (date (bar_timestamp b)) (li_tm0 lib)
        in ok \<and> li_mktime lib tm = bar_timestamp b)
     \<and> list_all (\<lambda>x. clean (num x) \<and> li_strtod lib (num x) = (Fin x, length (num x))) (bar_values b)"

definition plain_params :: "csv_params \<Rightarrow> bool" where
  "plain_params p \<longleftrightarrow> cp_columns p = default_columns \<and> cp_separator p = CHR '','' \<and> cp_has_headers p
     \<and> cp_fromdate p = None \<and> cp_todate p = None"

lemma load_row_reads:
  assumes "readable lib p date num b" and "plain_params p"
  shows "load_row lib p (d, f) (csv_row date num b) = (d\<lparr>dg_parsed := dg_parsed d + 1\<rparr>, feed_forward (fin_bar b) f)"
proof -
  let ?row = "csv_row date num b"
  have c: "clean (date (bar_timestamp b))" "clean (num (bar_open b))" "clean (num (bar_high b))" "clean (num (bar_low b))"
    "clean (num (bar_close b))" "clean (num (bar_volume b))"
    using assms(1) by (simp_all add: readable_def bar_values_def)
  note ne = clean_chars [OF c(1)] clean_chars [OF c(2)] clean_chars [OF c(3)] clean_chars [OF c(4)] clean_chars [OF c(5)]
    clean_chars [OF c(6)]
  have "?row \<noteq> []" by (simp add: csv_row_def)
  have "last ?row = last (num (bar_volume b))" using c(6) by (simp add: csv_row_def clean_def)
  moreover have "num (bar_volume b) \<noteq> []" using c(6) by (simp add: clean_def)
  ultimately have "last ?row \<noteq> CHR 0x0D" using ne(6) last_in_set [of "num (bar_volume b)"] by metis
  moreover have "take 3 ?row \<noteq> [CHR 0xEF, CHR 0xBB, CHR 0xBF]"
    using c(1) by (cases "date (bar_timestamp b)") (auto simp: csv_row_def clean_def)
  ultimately have strip: "strip_line d ?row = ?row" by (simp add: strip_line_def)
  have split: "csv_split CHR '','' ?row = [date (bar_timestamp b), num (bar_open b), num (bar_high b), num (bar_low b),
      num (bar_close b), num (bar_volume b)]"
    using ne by (simp add: csv_row_def csv_split_first csv_split_last)
  have dt: "parse_datetime lib p (date (bar_timestamp b)) [] = (bar_timestamp b, False)"
    using assms(1) by (auto simp: readable_def parse_datetime_def)
  have num: "parse_double (li_strtod lib) (num x) e = (Fin x, e)" if "x \<in> set (bar_values b)" for x e
    using assms(1) that by (auto simp: readable_def list_all_iff intro: clean_double)
  show ?thesis
    using assms(2) num
    by (simp add: plain_params_def load_row_def strip split max_column_def default_columns_def dt outside_def append_row_def
        optional_column_def feed_forward_def fin_bar_def bar_values_def zero_fpval_def Let_def numeral_eq_Suc)
qed

lemma load_rows_read:
  "\<forall>b \<in> set bars. readable lib p date num b \<Longrightarrow> plain_params p \<Longrightarrow>
     foldl (load_row lib p) (d, f) (map (csv_row date num) bars)
       = (d\<lparr>dg_parsed := dg_parsed d + length bars\<rparr>, foldl (\<lambda>f b. feed_forward b f) f (map fin_bar bars))"
  by (induction bars arbitrary: d f) (simp_all add: load_row_reads)

text \<open>
  C40. What is written is read back: a file with a header and one row per bar, its fields written so
  that the C library reads each back, loads as exactly the columns of those bars, with the
  cursor at the first, no malformed field and no row dropped.
\<close>

theorem csv_round_trip:
  assumes "plain_params p" and "\<forall>b \<in> set bars. readable lib p date num b" and "bars \<noteq> []" and "CHR 0x0A \<notin> set header"
    and "li_open lib (cp_filename p) = Some (csv_text (header # map (csv_row date num) bars))"
  shows "let (r, c) = load_expected lib (new_csv p)
         in r = Inr () \<and> cd_feed c = feed_of_bars (map fin_bar bars) \<and> dg_parsed (cd_diag c) = length bars
            \<and> dg_bad_number (cd_diag c) = 0 \<and> dg_bad_datetime (cd_diag c) = 0 \<and> dg_truncated (cd_diag c) = 0"
proof -
  have "CHR 0x0A \<notin> set (csv_row date num b)" if "b \<in> set bars" for b
    using assms(2) that by (auto simp: readable_def bar_values_def csv_row_def dest: clean_chars)
  then have lines: "lines_of (csv_text (header # map (csv_row date num) bars)) = header # map (csv_row date num) bars"
    using assms(4) by (intro lines_of_csv_text) auto
  let ?f = "foldl (\<lambda>f b. feed_forward b f) empty_feed (map fin_bar bars)"
  let ?d = "no_diagnostics\<lparr>dg_parsed := length bars\<rparr>"
  have rows: "foldl (load_row lib p) (no_diagnostics, empty_feed) (map (csv_row date num) bars) = (?d, ?f)"
    using load_rows_read [OF assms(2,1), of no_diagnostics empty_feed] by (simp add: no_diagnostics_def)
  have home: "feed_home ?f = feed_of_bars (map fin_bar bars)"
    by (simp add: feed_home_foldl feed_of_bars_def empty_feed_def line_empty_def Let_def)
  have size: "feed_size (feed_of_bars (map fin_bar bars)) = length bars"
    by (simp add: feed_size_def feed_of_bars_def line_size_def Let_def)
  have scan: "dg_bad_number (scan_timestamps ts d) = dg_bad_number d" "dg_bad_datetime (scan_timestamps ts d) = dg_bad_datetime d"
    for ts d by (induction ts d rule: scan_timestamps.induct) auto
  show ?thesis
    using assms(1,3) rows scan_fields [of "ln_data (fd_datetime ?f)" ?d]
    by (simp add: plain_params_def load_expected_def new_csv_def assms(5) lines home size scan Let_def)
       (simp add: no_diagnostics_def)
qed

text \<open>
  A row whose date cannot be read is not dropped: without date limits it is loaded at the epoch.
\<close>

lemma bad_date_is_epoch:
  assumes "li_get_time lib (cp_date_format p) s (li_tm0 lib) = (tm, False)"
  shows "parse_datetime lib p s t = (0, True)"
  using assms by (simp add: parse_datetime_def)

text \<open>A file of one bar, and a library that knows its fields.\<close>

definition demo_csv_library :: "int c_library" where
  "demo_csv_library =
     \<lparr>li_open = (\<lambda>name. if name = ''f'' then Some (csv_text [''date'', ''d1,7,9,7,9,7'']) else None),
      li_strtod = (\<lambda>s. if s = ''7'' then (Fin 7, 1) else if s = ''9'' then (Fin 9, 1) else (Fin 0, 0)),
      li_tm0 = 0, li_get_time = (\<lambda>fmt s tm. if s = ''d1'' then (1, True) else (tm, False)), li_mktime = (\<lambda>tm. tm * 60)\<rparr>"

definition demo_csv_params :: csv_params where
  "demo_csv_params = \<lparr>cp_filename = ''f'', cp_columns = default_columns, cp_date_format = ''d'', cp_time_format = ''t'',
     cp_separator = CHR '','', cp_has_headers = True, cp_fromdate = None, cp_todate = None\<rparr>"

definition demo_csv_bar :: "real bar" where
  "demo_csv_bar = \<lparr>bar_timestamp = 60, bar_open = 7, bar_high = 9, bar_low = 7, bar_close = 9, bar_volume = 7\<rparr>"

theorem csv_round_trip_witness:
  "case load_expected demo_csv_library (new_csv demo_csv_params) of
     (r, c) \<Rightarrow> r = Inr () \<and> ln_data (fd_close (cd_feed c)) = [Fin 9] \<and> ln_data (fd_datetime (cd_feed c)) = [60]"
proof -
  let ?date = "\<lambda>t :: datetime. ''d1''" and ?num = "\<lambda>x :: real. if x = 7 then ''7'' else ''9''"
  have p: "plain_params demo_csv_params" by (simp add: plain_params_def demo_csv_params_def)
  have b: "\<forall>b \<in> set [demo_csv_bar]. readable demo_csv_library demo_csv_params ?date ?num b"
    by (simp add: readable_def demo_csv_library_def demo_csv_bar_def bar_values_def clean_def blank_def)
  have row: "csv_row ?date ?num demo_csv_bar = ''d1,7,9,7,9,7''" by (simp add: csv_row_def demo_csv_bar_def)
  have stored: "li_open demo_csv_library (cp_filename demo_csv_params) = Some (csv_text (''date'' # map (csv_row ?date ?num) [demo_csv_bar]))"
    by (simp add: row) (simp add: demo_csv_library_def demo_csv_params_def)
  have header: "CHR 0x0A \<notin> set ''date''" by simp
  show ?thesis
    using csv_round_trip [OF p b _ header stored]
    by (simp add: feed_of_bars_def fin_bar_def demo_csv_bar_def Let_def split: prod.splits)
qed


end
