(* ===== verification/Gate.thy ===== *)
theory Gate
  imports Reconcile Collector
begin

text \<open>
  The corrective layer between a strategy and the broker. \<^verbatim>\<open>engine/cerebro.hpp\<close> installs the candidate
  collector as the pre-order hook of the broker, so that every submission first asks the
  collector. The hook changes the collector; here a desk is the broker with its collector, and
  a submission installs the answer of the collector as the hook that the broker is about to
  call. The broker has no live connector. What the collector lets through is what the book holds.
\<close>

type_synonym desk = "broker \<times> collector"

subsection \<open>Client calls through the collector\<close>

definition answered :: "pre_order_result \<Rightarrow> broker \<Rightarrow> broker" where
  "answered por b = set_pre_order_hook (Some (\<lambda>_ _ _. por)) b"

definition gated ::
  "nfeed list \<Rightarrow> order_side \<Rightarrow> real \<Rightarrow> nat \<Rightarrow> (broker \<Rightarrow> nat \<times> broker) \<Rightarrow> desk \<Rightarrow> exn + (nat \<times> desk)" where
  "gated feeds sd sz di submit dk =
     (let (b, c) = dk
      in bind_r (on_pre_order sd sz di feeds b c) (\<lambda>(por, c').
           let (oid, b') = submit (answered por b) in Inr (oid, (b', c'))))"

definition desk_place ::
  "nfeed list \<Rightarrow> order_side \<Rightarrow> real \<Rightarrow> real \<Rightarrow> real option \<Rightarrow> order_type \<Rightarrow> nat \<Rightarrow> desk \<Rightarrow> exn + (nat \<times> desk)" where
  "desk_place feeds sd sz price sp ty di = gated feeds sd sz di (submit_order sd sz price sp ty di)"

definition desk_place_ext ::
  "nfeed list \<Rightarrow> order_side \<Rightarrow> real \<Rightarrow> order_params \<Rightarrow> desk \<Rightarrow> exn + (nat \<times> desk)" where
  "desk_place_ext feeds sd sz params = gated feeds sd sz (op_data_index params) (submit_order_ext sd sz params)"

text \<open>A bracket asks three times.\<close>

definition desk_bracket ::
  "nfeed list \<Rightarrow> order_side \<Rightarrow> real \<Rightarrow> real \<Rightarrow> real \<Rightarrow> nat \<Rightarrow> desk \<Rightarrow> exn + (bracket_result \<times> desk)" where
  "desk_bracket feeds sd sz limit_price stop_price di dk =
     (let (b, c) = dk; oco_grp = b_next_oco_group_id b; b0 = b\<lparr>b_next_oco_group_id := oco_grp + 1\<rparr>
      in bind_r (desk_place feeds sd sz 0 None Market di (b0, c)) (\<lambda>(mid, dk1).
         let tp_params = default_params\<lparr>op_type := Limit, op_price := limit_price, op_data_index := di,
               op_parent_id := mid, op_oco_group_id := oco_grp, op_transmit := False\<rparr>;
             sl_params = default_params\<lparr>op_type := Stop, op_stop_price := Some stop_price, op_data_index := di,
               op_parent_id := mid, op_oco_group_id := oco_grp, op_transmit := False\<rparr>
         in bind_r (desk_place_ext feeds (other_side sd) sz tp_params dk1) (\<lambda>(lid, dk2).
            bind_r (desk_place_ext feeds (other_side sd) sz sl_params dk2) (\<lambda>(sid, (b3, c3)).
              Inr (\<lparr>main_id = mid, stop_id = sid, limit_id = lid\<rparr>,
                   (b3\<lparr>b_all_orders := set_child_ids mid [lid, sid] (b_all_orders b3),
                       b_pending := set_child_ids mid [lid, sid] (b_pending b3)\<rparr>, c3))))))"

definition desk_close :: "nfeed list \<Rightarrow> nat \<Rightarrow> desk \<Rightarrow> exn + (nat \<times> desk)" where
  "desk_close feeds di dk =
     (let (b, c) = dk; (pos, b') = get_position di b
      in if is_flat pos then Inr (0, (b', c))
         else desk_place feeds (if is_long pos then Sell else Buy) \<bar>p_size pos\<bar> 0 None Market di (b', c))"

text \<open>
  The trades that were closed by a bar. Every trade notification of the broker follows the entry of a
  trade into the closed ones.
\<close>

definition closed_since :: "broker \<Rightarrow> broker \<Rightarrow> trade list" where
  "closed_since b b' = map fst (drop (length (b_closed_trades b)) (b_closed_trades b'))"

definition report_closed :: "trade list \<Rightarrow> collector \<Rightarrow> collector" where
  "report_closed ts c = foldl (\<lambda>c t. if trade_is_closed t then on_trade_closed t c else c) c ts"

fun desk_step :: "nfeed list \<Rightarrow> client_call \<Rightarrow> desk \<Rightarrow> exn + desk" where
  "desk_step feeds (Place sd sz price sp ty di) dk = bind_r (desk_place feeds sd sz price sp ty di dk) (\<lambda>r. Inr (snd r))"
| "desk_step feeds (PlaceExt sd sz params) dk = bind_r (desk_place_ext feeds sd sz params dk) (\<lambda>r. Inr (snd r))"
| "desk_step feeds (Bracket sd sz lp sp di) dk = bind_r (desk_bracket feeds sd sz lp sp di dk) (\<lambda>r. Inr (snd r))"
| "desk_step feeds (Cancel oid) (b, c) = bind_r (cancel_order oid b) (\<lambda>b'. Inr (b', c))"
| "desk_step feeds (CloseOut di) dk = bind_r (desk_close feeds di dk) (\<lambda>r. Inr (snd r))"
| "desk_step feeds NextOco (b, c) = Inr (snd (next_oco_group b), c)"
| "desk_step feeds (BarIndex n) (b, c) = Inr (set_bar_index n b, c)"
| "desk_step feeds (Bar views) (b, c) =
     (let b' = process_orders views b in Inr (b', report_closed (closed_since b b') c))"

fun desk_run :: "(nfeed list \<times> client_call) list \<Rightarrow> desk \<Rightarrow> exn + desk" where
  "desk_run [] dk = Inr dk"
| "desk_run ((feeds, x) # xs) dk = bind_r (desk_step feeds x dk) (desk_run xs)"

subsection \<open>What the broker keeps of a submission\<close>

definition ticket :: "order \<Rightarrow> nat \<times> real \<times> order_side \<times> nat" where
  "ticket x = (o_candidate_id x, o_size x, o_side x, o_data_index x)"

definition tickets :: "broker \<Rightarrow> (nat \<times> real \<times> order_side \<times> nat) list" where
  "tickets b = map ticket (b_all_orders b)"

definition trades_of :: "broker \<Rightarrow> trade set" where
  "trades_of b = fst ` set (b_open_trades b) \<union> fst ` set (b_closed_trades b)"

text \<open>Trades carry the candidate of an order of the book, or none.\<close>

definition traded :: "broker \<Rightarrow> nat set" where
  "traded b = t_candidate_id ` trades_of b"

definition trades_booked :: "broker \<Rightarrow> bool" where
  "trades_booked b \<longleftrightarrow> traded b \<subseteq> insert 0 (fst ` set (tickets b))"

lemma map_store_same:
  "find (\<lambda>y. key y = key x) xs = Some s \<Longrightarrow> f x = f s \<Longrightarrow> map f (store_first key x xs) = map f xs"
  unfolding store_first_def by (induction xs) (auto split: if_splits)

lemma tickets_sync:
  assumes "find_order (o_id x) (b_all_orders b) = Some s" and "ticket x = ticket s"
  shows "tickets (sync x b) = tickets b"
  using assms map_store_same [of o_id x "b_all_orders b" s ticket]
  by (simp add: tickets_def find_order_def sync_order_def)

lemma same_terms_ticket: "same_terms s x \<Longrightarrow> ticket x = ticket s"
  by (simp add: same_terms_def ticket_def)

lemma filled_order_ticket: "ticket (filled_order x px comm) = ticket x"
  by (simp add: filled_order_def ticket_def order_execute_def)

lemma filled_order_id [simp]: "o_id (filled_order x px comm) = o_id x"
  by (simp add: filled_order_def order_execute_def)

lemma tickets_frame [simp]:
  "tickets (b\<lparr>b_pending := ps\<rparr>) = tickets b" "tickets (b\<lparr>b_events := es\<rparr>) = tickets b"
  "tickets (b\<lparr>b_bar_index := n\<rparr>) = tickets b" "tickets (b\<lparr>b_next_oco_group_id := g\<rparr>) = tickets b"
  "tickets (ensure_position di b) = tickets b" "tickets (book_fill di s px c dt cand b) = tickets b"
  "tickets (b\<lparr>b_pre_order_hook := h\<rparr>) = tickets b"
  by (simp_all add: tickets_def ensure_position_def)

lemma book_step_tickets:
  assumes "book_step b b'"
  shows "\<exists>xs. tickets b' = tickets b @ xs \<and> b_next_order_id b' = b_next_order_id b + length xs"
  using assms
proof cases
  case (register x)
  then show ?thesis by (intro exI [of _ "[ticket x]"]) (simp add: enqueue_def tickets_def)
next
  case (amend x s)
  then show ?thesis using tickets_sync [of x b s] same_terms_ticket by auto
next
  case (fill x s raw q px comm)
  let ?b = "book_fill (o_data_index x) (signed_size (o_side x) (o_size x)) px comm (q_dt q) (o_candidate_id x) b"
  have "tickets (sync (filled_order x px comm) ?b) = tickets ?b"
    by (rule tickets_sync [of _ _ s]) (use fill in \<open>simp_all add: filled_order_ticket same_terms_ticket\<close>)
  then show ?thesis using fill(1) by (intro exI [of _ "[]"]) simp
next
  case (touch di)
  then show ?thesis by (intro exI [of _ "[]"]) (simp add: ensure_position_def [of di b, THEN arg_cong [of _ _ b_next_order_id]])
qed auto

lemma book_steps_tickets:
  assumes "book_steps b b'"
  shows "\<exists>xs. tickets b' = tickets b @ xs \<and> b_next_order_id b' = b_next_order_id b + length xs"
  using assms
proof (induction rule: rtranclp_induct)
  case (step c d)
  then obtain xs ys where "tickets c = tickets b @ xs" "b_next_order_id c = b_next_order_id b + length xs"
    "tickets d = tickets c @ ys" "b_next_order_id d = b_next_order_id c + length ys"
    using book_step_tickets by blast
  then show ?case by (intro exI [of _ "xs @ ys"]) simp
qed simp

lemma same_book:
  assumes "book_steps b b'" and "b_next_order_id b' = b_next_order_id b"
  shows "tickets b' = tickets b"
  using book_steps_tickets [OF assms(1)] assms(2) by auto

subsection \<open>Trades\<close>

lemma trade_update_candidate [simp]: "t_candidate_id (trade_update s p c n dt t) = t_candidate_id t"
  by (simp add: trade_update_def)

lemma trades_frame [simp]:
  "trades_of (b\<lparr>b_pending := ps\<rparr>) = trades_of b" "trades_of (b\<lparr>b_events := es\<rparr>) = trades_of b"
  "trades_of (b\<lparr>b_bar_index := n\<rparr>) = trades_of b" "trades_of (b\<lparr>b_next_oco_group_id := g\<rparr>) = trades_of b"
  "trades_of (ensure_position di b) = trades_of b" "trades_of (b\<lparr>b_pre_order_hook := h\<rparr>) = trades_of b"
  "trades_of (sync x b) = trades_of b" "trades_of (notify_trade t z b) = trades_of b"
  by (simp_all add: trades_of_def ensure_position_def notify_trade_def emit_def)

text \<open>What the closed trades and the candidates of all trades become in a fill.\<close>

definition booked_from :: "nat \<Rightarrow> broker \<Rightarrow> broker \<Rightarrow> bool" where
  "booked_from cand b b' \<longleftrightarrow> traded b \<subseteq> traded b' \<and> traded b' \<subseteq> insert cand (traded b)
     \<and> (\<exists>new. b_closed_trades b' = b_closed_trades b @ new)"

lemma open_new_trade_booked: "booked_from cand b (open_new_trade di s px c dt cand b)"
  by (auto simp: booked_from_def traded_def trades_of_def open_new_trade_def Let_def)

lemma extend_trade_booked: "booked_from cand b (extend_trade di s px c dt b)"
proof -
  have "map (t_candidate_id \<circ> fst) (b_open_trades (extend_trade di s px c dt b)) = map (t_candidate_id \<circ> fst) (b_open_trades b)"
    unfolding extend_trade_def by (simp, rule map_upd_first) auto
  from arg_cong [OF this, of set] show ?thesis
    by (auto simp: booked_from_def traded_def trades_of_def extend_trade_def image_Un image_comp)
qed

lemma booked_from_trans:
  assumes "booked_from k a b" and "booked_from k b c"
  shows "booked_from k a c"
proof -
  have "traded a \<subseteq> traded c \<and> traded c \<subseteq> insert k (traded a)" using assms unfolding booked_from_def by blast
  then show ?thesis using assms by (auto simp: booked_from_def)
qed

text \<open>The open trade \<open>t\<close> gives way to \<open>t'\<close>, open or closed.\<close>

lemma replaced_booked:
  assumes "b_open_trades b = pre @ (t, orig) # post" and "t_candidate_id t' = t_candidate_id t"
  shows "booked_from k b ((close_trade t' orig b)\<lparr>b_open_trades := pre @ post\<rparr>)"
    "booked_from k b (b\<lparr>b_open_trades := pre @ (t', orig) # post\<rparr>)"
  using assms
  by (auto simp: booked_from_def traded_def trades_of_def close_trade_def notify_trade_def emit_def image_Un)

lemma reduce_trade_booked: "booked_from cand b (reduce_trade di s px c dt cand b)"
proof (cases "split_first (open_for di) (b_open_trades b)")
  case None
  then show ?thesis by (auto simp: reduce_trade_def booked_from_def)
next
  case (Some r)
  obtain pre t orig post where r: "r = (pre, (t, orig), post)" by (cases r) auto
  have o: "b_open_trades b = pre @ (t, orig) # post" using split_first_Some [OF Some [unfolded r]] by simp
  show ?thesis
  proof (cases "\<bar>t_size t\<bar> < \<bar>s\<bar>")
    case True
    show ?thesis
      unfolding reduce_trade_def Some r option.case prod.case Let_def if_P [OF True]
      by (rule booked_from_trans, rule replaced_booked(1) [OF o], rule trade_update_candidate, rule open_new_trade_booked)
  next
    case False
    show ?thesis
    proof (cases "trade_is_closed (trade_update s px c (b_bar_index b) dt t)")
      case True
      show ?thesis
        unfolding reduce_trade_def Some r option.case prod.case Let_def if_not_P [OF False] if_P [OF True]
        by (rule replaced_booked(1) [OF o trade_update_candidate])
    next
      case open_still: False
      show ?thesis
        unfolding reduce_trade_def Some r option.case prod.case Let_def if_not_P [OF False] if_not_P [OF open_still]
        by (rule replaced_booked(2) [OF o trade_update_candidate])
    qed
  qed
qed

lemma update_trades_booked: "booked_from cand b (update_trades di old s px c dt cand b)"
  using open_new_trade_booked extend_trade_booked reduce_trade_booked by (simp add: update_trades_def)

lemma book_fill_booked: "booked_from cand b (book_fill di s px c dt cand b)"
proof -
  obtain b3 old where r: "book_fill di s px c dt cand b = update_trades di old s px c dt cand b3"
    "b_open_trades b3 = b_open_trades b" "b_closed_trades b3 = b_closed_trades b"
  proof
    show "book_fill di s px c dt cand b = update_trades di
        (p_size (fst (get_position di (add_cash (settle_ccy di b) (- (s * px + c)) b)))) s px c dt cand
        (update_position di s px (snd (get_position di (add_cash (settle_ccy di b) (- (s * px + c)) b))))"
      by (simp add: book_fill_def Let_def split_beta)
  qed (simp_all add: get_position_def ensure_position_def update_position_def add_cash_def Let_def)
  show ?thesis using update_trades_booked [of cand b3 di old s px c dt] r(2,3) by (simp add: r(1) booked_from_def traded_def trades_of_def)
qed

lemma book_step_booked:
  assumes "book_step b b'"
  shows "trades_booked b \<longrightarrow> trades_booked b'" and "\<exists>new. b_closed_trades b' = b_closed_trades b @ new"
    and "traded b \<subseteq> traded b'"
proof -
  obtain xs where t: "tickets b' = tickets b @ xs" using book_step_tickets [OF assms] by blast
  have "(traded b' = traded b \<and> b_closed_trades b' = b_closed_trades b)
      \<or> (\<exists>cand \<in> fst ` set (tickets b). booked_from cand b b')"
    using assms
  proof cases
    case (fill x s raw q px comm)
    have "s \<in> set (b_all_orders b)" using fill(2) by (auto simp: find_order_def dest: find_SomeD)
    then have "o_candidate_id s \<in> fst ` set (tickets b)" by (auto simp: tickets_def ticket_def image_image)
    moreover have "o_candidate_id s = o_candidate_id x" using fill(5) by (simp add: same_terms_def)
    moreover have "booked_from (o_candidate_id x) b b'"
      using book_fill_booked [of "o_candidate_id x" b] unfolding fill(1) by (simp add: booked_from_def traded_def)
    ultimately show ?thesis by metis
  qed (auto simp: enqueue_def traded_def trades_of_def ensure_position_def)
  then show "trades_booked b \<longrightarrow> trades_booked b'" "\<exists>new. b_closed_trades b' = b_closed_trades b @ new" "traded b \<subseteq> traded b'"
    unfolding trades_booked_def booked_from_def t set_append image_Un by (blast, metis append_Nil2, blast)
qed

lemma book_steps_booked:
  assumes "book_steps b b'"
  shows "(trades_booked b \<longrightarrow> trades_booked b') \<and> (\<exists>new. b_closed_trades b' = b_closed_trades b @ new)"
  using assms
proof (induction rule: rtranclp_induct)
  case (step c d)
  then show ?case using book_step_booked [OF step.hyps(2)] by auto
qed simp

subsection \<open>Matching registers no order\<close>

lemma cancel_pending_next [simp]: "b_next_order_id (cancel_pending_where P b) = b_next_order_id b"
  using cancel_loop_fields [of P "b_pending b" b] by (cases "cancel_loop P (b_pending b) b") (simp add: cancel_pending_where_def)

lemma after_fill_next: "b_next_order_id (fst (after_fill i x (b, still, groups))) = b_next_order_id b"
  by (simp add: after_fill_def Let_def set_pending_at_def cancel_bracket_children_def)

lemma try_fill_next: "b_next_order_id (snd (snd (try_fill_order x q b))) = b_next_order_id b"
  by (simp add: try_fill_order_def Let_def split: trigger.split option.split)

lemma accept_created_next: "b_next_order_id (snd (accept_created x b)) = b_next_order_id b"
  by (simp add: accept_created_def Let_def)

lemma trail_next: "b_next_order_id (snd (update_trail_stop x q b)) = b_next_order_id b"
  by (simp add: update_trail_stop_def Let_def)

lemma process_live_next: "b_next_order_id (fst (process_live i x q (b, still, groups))) = b_next_order_id b"
  using accept_created_next [of x b] try_fill_next [of "fst (accept_created x b)" q "snd (accept_created x b)"]
  by (simp add: process_live_def split_beta Let_def after_fill_next trail_next set_pending_at_def)

lemma process_one_next: "b_next_order_id (fst (process_one views st i)) = b_next_order_id (fst st)"
proof -
  obtain b still groups where st: "st = (b, still, groups)" by (cases st)
  show ?thesis
    by (simp add: st process_one_def Let_def process_live_next set_pending_at_def split: option.split)
qed

lemma process_orders_next [simp]: "b_next_order_id (process_orders views b) = b_next_order_id b"
proof -
  have "b_next_order_id (fst (foldl (process_one views) st is)) = b_next_order_id (fst st)" for st "is"
    by (induction "is" arbitrary: st) (simp_all add: process_one_next)
  then have "b_next_order_id (fst (foldl (process_one views) (b, [], []) [0..<length (b_pending b)])) = b_next_order_id b" by simp
  moreover have "b_next_order_id (snd (oco_sweep groups still c)) = b_next_order_id c" for groups still c
    using cancel_loop_fields
    by (auto simp: oco_sweep_def split: prod.split)
  ultimately show ?thesis by (simp add: process_orders_def split_beta)
qed

lemma process_orders_tickets:
  assumes "broker_wf b"
  shows "tickets (process_orders views b) = tickets b"
  using process_orders_wf [OF assms, of views] by (intro same_book) simp_all

subsection \<open>What the collector answers\<close>

definition sane_policy :: "collector \<Rightarrow> bool" where
  "sane_policy c \<longleftrightarrow> (\<forall>ctx. co_context c = Some ctx \<longrightarrow> 0 < sp_exponent (ic_policy ctx))"

lemma apply_policy_size:
  assumes "0 < sp_exponent p" and "0 \<le> proposed"
  shows "0 \<le> snd (apply_policy p prob proposed) \<and> snd (apply_policy p prob proposed) \<le> proposed"
  using apply_sizing_bounds(2,3) [OF assms, of prob] assms(2)
  by (cases "sp_mode p") (auto simp: apply_policy_def apply_gate_def apply_hybrid_def)

lemma inferred_size:
  assumes "sane_policy c" and "0 \<le> proposed" and "run_inference_policy c fs proposed = (prob, verdict, final)"
  shows "0 \<le> final \<and> final \<le> proposed"
proof (cases "co_context c")
  case None
  then show ?thesis using assms by (simp add: run_inference_policy_def)
next
  case (Some ctx)
  then have "0 < sp_exponent (ic_policy ctx)" using assms(1) by (simp add: sane_policy_def)
  note size = apply_policy_size [OF this assms(2)]
  have "0 \<le> ir_final_size (infer ctx xs proposed) \<and> ir_final_size (infer ctx xs proposed) \<le> proposed" for xs
    using size assms(2) by (simp add: infer_def Let_def split_beta split: fpval.split)
  then show ?thesis using assms(3) by (auto simp: run_inference_policy_def Some Let_def)
qed

text \<open>The new candidate of an order, and the answer to the broker.\<close>

definition describes :: "candidate \<Rightarrow> order_side \<Rightarrow> real \<Rightarrow> nat \<Rightarrow> bool" where
  "describes y sd sz di \<longleftrightarrow> ca_side y = (if sd = Buy then CLong else CShort) \<and> ca_proposed_size y = sz \<and> ca_symbol_id y = of_nat di"

definition fair_size :: "candidate \<Rightarrow> bool" where
  "fair_size y \<longleftrightarrow> (0 \<le> ca_proposed_size y \<longrightarrow> 0 \<le> ca_final_size y \<and> ca_final_size y \<le> ca_proposed_size y)"

definition registers :: "candidate \<Rightarrow> collector \<Rightarrow> collector \<Rightarrow> bool" where
  "registers y c c' \<longleftrightarrow> ca_candidate_id y = co_next_candidate_id c \<and> co_next_candidate_id c' = Suc (co_next_candidate_id c)
     \<and> co_registry c' = (co_registry c)(co_next_candidate_id c \<mapsto> y) \<and> co_context c' = co_context c \<and> co_config c' = co_config c"

lemma snapshot_describes:
  "snapshot_of sd sz di feeds b c = Inr y \<Longrightarrow> describes y sd sz di"
  by (auto simp: snapshot_of_def bind_r_Inr describes_def)

lemma registers_remember:
  "ca_candidate_id y = co_next_candidate_id c \<Longrightarrow> registers y c (remember y c) \<and> registers y c (add_shadow s (remember y c))"
  by (simp add: registers_def) (simp add: remember_def add_shadow_def)

lemma on_pre_order_answer:
  assumes "on_pre_order sd sz di feeds b c = Inr (por, c')"
  obtains (pass) "por = \<lparr>por_candidate_id = 0, por_final_size = sz, por_rejected = False\<rparr>" "c' = c"
      "\<not> is_enabled c \<or> reducing sd (position_of di b)"
  | (ask) y where "is_enabled c" "\<not> reducing sd (position_of di b)" "registers y c c'" "describes y sd sz di"
      "sane_policy c \<longrightarrow> fair_size y" "por_candidate_id por = co_next_candidate_id c"
      "por_rejected por = (ca_verdict y = VReject)" "\<not> por_rejected por \<longrightarrow> por_final_size por = ca_final_size y"
proof (cases "\<not> is_enabled c \<or> reducing sd (position_of di b)")
  case True
  then have "on_pre_order sd sz di feeds b c = Inr (\<lparr>por_candidate_id = 0, por_final_size = sz, por_rejected = False\<rparr>, c)"
    by (simp only: on_pre_order_def if_True)
  then show thesis using assms True by (intro pass) simp_all
next
  case False
  define collect where "collect = (rc_state (cc_corrective (co_config c)) = VCollectOnly \<or> Option.is_none (co_context c))"
  obtain x where x: "snapshot_of sd sz di feeds b c = Inr x"
    using assms False by (cases "snapshot_of sd sz di feeds b c") (simp_all add: on_pre_order_def)
  define d where "d = (if collect then (- 1, VCollectOnly, sz) else run_inference_policy c (ca_features x) sz)"
  define y where "y = decided d c x"
  have body: "on_pre_order sd sz di feeds b c =
      (if \<not> collect \<and> ca_verdict y = VReject then
         (let rejected = \<lparr>por_candidate_id = ca_candidate_id y, por_final_size = 0, por_rejected = True\<rparr>
          in if di < length feeds
             then bind_r (line_at (fd_close (nf_feed (feeds ! di))) 0) (\<lambda>price.
                    Inr (rejected, add_shadow (shadow_of sd sz di price y c) (remember y c)))
             else Inr (rejected, remember y c))
       else Inr (\<lparr>por_candidate_id = ca_candidate_id y, por_final_size = ca_final_size y, por_rejected = False\<rparr>,
                 remember y c))"
    using False by (simp only: on_pre_order_def x bind_r.simps if_False Let_def collect_def [symmetric]
        d_def [symmetric] y_def [symmetric])
  have id: "ca_candidate_id y = co_next_candidate_id c" using snapshot_id [OF x] by (simp add: y_def)
  have desc: "describes y sd sz di"
    using snapshot_describes [OF x] by (simp add: y_def decided_def describes_def split_beta)
  have final: "ca_final_size y = snd (snd d)" "ca_verdict y = fst (snd d)"
    by (simp_all add: y_def decided_def split_beta)
  have fair: "sane_policy c \<longrightarrow> fair_size y"
    using inferred_size [of c sz "ca_features x" "fst d" "fst (snd d)" "snd (snd d)"] desc
    by (auto simp: fair_size_def final d_def describes_def)
  have verdict: "collect \<Longrightarrow> ca_verdict y \<noteq> VReject" by (simp add: final d_def)
  have en: "is_enabled c" "\<not> reducing sd (position_of di b)" using False by simp_all
  show thesis
  proof (cases "\<not> collect \<and> ca_verdict y = VReject")
    case True
    then have "registers y c c' \<and> por = \<lparr>por_candidate_id = ca_candidate_id y, por_final_size = 0, por_rejected = True\<rparr>"
      using assms registers_remember [OF id] unfolding body by (auto simp: Let_def bind_r_Inr split: if_splits)
    then show thesis using True id desc fair en by (intro ask) auto
  next
    case False
    then have "registers y c c' \<and> por = \<lparr>por_candidate_id = ca_candidate_id y, por_final_size = ca_final_size y, por_rejected = False\<rparr>"
      using assms registers_remember [OF id] unfolding body by auto
    then show thesis using False verdict id desc fair en by (intro ask) auto
  qed
qed

subsection \<open>The book holds what was let through\<close>

definition licensed :: "collector \<Rightarrow> nat \<times> real \<times> order_side \<times> nat \<Rightarrow> bool" where
  "licensed c t \<longleftrightarrow> (case t of (i, sz, sd, di) \<Rightarrow> i \<noteq> 0 \<longrightarrow>
     (\<exists>y. co_registry c i = Some y \<and> ca_verdict y \<noteq> VReject \<and> ca_final_size y = sz \<and> describes y sd (ca_proposed_size y) di))"

definition gate_ok :: "desk \<Rightarrow> bool" where
  "gate_ok dk \<longleftrightarrow> (case dk of (b, c) \<Rightarrow>
     1 \<le> co_next_candidate_id c \<and> (\<forall>i y. co_registry c i = Some y \<longrightarrow> i < co_next_candidate_id c)
     \<and> (sane_policy c \<longrightarrow> (\<forall>i y. co_registry c i = Some y \<longrightarrow> fair_size y))
     \<and> sorted_wrt (<) (filter ((\<noteq>) 0) (map fst (tickets b))) \<and> list_all (licensed c) (tickets b) \<and> trades_booked b)"

lemma licensed_bound:
  assumes "gate_ok (b, c)" and "i \<in> set (filter ((\<noteq>) 0) (map fst (tickets b)))"
  shows "i < co_next_candidate_id c"
proof -
  obtain sz sd di where "(i, sz, sd, di) \<in> set (tickets b)" "i \<noteq> 0" using assms(2) by auto
  then have "licensed c (i, sz, sd, di)" using assms(1) by (auto simp: gate_ok_def list_all_iff)
  then obtain y where "co_registry c i = Some y" using \<open>i \<noteq> 0\<close> by (auto simp: licensed_def)
  then show ?thesis using assms(1) by (auto simp: gate_ok_def)
qed

lemma gate_ok_same:
  assumes "gate_ok (b, c)" and "tickets b' = tickets b" and "trades_booked b'"
  shows "gate_ok (b', c)"
  using assms by (simp add: gate_ok_def)

lemma gate_ok_registers:
  assumes ok: "gate_ok (b, c)" and reg: "registers y c c'" and fair: "sane_policy c \<longrightarrow> fair_size y"
    and t: "tickets b' = tickets b @ xs" and traded: "traded b' = traded b"
    and xs: "xs = [] \<or> (\<exists>sz sd di. xs = [(co_next_candidate_id c, sz, sd, di)] \<and> ca_verdict y \<noteq> VReject \<and> ca_final_size y = sz
                \<and> describes y sd (ca_proposed_size y) di)"
  shows "gate_ok (b', c')"
proof -
  let ?n = "co_next_candidate_id c"
  have c': "co_registry c' = (co_registry c)(?n \<mapsto> y)" "co_next_candidate_id c' = Suc ?n" "sane_policy c' = sane_policy c"
    using reg by (simp_all add: registers_def sane_policy_def)
  have old: "licensed c' t" if "t \<in> set (tickets b)" for t
  proof -
    have "licensed c t" using ok that by (auto simp: gate_ok_def list_all_iff)
    moreover have "fst t < ?n" if "fst t \<noteq> 0" using licensed_bound [OF ok, of "fst t"] that \<open>t \<in> set (tickets b)\<close> by auto
    ultimately show ?thesis by (auto simp: licensed_def c'(1) split: prod.splits)
  qed
  have new: "licensed c' t" if "t \<in> set xs" for t
    using xs that by (auto simp: licensed_def c'(1))
  have "sorted_wrt (<) (filter ((\<noteq>) 0) (map fst (tickets b)) @ filter ((\<noteq>) 0) (map fst xs))"
    using ok licensed_bound [OF ok] xs by (fastforce simp: gate_ok_def sorted_wrt_append simp del: set_filter)
  then have sorted: "sorted_wrt (<) (filter ((\<noteq>) 0) (map fst (tickets b')))" by (simp add: t)
  have "trades_booked b'" using ok by (auto simp: gate_ok_def trades_booked_def t traded)
  then show ?thesis
    using ok fair sorted old new c' unfolding gate_ok_def prod.case
    by (auto simp: t list_all_iff less_SucI)
qed

text \<open>What a submission with an answer does to the book.\<close>

definition submits :: "order_side \<Rightarrow> nat \<Rightarrow> (broker \<Rightarrow> nat \<times> broker) \<Rightarrow> bool" where
  "submits sd di f \<longleftrightarrow> (\<forall>b por oid b'. f (answered por b) = (oid, b') \<longrightarrow>
     tickets b' = tickets b @ (if por_rejected por then [] else [(por_candidate_id por, por_final_size por, sd, di)])
     \<and> traded b' = traded b \<and> b_closed_trades b' = b_closed_trades b
     \<and> (oid = 0 \<longleftrightarrow> por_rejected por \<or> b_next_order_id b = 0))"

lemma submits_place: "submits sd di (submit_order sd sz price sp ty di)"
  by (auto simp: submits_def submit_order_def run_pre_order_hook_def answered_def set_pre_order_hook_def enqueue_def
      tickets_def ticket_def traded_def trades_of_def new_order_def Let_def split: if_splits)

lemma submits_place_ext: "submits sd (op_data_index params) (submit_order_ext sd sz params)"
  by (auto simp: submits_def submit_order_ext_def run_pre_order_hook_def answered_def set_pre_order_hook_def enqueue_def
      tickets_def ticket_def traded_def trades_of_def new_order_def Let_def split: if_splits)

lemma gated_ok:
  assumes "gated feeds sd sz di f (b, c) = Inr (oid, (b', c'))" and "submits sd di f" and "gate_ok (b, c)"
  shows "gate_ok (b', c') \<and> b_closed_trades b' = b_closed_trades b"
proof -
  obtain por where por: "on_pre_order sd sz di feeds b c = Inr (por, c')" "f (answered por b) = (oid, b')"
    using assms(1) by (cases "on_pre_order sd sz di feeds b c") (auto simp: gated_def Let_def split: prod.splits)
  note f = assms(2) [unfolded submits_def, rule_format, OF por(2)]
  have traded: "trades_booked b'" using assms(3) f by (auto simp: gate_ok_def trades_booked_def)
  from por(1) show ?thesis
  proof (cases rule: on_pre_order_answer)
    case pass
    have "licensed c (0, sz, sd, di)" by (simp add: licensed_def)
    then show ?thesis
      using assms(3) f traded unfolding pass by (simp add: gate_ok_def)
  next
    case (ask y)
    have "describes y sd (ca_proposed_size y) di" using ask(4) by (simp add: describes_def)
    then show ?thesis
      using gate_ok_registers [OF assms(3) ask(3,5), of b' "if por_rejected por then [] else [(por_candidate_id por, por_final_size por, sd, di)]"]
        f ask(6-8) by auto
  qed
qed

subsection \<open>A desk still moves as the abstract book allows\<close>

definition hooked_step :: "broker \<Rightarrow> broker \<Rightarrow> bool" where
  "hooked_step b b' \<longleftrightarrow> book_step b b' \<or> (\<exists>por. b' = answered por b)"

abbreviation hooked_steps :: "broker \<Rightarrow> broker \<Rightarrow> bool" where
  "hooked_steps \<equiv> hooked_step\<^sup>*\<^sup>*"

lemma hooked_book: "book_steps b b' \<Longrightarrow> hooked_steps b b'"
  by (erule rtranclp_mono [THEN predicate2D, rotated]) (auto simp: hooked_step_def)

lemma hooked_answered: "hooked_steps b (answered por b)"
  by (rule r_into_rtranclp) (auto simp: hooked_step_def)

lemma hooked_steps_invariant:
  assumes "hooked_steps b b'" and "I b" and "\<And>x y. book_step x y \<Longrightarrow> I x \<Longrightarrow> I y" and "\<And>por x. I x \<Longrightarrow> I (answered por x)"
  shows "I b'"
  using assms(1,2)
proof (induction rule: rtranclp_induct)
  case (step c d)
  then show ?case using assms(3,4) by (auto simp: hooked_step_def)
qed simp

lemma hooked_live: "hooked_steps b b' \<Longrightarrow> \<not> b_live b \<Longrightarrow> \<not> b_live b'"
  by (erule hooked_steps_invariant) (auto simp: answered_def set_pre_order_hook_def same_setup_def dest: book_step_setup)

lemma answered_wf [simp]: "broker_wf (answered por b) = broker_wf b"
  by (simp add: answered_def set_pre_order_hook_def broker_wf_def ids_ok_def agrees_def)

lemma answered_fields [simp]:
  "b_next_order_id (answered por b) = b_next_order_id b" "b_all_orders (answered por b) = b_all_orders b"
  "b_closed_trades (answered por b) = b_closed_trades b" "tickets (answered por b) = tickets b"
  "b_pending (answered por b) = b_pending b"
  by (simp_all add: answered_def set_pre_order_hook_def)

lemma gatedE:
  assumes "gated feeds sd sz di f (b, c) = Inr (oid, (b', c'))"
  obtains por where "on_pre_order sd sz di feeds b c = Inr (por, c')" "f (answered por b) = (oid, b')"
  using assms by (cases "on_pre_order sd sz di feeds b c") (auto simp: gated_def Let_def split: prod.splits)

lemma desk_place_wf:
  assumes "desk_place feeds sd sz price sp ty di (b, c) = Inr (oid, (b', c'))" and "broker_wf b"
  shows "broker_wf b' \<and> hooked_steps b b' \<and> oid < b_next_order_id b' \<and> fresh_or_absent oid b'"
proof -
  obtain por where r: "submit_order sd sz price sp ty di (answered por b) = (oid, b')"
    using assms(1) unfolding desk_place_def by (rule gatedE)
  have wf: "broker_wf (answered por b)" using assms(2) by simp
  have "broker_wf b' \<and> book_steps (answered por b) b'" using submit_order_wf [OF wf, of sd sz price sp ty di] r by simp
  moreover have "oid < b_next_order_id b'" using submit_order_next [OF r] wf by (auto simp: broker_wf_def ids_ok_def)
  ultimately show ?thesis
    using fresh_submit [OF wf r] hooked_answered [of b por] hooked_book by (auto intro: rtranclp_trans)
qed

lemma desk_place_ext_wf:
  assumes "desk_place_ext feeds sd sz params (b, c) = Inr (oid, (b', c'))" and "broker_wf b" and "op_parent_id params < b_next_order_id b"
  shows "broker_wf b' \<and> hooked_steps b b' \<and> b_next_order_id b \<le> b_next_order_id b' \<and> (fresh_or_absent m b \<longrightarrow> fresh_or_absent m b')"
proof -
  obtain por where r: "submit_order_ext sd sz params (answered por b) = (oid, b')"
    using assms(1) unfolding desk_place_ext_def by (rule gatedE)
  have wf: "broker_wf (answered por b)" "op_parent_id params < b_next_order_id (answered por b)" using assms(2,3) by simp_all
  have "broker_wf b' \<and> book_steps (answered por b) b'" using submit_order_ext_wf [OF wf, of sd sz] r by simp
  moreover have "b_next_order_id b \<le> b_next_order_id b'" using submit_order_ext_next [OF r] by auto
  moreover have "fresh_or_absent m b \<longrightarrow> fresh_or_absent m b'"
    using fresh_submit_ext [OF _ wf(1) r, of m] by (simp add: fresh_or_absent_def)
  ultimately show ?thesis using hooked_answered [of b por] hooked_book by (auto intro: rtranclp_trans)
qed

subsection \<open>Histories of a desk\<close>

definition desk_ok :: "desk \<Rightarrow> bool" where
  "desk_ok dk \<longleftrightarrow> broker_wf (fst dk) \<and> \<not> b_live (fst dk) \<and> gate_ok dk"

text \<open>An order names a feed of the run and a parent that exists.\<close>

fun desk_admissible :: "nfeed list \<Rightarrow> client_call \<Rightarrow> broker \<Rightarrow> bool" where
  "desk_admissible feeds (Place sd sz price sp ty di) b \<longleftrightarrow> di < length feeds"
| "desk_admissible feeds (PlaceExt sd sz params) b \<longleftrightarrow> op_data_index params < length feeds \<and> op_parent_id params < b_next_order_id b"
| "desk_admissible feeds (Bracket sd sz lp sp di) b \<longleftrightarrow> di < length feeds"
| "desk_admissible feeds (CloseOut di) b \<longleftrightarrow> di < length feeds"
| "desk_admissible feeds _ b \<longleftrightarrow> True"

text \<open>The events of the collector in a history, which report only trades of the broker.\<close>

definition plain_event :: "broker \<Rightarrow> collector_event \<Rightarrow> bool" where
  "plain_event b e \<longleftrightarrow> has_feed e \<and> e \<noteq> DrainCandidates \<and> e \<noteq> DrainOutcomes \<and> traded_ids e \<subseteq> traded b"

definition desk_moves :: "desk \<Rightarrow> desk \<Rightarrow> bool" where
  "desk_moves dk dk' \<longleftrightarrow> hooked_steps (fst dk) (fst dk')
     \<and> (\<exists>es. collector_run es (snd dk) = Inr (snd dk', [], []) \<and> (\<forall>e \<in> set es. plain_event (fst dk') e))"

lemma traded_answered [simp]: "traded (answered por b) = traded b"
  by (simp add: answered_def set_pre_order_hook_def traded_def)

lemma traded_mono:
  assumes "hooked_steps b b'"
  shows "traded b \<subseteq> traded b'"
  by (rule hooked_steps_invariant [OF assms]) (use book_step_booked(3) in auto)

lemma collector_run_append:
  assumes "collector_run es c = Inr (c1, [], [])" and "collector_run fs c1 = Inr (c2, [], [])"
  shows "collector_run (es @ fs) c = Inr (c2, [], [])"
  using assms by (induction es arbitrary: c) (auto simp: bind_r_Inr)

lemma desk_moves_refl [simp]: "desk_moves dk dk"
  unfolding desk_moves_def by (intro conjI exI [of _ "[]"]) simp_all

lemma desk_moves_trans:
  assumes "desk_moves a b" and "desk_moves b c"
  shows "desk_moves a c"
proof -
  obtain es fs where e: "collector_run es (snd a) = Inr (snd b, [], [])" "\<forall>e \<in> set es. plain_event (fst b) e"
    "collector_run fs (snd b) = Inr (snd c, [], [])" "\<forall>e \<in> set fs. plain_event (fst c) e"
    using assms by (auto simp: desk_moves_def)
  have "traded (fst b) \<subseteq> traded (fst c)" using assms(2) traded_mono by (auto simp: desk_moves_def)
  then have "\<forall>e \<in> set es. plain_event (fst c) e" using e(2) by (auto simp: plain_event_def)
  then show ?thesis
    using assms e collector_run_append [OF e(1,3)] unfolding desk_moves_def
    by (intro conjI exI [of _ "es @ fs"]) (auto intro: rtranclp_trans)
qed

text \<open>A step of the broker alone, and a step with one event of the collector.\<close>

lemma desk_moves_broker: "hooked_steps b b' \<Longrightarrow> desk_moves (b, c) (b', c)"
  unfolding desk_moves_def by (intro conjI exI [of _ "[]"]) simp_all

lemma desk_moves_event:
  assumes "hooked_steps b b'" and "collector_step e c = Inr (c', [], [])" and "plain_event b' e"
  shows "desk_moves (b, c) (b', c')"
  unfolding desk_moves_def using assms by (intro conjI exI [of _ "[e]"]) simp_all

lemma gated_moves:
  assumes "gated feeds sd sz di f (b, c) = Inr (oid, (b', c'))" and "hooked_steps b b'" and "di < length feeds"
  shows "desk_moves (b, c) (b', c')"
proof -
  obtain por where "on_pre_order sd sz di feeds b c = Inr (por, c')" using assms(1) by (rule gatedE)
  then show ?thesis
    using assms(2,3) by (intro desk_moves_event [of b b' "PreOrder sd sz di feeds b"]) (simp_all add: plain_event_def)
qed

lemma desk_place_ok:
  assumes "desk_place feeds sd sz price sp ty di dk = Inr (oid, dk')" and "desk_ok dk" and "di < length feeds"
  shows "desk_ok dk' \<and> desk_moves dk dk' \<and> oid < b_next_order_id (fst dk') \<and> fresh_or_absent oid (fst dk')
    \<and> b_closed_trades (fst dk') = b_closed_trades (fst dk)"
proof -
  obtain b c b' c' where dk: "dk = (b, c)" "dk' = (b', c')" by fastforce
  have wf: "broker_wf b' \<and> hooked_steps b b' \<and> oid < b_next_order_id b' \<and> fresh_or_absent oid b'"
    using assms(1,2) unfolding dk by (intro desk_place_wf) (simp_all add: desk_ok_def)
  have "gate_ok (b', c') \<and> b_closed_trades b' = b_closed_trades b"
    using assms(1,2) submits_place unfolding dk desk_place_def desk_ok_def by (intro gated_ok) auto
  moreover have "desk_moves (b, c) (b', c')"
    using assms(1,3) wf unfolding dk desk_place_def by (intro gated_moves) auto
  ultimately show ?thesis using wf assms(2) hooked_live [of b b'] by (simp add: desk_ok_def dk)
qed

lemma desk_place_ext_ok:
  assumes "desk_place_ext feeds sd sz params dk = Inr (oid, dk')" and "desk_ok dk"
    and "op_data_index params < length feeds" and "op_parent_id params < b_next_order_id (fst dk)"
  shows "desk_ok dk' \<and> desk_moves dk dk' \<and> b_next_order_id (fst dk) \<le> b_next_order_id (fst dk')
    \<and> (fresh_or_absent m (fst dk) \<longrightarrow> fresh_or_absent m (fst dk')) \<and> b_closed_trades (fst dk') = b_closed_trades (fst dk)"
proof -
  obtain b c b' c' where dk: "dk = (b, c)" "dk' = (b', c')" by fastforce
  have wf: "broker_wf b' \<and> hooked_steps b b' \<and> b_next_order_id b \<le> b_next_order_id b' \<and> (fresh_or_absent m b \<longrightarrow> fresh_or_absent m b')"
    using assms(1,2,4) unfolding dk by (intro desk_place_ext_wf) (simp_all add: desk_ok_def)
  have "gate_ok (b', c') \<and> b_closed_trades b' = b_closed_trades b"
    using assms(1,2) submits_place_ext unfolding dk desk_place_ext_def desk_ok_def by (intro gated_ok) auto
  moreover have "desk_moves (b, c) (b', c')"
    using assms(1,3) wf unfolding dk desk_place_ext_def by (intro gated_moves) auto
  ultimately show ?thesis using wf assms(2) hooked_live [of b b'] by (simp add: desk_ok_def dk)
qed

lemma gate_ok_collector:
  assumes "gate_ok (b, c)" and "co_registry c' = co_registry c" and "co_next_candidate_id c' = co_next_candidate_id c"
    and "co_context c' = co_context c"
  shows "gate_ok (b, c')"
proof -
  have "licensed c' = licensed c" using assms(2) by (simp add: licensed_def fun_eq_iff)
  then show ?thesis using assms by (simp add: gate_ok_def sane_policy_def)
qed

lemma desk_broker_ok:
  assumes "desk_ok (b, c)" and "book_steps b b'" and "broker_wf b'" and "b_next_order_id b' = b_next_order_id b"
  shows "desk_ok (b', c) \<and> desk_moves (b, c) (b', c)"
proof -
  have "gate_ok (b, c)" using assms(1) by (simp add: desk_ok_def)
  moreover from this have "trades_booked b" by (simp add: gate_ok_def)
  then have "trades_booked b'" using book_steps_booked [OF assms(2)] by blast
  ultimately have "gate_ok (b', c)" using same_book [OF assms(2,4)] gate_ok_same by blast
  then show ?thesis
    using assms(1,3) hooked_live [OF hooked_book [OF assms(2)]] desk_moves_broker [OF hooked_book [OF assms(2)]]
    by (simp add: desk_ok_def)
qed

lemma set_child_ids_ticket: "map ticket (set_child_ids m kids os) = map ticket os"
  unfolding set_child_ids_def by (rule map_upd_first) (simp add: ticket_def)

lemma desk_bracket_ok:
  assumes "desk_bracket feeds sd sz lp sp di dk = Inr (r, dk')" and "desk_ok dk" and "di < length feeds"
  shows "desk_ok dk' \<and> desk_moves dk dk' \<and> b_closed_trades (fst dk') = b_closed_trades (fst dk)"
proof -
  obtain b c where dk: "dk = (b, c)" by fastforce
  let ?g = "b_next_oco_group_id b"
  let ?b0 = "b\<lparr>b_next_oco_group_id := ?g + 1\<rparr>"
  let ?tp = "\<lambda>mid. default_params\<lparr>op_type := Limit, op_price := lp, op_data_index := di, op_parent_id := mid,
     op_oco_group_id := ?g, op_transmit := False\<rparr>"
  let ?sl = "\<lambda>mid. default_params\<lparr>op_type := Stop, op_stop_price := Some sp, op_data_index := di, op_parent_id := mid,
     op_oco_group_id := ?g, op_transmit := False\<rparr>"
  obtain mid dk1 lid dk2 sid b3 c3 where r: "desk_place feeds sd sz 0 None Market di (?b0, c) = Inr (mid, dk1)"
    "desk_place_ext feeds (other_side sd) sz (?tp mid) dk1 = Inr (lid, dk2)"
    "desk_place_ext feeds (other_side sd) sz (?sl mid) dk2 = Inr (sid, (b3, c3))"
    "dk' = (b3\<lparr>b_all_orders := set_child_ids mid [lid, sid] (b_all_orders b3),
               b_pending := set_child_ids mid [lid, sid] (b_pending b3)\<rparr>, c3)"
    using assms(1) unfolding dk desk_bracket_def Let_def prod.case by (auto simp: bind_r_Inr)
  have "book_step b (b\<lparr>b_pending := b_pending b, b_events := b_events b, b_bar_index := b_bar_index b,
      b_next_oco_group_id := ?g + 1\<rparr>)" by (rule book_step.frame)
  moreover have "broker_wf ?b0" using assms(2) by (simp add: dk desk_ok_def broker_wf_def ids_ok_def agrees_def)
  ultimately have 0: "desk_ok (?b0, c) \<and> desk_moves (b, c) (?b0, c)"
    using assms(2) unfolding dk by (intro desk_broker_ok) auto
  have 1: "desk_ok dk1 \<and> desk_moves (?b0, c) dk1 \<and> mid < b_next_order_id (fst dk1) \<and> fresh_or_absent mid (fst dk1)
      \<and> b_closed_trades (fst dk1) = b_closed_trades b"
    using desk_place_ok [OF r(1)] 0 assms(3) by auto
  have 2: "desk_ok dk2 \<and> desk_moves dk1 dk2 \<and> b_next_order_id (fst dk1) \<le> b_next_order_id (fst dk2)
      \<and> (fresh_or_absent mid (fst dk1) \<longrightarrow> fresh_or_absent mid (fst dk2)) \<and> b_closed_trades (fst dk2) = b_closed_trades (fst dk1)"
    by (rule desk_place_ext_ok [OF r(2)]) (use 1 assms(3) in \<open>auto simp: default_params_def\<close>)
  have 3: "desk_ok (b3, c3) \<and> desk_moves dk2 (b3, c3) \<and> b_next_order_id (fst dk2) \<le> b_next_order_id (fst (b3, c3))
      \<and> (fresh_or_absent mid (fst dk2) \<longrightarrow> fresh_or_absent mid (fst (b3, c3))) \<and> b_closed_trades (fst (b3, c3)) = b_closed_trades (fst dk2)"
    by (rule desk_place_ext_ok [OF r(3)]) (use 1 2 assms(3) in \<open>auto simp: default_params_def\<close>)
  let ?b4 = "b3\<lparr>b_all_orders := set_child_ids mid [lid, sid] (b_all_orders b3), b_pending := set_child_ids mid [lid, sid] (b_pending b3)\<rparr>"
  have "find_order mid (b_all_orders b3) = None \<or> (\<exists>s. find_order mid (b_all_orders b3) = Some s \<and> o_status s = Created)"
    using 1 2 3 by (auto simp: fresh_or_absent_def)
  with 3 have "broker_wf ?b4 \<and> book_steps b3 ?b4" by (intro link_children_wf) (simp_all add: desk_ok_def)
  with 3 have "desk_ok dk' \<and> desk_moves (b3, c3) dk'" unfolding r(4) by (intro desk_broker_ok) auto
  moreover have "desk_moves (b, c) (b3, c3)"
    by (rule desk_moves_trans [OF desk_moves_trans [OF desk_moves_trans]]) (use 0 1 2 3 in blast)+
  moreover have "b_closed_trades (fst dk') = b_closed_trades b" using 1 2 3 by (simp add: r(4))
  ultimately show ?thesis unfolding dk using desk_moves_trans by auto
qed

lemma desk_close_ok:
  assumes "desk_close feeds di dk = Inr (oid, dk')" and "desk_ok dk" and "di < length feeds"
  shows "desk_ok dk' \<and> desk_moves dk dk' \<and> b_closed_trades (fst dk') = b_closed_trades (fst dk)"
proof -
  obtain b c where dk: "dk = (b, c)" by fastforce
  let ?b = "ensure_position di b" and ?p = "position_of di (ensure_position di b)"
  have "broker_wf ?b" using assms(2) by (simp add: dk desk_ok_def broker_wf_def ids_ok_def agrees_def ensure_position_def)
  moreover have "book_steps b ?b" by (blast intro: book_step.touch)
  ultimately have 0: "desk_ok (?b, c) \<and> desk_moves (b, c) (?b, c)" "b_closed_trades ?b = b_closed_trades b"
    using assms(2) unfolding dk by (intro desk_broker_ok) (auto simp: ensure_position_def)
  show ?thesis
  proof (cases "is_flat ?p")
    case True
    then have "dk' = (?b, c)" using assms(1) by (simp add: desk_close_def dk get_position_def Let_def)
    then show ?thesis using 0 by (simp add: dk)
  next
    case False
    then have "desk_place feeds (if is_long ?p then Sell else Buy) \<bar>p_size ?p\<bar> 0 None Market di (?b, c) = Inr (oid, dk')"
      using assms(1) by (simp add: desk_close_def dk get_position_def Let_def)
    from desk_place_ok [OF this _ assms(3)] 0
    have "desk_ok dk' \<and> desk_moves (?b, c) dk' \<and> b_closed_trades (fst dk') = b_closed_trades b" by simp
    then show ?thesis using 0 desk_moves_trans [of "(b, c)" "(?b, c)" dk'] unfolding dk by simp
  qed
qed

lemma on_trade_closed_fields [simp]:
  "co_registry (on_trade_closed t c) = co_registry c" "co_next_candidate_id (on_trade_closed t c) = co_next_candidate_id c"
  "co_context (on_trade_closed t c) = co_context c"
  by (simp_all add: on_trade_closed_def Let_def)

lemma report_closed_moves:
  assumes "desk_ok (b, c)" and "t_candidate_id ` set ts \<subseteq> traded b"
  shows "desk_ok (b, report_closed ts c) \<and> desk_moves (b, c) (b, report_closed ts c)"
  using assms
proof (induction ts arbitrary: c)
  case (Cons t ts)
  let ?c = "if trade_is_closed t then on_trade_closed t c else c"
  have "desk_moves (b, c) (b, on_trade_closed t c)"
    using Cons.prems(2) by (intro desk_moves_event [of b b "TradeClosed t"]) (simp_all add: plain_event_def)
  moreover have "gate_ok (b, on_trade_closed t c)"
    by (rule gate_ok_collector [of b c]) (use Cons.prems(1) in \<open>simp_all add: desk_ok_def\<close>)
  ultimately have 1: "desk_ok (b, ?c) \<and> desk_moves (b, c) (b, ?c)" using Cons.prems(1) by (simp add: desk_ok_def)
  have "desk_ok (b, report_closed ts ?c) \<and> desk_moves (b, ?c) (b, report_closed ts ?c)"
    using Cons.prems(2) 1 by (intro Cons.IH) auto
  moreover have "report_closed (t # ts) c = report_closed ts ?c" by (simp add: report_closed_def)
  ultimately show ?case using 1 desk_moves_trans [of "(b, c)" "(b, ?c)"] by simp
qed (simp add: report_closed_def)

lemma closed_since_traded: "t_candidate_id ` set (closed_since b b') \<subseteq> traded b'"
proof -
  have "fst ` set (drop n xs) \<subseteq> fst ` set xs" for n and xs :: "(trade \<times> real) list"
    by (rule image_mono) (rule set_drop_subset)
  then show ?thesis unfolding closed_since_def traded_def trades_of_def set_map by (intro image_mono) blast
qed

lemma desk_bar_ok:
  assumes "desk_ok (b, c)"
  shows "desk_ok (process_orders views b, report_closed (closed_since b (process_orders views b)) c)
    \<and> desk_moves (b, c) (process_orders views b, report_closed (closed_since b (process_orders views b)) c)
    \<and> (\<exists>new. b_closed_trades (process_orders views b) = b_closed_trades b @ new)"
proof -
  let ?b = "process_orders views b"
  have wf: "broker_wf ?b" "book_steps b ?b" using process_orders_wf [of b views] assms by (simp_all add: desk_ok_def)
  have 1: "desk_ok (?b, c) \<and> desk_moves (b, c) (?b, c)" by (rule desk_broker_ok [OF assms wf(2,1)]) simp
  have "desk_ok (?b, report_closed (closed_since b ?b) c) \<and> desk_moves (?b, c) (?b, report_closed (closed_since b ?b) c)"
    using 1 closed_since_traded by (intro report_closed_moves) simp_all
  then show ?thesis using 1 desk_moves_trans [of "(b, c)" "(?b, c)"] book_steps_booked [OF wf(2)] by simp
qed

lemma desk_step_ok:
  assumes "desk_step feeds x dk = Inr dk'" and "desk_ok dk" and "desk_admissible feeds x (fst dk)"
  shows "desk_ok dk' \<and> desk_moves dk dk' \<and> ((\<forall>views. x \<noteq> Bar views) \<longrightarrow> b_closed_trades (fst dk') = b_closed_trades (fst dk))"
proof (cases x)
  case (Place sd sz price sp ty di)
  then show ?thesis using assms desk_place_ok [of feeds sd sz price sp ty di dk] by (auto simp: bind_r_Inr)
next
  case (PlaceExt sd sz params)
  then show ?thesis using assms desk_place_ext_ok [of feeds sd sz params dk] by (auto simp: bind_r_Inr)
next
  case (Bracket sd sz lp sp di)
  then show ?thesis using assms desk_bracket_ok [of feeds sd sz lp sp di dk] by (auto simp: bind_r_Inr)
next
  case (CloseOut di)
  then show ?thesis using assms desk_close_ok [of feeds di dk] by (auto simp: bind_r_Inr)
next
  case (Bar views)
  obtain b c where dk: "dk = (b, c)" by fastforce
  then show ?thesis using assms desk_bar_ok [of b c views] Bar by (simp add: Let_def)
next
  case (Cancel oid)
  obtain b c where dk: "dk = (b, c)" by fastforce
  let ?b = "cancel_pending_where (\<lambda>ord. o_id ord = oid \<and> is_alive ord) b"
  have ok: "broker_wf b" "\<not> b_live b" using assms(2) by (simp_all add: dk desk_ok_def)
  then have "dk' = (?b, c)" using assms(1) by (simp add: Cancel dk cancel_order_def)
  moreover have "broker_wf ?b \<and> book_steps b ?b" by (rule cancel_pending_where_wf [OF ok(1)]) simp
  moreover have "b_closed_trades ?b = b_closed_trades b"
  proof -
    have "b_closed_trades (snd (cancel_loop P xs b)) = b_closed_trades b" for P xs and b
      by (induction P xs b rule: cancel_loop.induct) (auto simp: Let_def notify_order_def emit_def split: prod.split)
    then show ?thesis by (simp add: cancel_pending_where_def split_beta)
  qed
  ultimately show ?thesis using desk_broker_ok [of b c ?b] assms(2) by (simp add: dk Cancel)
next
  case NextOco
  obtain b c where dk: "dk = (b, c)" by fastforce
  let ?b = "b\<lparr>b_next_oco_group_id := b_next_oco_group_id b + 1\<rparr>"
  have "book_step b (b\<lparr>b_pending := b_pending b, b_events := b_events b, b_bar_index := b_bar_index b,
      b_next_oco_group_id := b_next_oco_group_id b + 1\<rparr>)" by (rule book_step.frame)
  then have "book_steps b ?b" by auto
  moreover have "broker_wf ?b" using assms(2) by (simp add: dk desk_ok_def broker_wf_def ids_ok_def agrees_def)
  ultimately show ?thesis using desk_broker_ok [of b c ?b] assms by (auto simp: dk NextOco next_oco_group_def)
next
  case (BarIndex n)
  obtain b c where dk: "dk = (b, c)" by fastforce
  let ?b = "b\<lparr>b_bar_index := n\<rparr>"
  have "book_step b (b\<lparr>b_pending := b_pending b, b_events := b_events b, b_bar_index := n,
      b_next_oco_group_id := b_next_oco_group_id b\<rparr>)" by (rule book_step.frame)
  then have "book_steps b ?b" by auto
  moreover have "broker_wf ?b" using assms(2) by (simp add: dk desk_ok_def broker_wf_def ids_ok_def agrees_def)
  ultimately show ?thesis using desk_broker_ok [of b c ?b] assms by (auto simp: dk BarIndex set_bar_index_def)
qed

fun desk_admissible_run :: "(nfeed list \<times> client_call) list \<Rightarrow> desk \<Rightarrow> bool" where
  "desk_admissible_run [] dk \<longleftrightarrow> True"
| "desk_admissible_run ((feeds, x) # xs) dk \<longleftrightarrow> desk_admissible feeds x (fst dk)
     \<and> (case desk_step feeds x dk of Inl e \<Rightarrow> True | Inr dk' \<Rightarrow> desk_admissible_run xs dk')"

lemma desk_run_ok:
  "desk_run xs dk = Inr dk' \<Longrightarrow> desk_ok dk \<Longrightarrow> desk_admissible_run xs dk \<Longrightarrow> desk_ok dk' \<and> desk_moves dk dk'"
proof (induction xs dk rule: desk_run.induct)
  case (2 feeds x xs dk)
  then obtain dk1 where 1: "desk_step feeds x dk = Inr dk1" "desk_run xs dk1 = Inr dk'" by (auto simp: bind_r_Inr)
  then have "desk_ok dk1 \<and> desk_moves dk dk1" using 2 desk_step_ok [OF 1(1)] by auto
  then show ?case using 2 1 desk_moves_trans [of dk dk1 dk'] by auto
qed simp

lemma rejected_untraded:
  assumes "gate_ok (b, c)" and "co_registry c i = Some y" and "ca_verdict y = VReject" and "i \<noteq> 0"
  shows "i \<notin> fst ` set (tickets b)" and "i \<notin> traded b"
proof -
  show absent: "i \<notin> fst ` set (tickets b)"
  proof
    assume "i \<in> fst ` set (tickets b)"
    then obtain sz sd di where "(i, sz, sd, di) \<in> set (tickets b)" by auto
    then have "licensed c (i, sz, sd, di)" using assms(1) by (auto simp: gate_ok_def list_all_iff)
    then show False using assms(2-4) by (simp add: licensed_def)
  qed
  show "i \<notin> traded b" using assms(1,4) absent by (auto simp: gate_ok_def trades_booked_def)
qed

lemma ticket_licensed:
  assumes "gate_ok (b, c)" and "x \<in> set (b_all_orders b)" and "o_candidate_id x \<noteq> 0"
  shows "\<exists>y. co_registry c (o_candidate_id x) = Some y \<and> ca_verdict y \<noteq> VReject \<and> ca_final_size y = o_size x
     \<and> describes y (o_side x) (ca_proposed_size y) (o_data_index x)"
proof -
  have "licensed c (ticket x)" using assms(1,2) by (auto simp: gate_ok_def list_all_iff tickets_def)
  then show ?thesis using assms(3) by (simp add: licensed_def ticket_def)
qed

lemma collector_step_context:
  "collector_step e c = Inr (c', cs, rs) \<Longrightarrow> co_context c' = co_context c \<and> co_config c' = co_config c"
proof (cases e)
  case (PreOrder side sz di feeds b)
  assume "collector_step e c = Inr (c', cs, rs)"
  then obtain por where "on_pre_order side sz di feeds b c = Inr (por, c')" by (auto simp: PreOrder bind_r_Inr)
  then show ?thesis by (cases rule: on_pre_order_answer) (simp_all add: registers_def)
qed (auto simp: on_bar_def on_stop_def on_trade_closed_def drain_candidates_def drain_outcomes_def bind_r_Inr Let_def split: if_splits)

lemma collector_run_context:
  "collector_run es c = Inr (c', cs, rs) \<Longrightarrow> co_context c' = co_context c \<and> co_config c' = co_config c"
  by (induction es arbitrary: c cs rs) (auto simp: bind_r_Inr dest!: collector_step_context)

lemma desk_moves_config: "desk_moves dk dk' \<Longrightarrow> co_config (snd dk') = co_config (snd dk)"
  by (auto simp: desk_moves_def dest: collector_run_context)

lemma sane_new_policy: "co_context c = Some ctx \<Longrightarrow> ic_policy ctx = new_sizing_policy mode thr ex \<Longrightarrow> sane_policy c"
  using clamp_float_range [of "1 / 10" 5 ex] by (simp add: sane_policy_def new_sizing_policy_def)

text \<open>A rejected candidate is on paper exactly once.\<close>

lemma rejected_on_paper:
  assumes "accounts T c cs rs" and "co_registry c i = Some y" and "ca_verdict y = VReject" and "i \<notin> T"
  shows "count_list (map sw_candidate_id (co_shadows c)) i + count_list (map oc_candidate_id rs) i = 1"
proof -
  have "map_of (map (\<lambda>x. (ca_candidate_id x, x)) cs) i = Some y" using assms(1,2) by (simp add: accounts_def)
  then have "y \<in> set cs \<and> ca_candidate_id y = i" by (auto dest!: map_of_SomeD)
  then have "count (paper c rs) i = 1" using assms(1,3,4) by (auto simp: accounts_def)
  then show ?thesis by (simp add: paper_def count_mset flip: mset_map)
qed

lemma registry_positive: "accounts T c cs rs \<Longrightarrow> co_registry c i = Some y \<Longrightarrow> i \<noteq> 0"
proof -
  assume a: "accounts T c cs rs" "co_registry c i = Some y"
  then have "map_of (map (\<lambda>x. (ca_candidate_id x, x)) cs) i = Some y" by (simp add: accounts_def)
  then have "i \<in> set (map ca_candidate_id cs)" by (auto dest!: map_of_SomeD)
  also have "set (map ca_candidate_id cs) = {1..<co_next_candidate_id c}" using a(1) unfolding accounts_def by (metis set_upt)
  finally show ?thesis by simp
qed

definition fresh_collector :: "collector_config \<Rightarrow> inference_context option \<Rightarrow> nfeed list \<Rightarrow> collector" where
  "fresh_collector config ctx feeds = collector_init feeds (set_inference_context ctx (new_collector config))"

lemma fresh_collector_fields:
  "co_registry (fresh_collector config ctx feeds) = Map.empty" "co_next_candidate_id (fresh_collector config ctx feeds) = 1"
  "co_context (fresh_collector config ctx feeds) = ctx" "co_shadows (fresh_collector config ctx feeds) = []"
  "co_candidates (fresh_collector config ctx feeds) = []" "co_outcomes (fresh_collector config ctx feeds) = []"
  by (simp_all add: fresh_collector_def collector_init_def set_inference_context_def new_collector_def)

lemma fresh_desk_ok:
  assumes "b_all_orders b = []" and "b_open_trades b = []" and "b_closed_trades b = []" and "broker_wf b" and "\<not> b_live b"
  shows "desk_ok (b, fresh_collector config ctx feeds)"
  using assms by (simp add: desk_ok_def gate_ok_def fresh_collector_fields tickets_def trades_booked_def traded_def trades_of_def)

lemma fresh_accounts: "accounts T (fresh_collector config ctx feeds) [] []"
  by (simp add: accounts_def paper_def fresh_collector_fields)

text \<open>
  C37. The corrective gate is enforced: after any history of orders, cancellations and bars from a fresh
  broker and collector, every order of the book that carries a candidate was let through, with the
  side, the feed and exactly the size of the verdict, never more than was proposed; no two
  orders carry the same candidate. A rejected candidate has no order, no trade, open or
  closed, and is followed on paper exactly once, in one open shadow or one outcome.
\<close>

theorem corrective_gate_enforced:
  assumes "desk_run xs (new_broker base cash0 fx, fresh_collector config (Some ctx) feeds) = Inr (b, c)"
    and "desk_admissible_run xs (new_broker base cash0 fx, fresh_collector config (Some ctx) feeds)"
    and "ic_policy ctx = new_sizing_policy mode thr ex"
  shows "(\<forall>x \<in> set (b_all_orders b). o_candidate_id x \<noteq> 0 \<longrightarrow>
       (\<exists>y. co_registry c (o_candidate_id x) = Some y \<and> ca_verdict y \<noteq> VReject \<and> o_size x = ca_final_size y
          \<and> describes y (o_side x) (ca_proposed_size y) (o_data_index x)
          \<and> (0 \<le> ca_proposed_size y \<longrightarrow> 0 \<le> o_size x \<and> o_size x \<le> ca_proposed_size y)))
   \<and> distinct (filter ((\<noteq>) 0) (map o_candidate_id (b_all_orders b)))
   \<and> (\<forall>i y. co_registry c i = Some y \<and> ca_verdict y = VReject \<longrightarrow>
        (\<forall>x \<in> set (b_all_orders b). o_candidate_id x \<noteq> i)
        \<and> (\<forall>t \<in> fst ` set (b_open_trades b @ b_closed_trades b). t_candidate_id t \<noteq> i)
        \<and> count_list (map sw_candidate_id (co_shadows c)) i + count_list (map oc_candidate_id (co_outcomes c)) i = 1)"
proof -
  let ?c0 = "fresh_collector config (Some ctx) feeds"
  have "desk_ok (new_broker base cash0 fx, ?c0)"
    by (rule fresh_desk_ok) (rule new_broker_wf new_broker_backtest | simp add: new_broker_def)+
  from desk_run_ok [OF assms(1) this assms(2)] obtain es where ok: "desk_ok (b, c)"
    and es: "collector_run es ?c0 = Inr (c, [], [])" "\<forall>e \<in> set es. plain_event b e"
    by (auto simp: desk_moves_def)
  have gate: "gate_ok (b, c)" using ok by (simp add: desk_ok_def)
  have "\<forall>e \<in> set es. traded_ids e \<subseteq> traded b \<and> has_feed e" using es(2) by (auto simp: plain_event_def)
  from accounts_run [OF es(1) this, of "[]" "[]"] have A: "accounts (traded b) c (co_candidates c) (co_outcomes c)"
    using fresh_accounts by (simp add: fresh_collector_fields)
  have "sane_policy c"
    using collector_run_context [OF es(1)] assms(3) by (intro sane_new_policy) (simp_all add: fresh_collector_fields)
  then have fair: "fair_size y" if "co_registry c i = Some y" for i y
    using gate that by (auto simp: gate_ok_def)
  have order: "\<exists>y. co_registry c (o_candidate_id x) = Some y \<and> ca_verdict y \<noteq> VReject \<and> o_size x = ca_final_size y
      \<and> describes y (o_side x) (ca_proposed_size y) (o_data_index x)
      \<and> (0 \<le> ca_proposed_size y \<longrightarrow> 0 \<le> o_size x \<and> o_size x \<le> ca_proposed_size y)"
    if x: "x \<in> set (b_all_orders b)" "o_candidate_id x \<noteq> 0" for x
  proof -
    obtain y where y: "co_registry c (o_candidate_id x) = Some y" "ca_verdict y \<noteq> VReject" "ca_final_size y = o_size x"
      "describes y (o_side x) (ca_proposed_size y) (o_data_index x)"
      using ticket_licensed [OF gate x] by blast
    then show ?thesis using fair [OF y(1)] by (auto simp: fair_size_def)
  qed
  have "map o_candidate_id (b_all_orders b) = map fst (tickets b)" by (simp add: tickets_def ticket_def)
  then have single: "distinct (filter ((\<noteq>) 0) (map o_candidate_id (b_all_orders b)))"
    using gate by (simp add: gate_ok_def strict_sorted_iff)
  have rejected: "(\<forall>x \<in> set (b_all_orders b). o_candidate_id x \<noteq> i)
      \<and> (\<forall>t \<in> fst ` set (b_open_trades b @ b_closed_trades b). t_candidate_id t \<noteq> i)
      \<and> count_list (map sw_candidate_id (co_shadows c)) i + count_list (map oc_candidate_id (co_outcomes c)) i = 1"
    if y: "co_registry c i = Some y" "ca_verdict y = VReject" for i y
  proof -
    note none = rejected_untraded [OF gate y registry_positive [OF A y(1)]]
    show ?thesis
      using none rejected_on_paper [OF A y none(2)]
      by (auto simp: tickets_def ticket_def traded_def trades_of_def image_image image_Un)
  qed
  show ?thesis using order single rejected by blast
qed

definition demo_gate_context :: inference_context where
  "demo_gate_context =
     \<lparr>ic_calibrator = from_isotonic [\<lparr>bp_x = 0, bp_y = 1 / 4\<rparr>], ic_policy = new_sizing_policy MGate (1 / 2) 1,
      ic_session = (\<lambda>fs. [([1], [Fin 0])])\<rparr>"

definition demo_gate_config :: collector_config where
  "demo_gate_config =
     \<lparr>cc_corrective = \<lparr>rc_state = VPass, rc_mode = MGate, rc_threshold = 1 / 2, rc_exponent = 1, rc_shadow_horizon = 50\<rparr>,
      cc_shadow_horizon_bars = 50\<rparr>"

lemma demo_gate_collector: "fresh_collector demo_gate_config (Some demo_gate_context) [two_bars 12 5] = demo_collector"
  by (simp add: fresh_collector_def demo_collector_def demo_gate_context_def demo_gate_config_def set_inference_context_def
      collector_init_def)

theorem corrective_gate_enforced_witness:
  "\<exists>b c. desk_run [([two_bars 12 5], Place Buy 100 0 None Market 0)]
       (new_broker USD 10000 None, fresh_collector demo_gate_config (Some demo_gate_context) [two_bars 12 5]) = Inr (b, c)
     \<and> 1 \<notin> o_candidate_id ` set (b_all_orders b)
     \<and> count_list (map sw_candidate_id (co_shadows c)) 1 + count_list (map oc_candidate_id (co_outcomes c)) 1 = 1"
proof -
  let ?dk = "(new_broker USD 10000 None, fresh_collector demo_gate_config (Some demo_gate_context) [two_bars 12 5])"
  let ?xs = "[([two_bars 12 5], Place Buy 100 0 None Market 0)]"
  obtain c where c: "on_pre_order Buy 100 0 [two_bars 12 5] (new_broker USD 10000 None) demo_collector
     = Inr (\<lparr>por_candidate_id = 1, por_final_size = 0, por_rejected = True\<rparr>, c)"
    using demo_pre_order by blast
  then have run: "desk_run ?xs ?dk = Inr (answered \<lparr>por_candidate_id = 1, por_final_size = 0, por_rejected = True\<rparr> (new_broker USD 10000 None), c)"
    by (simp add: demo_gate_collector desk_place_def gated_def submit_order_def run_pre_order_hook_def)
       (simp add: answered_def set_pre_order_hook_def)
  have "co_next_candidate_id demo_collector = 1" by (simp flip: demo_gate_collector add: fresh_collector_fields)
  moreover from c have "\<exists>y. co_registry c (co_next_candidate_id demo_collector) = Some y \<and> ca_verdict y = VReject"
    by (cases rule: on_pre_order_answer) (auto simp: registers_def)
  ultimately obtain y where y: "co_registry c 1 = Some y \<and> ca_verdict y = VReject" by auto
  have adm: "desk_admissible_run ?xs ?dk" by (simp split: sum.split)
  have policy: "ic_policy demo_gate_context = new_sizing_policy MGate (1 / 2) 1" by (simp add: demo_gate_context_def)
  note gate = corrective_gate_enforced [OF run adm policy, THEN conjunct2, THEN conjunct2, rule_format, OF y]
  then have "1 \<notin> o_candidate_id ` set (b_all_orders (answered \<lparr>por_candidate_id = 1, por_final_size = 0, por_rejected = True\<rparr>
      (new_broker USD 10000 None)))" by (metis imageE)
  moreover note conjunct2 [OF conjunct2 [OF gate]]
  ultimately show ?thesis using run by blast
qed

text \<open>
  An order on the other side of the position counts as reducing whatever its size, so that a sale of
  two units from one unit long ends one unit short without being a candidate.
\<close>

lemma reversal_is_not_asked:
  "p_size (position_of di b) = 1 \<Longrightarrow> on_pre_order Sell 2 di feeds b c
     = Inr (\<lparr>por_candidate_id = 0, por_final_size = 2, por_rejected = False\<rparr>, c)"
  by (simp add: on_pre_order_def reducing_def is_long_def eps_def)

end
