(* ===== verification/Corrected.thy ===== *)
theory Corrected
  imports Backtest Gate Streaming
begin

text \<open>
  \<^verbatim>\<open>engine/cerebro.hpp\<close> with a candidate collector attached and increment batchers among the observers: the
  same run loop as in \<open>Cerebro\<close>, over a desk instead of a broker. The collector answers every
  submission, hears of every closed trade, ticks after the observers of each bar and is stopped
  before the strategies; a batcher drains it. The steady clock that a batcher reads is a
  function of the bar (0 at the start). A run is one history of the stream, so that what is
  proved of the broker, the collector and the stream holds of the whole.
\<close>

subsection \<open>State\<close>

text \<open>An observer is a batcher, with what it has sent, or any other.\<close>

datatype 'm watcher = Watch "'m monitor" | Batch batcher "(increment \<times> nfeed list) list"

record ('u, 'm) corrected_engine =
  ce_sources :: "source list"
  ce_cells :: "('u, desk) cell list"
  ce_analyzers :: "'m monitor list"
  ce_observers :: "'m watcher list"
  ce_broker :: broker
  ce_collector :: collector
  ce_warmup_end_ms :: int
  ce_final_delivered :: "nat list"

record ('u, 'm) corrected_state =
  cs_slots :: "slot list"
  cs_cells :: "('u, desk) cell list"
  cs_desk :: desk
  cs_warmup_ms :: int
  cs_analyzers :: "'m monitor list"
  cs_observers :: "'m watcher list"

definition engine_set_collector :: "collector \<Rightarrow> ('u, 'm) corrected_engine \<Rightarrow> ('u, 'm) corrected_engine" where
  "engine_set_collector c e = e\<lparr>ce_collector := c\<rparr>"

subsection \<open>Observers\<close>

fun attach_watcher :: "collector \<Rightarrow> 'm watcher \<Rightarrow> 'm watcher" where
  "attach_watcher c (Batch bt out) = Batch (set_candidate_collector (Some c) bt) out"
| "attach_watcher c (Watch m) = Watch m"

fun watcher_start :: "datetime \<Rightarrow> 'm watcher \<Rightarrow> 'm watcher" where
  "watcher_start now (Batch bt out) = Batch (batcher_start now bt) out"
| "watcher_start now (Watch m) = Watch (m\<lparr>mo_state := mo_start m (mo_state m)\<rparr>)"

fun watcher_trade :: "'m watcher \<Rightarrow> trade \<Rightarrow> 'm watcher" where
  "watcher_trade (Batch bt out) t = Batch (batcher_notify_trade t bt) out"
| "watcher_trade (Watch m) t = Watch m"

text \<open>The collector that a batcher points to is the one of the engine.\<close>

definition pointed :: "batcher \<Rightarrow> collector \<Rightarrow> collector" where
  "pointed bt c = (case bt_collector bt of Some c' \<Rightarrow> c' | None \<Rightarrow> c)"

fun watcher_next :: "datetime \<Rightarrow> broker \<Rightarrow> nfeed list \<Rightarrow> 'm watcher \<Rightarrow> collector \<Rightarrow> exn + ('m watcher \<times> collector)" where
  "watcher_next now b feeds (Batch bt out) c =
     bind_r (batcher_next now b feeds (set_candidate_collector (Some c) bt)) (\<lambda>(new, bt').
       Inr (Batch bt' (out @ new), pointed bt' c))"
| "watcher_next now b feeds (Watch m) c = bind_r (monitor_next b feeds m) (\<lambda>m'. Inr (Watch m', c))"

fun watcher_stop :: "'m watcher \<Rightarrow> collector \<Rightarrow> exn + ('m watcher \<times> collector)" where
  "watcher_stop (Batch bt out) c =
     (let (new, bt') = batcher_stop (set_candidate_collector (Some c) bt) in Inr (Batch bt' (out @ new), pointed bt' c))"
| "watcher_stop (Watch m) c = Inr (Watch (m\<lparr>mo_state := mo_stop m (mo_state m)\<rparr>), c)"

subsection \<open>The run\<close>

definition corrected_bar ::
  "(nat \<Rightarrow> datetime) \<Rightarrow> nat \<Rightarrow> nat \<Rightarrow> ('u, 'm) corrected_state \<Rightarrow> exn + ('u, 'm) corrected_state" where
  "corrected_bar clock num_bars bar rs =
     (let (b, c) = cs_desk rs; b0 = set_bar_index bar b
      in bind_r (align bar (cs_slots rs)) (\<lambda>slots.
         let feeds = map sl_data slots;
             cells = map (propagate slots) (cs_cells rs);
             b1 = process_orders (views_of feeds) b0;
             ts = closed_since b0 b1;
             obs1 = map (\<lambda>w. foldl watcher_trade w ts) (cs_observers rs);
             c1 = report_closed ts c
         in bind_r (map_state_r (lifecycle bar slots) cells ((b1, c1), cs_warmup_ms rs)) (\<lambda>(cells', ((b2, c2), w)).
            bind_r (map_r (monitor_next b2 feeds) (cs_analyzers rs)) (\<lambda>ans.
            bind_r (map_state_r (watcher_next (clock bar) b2 feeds) obs1 c2) (\<lambda>(obs, c3).
            bind_r (on_bar feeds b2 c3) (\<lambda>c4.
              Inr (\<lparr>cs_slots = (if bar + 1 < num_bars then advance_master slots else slots),
                    cs_cells = cells', cs_desk = (b2, c4), cs_warmup_ms = w,
                    cs_analyzers = ans, cs_observers = obs\<rparr>)))))))"

definition corrected_prepare ::
  "datetime \<Rightarrow> nfeed list \<Rightarrow> ('u, 'm) corrected_engine \<Rightarrow> exn + ('u, 'm) corrected_state" where
  "corrected_prepare now feeds e =
     (let b0 = set_trade_notify True (set_order_notify True (ce_broker e)); c0 = collector_init feeds (ce_collector e)
      in bind_r (map_state_r (init_cell feeds) (ce_cells e) (b0, c0)) (\<lambda>(cells, (b, c)).
         bind_r (check_warmup_feasibility feeds cells) (\<lambda>_.
           Inr (\<lparr>cs_slots = map new_slot feeds, cs_cells = cells, cs_desk = (b, c),
                 cs_warmup_ms = ce_warmup_end_ms e,
                 cs_analyzers = map (\<lambda>m. m\<lparr>mo_state := mo_start m (mo_state m)\<rparr>) (ce_analyzers e),
                 cs_observers = map (watcher_start now \<circ> attach_watcher c) (ce_observers e)\<rparr>))))"

definition corrected_finish ::
  "('u, 'm) corrected_state \<Rightarrow> ('u, 'm) corrected_engine \<Rightarrow> exn + ('u, 'm) corrected_engine" where
  "corrected_finish rs e =
     (let feeds = map sl_data (cs_slots rs); (b, c) = cs_desk rs
      in bind_r (on_stop feeds b c) (\<lambda>c1.
         bind_r (map_state_r (\<lambda>x dk. call_hook (cls_stop (cl_class x)) feeds x dk) (cs_cells rs) (b, c1)) (\<lambda>(cells, (b2, c2)).
         bind_r (map_state_r watcher_stop (cs_observers rs) c2) (\<lambda>(obs, c3).
           Inr (e\<lparr>ce_cells := cells, ce_broker := b2, ce_collector := c3, ce_warmup_end_ms := cs_warmup_ms rs,
                  ce_final_delivered := map sl_delivered (cs_slots rs),
                  ce_analyzers := map (\<lambda>m. m\<lparr>mo_state := mo_stop m (mo_state m)\<rparr>) (cs_analyzers rs),
                  ce_observers := obs\<rparr>)))))"

definition corrected_run ::
  "run_options \<Rightarrow> (nat \<Rightarrow> datetime) \<Rightarrow> ('u, 'm) corrected_engine \<Rightarrow> exn + ('u, 'm) corrected_engine" where
  "corrected_run opts clock e =
     (let feeds = map preload_source (ce_sources e); n = feed_size (nf_feed (feeds ! 0))
      in if ce_sources e = [] then Inr e
         else if \<not> ro_preload opts then
           Inl (InvalidArgument ''Cerebro currently requires preload=true; streaming execution is not implemented'')
         else if n = 0 then Inr e
         else (case finer_context feeds of
                 Some k \<Rightarrow> Inl (InvalidArgument (finer_message k (nf_tfc (feeds ! 0)) (nf_tfc (feeds ! k))))
               | None \<Rightarrow>
                   bind_r (corrected_prepare (clock 0) feeds e) (\<lambda>rs.
                   bind_r (fold_r (corrected_bar clock n) [0..<n] rs) (\<lambda>rs'. corrected_finish rs' e))))"

subsection \<open>Strategies at the desk\<close>

definition desk_client :: "nfeed list \<Rightarrow> desk \<Rightarrow> desk \<Rightarrow> bool" where
  "desk_client feeds dk dk' \<longleftrightarrow>
     (\<exists>xs. desk_run (map (Pair feeds) xs) dk = Inr dk' \<and> desk_admissible_run (map (Pair feeds) xs) dk
        \<and> (\<forall>x \<in> set xs. \<forall>views. x \<noteq> Bar views))"

definition desk_serves :: "desk \<Rightarrow> desk \<Rightarrow> bool" where
  "desk_serves dk dk' \<longleftrightarrow> (desk_ok dk \<longrightarrow> desk_ok dk' \<and> desk_moves dk dk' \<and> b_closed_trades (fst dk') = b_closed_trades (fst dk))"

lemma desk_serves_refl [simp]: "desk_serves dk dk"
  by (simp add: desk_serves_def)

lemma desk_serves_trans: "desk_serves a b \<Longrightarrow> desk_serves b c \<Longrightarrow> desk_serves a c"
  using desk_moves_trans [of a b c] by (simp add: desk_serves_def)

lemma desk_client_serves: "desk_client feeds dk dk' \<Longrightarrow> desk_serves dk dk'"
proof -
  have "desk_run (map (Pair feeds) xs) dk = Inr dk' \<Longrightarrow> desk_admissible_run (map (Pair feeds) xs) dk \<Longrightarrow>
      \<forall>x \<in> set xs. \<forall>views. x \<noteq> Bar views \<Longrightarrow> desk_serves dk dk'" for xs
  proof (induction xs arbitrary: dk)
    case (Cons x xs)
    then obtain dk1 where 1: "desk_step feeds x dk = Inr dk1" "desk_run (map (Pair feeds) xs) dk1 = Inr dk'"
      by (auto simp: bind_r_Inr)
    then have "desk_serves dk dk1" using desk_step_ok [OF 1(1)] Cons.prems by (auto simp: desk_serves_def)
    moreover have "desk_serves dk1 dk'" using Cons 1 by auto
    ultimately show ?case by (rule desk_serves_trans)
  qed simp
  then show "desk_client feeds dk dk' \<Longrightarrow> desk_serves dk dk'" by (auto simp: desk_client_def)
qed

interpretation serving: shared_state desk_serves
  by unfold_locales (rule desk_serves_refl, rule desk_serves_trans)

text \<open>Strategies that trade through the desk and place nothing while stopping.\<close>

definition hook_gated :: "('u, desk) hook \<Rightarrow> bool" where
  "hook_gated h \<longleftrightarrow> (\<forall>feeds s u dk s' u' dk'. h feeds (s, u, dk) = Inr (s', u', dk') \<longrightarrow> desk_client feeds dk dk')"

definition class_gated :: "('u, desk) strategy_class \<Rightarrow> bool" where
  "class_gated cls \<longleftrightarrow> hook_gated (cls_init cls) \<and> hook_gated (cls_start cls) \<and> hook_gated (cls_prenext cls)
     \<and> hook_gated (cls_nextstart cls) \<and> hook_gated (cls_next cls) \<and> hook_within (=) (cls_stop cls)"

lemma class_gated_within: "class_gated cls \<Longrightarrow> class_within desk_serves cls"
  using desk_client_serves by (fastforce simp: class_gated_def class_within_def hook_gated_def hook_within_def)

subsection \<open>A run is a history of the stream\<close>

lemma stream_run_append:
  "stream_run es bt = Inr (out1, bt1) \<Longrightarrow> stream_run fs bt1 = Inr (out2, bt2) \<Longrightarrow> stream_run (es @ fs) bt = Inr (out1 @ out2, bt2)"
proof (induction fs arbitrary: out2 bt2 rule: rev_induct)
  case (snoc f fs)
  then obtain out0 bt0 new where r: "stream_run fs bt1 = Inr (out0, bt0)" "stream_step f bt0 = Inr (new, bt2)" "out2 = out0 @ new"
    by (auto simp: stream_run_snoc)
  show ?case using snoc.IH [OF snoc.prems(1) r(1)] r(2,3) by (auto simp: stream_run_snoc simp flip: append_assoc)
qed (simp add: stream_run_nil)

lemma stream_run_single: "stream_step e bt = Inr (new, bt') \<Longrightarrow> stream_run [e] bt = Inr (new, bt')"
  by (simp add: stream_run_def)

lemma attached_simps [simp]:
  "bt_collector (set_candidate_collector c bt) = c" "set_candidate_collector c (set_candidate_collector d bt) = set_candidate_collector c bt"
  "batcher_notify_trade t (set_candidate_collector c bt) = set_candidate_collector c (batcher_notify_trade t bt)"
  "batcher_start now (set_candidate_collector c bt) = set_candidate_collector c (batcher_start now bt)"
  by (simp_all add: set_candidate_collector_def batcher_notify_trade_def batcher_start_def project_trade_def Let_def)

lemma stream_collects:
  assumes "collector_run es c = Inr (c', [], [])"
  shows "stream_run (map StreamCollect es) (set_candidate_collector (Some c) bt) = Inr ([], set_candidate_collector (Some c') bt)"
  using assms
proof (induction es arbitrary: c)
  case (Cons e es)
  then obtain c1 where 1: "collector_step e c = Inr (c1, [], [])" "collector_run es c1 = Inr (c', [], [])" by (auto simp: bind_r_Inr)
  have "collect e (set_candidate_collector (Some c) bt) = Inr (set_candidate_collector (Some c1) bt)"
    using 1(1) by (simp add: collect_def) (simp add: set_candidate_collector_def)
  then have "stream_run [StreamCollect e] (set_candidate_collector (Some c) bt) = Inr ([], set_candidate_collector (Some c1) bt)"
    by (intro stream_run_single) simp
  from stream_run_append [OF this Cons.IH [OF 1(2)]] show ?case by simp
qed (simp add: stream_run_nil)

lemma stream_trades:
  "stream_run (map StreamTrade ts) (set_candidate_collector c bt) = Inr ([], set_candidate_collector c (foldl (\<lambda>bt t. batcher_notify_trade t bt) bt ts))"
proof (induction ts rule: rev_induct)
  case (snoc t ts)
  then show ?case by (simp add: stream_run_snoc)
qed (simp add: stream_run_nil)

text \<open>The batcher and its output as the history of a desk.\<close>

definition recorded :: "batcher \<Rightarrow> real bar list \<Rightarrow> desk \<Rightarrow> batcher \<Rightarrow> (increment \<times> nfeed list) list \<Rightarrow> bool" where
  "recorded bt0 bars dk bt out \<longleftrightarrow>
     (\<exists>es. stream_run es bt0 = Inr (out, set_candidate_collector (Some (snd dk)) bt)
        \<and> (\<forall>e \<in> set es. collects_soundly e \<and> reported_ids e \<subseteq> traded (fst dk))
        \<and> bars_seen es = bars \<and> trades_seen es = map fst (b_closed_trades (fst dk)))"

lemma seen_collects [simp]:
  "bars_seen (map StreamCollect es) = []" "trades_seen (map StreamCollect es) = []"
  "bars_seen (map StreamTrade ts) = []" "trades_seen (map StreamTrade ts) = ts"
  by (induction es, simp_all add: bars_seen_def trades_seen_def) (induction ts, simp_all)+

lemma seen_append [simp]:
  "bars_seen (es @ fs) = bars_seen es @ bars_seen fs" "trades_seen (es @ fs) = trades_seen es @ trades_seen fs"
  by (simp_all add: bars_seen_def trades_seen_def)

lemma recorded_moves:
  assumes "recorded bt0 bars dk bt out" and "desk_moves dk dk'" and "b_closed_trades (fst dk') = b_closed_trades (fst dk) @ new"
  shows "recorded bt0 bars dk' (foldl (\<lambda>bt t. batcher_notify_trade t bt) bt (map fst new)) out"
proof -
  obtain es where es: "stream_run es bt0 = Inr (out, set_candidate_collector (Some (snd dk)) bt)"
    "\<forall>e \<in> set es. collects_soundly e \<and> reported_ids e \<subseteq> traded (fst dk)"
    "bars_seen es = bars" "trades_seen es = map fst (b_closed_trades (fst dk))"
    using assms(1) by (auto simp: recorded_def)
  obtain fs where fs: "collector_run fs (snd dk) = Inr (snd dk', [], [])" "\<forall>e \<in> set fs. plain_event (fst dk') e"
    "hooked_steps (fst dk) (fst dk')"
    using assms(2) by (auto simp: desk_moves_def)
  let ?es = "(es @ map StreamCollect fs) @ map StreamTrade (map fst new)"
  have "stream_run ?es bt0 = Inr (out, set_candidate_collector (Some (snd dk')) (foldl (\<lambda>bt t. batcher_notify_trade t bt) bt (map fst new)))"
    using stream_run_append [OF stream_run_append [OF es(1) stream_collects [OF fs(1)]] stream_trades [of "map fst new"]]
    by simp
  moreover have "collects_soundly e \<and> reported_ids e \<subseteq> traded (fst dk')" if "e \<in> set ?es" for e
    using that es(2) fs(2) traded_mono [OF fs(3)] by (auto simp: plain_event_def) blast
  moreover have "bars_seen ?es = bars \<and> trades_seen ?es = map fst (b_closed_trades (fst dk'))"
    using es(3,4) assms(3) seen_collects(3,4) [of "map fst new"] by simp
  ultimately show ?thesis unfolding recorded_def by blast
qed

text \<open>What a batcher does to the collector: nothing, or it drains it.\<close>

definition drained :: "collector \<Rightarrow> collector" where
  "drained c = c\<lparr>co_candidates := [], co_outcomes := []\<rparr>"

lemma emit_drains:
  "emit_snapshot fin (set_candidate_collector (Some c) bt) = (x, bt') \<Longrightarrow> bt_collector bt' = Some (drained c)"
  by (auto simp: emit_snapshot_def drain_candidates_def drain_outcomes_def drained_def Let_def)

lemma emit_collector_cong:
  "bt_collector bt = Some c \<Longrightarrow> emit_snapshot fin bt = (x, bt') \<Longrightarrow> bt_collector bt' = Some (drained c)"
  by (auto simp: emit_snapshot_def drain_candidates_def drain_outcomes_def drained_def Let_def)

lemma batcher_next_collector:
  assumes "batcher_next now b feeds (set_candidate_collector (Some c) bt) = Inr (new, bt')"
  shows "bt_collector bt' = Some c \<or> bt_collector bt' = Some (drained c)"
proof -
  let ?bt = "set_candidate_collector (Some c) bt"
  obtain bt1 pv ts where n: "push_bar feeds (first_bar b feeds (?bt\<lparr>bt_feeds := Some feeds\<rparr>)) = Inr bt1"
    "maybe_flush False now (sample_equity ts pv (cash b) bt1) = (new, bt')"
    using assms by (auto simp: batcher_next_def bind_r_Inr)
  have "bt_collector (first_bar b feeds (?bt\<lparr>bt_feeds := Some feeds\<rparr>)) = Some c"
    by (simp add: first_bar_def set_candidate_collector_def)
  then have "bt_collector bt1 = Some c"
    using arg_cong [OF snapshot_bar_of(1) [OF n(1), of now b], of bt_collector] by (simp del: bar_of.simps)
  then have c: "bt_collector (sample_equity ts pv (cash b) bt1) = Some c" by (simp add: sample_equity_def Let_def)
  from n(2) show ?thesis
    by (cases rule: maybe_flush_cases) (use c emit_collector_cong [OF c] in auto)
qed

lemma drained_fields [simp]:
  "co_registry (drained c) = co_registry c" "co_next_candidate_id (drained c) = co_next_candidate_id c"
  "co_context (drained c) = co_context c" "co_config (drained c) = co_config c" "co_shadows (drained c) = co_shadows c"
  by (simp_all add: drained_def)

lemma desk_ok_drained:
  assumes "desk_ok (b, c)" and "c' = c \<or> c' = drained c"
  shows "desk_ok (b, c')"
  using assms gate_ok_collector [of b c c'] by (auto simp: desk_ok_def)

lemma recorded_bar:
  assumes "recorded bt0 bars (b, c) bt out"
    and step: "batcher_next now b feeds (set_candidate_collector (Some c) bt) = Inr (new, bt')"
    and feeds: "feeds = f # fs" and "snapshot_current_bar (nf_feed f) = Inr x"
  shows "recorded bt0 (bars @ [x]) (b, pointed bt' c) bt' (out @ new)"
proof -
  obtain es where es: "stream_run es bt0 = Inr (out, set_candidate_collector (Some c) bt)"
    "\<forall>e \<in> set es. collects_soundly e \<and> reported_ids e \<subseteq> traded b" "bars_seen es = bars" "trades_seen es = map fst (b_closed_trades b)"
    using assms(1) by (auto simp: recorded_def)
  let ?es = "es @ [StreamBar now b feeds]"
  have "stream_run ?es bt0 = Inr (out @ new, bt')"
    using stream_run_append [OF es(1) stream_run_single [of "StreamBar now b feeds"]] step by simp
  moreover have "set_candidate_collector (Some (pointed bt' c)) bt' = bt'"
    using batcher_next_collector [OF step] by (cases bt') (auto simp: pointed_def set_candidate_collector_def)
  moreover have "bars_seen ?es = bars @ [x] \<and> trades_seen ?es = map fst (b_closed_trades b)"
    using es(3,4) assms(4) by (simp add: bars_seen_def trades_seen_def feeds)
  ultimately show ?thesis
    using es(2) unfolding recorded_def by (intro exI [of _ ?es]) auto
qed

lemma desk_on_bar:
  assumes "desk_ok (b, c)" and "on_bar feeds b c = Inr c'"
  shows "desk_ok (b, c') \<and> desk_moves (b, c) (b, c')"
proof -
  have "desk_moves (b, c) (b, c')"
    by (rule desk_moves_event [of b b "BarDone feeds b"]) (use assms(2) in \<open>simp_all add: plain_event_def\<close>)
  moreover have "gate_ok (b, c')"
    by (rule gate_ok_collector [of b c]) (use assms in \<open>auto simp: desk_ok_def on_bar_def bind_r_Inr split: if_splits\<close>)
  ultimately show ?thesis using assms(1) by (simp add: desk_ok_def)
qed

lemma desk_on_stop:
  assumes "desk_ok (b, c)" and "on_stop feeds b c = Inr c'"
  shows "desk_ok (b, c') \<and> desk_moves (b, c) (b, c')"
proof -
  have "t_candidate_id ` set (tracked_trades b) \<subseteq> traded b"
    by (auto simp: tracked_trades_def traded_def trades_of_def)
  then have "desk_moves (b, c) (b, c')"
    by (intro desk_moves_event [of b b "RunStopped feeds b"]) (use assms(2) in \<open>simp_all add: plain_event_def\<close>)
  moreover have "gate_ok (b, c')"
    by (rule gate_ok_collector [of b c]) (use assms in \<open>auto simp: desk_ok_def on_stop_def bind_r_Inr split: if_splits\<close>)
  ultimately show ?thesis using assms(1) by (simp add: desk_ok_def)
qed

lemma current_bar_advanced:
  "n < length bars \<Longrightarrow> snapshot_current_bar (advanced n bars) = Inr (bars ! n)"
  by (simp add: snapshot_current_bar_def advanced_lines line_at_def Let_def)

text \<open>The state of a run after n bars: one batcher, with the history of the first n bars.\<close>

definition run_ok :: "collector_config \<Rightarrow> batcher \<Rightarrow> source \<Rightarrow> nat \<Rightarrow> ('u, 'm) corrected_state \<Rightarrow> bool" where
  "run_ok config bt0 src n rs \<longleftrightarrow>
     desk_ok (cs_desk rs) \<and> (\<forall>x \<in> set (cs_cells rs). class_gated (cl_class x)) \<and> co_config (snd (cs_desk rs)) = config
     \<and> (\<exists>bt out. cs_observers rs = [Batch bt out] \<and> recorded bt0 (take n (src_bars src)) (cs_desk rs) bt out)"

definition head_at :: "source \<Rightarrow> nat \<Rightarrow> slot list \<Rightarrow> bool" where
  "head_at src n slots \<longleftrightarrow>
     (\<exists>m cs. slots = m # cs \<and> sl_data m = (src_feed src)\<lparr>nf_feed := advanced n (src_bars src)\<rparr>)"

lemma head_align: "align bar slots = Inr slots' \<Longrightarrow> head_at src n slots \<Longrightarrow> head_at src n slots'"
  by (auto simp: head_at_def align_def Let_def bind_r_Inr split: if_splits)

lemma head_advance: "head_at src n slots \<Longrightarrow> head_at src (Suc n) (advance_master slots)"
  by (auto simp: head_at_def advance_master_def advance_data_def advanced_def)

lemma lifecycle_gated:
  assumes "map_state_r (lifecycle bar slots) cs (dk, w) = Inr (cs', (dk', w'))" and "\<forall>x \<in> set cs. class_gated (cl_class x)"
  shows "desk_serves dk dk'" and "\<forall>x \<in> set cs'. class_gated (cl_class x)"
proof -
  have within: "\<forall>x \<in> set cs. class_within desk_serves (cl_class x)" using assms(2) class_gated_within by blast
  show "desk_serves dk dk'"
    using serving.cells_within [OF assms(1) within, of fst] serving.lifecycle_within by force
  have "class_gated (cl_class x) \<longrightarrow> class_gated (cl_class x')" if "lifecycle bar slots x s = Inr (x', t)" for x s x' t
    using serving.lifecycle_within [OF class_gated_within that] by auto
  then have "\<exists>x \<in> set cs. class_gated (cl_class x) \<longrightarrow> class_gated (cl_class x')" if "x' \<in> set cs'" for x'
    by (rule map_state_r_each [OF assms(1) _ that])
  then show "\<forall>x \<in> set cs'. class_gated (cl_class x)" using assms(2) by blast
qed

lemma recorded_serves:
  "recorded bt0 bars dk bt out \<Longrightarrow> desk_serves dk dk' \<Longrightarrow> desk_ok dk \<Longrightarrow> recorded bt0 bars dk' bt out"
  using recorded_moves [of bt0 bars dk bt out dk' "[]"] by (auto simp: desk_serves_def)

lemma corrected_bar_ok:
  assumes step: "corrected_bar clock (length (src_bars src)) n rs = Inr rs'" and ok: "run_ok config bt0 src n rs"
    and n: "n < length (src_bars src)" and head: "head_at src n (cs_slots rs)"
  shows "run_ok config bt0 src (Suc n) rs' \<and> (Suc n < length (src_bars src) \<longrightarrow> head_at src (Suc n) (cs_slots rs'))"
proof -
  obtain b c where dk: "cs_desk rs = (b, c)" by fastforce
  obtain bt out where obs: "cs_observers rs = [Batch bt out]" and rec: "recorded bt0 (take n (src_bars src)) (b, c) bt out"
    using ok by (auto simp: run_ok_def dk)
  let ?b0 = "set_bar_index n b"
  obtain slots where slots: "align n (cs_slots rs) = Inr slots"
    using step by (cases "align n (cs_slots rs)") (auto simp: corrected_bar_def dk Let_def)
  let ?feeds = "map sl_data slots"
  let ?b1 = "process_orders (views_of ?feeds) ?b0"
  let ?ts = "closed_since ?b0 ?b1"
  let ?c1 = "report_closed ?ts c"
  let ?bt1 = "foldl (\<lambda>bt t. batcher_notify_trade t bt) bt ?ts"
  have batch: "foldl watcher_trade (Batch bt out) ts = Batch (foldl (\<lambda>bt t. batcher_notify_trade t bt) bt ts) out" for ts and bt
    by (induction ts arbitrary: bt) simp_all
  obtain b2 c2 w cells' new bt' c4 where
    cells: "map_state_r (lifecycle n slots) (map (propagate slots) (cs_cells rs)) ((?b1, ?c1), cs_warmup_ms rs) = Inr (cells', ((b2, c2), w))"
    and nxt: "batcher_next (clock n) b2 ?feeds (set_candidate_collector (Some c2) ?bt1) = Inr (new, bt')"
    and bar: "on_bar ?feeds b2 (pointed bt' c2) = Inr c4"
    and rs': "cs_slots rs' = (if n + 1 < length (src_bars src) then advance_master slots else slots)" "cs_cells rs' = cells'"
      "cs_desk rs' = (b2, c4)" "cs_observers rs' = [Batch bt' (out @ new)]"
    using step by (auto simp: corrected_bar_def dk slots obs batch Let_def bind_r_Inr split_beta)
  obtain f fs where feeds: "?feeds = f # fs" "nf_feed f = advanced n (src_bars src)"
    using head_align [OF slots head] by (auto simp: head_at_def)
  have 0: "desk_ok (b, c)" using ok by (simp add: run_ok_def dk)
  have "book_step b (b\<lparr>b_pending := b_pending b, b_events := b_events b, b_bar_index := n, b_next_oco_group_id := b_next_oco_group_id b\<rparr>)"
    by (rule book_step.frame)
  then have "book_steps b ?b0" by (auto simp: set_bar_index_def)
  moreover have "broker_wf ?b0" using 0 by (simp add: desk_ok_def broker_wf_def ids_ok_def agrees_def set_bar_index_def)
  ultimately have 1: "desk_ok (?b0, c) \<and> desk_moves (b, c) (?b0, c)" using 0 by (intro desk_broker_ok) (simp_all add: set_bar_index_def)
  have "b_closed_trades ?b0 = b_closed_trades b" by (simp add: set_bar_index_def)
  then have rec0: "recorded bt0 (take n (src_bars src)) (?b0, c) bt out"
    using recorded_moves [OF rec, of "(?b0, c)" "[]"] 1 by simp
  have 2: "desk_ok (?b1, ?c1)" "desk_moves (?b0, c) (?b1, ?c1)" using desk_bar_ok 1 by blast+
  obtain nt where nt: "b_closed_trades ?b1 = b_closed_trades ?b0 @ nt" using desk_bar_ok 1 by blast
  then have "?ts = map fst nt" by (simp add: closed_since_def)
  then have rec1: "recorded bt0 (take n (src_bars src)) (?b1, ?c1) ?bt1 out"
    using recorded_moves [OF rec0 2(2)] nt by simp
  have "\<forall>x \<in> set (map (propagate slots) (cs_cells rs)). class_gated (cl_class x)"
    using ok by (auto simp: run_ok_def propagate_def)
  note served = lifecycle_gated [OF cells this]
  then have 3: "desk_ok (b2, c2)" "desk_moves (?b1, ?c1) (b2, c2)" using 2 by (auto simp: desk_serves_def)
  have rec2: "recorded bt0 (take n (src_bars src)) (b2, c2) ?bt1 out" using recorded_serves [OF rec1 served(1) 2(1)] .
  let ?c3 = "pointed bt' c2"
  have "?c3 = c2 \<or> ?c3 = drained c2" using batcher_next_collector [OF nxt] by (auto simp: pointed_def)
  then have 4: "desk_ok (b2, ?c3)" "co_config ?c3 = co_config c2" using desk_ok_drained [OF 3(1)] by auto
  have rec3: "recorded bt0 (take n (src_bars src) @ [src_bars src ! n]) (b2, ?c3) bt' (out @ new)"
    by (rule recorded_bar [OF rec2 nxt feeds(1)]) (simp add: feeds(2) current_bar_advanced [OF n])
  note 5 = desk_on_bar [OF 4(1) bar]
  have rec4: "recorded bt0 (take (Suc n) (src_bars src)) (b2, c4) bt' (out @ new)"
    using recorded_moves [OF rec3, of "(b2, c4)" "[]"] 5 n by (simp add: take_Suc_conv_app_nth)
  have "co_config c4 = config"
    using ok desk_moves_config [OF 2(2)] desk_moves_config [OF 3(2)] desk_moves_config [OF conjunct2 [OF 5]] 4(2)
    by (simp add: run_ok_def dk)
  then have "run_ok config bt0 src (Suc n) rs'"
    using 5 served(2) rec4 by (simp add: run_ok_def rs')
  then show ?thesis using head_advance [OF head_align [OF slots head]] by (simp add: rs'(1))
qed

lemma recorded_start:
  assumes "recorded bt0 bars dk bt out"
  shows "recorded bt0 bars dk (batcher_start now (set_candidate_collector c bt)) out"
proof -
  obtain es where es: "stream_run es bt0 = Inr (out, set_candidate_collector (Some (snd dk)) bt)"
    "\<forall>e \<in> set es. collects_soundly e \<and> reported_ids e \<subseteq> traded (fst dk)"
    "bars_seen es = bars" "trades_seen es = map fst (b_closed_trades (fst dk))"
    using assms by (auto simp: recorded_def)
  have "stream_run [StreamStart now] (set_candidate_collector (Some (snd dk)) bt)
      = Inr ([], set_candidate_collector (Some (snd dk)) (batcher_start now (set_candidate_collector c bt)))"
    by (rule stream_run_single) simp
  from stream_run_append [OF es(1) this]
  have "stream_run (es @ [StreamStart now]) bt0
      = Inr (out, set_candidate_collector (Some (snd dk)) (batcher_start now (set_candidate_collector c bt)))" by simp
  moreover have "bars_seen [StreamStart now] = [] \<and> trades_seen [StreamStart now] = []"
    by (simp add: bars_seen_def trades_seen_def)
  ultimately show ?thesis using es(2-4) unfolding recorded_def by (intro exI [of _ "es @ [StreamStart now]"]) simp
qed

lemma corrected_prepare_ok:
  assumes prep: "corrected_prepare now (map preload_source (src # srcs)) e = Inr rs"
    and gated: "\<forall>x \<in> set (ce_cells e). class_gated (cl_class x)" and obs: "ce_observers e = [Batch (new_batcher cfg) []]"
    and coll: "ce_collector e = set_inference_context ctx (new_collector config)"
    and broker: "ce_broker e = new_broker base cash0 fx"
  defines "c0 \<equiv> fresh_collector config ctx (map preload_source (src # srcs))"
  shows "run_ok config (set_candidate_collector (Some c0) (new_batcher cfg)) src 0 rs \<and> head_at src 0 (cs_slots rs)"
proof -
  let ?feeds = "map preload_source (src # srcs)" and ?b0 = "notifying (new_broker base cash0 fx)"
  let ?bt0 = "set_candidate_collector (Some c0) (new_batcher cfg)"
  have c0: "collector_init ?feeds (ce_collector e) = c0" by (simp add: c0_def coll fresh_collector_def)
  have wf: "broker_wf ?b0" "\<not> b_live ?b0"
    using new_broker_wf [of base cash0 fx] new_broker_backtest [of base cash0 fx]
    by (simp_all add: notifying_def set_trade_notify_def set_order_notify_def broker_wf_def ids_ok_def agrees_def)
  have fresh: "b_all_orders ?b0 = []" "b_open_trades ?b0 = []" "b_closed_trades ?b0 = []"
    by (simp_all add: notifying_def set_trade_notify_def set_order_notify_def new_broker_def)
  have ok0: "desk_ok (?b0, c0)" unfolding c0_def by (rule fresh_desk_ok [OF fresh wf])
  obtain cells b c where cells: "map_state_r (init_cell ?feeds) (ce_cells e) (?b0, c0) = Inr (cells, (b, c))"
    and rs: "cs_slots rs = map new_slot ?feeds" "cs_cells rs = cells" "cs_desk rs = (b, c)"
      "cs_observers rs = [Batch (batcher_start now (set_candidate_collector (Some c) (new_batcher cfg))) []]"
    using prep unfolding corrected_prepare_def c0 notifying_def [symmetric] broker obs Let_def
    by (auto simp: bind_r_Inr split_beta)
  have within: "\<forall>x \<in> set (ce_cells e). class_within desk_serves (cl_class x)" using gated class_gated_within by blast
  have served: "desk_serves (?b0, c0) (b, c)"
    using serving.cells_within [OF cells within, of id] serving.init_cell_within by force
  have "class_gated (cl_class x) \<longrightarrow> class_gated (cl_class x')" if "init_cell ?feeds x s = Inr (x', t)" for x s x' t
    using serving.init_cell_within [OF class_gated_within that] by auto
  then have "\<exists>x \<in> set (ce_cells e). class_gated (cl_class x) \<longrightarrow> class_gated (cl_class x')" if "x' \<in> set cells" for x'
    by (rule map_state_r_each [OF cells _ that])
  then have still_gated: "\<forall>x \<in> set cells. class_gated (cl_class x)" using gated by blast
  have "recorded ?bt0 [] (?b0, c0) (new_batcher cfg) []"
    unfolding recorded_def by (intro exI [of _ "[]"]) (simp add: stream_run_nil bars_seen_def trades_seen_def fresh)
  then have "recorded ?bt0 [] (b, c) (new_batcher cfg) []" by (rule recorded_serves [OF _ served ok0])
  then have rec: "recorded ?bt0 [] (b, c) (batcher_start now (set_candidate_collector (Some c) (new_batcher cfg))) []"
    by (rule recorded_start)
  have moved: "desk_ok (b, c)" "desk_moves (?b0, c0) (b, c)" using served ok0 by (auto simp: desk_serves_def)
  have "co_config c0 = config"
    by (simp add: c0_def fresh_collector_def collector_init_def set_inference_context_def new_collector_def)
  then have "co_config c = config" using desk_moves_config [OF moved(2)] by simp
  moreover have "head_at src 0 (map new_slot ?feeds)"
    by (simp add: head_at_def new_slot_def preload_source_def advanced_def)
  ultimately show ?thesis using moved(1) still_gated rec by (simp add: run_ok_def rs)
qed

lemma corrected_loop_ok:
  assumes "fold_r (corrected_bar clock (length (src_bars src))) [0..<n] rs = Inr rs'" and "n \<le> length (src_bars src)"
    and "run_ok config bt0 src 0 rs" and "head_at src 0 (cs_slots rs)"
  shows "run_ok config bt0 src n rs' \<and> (n < length (src_bars src) \<longrightarrow> head_at src n (cs_slots rs'))"
  using assms(1,2)
proof (induction n arbitrary: rs')
  case 0
  then show ?case using assms(3,4) by simp
next
  case (Suc n)
  obtain rs1 where r: "fold_r (corrected_bar clock (length (src_bars src))) [0..<n] rs = Inr rs1"
    "corrected_bar clock (length (src_bars src)) n rs1 = Inr rs'"
    using Suc.prems(1) by (auto simp: fold_r_append bind_r_Inr)
  then show ?case using corrected_bar_ok [OF r(2)] Suc.IH [OF r(1)] Suc.prems(2) by auto
qed

text \<open>The end of a run: what the snapshots, the book and the collector hold.\<close>

definition settled :: "batcher \<Rightarrow> source \<Rightarrow> broker \<Rightarrow> collector \<Rightarrow> batcher \<Rightarrow> (increment \<times> nfeed list) list \<Rightarrow> bool" where
  "settled bt0 src b c bt out \<longleftrightarrow> desk_ok (b, c) \<and> co_shadows c = [] \<and> co_candidates c = [] \<and> co_outcomes c = []
     \<and> bt_bars bt = [] \<and> bt_trades bt = [] \<and> out \<noteq> [] \<and> in_is_final (fst (last out)) \<and> bt_collector bt = Some c
     \<and> (\<exists>es. stream_run es bt0 = Inr (out, bt) \<and> (\<forall>e \<in> set es. collects_soundly e \<and> reported_ids e \<subseteq> traded b)
          \<and> bars_seen es = src_bars src \<and> trades_seen es = map fst (b_closed_trades b))"

lemma corrected_finish_ok:
  assumes fin: "corrected_finish rs e = Inr e'" and ok: "run_ok config bt0 src (length (src_bars src)) rs"
    and on: "rc_state (cc_corrective config) \<noteq> VDisabled"
  shows "\<exists>bt out. ce_observers e' = [Batch bt out] \<and> settled bt0 src (ce_broker e') (ce_collector e') bt out"
proof -
  obtain b c where dk: "cs_desk rs = (b, c)" by fastforce
  obtain bt out where obs: "cs_observers rs = [Batch bt out]" and rec: "recorded bt0 (src_bars src) (b, c) bt out"
    using ok by (auto simp: run_ok_def dk)
  let ?feeds = "map sl_data (cs_slots rs)"
  obtain c1 cells b2 c2 where stop: "on_stop ?feeds b c = Inr c1"
    and cells: "map_state_r (\<lambda>x dk. call_hook (cls_stop (cl_class x)) ?feeds x dk) (cs_cells rs) (b, c1) = Inr (cells, (b2, c2))"
    and ended: "ce_observers e' = [Batch (snd (batcher_stop (set_candidate_collector (Some c2) bt)))
        (out @ fst (batcher_stop (set_candidate_collector (Some c2) bt)))]" "ce_broker e' = b2"
      "ce_collector e' = pointed (snd (batcher_stop (set_candidate_collector (Some c2) bt))) c2"
    using fin by (auto simp: corrected_finish_def dk obs Let_def bind_r_Inr split_beta)
  obtain new bt' where last: "batcher_stop (set_candidate_collector (Some c2) bt) = (new, bt')" by fastforce
  have e': "ce_observers e' = [Batch bt' (out @ new)]" "ce_broker e' = b2" "ce_collector e' = pointed bt' c2"
    using ended by (simp_all add: last)
  have gated: "\<forall>x \<in> set (cs_cells rs). class_gated (cl_class x)" and config: "co_config c = config" and ok0: "desk_ok (b, c)"
    using ok by (auto simp: run_ok_def dk)
  have "(b, c1) = (b2, c2) \<and> list_all2 (\<lambda>x y. True) (cs_cells rs) cells"
  proof (rule map_state_r_invariant [OF cells])
    fix x dk x' dk'
    assume "x \<in> set (cs_cells rs)" "call_hook (cls_stop (cl_class x)) ?feeds x dk = Inr (x', dk')" "(b, c1) = dk"
    moreover from this(1) have "hook_within (=) (cls_stop (cl_class x))" using gated by (simp add: class_gated_def)
    ultimately show "(b, c1) = dk' \<and> True" by (auto simp: call_hook_def hook_within_def bind_r_Inr)
  qed simp
  then have same: "b2 = b" "c2 = c1" by simp_all
  note 1 = desk_on_stop [OF ok0 stop]
  have "is_enabled c" using on config by (simp add: is_enabled_def)
  then have quiet: "co_shadows c1 = []" using on_stop_paper [OF stop] by blast
  have "recorded bt0 (src_bars src) (b, c1) bt out"
    using recorded_moves [OF rec, of "(b, c1)" "[]"] 1 by simp
  then obtain es where es: "stream_run es bt0 = Inr (out, set_candidate_collector (Some c1) bt)"
    "\<forall>e \<in> set es. collects_soundly e \<and> reported_ids e \<subseteq> traded b" "bars_seen es = src_bars src"
    "trades_seen es = map fst (b_closed_trades b)"
    by (auto simp: recorded_def)
  have run: "stream_run (es @ [StreamStop]) bt0 = Inr (out @ new, bt')"
    using stream_run_append [OF es(1) stream_run_single [of StreamStop]] last by (simp add: same)
  obtain x where x: "emit_snapshot True (set_candidate_collector (Some c1) bt) = (x, bt')" "new = [x]"
    using last by (auto simp: batcher_stop_def same split: prod.splits)
  have coll: "bt_collector bt' = Some (drained c1)" by (rule emit_drains [OF x(1)])
  have "desk_ok (b, drained c1)" using desk_ok_drained [of b c1] 1 by blast
  moreover have "bars_seen (es @ [StreamStop]) = src_bars src \<and> trades_seen (es @ [StreamStop]) = map fst (b_closed_trades b)"
    using es(3,4) by (simp add: bars_seen_def trades_seen_def)
  moreover have "\<forall>e \<in> set (es @ [StreamStop]). collects_soundly e \<and> reported_ids e \<subseteq> traded b" using es(2) by simp
  moreover have "bt_bars bt' = [] \<and> bt_trades bt' = [] \<and> in_is_final (fst x)" using emit_fields [OF x(1)] by auto
  ultimately have ended: "desk_ok (b, drained c1)" "bt_bars bt' = []" "bt_trades bt' = []" "in_is_final (fst x)"
    "\<exists>es'. stream_run es' bt0 = Inr (out @ new, bt') \<and> (\<forall>e \<in> set es'. collects_soundly e \<and> reported_ids e \<subseteq> traded b)
       \<and> bars_seen es' = src_bars src \<and> trades_seen es' = map fst (b_closed_trades b)"
    using run by blast+
  have "co_shadows (drained c1) = [] \<and> co_candidates (drained c1) = [] \<and> co_outcomes (drained c1) = []"
    using quiet by (simp add: drained_def)
  then have "settled bt0 src b (drained c1) bt' (out @ new)"
    unfolding settled_def using ended coll x(2) by simp
  then show ?thesis using coll by (simp add: e' same pointed_def)
qed

lemma corrected_run_stages:
  assumes "corrected_run opts clock e = Inr e'" and "ce_sources e = src # srcs" and "src_bars src \<noteq> []"
  obtains rs rs' where
    "corrected_prepare (clock 0) (map preload_source (src # srcs)) e = Inr rs"
    "fold_r (corrected_bar clock (length (src_bars src))) [0..<length (src_bars src)] rs = Inr rs'"
    "corrected_finish rs' e = Inr e'"
proof -
  have n: "feed_size (nf_feed (preload_source src)) = length (src_bars src)"
    by (simp add: preload_source_def feed_of_bars_def feed_size_def line_size_def Let_def)
  show thesis
    using assms that by (auto simp: corrected_run_def n Let_def bind_r_Inr split: if_splits option.splits)
qed

lemma corrected_run_settles:
  assumes run: "corrected_run opts clock e = Inr e'" and src: "ce_sources e = src # srcs" "src_bars src \<noteq> []"
    and gated: "\<forall>x \<in> set (ce_cells e). class_gated (cl_class x)" and obs: "ce_observers e = [Batch (new_batcher cfg) []]"
    and coll: "ce_collector e = set_inference_context ctx (new_collector config)"
    and on: "rc_state (cc_corrective config) \<noteq> VDisabled" and broker: "ce_broker e = new_broker base cash0 fx"
  shows "\<exists>bt out. ce_observers e' = [Batch bt out]
    \<and> settled (set_candidate_collector (Some (fresh_collector config ctx (map preload_source (src # srcs)))) (new_batcher cfg))
        src (ce_broker e') (ce_collector e') bt out"
proof -
  obtain rs rs' where r: "corrected_prepare (clock 0) (map preload_source (src # srcs)) e = Inr rs"
    "fold_r (corrected_bar clock (length (src_bars src))) [0..<length (src_bars src)] rs = Inr rs'"
    "corrected_finish rs' e = Inr e'"
    using corrected_run_stages [OF run src] by blast
  note start = corrected_prepare_ok [OF r(1) gated obs coll broker]
  show ?thesis
    using corrected_loop_ok [OF r(2) le_refl conjunct1 [OF start] conjunct2 [OF start]]
    by (intro corrected_finish_ok [OF r(3) _ on]) blast
qed


text \<open>A run of one bar in which the gate rejects the only order.\<close>

definition desk_buyer_class :: "(unit, desk) strategy_class" where
  "desk_buyer_class = idle_class\<lparr>cls_nextstart := (\<lambda>feeds (s, u, dk).
     if feeds = [] then Inr (s, u, dk)
     else bind_r (desk_place feeds Buy 2 0 None Market 0 dk) (\<lambda>(oid, dk'). Inr (s, u, dk')))\<rparr>"

definition one_bar_source :: source where
  "one_bar_source = \<lparr>src_feed = \<lparr>nf_name = [], nf_tfc = default_tfc, nf_feed = empty_feed\<rparr>, src_bars = [minute_bar 0 100]\<rparr>"

definition corrected_demo :: "(unit, unit) corrected_engine" where
  "corrected_demo = \<lparr>ce_sources = [one_bar_source], ce_cells = [new_cell desk_buyer_class ()], ce_analyzers = [],
     ce_observers = [Batch (new_batcher default_batcher_config) []], ce_broker = new_broker USD 10000 None,
     ce_collector = set_inference_context (Some demo_gate_context) (new_collector demo_gate_config),
     ce_warmup_end_ms = 0, ce_final_delivered = []\<rparr>"

abbreviation one_bar :: nfeed where
  "one_bar \<equiv> preload_source one_bar_source"

abbreviation fresh_broker :: broker where
  "fresh_broker \<equiv> notifying (new_broker USD 10000 None)"

abbreviation asked_collector :: collector where
  "asked_collector \<equiv> fresh_collector demo_gate_config (Some demo_gate_context) [one_bar]"

lemma one_bar_facts:
  "line_at (fd_close (nf_feed one_bar)) 0 = Inr 101" "line_at (fd_datetime (nf_feed one_bar)) 0 = Inr 0"
  "\<exists>q. views_of [one_bar] = [Some q]" "snapshot_current_bar (nf_feed one_bar) = Inr (minute_bar 0 100)"
  by (simp_all add: one_bar_source_def preload_source_def minute_bar_def views_of_def feed_view_def feed_of_bars_def
      read_quote_def line_at_def feed_size_def feed_buflen_def line_size_def line_buflen_def snapshot_current_bar_def Let_def)

lemma one_bar_policy: "run_inference_policy asked_collector fs 2 = (1 / 4, VReject, 0)"
proof -
  have "\<not> list_ex (\<lambda>x. \<not> isfinite x) (map Fin fs)" by (induction fs) simp_all
  then show ?thesis
    by (simp add: run_inference_policy_def fresh_collector_fields demo_gate_context_def infer_def run_model_def
        calibrate_def from_isotonic_def apply_isotonic_def apply_policy_def apply_gate_def new_sizing_policy_def)
qed

lemma one_bar_asked:
  "\<exists>s c. on_pre_order Buy 2 0 [one_bar] (set_bar_index 0 fresh_broker) asked_collector
     = Inr (\<lparr>por_candidate_id = 1, por_final_size = 0, por_rejected = True\<rparr>, c) \<and> is_enabled c
     \<and> map ca_verdict (co_candidates c) = [VReject] \<and> co_outcomes c = []
     \<and> co_shadows c = [s] \<and> sw_horizon_bars s = 50 \<and> sw_bars_held s = 0 \<and> sw_data_index s = 0"
proof -
  obtain q where q: "views_of [one_bar] = [Some q]" using one_bar_facts(3) by blast
  have "\<exists>fs. build_features Buy 2 0 [one_bar] (set_bar_index 0 fresh_broker) (co_builder asked_collector) = Inr fs"
    by (simp add: build_features_def one_bar_facts q notifying_def set_trade_notify_def set_order_notify_def set_bar_index_def
        new_broker_def portfolio_value_def Let_def)
  then obtain fs where fs: "build_features Buy 2 0 [one_bar] (set_bar_index 0 fresh_broker) (co_builder asked_collector) = Inr fs" by blast
  have d: "is_enabled asked_collector" "\<not> reducing Buy (position_of 0 (set_bar_index 0 fresh_broker))"
    "rc_state (cc_corrective (co_config asked_collector)) = VPass" "Option.is_none (co_context asked_collector) = False"
    by (simp_all add: fresh_collector_def demo_gate_config_def is_enabled_def set_inference_context_def collector_init_def
        new_collector_def reducing_def is_short_def eps_def empty_position_def position_of_def new_broker_def notifying_def
        set_trade_notify_def set_order_notify_def set_bar_index_def)
  show ?thesis
    by (simp add: on_pre_order_def snapshot_of_def d fs one_bar_facts one_bar_policy decided_def remember_def add_shadow_def
        shadow_of_def fresh_collector_fields Let_def)
       (simp add: fresh_collector_def is_enabled_def set_inference_context_def collector_init_def new_collector_def demo_gate_config_def)
qed


definition refused :: broker where
  "refused = answered \<lparr>por_candidate_id = 1, por_final_size = 0, por_rejected = True\<rparr> (set_bar_index 0 fresh_broker)"

lemma refused_facts:
  "b_open_trades refused = []" "b_closed_trades refused = []" "b_all_orders refused = []" "b_initial_cash refused = 10000"
  "portfolio_value [Some q] refused = Inr 10000"
  by (simp_all add: refused_def answered_def set_pre_order_hook_def notifying_def set_trade_notify_def set_order_notify_def set_bar_index_def
      new_broker_def portfolio_value_def cash_def cash_of_def)

lemma one_bar_on_bar:
  assumes "is_enabled c" and "co_shadows c = [s]" and "sw_horizon_bars s = 50" and "sw_bars_held s = 0"
  shows "\<exists>c'. on_bar [one_bar] refused c = Inr c' \<and> is_enabled c' \<and> co_shadows c' = [hold s]"
proof -
  obtain q where q: "views_of [one_bar] = [Some q]" using one_bar_facts(3) by blast
  have "\<not> horizon_reached (hold s)" using assms(3,4) by (simp add: horizon_reached_def)
  then show ?thesis using assms(1,2) by (simp add: on_bar_def q refused_facts is_enabled_def)
qed

lemma one_bar_on_stop:
  assumes "is_enabled c" and "co_shadows c = [s]" and "sw_data_index s = 0"
  shows "\<exists>c'. on_stop [one_bar] refused c = Inr c'"
  using assms by (simp add: on_stop_def flush_censored_def censor_shadow_def exit_price_at_def bar_timestamp_ns_def
      one_bar_facts tracked_trades_def refused_facts Let_def)

lemma one_bar_place:
  assumes "on_pre_order Buy 2 0 [one_bar] (set_bar_index 0 fresh_broker) asked_collector
     = Inr (\<lparr>por_candidate_id = 1, por_final_size = 0, por_rejected = True\<rparr>, c)"
  shows "desk_place [one_bar] Buy 2 0 None Market 0 (set_bar_index 0 fresh_broker, asked_collector) = Inr (0, (refused, c))"
  by (simp add: desk_place_def gated_def assms submit_order_def run_pre_order_hook_def refused_def answered_def set_pre_order_hook_def)

lemma one_bar_sends:
  "\<exists>x bt. batcher_next 0 refused [one_bar] (set_candidate_collector (Some c) (batcher_start 0 (new_batcher default_batcher_config)))
     = Inr ([x], bt) \<and> in_candidates (fst x) = co_candidates c"
proof -
  obtain q where q: "views_of [one_bar] = [Some q]" using one_bar_facts(3) by blast
  show ?thesis
    by (simp add: batcher_next_def push_bar_def equity_time_def one_bar_facts q refused_facts first_bar_def sample_equity_def
       maybe_flush_def emit_snapshot_def set_candidate_collector_def batcher_start_def new_batcher_def default_batcher_config_def
       drain_candidates_def drain_outcomes_def Let_def)
qed

lemma no_orders: "process_orders views (set_bar_index 0 fresh_broker) = set_bar_index 0 fresh_broker"
  by (simp add: process_orders_def oco_sweep_def set_bar_index_def notifying_def set_trade_notify_def set_order_notify_def new_broker_def)


abbreviation opened_batcher :: batcher where
  "opened_batcher \<equiv> set_candidate_collector (Some asked_collector) (batcher_start 0 (new_batcher default_batcher_config))"

definition waiting :: "(unit, desk) cell \<Rightarrow> bool" where
  "waiting x \<longleftrightarrow> cl_class x = desk_buyer_class \<and> \<not> cl_entered x \<and> minimum_period 0 (cl_base x) = 1"

lemma demo_prepared:
  "\<exists>x. waiting x \<and> corrected_prepare 0 [one_bar] corrected_demo
     = Inr \<lparr>cs_slots = [new_slot one_bar], cs_cells = [x], cs_desk = (fresh_broker, asked_collector), cs_warmup_ms = 0,
            cs_analyzers = [], cs_observers = [Batch opened_batcher []]\<rparr>"
proof -
  let ?s = "ensure_params_initialized (cls_default_params desk_buyer_class)
      (set_data_feeds [0..<length [one_bar]] [one_bar] (set_broker True new_strategy))"
  have periods: "minimum_period 0 ?s = 1"
    by (simp add: minimum_period_def ensure_params_initialized_def set_data_feeds_def set_broker_def
        rebuild_data_lookup_def set_params_def new_strategy_def Let_def)
  then have enough: "warmup_short [one_bar] ?s = None"
    by (simp add: warmup_short_def one_bar_source_def preload_source_def feed_of_bars_def feed_size_def line_size_def Let_def)
  have "collector_init [one_bar] (ce_collector corrected_demo) = asked_collector"
    by (simp add: corrected_demo_def fresh_collector_def)
  then show ?thesis
    using periods enough
    by (simp add: corrected_prepare_def notifying_def waiting_def)
       (simp add: corrected_demo_def init_cell_def new_cell_def call_hook_def idle_class_def desk_buyer_class_def idle_hook_def)
qed

lemma demo_first_bar:
  assumes "waiting x"
    and "desk_place [one_bar] Buy 2 0 None Market 0 (set_bar_index 0 fresh_broker, asked_collector) = Inr (0, (refused, c))"
    and "batcher_next 0 refused [one_bar] (set_candidate_collector (Some c) opened_batcher) = Inr ([y], bt)"
    and "on_bar [one_bar] refused (pointed bt c) = Inr c1"
  shows "\<exists>x' w slot. cl_class x' = desk_buyer_class \<and> sl_data slot = one_bar
     \<and> corrected_bar (\<lambda>bar. 0) 1 0 \<lparr>cs_slots = [new_slot one_bar], cs_cells = [x], cs_desk = (fresh_broker, asked_collector),
            cs_warmup_ms = 0, cs_analyzers = [], cs_observers = [Batch opened_batcher []]\<rparr>
       = Inr \<lparr>cs_slots = [slot], cs_cells = [x'], cs_desk = (refused, c1), cs_warmup_ms = w, cs_analyzers = [],
              cs_observers = [Batch bt [y]]\<rparr>"
proof -
  obtain slot where aligned: "align 0 [new_slot one_bar] = Inr [slot]"
    and feed: "sl_data slot = one_bar" and one: "sl_delivered slot = 1"
    by (simp add: align_def new_slot_def)
  have ready: "all_ready [slot] (cl_base (propagate [slot] x))" "cl_class (propagate [slot] x) = desk_buyer_class"
    "\<not> cl_entered (propagate [slot] x)"
    using assms(1) one by (simp_all add: waiting_def all_ready_def propagate_def set_bars_delivered_def set_feed_advanced_def minimum_period_def split: if_splits)
  let ?x = "record_call 0 Nextstart [slot] ((propagate [slot] x)\<lparr>cl_entered := True\<rparr>)"
  have x: "cl_class ?x = desk_buyer_class" using ready(2) by (simp add: record_call_def)
  have hook: "call_hook (cls_nextstart desk_buyer_class) [one_bar] ?x (set_bar_index 0 fresh_broker, asked_collector)
      = Inr (?x, (refused, c))"
    by (simp add: call_hook_def desk_buyer_class_def assms(2))
  have life: "lifecycle 0 [slot] (propagate [slot] x) ((set_bar_index 0 fresh_broker, asked_collector), 0)
      = Inr (?x, ((refused, c), warmup_stamp 0 [slot] 0))"
    using ready by (simp add: lifecycle_def feed hook)
  have "corrected_bar (\<lambda>bar. 0) 1 0 \<lparr>cs_slots = [new_slot one_bar], cs_cells = [x], cs_desk = (fresh_broker, asked_collector),
            cs_warmup_ms = 0, cs_analyzers = [], cs_observers = [Batch opened_batcher []]\<rparr>
       = Inr \<lparr>cs_slots = [slot], cs_cells = [?x], cs_desk = (refused, c1), cs_warmup_ms = warmup_stamp 0 [slot] 0, cs_analyzers = [],
              cs_observers = [Batch bt [y]]\<rparr>"
    by (simp add: corrected_bar_def aligned feed no_orders closed_since_def report_closed_def life assms(3,4) del: attached_simps)
  then show ?thesis using x feed by blast
qed


lemma corrected_demo_returns:
  "\<exists>e' bt y z. corrected_run \<lparr>ro_runonce = False, ro_preload = True\<rparr> (\<lambda>bar. 0) corrected_demo = Inr e'
     \<and> ce_observers e' = [Batch bt [y, z]] \<and> map ca_verdict (in_candidates (fst y)) = [VReject]"
proof -
  obtain s c where asked: "on_pre_order Buy 2 0 [one_bar] (set_bar_index 0 fresh_broker) asked_collector
      = Inr (\<lparr>por_candidate_id = 1, por_final_size = 0, por_rejected = True\<rparr>, c)"
    "is_enabled c" "map ca_verdict (co_candidates c) = [VReject]"
    "co_shadows c = [s]" "sw_horizon_bars s = 50" "sw_bars_held s = 0" "sw_data_index s = 0"
    using one_bar_asked by (elim exE conjE)
  obtain y bt where sent: "batcher_next 0 refused [one_bar]
      (set_candidate_collector (Some c) (batcher_start 0 (new_batcher default_batcher_config))) = Inr ([y], bt)"
    "in_candidates (fst y) = co_candidates c"
    using one_bar_sends [of c] by (elim exE conjE)
  then have "batcher_next 0 refused [one_bar] (set_candidate_collector (Some c) opened_batcher) = Inr ([y], bt)" by simp
  note step = demo_first_bar [OF _ one_bar_place [OF asked(1)] this]
  have same: "is_enabled (pointed bt c)" "co_shadows (pointed bt c) = [s]"
    using batcher_next_collector [OF sent(1)] asked(2,4) by (auto simp: pointed_def is_enabled_def)
  obtain c1 where bar: "on_bar [one_bar] refused (pointed bt c) = Inr c1" "is_enabled c1" "co_shadows c1 = [hold s]"
    using one_bar_on_bar [OF same asked(5,6)] by (elim exE conjE)
  have "sw_data_index (hold s) = 0" using asked(7) by (simp add: hold_def)
  then obtain c2 where stop: "on_stop [one_bar] refused c1 = Inr c2" using one_bar_on_stop [OF bar(2,3)] by blast
  obtain x where x: "waiting x" "corrected_prepare 0 [one_bar] corrected_demo
     = Inr \<lparr>cs_slots = [new_slot one_bar], cs_cells = [x], cs_desk = (fresh_broker, asked_collector), cs_warmup_ms = 0,
            cs_analyzers = [], cs_observers = [Batch opened_batcher []]\<rparr>"
    using demo_prepared by (elim exE conjE)
  obtain x' w slot where x': "cl_class x' = desk_buyer_class" "sl_data slot = one_bar"
    "corrected_bar (\<lambda>bar. 0) 1 0 \<lparr>cs_slots = [new_slot one_bar], cs_cells = [x], cs_desk = (fresh_broker, asked_collector),
            cs_warmup_ms = 0, cs_analyzers = [], cs_observers = [Batch opened_batcher [] :: unit watcher]\<rparr>
       = Inr \<lparr>cs_slots = [slot], cs_cells = [x'], cs_desk = (refused, c1), cs_warmup_ms = w, cs_analyzers = [],
              cs_observers = [Batch bt [y]]\<rparr>"
    using step [OF x(1) bar(1)] by (elim exE conjE)
  obtain e' bt' z where e': "corrected_finish \<lparr>cs_slots = [slot], cs_cells = [x'], cs_desk = (refused, c1), cs_warmup_ms = w,
      cs_analyzers = [], cs_observers = [Batch bt [y]]\<rparr> corrected_demo = Inr e'" "ce_observers e' = [Batch bt' [y, z]]"
    using stop by (simp add: corrected_finish_def x'(1,2) call_hook_def desk_buyer_class_def idle_class_def idle_hook_def
        batcher_stop_def split_beta)
  have "feed_size (nf_feed one_bar) = 1"
    by (simp add: one_bar_source_def preload_source_def feed_of_bars_def feed_size_def line_size_def Let_def)
  moreover have "ce_sources corrected_demo = [one_bar_source]" by (simp add: corrected_demo_def)
  ultimately have "corrected_run \<lparr>ro_runonce = False, ro_preload = True\<rparr> (\<lambda>bar. 0) corrected_demo = Inr e'"
    using x(2) x'(3) e'(1) by (simp add: corrected_run_def finer_context_def Let_def)
  then show ?thesis using e'(2) asked(3) sent(2)
    by (intro exI [of _ e'] exI [of _ bt'] exI [of _ y] exI [of _ z]) simp
qed

lemma desk_buyer_gated: "class_gated desk_buyer_class"
proof -
  have idle: "hook_gated idle_hook" "hook_within (=) idle_hook"
    by (auto simp: hook_gated_def hook_within_def idle_hook_def desk_client_def intro!: exI [of _ "[]"])
  have "desk_client feeds dk dk'" if "desk_place feeds Buy 2 0 None Market 0 dk = Inr (k, dk')" "feeds \<noteq> []" for feeds dk k dk'
    unfolding desk_client_def by (intro exI [of _ "[Place Buy 2 0 None Market 0]"]) (use that in simp)
  moreover have "desk_client feeds dk dk" for feeds dk
    unfolding desk_client_def by (intro exI [of _ "[]"]) simp
  ultimately have "hook_gated (cls_nextstart desk_buyer_class)"
    by (auto simp: desk_buyer_class_def hook_gated_def bind_r_Inr)
  then show ?thesis
    using idle by (simp add: class_gated_def desk_buyer_class_def idle_class_def)
qed



end
